(* ===== verification/Prelude.thy ===== *)
theory Prelude
  imports Main "HOL-Library.Word" "HOL-Library.Sublist"
begin

text \<open>
  Shared vocabulary of the development: results that carry an error, the functions of Go's
  \<^verbatim>\<open>strings\<close> package the sources call, and the generic list facts the component
  theories use. A Go string is a byte sequence, so it is a \<open>char list\<close>.
\<close>

named_theorems go_strings \<open>defining equations of the string functions\<close>

section \<open>Results\<close>

text \<open>A Go pair of a value and an error is a sum: \<open>Inl\<close> the error, \<open>Inr\<close> the value.\<close>

definition bind_res :: "'e + 'a \<Rightarrow> ('a \<Rightarrow> 'e + 'b) \<Rightarrow> 'e + 'b" where
  "bind_res r f = (case r of Inl e \<Rightarrow> Inl e | Inr x \<Rightarrow> f x)"

lemma bind_res_simps [simp]:
  "bind_res (Inl e) f = Inl e"
  "bind_res (Inr x) f = f x"
  by (simp_all add: bind_res_def)

lemma bind_res_eq_Inr [simp]: "bind_res r f = Inr y \<longleftrightarrow> (\<exists>x. r = Inr x \<and> f x = Inr y)"
  by (cases r) simp_all

lemma bind_res_cong [fundef_cong]:
  "r = r' \<Longrightarrow> (\<And>x. r' = Inr x \<Longrightarrow> f x = g x) \<Longrightarrow> bind_res r f = bind_res r' g"
  by (cases r') simp_all

text \<open>A check that returns early, and an optional value that does.\<close>

definition require :: "bool \<Rightarrow> 'e \<Rightarrow> 'e + unit" where
  "require c e = (if c then Inr () else Inl e)"

definition from_option :: "'e \<Rightarrow> 'a option \<Rightarrow> 'e + 'a" where
  "from_option e x = (case x of None \<Rightarrow> Inl e | Some v \<Rightarrow> Inr v)"

definition map_error :: "('e \<Rightarrow> 'f) \<Rightarrow> 'e + 'a \<Rightarrow> 'f + 'a" where
  "map_error f r = (case r of Inl e \<Rightarrow> Inl (f e) | Inr x \<Rightarrow> Inr x)"

lemma map_error_eq [simp]:
  "map_error f r = Inr x \<longleftrightarrow> r = Inr x" "map_error f r = Inl e \<longleftrightarrow> (\<exists>e'. r = Inl e' \<and> e = f e')"
  by (auto simp: map_error_def split: sum.splits)

lemma require_eq [simp]:
  "require c e = Inr u \<longleftrightarrow> c" "require c e = Inl e' \<longleftrightarrow> \<not> c \<and> e' = e"
  by (auto simp: require_def)

lemma from_option_eq [simp]:
  "from_option e x = Inr v \<longleftrightarrow> x = Some v" "from_option e x = Inl e' \<longleftrightarrow> x = None \<and> e' = e"
  by (auto simp: from_option_def split: option.splits)

lemma bind_res_eq_Inl [simp]:
  "bind_res r f = Inl e \<longleftrightarrow> r = Inl e \<or> (\<exists>x. r = Inr x \<and> f x = Inl e)"
  by (cases r) simp_all

section \<open>Go's strings package\<close>

text \<open>\<^verbatim>\<open>strings.Split\<close> with a one-byte separator: always at least one part.\<close>

fun split_on :: "char \<Rightarrow> string \<Rightarrow> string list" where
  "split_on c [] = [[]]"
| "split_on c (x # xs) =
     (if x = c then [] # split_on c xs
      else (x # hd (split_on c xs)) # tl (split_on c xs))"

text \<open>\<^verbatim>\<open>strings.Join\<close> with a one-byte separator.\<close>

fun join_on :: "char \<Rightarrow> string list \<Rightarrow> string" where
  "join_on c [] = []"
| "join_on c [p] = p"
| "join_on c (p # ps) = p @ c # join_on c ps"

text \<open>\<^verbatim>\<open>strings.Index\<close>: the first position of a substring, \<open>None\<close> for -1.\<close>

fun index_of :: "'a list \<Rightarrow> 'a list \<Rightarrow> nat option" where
  "index_of [] sub = (if sub = [] then Some 0 else None)"
| "index_of (x # xs) sub =
     (if prefix sub (x # xs) then Some 0 else map_option Suc (index_of xs sub))"

text \<open>\<^verbatim>\<open>strings.LastIndex\<close> with a one-byte substring.\<close>

fun last_index :: "'a list \<Rightarrow> 'a \<Rightarrow> nat option" where
  "last_index [] c = None"
| "last_index (x # xs) c =
     (case last_index xs c of Some i \<Rightarrow> Some (Suc i)
      | None \<Rightarrow> (if x = c then Some 0 else None))"

text \<open>\<^verbatim>\<open>strings.Contains\<close>.\<close>

definition contains_sub :: "'a list \<Rightarrow> 'a list \<Rightarrow> bool" where
  "contains_sub s sub \<longleftrightarrow> index_of s sub \<noteq> None"

definition to_lower_char :: "char \<Rightarrow> char" where
  "to_lower_char c =
     (let n = of_char c :: nat in if 65 \<le> n \<and> n \<le> 90 then char_of (n + 32) else c)"

text \<open>\<^verbatim>\<open>strings.ToLower\<close> on the ASCII range, which the names compared in the sources use.\<close>

definition to_lower :: "string \<Rightarrow> string" where
  "to_lower = map to_lower_char"

section \<open>Facts about them\<close>

lemma split_on_ne [simp]: "split_on c s \<noteq> []"
  by (cases s) auto

lemma split_on_no_sep: "c \<notin> set s \<Longrightarrow> split_on c s = [s]"
  by (induction s) auto

lemma length_split_on: "length (split_on c s) = Suc (count_list s c)"
  by (induction s) (auto simp: Suc_diff_Suc)

lemma split_on_parts: "p \<in> set (split_on c s) \<Longrightarrow> c \<notin> set p"
proof (induction s arbitrary: p)
  case Nil
  then show ?case by simp
next
  case (Cons x xs)
  then show ?case
    by (cases "split_on c xs") (auto split: if_splits)
qed

lemma split_on_append_sep: "split_on c (p @ c # s) = split_on c p @ split_on c s"
proof (induction p)
  case Nil
  then show ?case by simp
next
  case (Cons x p)
  then show ?case by (cases "split_on c p") auto
qed

lemma join_split [simp]: "join_on c (split_on c s) = s"
proof (induction s)
  case Nil
  then show ?case by simp
next
  case (Cons x xs)
  obtain p ps where "split_on c xs = p # ps" by (cases "split_on c xs") auto
  with Cons show ?case by (cases ps) auto
qed

lemma split_join:
  "ps \<noteq> [] \<Longrightarrow> \<forall>p \<in> set ps. c \<notin> set p \<Longrightarrow> split_on c (join_on c ps) = ps"
  by (induction c ps rule: join_on.induct) (auto simp: split_on_no_sep split_on_append_sep)

lemma split_on_singleton_iff: "length (split_on c s) = 1 \<longleftrightarrow> c \<notin> set s"
  by (simp add: length_split_on count_list_0_iff)

lemma index_of_Some:
  "index_of s sub = Some i \<Longrightarrow> i + length sub \<le> length s \<and> take (length sub) (drop i s) = sub"
proof (induction s sub arbitrary: i rule: index_of.induct)
  case (1 sub)
  then show ?case by (auto split: if_splits)
next
  case (2 x xs sub)
  show ?case
  proof (cases "prefix sub (x # xs)")
    case True
    with "2.prems" show ?thesis by (auto simp: prefix_def dest: arg_cong [where f = length])
  next
    case False
    with "2" show ?thesis by auto
  qed
qed

lemma index_of_decomp:
  assumes "index_of s sub = Some i"
  shows "s = take i s @ sub @ drop (i + length sub) s"
proof -
  from index_of_Some [OF assms] have "drop i s = sub @ drop (i + length sub) s"
    by (metis append_take_drop_id drop_drop add.commute)
  then show ?thesis by (metis append_take_drop_id)
qed

text \<open>The first position is the least one: any other occurrence starts no earlier.\<close>

lemma index_of_least: "s = u @ sub @ v \<Longrightarrow> \<exists>i \<le> length u. index_of s sub = Some i"
proof (induction s sub arbitrary: u rule: index_of.induct)
  case (1 sub)
  then show ?case by simp
next
  case (2 x xs sub)
  show ?case
  proof (cases "prefix sub (x # xs)")
    case True
    then show ?thesis by simp
  next
    case False
    with "2.prems" obtain u' where "u = x # u'" "xs = u' @ sub @ v"
      by (cases u) (auto simp: prefix_def)
    with "2.IH" [OF False, of u'] False show ?thesis by auto
  qed
qed

lemma contains_sub_iff: "contains_sub s sub \<longleftrightarrow> (\<exists>u v. s = u @ sub @ v)"
  unfolding contains_sub_def by (metis index_of_decomp index_of_least not_Some_eq option.simps(3))

lemma contains_single [simp]: "contains_sub s [c] \<longleftrightarrow> c \<in> set s"
  by (auto simp: contains_sub_iff in_set_conv_decomp)

lemma take_index_char:
  assumes i: "index_of s [c] = Some i"
  shows "s = take i s @ c # drop (Suc i) s" and "c \<notin> set (take i s)"
proof -
  show eq: "s = take i s @ c # drop (Suc i) s"
    using index_of_decomp [OF i] by simp
  show "c \<notin> set (take i s)"
  proof
    assume "c \<in> set (take i s)"
    then obtain u v where uv: "take i s = u @ c # v" by (auto simp: in_set_conv_decomp)
    with eq have "s = u @ [c] @ (v @ c # drop (Suc i) s)" by simp
    from index_of_least [OF this] i have "i \<le> length u" by auto
    moreover have "length (take i s) = Suc (length u + length v)" by (simp add: uv)
    ultimately show False by simp
  qed
qed

lemma last_index_None [simp]: "last_index s c = None \<longleftrightarrow> c \<notin> set s"
  by (induction s) (auto split: option.splits)

lemma last_index_Some:
  "last_index s c = Some i \<Longrightarrow> i < length s \<and> s ! i = c \<and> c \<notin> set (drop (Suc i) s)"
proof (induction s arbitrary: i)
  case Nil
  then show ?case by simp
next
  case (Cons x xs)
  then show ?case by (cases "last_index xs c") (auto split: if_splits)
qed

lemma last_index_decomp:
  assumes "last_index s c = Some i"
  shows "s = take i s @ c # drop (Suc i) s"
  using last_index_Some [OF assms] by (metis id_take_nth_drop)

lemmas string_decomp = index_of_decomp last_index_decomp

end
