(* ===== verification/Glob.thy ===== *)
theory Glob
  imports Prelude
begin

text \<open>
  The wildcard matching both trust layers share. \<^verbatim>\<open>matchSegment\<close>
  (internal/trustpolicy/match.go) and \<^verbatim>\<open>globMatch\<close> (internal/keyless/cert.go) are the
  same algorithm: split the pattern at the stars, anchor the first part as a prefix, find
  each middle part at its leftmost position, anchor the last part as a suffix. This theory
  holds the loop, the declarative meaning of a star, and the proof that the greedy search
  decides it.
\<close>

section \<open>The algorithm\<close>

text \<open>The loop over \<^verbatim>\<open>parts[1 : len(parts)-1]\<close>: what is left of \<open>s\<close>, or a miss.\<close>

fun match_middle :: "string list \<Rightarrow> string \<Rightarrow> string option" where
  "match_middle [] s = Some s"
| "match_middle (part # parts) s =
     (case index_of s part of
        None \<Rightarrow> None
      | Some i \<Rightarrow> match_middle parts (drop (i + length part) s))"

definition glob_parts :: "string list \<Rightarrow> string \<Rightarrow> bool" where
  "glob_parts parts s =
     (if \<not> prefix (hd parts) s then False
      else (case match_middle (butlast (tl parts)) (drop (length (hd parts)) s) of
              None \<Rightarrow> False
            | Some r \<Rightarrow> suffix (last parts) r))"

definition globMatch :: "string \<Rightarrow> string \<Rightarrow> bool" where
  "globMatch pattern s =
     (let parts = split_on CHR ''*'' pattern in
      if length parts = 1 then pattern = s else glob_parts parts s)"

section \<open>What a pattern means\<close>

inductive glob :: "string \<Rightarrow> string \<Rightarrow> bool" where
  glob_nil: "glob [] []"
| glob_char: "c \<noteq> CHR ''*'' \<Longrightarrow> glob p s \<Longrightarrow> glob (c # p) (c # s)"
| glob_star: "glob p s \<Longrightarrow> glob (CHR ''*'' # p) (t @ s)"

inductive_simps glob_Nil_simp [simp]: "glob [] s"
inductive_simps glob_Cons_simp: "glob (c # p) s"

text \<open>The same meaning over the parts: each star is a filler between two parts.\<close>

fun fill :: "string list \<Rightarrow> string \<Rightarrow> bool" where
  "fill [] s = False"
| "fill [p] s = (s = p)"
| "fill (p # ps) s = (\<exists>t rest. s = p @ t @ rest \<and> fill ps rest)"

lemma fill_Cons: "ps \<noteq> [] \<Longrightarrow> fill (p # ps) s = (\<exists>t rest. s = p @ t @ rest \<and> fill ps rest)"
  by (cases ps) auto

lemma fill_head: "fill ((c # p) # ps) s = (\<exists>s'. s = c # s' \<and> fill (p # ps) s')"
  by (cases ps) auto

lemma glob_fill: "glob pat s = fill (split_on CHR ''*'' pat) s"
proof (induction pat arbitrary: s)
  case Nil
  then show ?case by simp
next
  case (Cons c pat)
  show ?case
  proof (cases "c = CHR ''*''")
    case True
    then show ?thesis by (auto simp: glob_Cons_simp Cons.IH fill_Cons)
  next
    case False
    obtain p ps where ps: "split_on CHR ''*'' pat = p # ps"
      by (cases "split_on CHR ''*'' pat") auto
    from False show ?thesis by (auto simp: glob_Cons_simp Cons.IH ps fill_head)
  qed
qed

section \<open>The greedy search decides it\<close>

definition floating :: "string list \<Rightarrow> string \<Rightarrow> string \<Rightarrow> bool" where
  "floating ms l s \<longleftrightarrow> (\<exists>t rest. s = t @ rest \<and> fill (ms @ [l]) rest)"

lemma floating_Nil: "floating [] l s = suffix l s"
  by (auto simp: floating_def suffix_def)

lemma floating_Cons: "floating (m # ms) l s = (\<exists>t u. s = t @ m @ u \<and> floating ms l u)"
  by (auto simp: floating_def fill_Cons)

lemma floating_mono: "floating ms l u \<Longrightarrow> floating ms l (w @ u)"
  unfolding floating_def by (metis append_assoc)

lemma match_middle_floating:
  "(case match_middle ms s of None \<Rightarrow> False | Some r \<Rightarrow> suffix l r) = floating ms l s"
proof (induction ms arbitrary: s)
  case Nil
  then show ?case by (simp add: floating_Nil)
next
  case (Cons m ms)
  show ?case
  proof (cases "index_of s m")
    case None
    then have "\<not> contains_sub s m" by (simp add: contains_sub_def)
    then have "\<not> floating (m # ms) l s" by (auto simp: floating_Cons contains_sub_iff)
    with None show ?thesis by simp
  next
    case (Some i)
    let ?rest = "drop (i + length m) s"
    have "floating (m # ms) l s = floating ms l ?rest"
    proof
      assume "floating (m # ms) l s"
      then obtain t u where s: "s = t @ m @ u" and fl: "floating ms l u"
        by (auto simp: floating_Cons)
      from index_of_least [OF s] Some have "i \<le> length t" by auto
      then have "?rest = drop i (t @ m) @ u \<or> suffix u ?rest"
        using s by (auto simp: suffix_def drop_append)
      moreover have "suffix u ?rest"
      proof -
        have "u = drop (length t - i) ?rest"
          using s \<open>i \<le> length t\<close> by (simp add: add.commute)
        then show ?thesis by (metis suffix_drop)
      qed
      ultimately show "floating ms l ?rest"
        using fl floating_mono by (auto simp: suffix_def)
    next
      assume "floating ms l ?rest"
      with index_of_decomp [OF Some] show "floating (m # ms) l s"
        unfolding floating_Cons by blast
    qed
    with Some Cons.IH [of ?rest] show ?thesis by simp
  qed
qed

lemma glob_parts_fill:
  assumes "2 \<le> length parts"
  shows "glob_parts parts s = fill parts s"
proof -
  obtain p m where parts: "parts = p # m" and "m \<noteq> []"
    using assms by (cases parts; cases "tl parts") auto
  then obtain ms l where m: "m = ms @ [l]" by (metis rev_exhaust)
  have ends: "hd parts = p" "last parts = l" "butlast (tl parts) = ms"
    by (simp_all add: parts m)
  have "glob_parts parts s = (prefix p s \<and> floating ms l (drop (length p) s))"
    by (auto simp: glob_parts_def ends match_middle_floating)
  also have "\<dots> = (\<exists>u. s = p @ u \<and> floating ms l u)"
    by (auto simp: prefix_def)
  also have "\<dots> = fill parts s"
    by (auto simp: floating_def parts m fill_Cons)
  finally show ?thesis .
qed

lemma globMatch_glob: "globMatch pattern s = glob pattern s"
proof (cases "length (split_on CHR ''*'' pattern) = 1")
  case True
  then have "CHR ''*'' \<notin> set pattern" by (rule split_on_singleton_iff [THEN iffD1])
  with True show ?thesis by (auto simp: globMatch_def glob_fill split_on_no_sep)
next
  case False
  moreover have "length (split_on CHR ''*'' pattern) \<noteq> 0" by simp
  ultimately have "2 \<le> length (split_on CHR ''*'' pattern)" by linarith
  with False show ?thesis by (simp add: globMatch_def glob_fill glob_parts_fill)
qed

section \<open>Anchoring\<close>

lemma glob_literal: "CHR ''*'' \<notin> set p \<Longrightarrow> glob p s \<longleftrightarrow> s = p"
  by (simp add: glob_fill split_on_no_sep)

text \<open>Literal text at the front of a pattern is a prefix of everything it matches.\<close>

lemma glob_prefix: "glob (p @ q) s \<Longrightarrow> CHR ''*'' \<notin> set p \<Longrightarrow> \<exists>s'. s = p @ s' \<and> glob q s'"
  by (induction p arbitrary: s) (auto simp: glob_Cons_simp)

text \<open>Literal text at its end is a suffix.\<close>

lemma glob_append: "glob (p @ q) s \<Longrightarrow> \<exists>u v. s = u @ v \<and> glob p u \<and> glob q v"
proof (induction p arbitrary: s)
  case Nil
  then show ?case by simp
next
  case (Cons c p)
  from Cons.prems show ?case
    by (auto simp: glob_Cons_simp dest!: Cons.IH) (metis append.assoc append_Cons)+
qed

lemma glob_suffix: "glob (p @ q) s \<Longrightarrow> CHR ''*'' \<notin> set q \<Longrightarrow> suffix q s"
  by (auto dest!: glob_append simp: glob_literal suffix_def)

lemma glob_refl: "glob p p"
proof (induction p)
  case Nil
  show ?case by simp
next
  case (Cons c p)
  show ?case
    using Cons.IH glob_star [OF Cons.IH, of "[c]"] by (cases "c = CHR ''*''") (auto intro: glob.intros)
qed

end
