(* ===== verification/Identity.thy ===== *)
theory Identity
  imports Glob
begin

text \<open>
  Keyless identities (internal/keyless/cert.go): who may sign, given as a subject pattern
  and an exact issuer. Each refusal of the source is one constructor of
  \<open>subject_error\<close> or \<open>identity_error\<close>; the texts of the messages are not modelled.
\<close>

section \<open>Subjects\<close>

datatype subject_kind = SubjectExact | SubjectMail | SubjectURL

datatype subject_error =
    EmptySubject | WildScheme | WildHost | NoAccount | WildAccount
  | PathNotAddress | NoDomain | DomainIsPath | WildDomain | SharedSuffix | NoAuthority

text \<open>\<^verbatim>\<open>pinsAnAccount\<close>: the scheme and the host appear in its messages only.\<close>

definition pinsAnAccount :: "string \<Rightarrow> subject_error option" where
  "pinsAnAccount path =
     (let segment = (case index_of path ''/'' of Some i \<Rightarrow> take i path | None \<Rightarrow> path) in
      if segment = '''' then Some NoAccount
      else if contains_sub segment ''*'' then Some WildAccount
      else None)"

definition pinsAMailDomain :: "string \<Rightarrow> subject_error option" where
  "pinsAMailDomain domain =
     (if domain = '''' then Some NoDomain
      else if contains_sub domain ''/'' then Some DomainIsPath
      else (case last_index domain CHR ''*'' of
              None \<Rightarrow> None
            | Some i \<Rightarrow>
                (let tail = drop (Suc i) domain in
                 if \<not> prefix ''.'' tail \<or> length tail < 2 then Some WildDomain
                 else if \<not> contains_sub (drop 1 tail) ''.'' then Some SharedSuffix
                 else None)))"

text \<open>The host and the path of what follows the scheme; no slash means an empty path.\<close>

definition split_host :: "string \<Rightarrow> string \<times> string" where
  "split_host rest =
     (case index_of rest ''/'' of
        Some j \<Rightarrow> (take j rest, drop (Suc j) rest)
      | None \<Rightarrow> (rest, ''''))"

definition classifySubject :: "string \<Rightarrow> subject_error + subject_kind" where
  "classifySubject pattern =
     (if pattern = '''' then Inl EmptySubject
      else if \<not> contains_sub pattern ''*'' then Inr SubjectExact
      else (case index_of pattern ''://'' of
              Some i \<Rightarrow>
                (if contains_sub (take i pattern) ''*'' then Inl WildScheme
                 else
                   (let (host, path) = split_host (drop (i + 3) pattern)
                    in if host = '''' \<or> contains_sub host ''*'' then Inl WildHost
                       else (case pinsAnAccount path of Some e \<Rightarrow> Inl e | None \<Rightarrow> Inr SubjectURL)))
            | None \<Rightarrow>
                (case last_index pattern CHR ''@'' of
                   Some j \<Rightarrow>
                     (if contains_sub (take j pattern) ''/'' then Inl PathNotAddress
                      else (case pinsAMailDomain (drop (Suc j) pattern) of
                              Some e \<Rightarrow> Inl e | None \<Rightarrow> Inr SubjectMail))
                 | None \<Rightarrow> Inl NoAuthority)))"

section \<open>Identities\<close>

record identity =
  Subject :: string
  Issuer :: string

datatype identity_error = NoSubject | NoIssuer | BadSubject subject_error | WildIssuer

definition Validate :: "identity \<Rightarrow> identity_error option" where
  "Validate ident =
     (if Subject ident = '''' then Some NoSubject
      else if Issuer ident = '''' then Some NoIssuer
      else (case classifySubject (Subject ident) of
              Inl e \<Rightarrow> Some (BadSubject e)
            | Inr _ \<Rightarrow>
                (if contains_sub (Issuer ident) ''*'' then Some WildIssuer else None)))"

definition matches :: "identity \<Rightarrow> string \<Rightarrow> string \<Rightarrow> subject_kind \<Rightarrow> bool" where
  "matches ident subject issuer kind =
     (if Issuer ident \<noteq> issuer then False
      else (case classifySubject (Subject ident) of
              Inl _ \<Rightarrow> False
            | Inr k \<Rightarrow>
                (if k \<noteq> SubjectExact \<and> k \<noteq> kind then False
                 else globMatch (Subject ident) subject)))"

definition anyMatches :: "identity list \<Rightarrow> string \<Rightarrow> string \<Rightarrow> subject_kind \<Rightarrow> bool" where
  "anyMatches allowed subject issuer kind =
     list_ex (\<lambda>ident. matches ident subject issuer kind) allowed"

section \<open>What a pattern pins\<close>

text \<open>The authority a URL identity belongs to, up to and with the slash that closes it.\<close>

definition url_authority :: "string \<Rightarrow> string \<Rightarrow> string \<Rightarrow> string" where
  "url_authority scheme host account = scheme @ ''://'' @ host @ ''/'' @ account @ ''/''"

definition url_pinned :: "string \<Rightarrow> string \<Rightarrow> bool" where
  "url_pinned pattern subject \<longleftrightarrow>
     (\<exists>scheme host account.
        host \<noteq> '''' \<and> CHR ''/'' \<notin> set host \<and> account \<noteq> '''' \<and> CHR ''/'' \<notin> set account \<and>
        CHR ''*'' \<notin> set (url_authority scheme host account) \<and>
        prefix (url_authority scheme host account) pattern \<and>
        prefix (url_authority scheme host account) subject)"

text \<open>
  The domain an address pattern pins: all of it, or a literal tail of at least two labels
  after the last star.
\<close>

definition mail_pinned :: "string \<Rightarrow> string \<Rightarrow> bool" where
  "mail_pinned pattern subject \<longleftrightarrow>
     (\<exists>dom. CHR ''*'' \<notin> set dom \<and> CHR ''/'' \<notin> set dom \<and> suffix dom pattern \<and> suffix dom subject \<and>
        (hd dom = CHR ''@'' \<and> 2 \<le> length dom \<or>
         hd dom = CHR ''.'' \<and> CHR ''.'' \<in> set (tl dom)))"

lemma pinsAnAccount_None:
  "pinsAnAccount p = None \<Longrightarrow> CHR ''*'' \<in> set p \<Longrightarrow>
   \<exists>k. index_of p ''/'' = Some k \<and> take k p \<noteq> '''' \<and> CHR ''*'' \<notin> set (take k p)"
  by (auto simp: pinsAnAccount_def Let_def split: option.splits if_splits)

lemma pinsAMailDomain_None:
  assumes ok: "pinsAMailDomain d = None"
  shows "d \<noteq> '''' \<and> CHR ''/'' \<notin> set d \<and>
    (CHR ''*'' \<in> set d \<longrightarrow>
      (\<exists>i. d = take i d @ CHR ''*'' # CHR ''.'' # drop (Suc (Suc i)) d \<and>
         CHR ''*'' \<notin> set (drop (Suc i) d) \<and> drop (Suc i) d = CHR ''.'' # drop (Suc (Suc i)) d \<and>
         CHR ''.'' \<in> set (drop (Suc (Suc i)) d)))"
proof (cases "last_index d CHR ''*''")
  case None
  with ok show ?thesis by (auto simp: pinsAMailDomain_def split: if_splits)
next
  case (Some i)
  let ?tail = "drop (Suc i) d"
  from ok Some have "prefix ''.'' ?tail" and dot: "CHR ''.'' \<in> set (drop 1 ?tail)"
    and d: "d \<noteq> ''''" "CHR ''/'' \<notin> set d"
    by (auto simp: pinsAMailDomain_def Let_def split: if_splits)
  then obtain t where t: "?tail = CHR ''.'' # t" by (auto simp: prefix_def)
  then have "drop (Suc (Suc i)) d = t" by (metis drop_Suc list.sel(3) tl_drop)
  moreover have "d = take i d @ CHR ''*'' # ?tail" by (rule last_index_decomp [OF Some])
  ultimately show ?thesis using t dot d last_index_Some [OF Some] by auto
qed

lemma classify_url:
  assumes cls: "classifySubject pattern = Inr SubjectURL" and gl: "glob pattern subject"
  shows "url_pinned pattern subject"
proof -
  from cls obtain i where star: "CHR ''*'' \<in> set pattern"
    and i: "index_of pattern ''://'' = Some i" and sch: "CHR ''*'' \<notin> set (take i pattern)"
    by (auto simp: classifySubject_def split: if_splits option.splits)
  let ?rest = "drop (i + 3) pattern"
  have pat: "pattern = take i pattern @ ''://'' @ ?rest"
    using index_of_decomp [OF i] by (simp add: numeral_3_eq_3)
  obtain h p where hp: "split_host ?rest = (h, p)" by fastforce
  have h: "h \<noteq> ''''" "CHR ''*'' \<notin> set h" and acc_p: "pinsAnAccount p = None"
    using cls star i sch hp by (auto simp: classifySubject_def split: if_splits option.splits)
  from acc_p have "p \<noteq> ''''" by (auto simp: pinsAnAccount_def)
  with hp obtain j where j: "index_of ?rest ''/'' = Some j"
    by (auto simp: split_host_def split: option.splits)
  let ?host = "take j ?rest" and ?path = "drop (Suc j) ?rest"
  have host: "?host \<noteq> ''''" "CHR ''*'' \<notin> set ?host" and acc: "pinsAnAccount ?path = None"
    using hp h acc_p j by (auto simp: split_host_def)
  note rest = take_index_char [OF j]
  have "set pattern = set (take i pattern) \<union> set ''://'' \<union> set ?rest"
    using arg_cong [OF pat, of set] by (simp only: set_append Un_assoc)
  moreover have "set ?rest = set ?host \<union> set (CHR ''/'' # ?path)"
    using arg_cong [OF rest(1), of set] by (simp only: set_append)
  ultimately have path_star: "CHR ''*'' \<in> set ?path"
    using star sch host(2) by auto
  from pinsAnAccount_None [OF acc path_star] obtain k where k: "index_of ?path ''/'' = Some k"
    and acc': "take k ?path \<noteq> ''''" "CHR ''*'' \<notin> set (take k ?path)" by blast
  let ?acc = "take k ?path" and ?tail = "drop (Suc k) ?path"
  note path = take_index_char [OF k]
  let ?auth = "url_authority (take i pattern) ?host ?acc"
  have pat': "pattern = ?auth @ ?tail"
    using pat rest path by (simp add: url_authority_def)
  have lit: "CHR ''*'' \<notin> set ?auth"
    using sch host acc' by (auto simp: url_authority_def)
  from gl pat' glob_prefix [of ?auth ?tail subject] lit have "prefix ?auth subject"
    by (auto simp: prefix_def)
  with pat' lit host acc' rest path show ?thesis
    unfolding url_pinned_def by (metis prefixI)
qed

lemma classify_mail:
  assumes cls: "classifySubject pattern = Inr SubjectMail" and gl: "glob pattern subject"
  shows "mail_pinned pattern subject"
proof -
  from cls obtain j where j: "last_index pattern CHR ''@'' = Some j"
    and dom: "pinsAMailDomain (drop (Suc j) pattern) = None"
    by (auto simp: classifySubject_def Let_def split: if_splits option.splits prod.splits)
  let ?d = "drop (Suc j) pattern"
  have pat: "pattern = take j pattern @ CHR ''@'' # ?d" by (rule last_index_decomp [OF j])
  note d = pinsAMailDomain_None [OF dom]
  obtain front dm where split: "pattern = front @ dm" and lit: "CHR ''*'' \<notin> set dm" "CHR ''/'' \<notin> set dm"
    and shape: "hd dm = CHR ''@'' \<and> 2 \<le> length dm \<or> hd dm = CHR ''.'' \<and> CHR ''.'' \<in> set (tl dm)"
  proof (cases "CHR ''*'' \<in> set ?d")
    case False
    with d have "2 \<le> length (CHR ''@'' # ?d)" by (cases ?d) auto
    with False d pat that [of "take j pattern" "CHR ''@'' # ?d"] show thesis by auto
  next
    case True
    with d obtain i where i: "?d = take i ?d @ CHR ''*'' # drop (Suc i) ?d"
      "CHR ''*'' \<notin> set (drop (Suc i) ?d)" "drop (Suc i) ?d = CHR ''.'' # drop (Suc (Suc i)) ?d"
      "CHR ''.'' \<in> set (drop (Suc (Suc i)) ?d)" by metis
    have "CHR ''/'' \<notin> set (drop (Suc i) ?d)" using d by (meson in_set_dropD)
    moreover have "pattern = (take j pattern @ CHR ''@'' # take i ?d @ ''*'') @ drop (Suc i) ?d"
      using pat i(1) by simp
    ultimately show thesis using that i(2-4) by (metis list.sel(1,3))
  qed
  from gl split lit have "suffix dm subject" using glob_suffix by blast
  with split lit shape show ?thesis unfolding mail_pinned_def by (auto simp: suffix_def)
qed

section \<open>The identity property\<close>

text \<open>
  C33. An identity of a policy that accepts a certificate pins who issued it and under whose
  authority the subject is: the issuer is equal, and the subject is the pattern itself, or a
  URL under a literal scheme, host and account of the pattern, or an address in a literal
  domain (or under a literal domain tail of at least two labels) of the pattern, and the
  pattern's kind agrees with the certificate's.
\<close>

theorem matches_pins_authority:
  assumes "matches ident subject issuer kind"
  shows "Issuer ident = issuer \<and>
    (CHR ''*'' \<notin> set (Subject ident) \<and> subject = Subject ident \<or>
     kind = SubjectURL \<and> url_pinned (Subject ident) subject \<or>
     kind = SubjectMail \<and> mail_pinned (Subject ident) subject)"
proof -
  from assms obtain k where iss: "Issuer ident = issuer"
    and k: "classifySubject (Subject ident) = Inr k" "k = SubjectExact \<or> k = kind"
    and gl: "glob (Subject ident) subject"
    by (auto simp: matches_def globMatch_glob split: if_splits sum.splits)
  show ?thesis
  proof (cases k)
    case SubjectExact
    with k(1) have "CHR ''*'' \<notin> set (Subject ident)"
      by (auto simp: classifySubject_def Let_def split: if_splits option.splits prod.splits)
    with iss gl show ?thesis by (simp add: glob_literal)
  next
    case SubjectMail
    with k iss gl show ?thesis using classify_mail by auto
  next
    case SubjectURL
    with k iss gl show ?thesis using classify_url by auto
  qed
qed

definition sample_identity :: identity where
  "sample_identity = \<lparr>Subject = ''https://f.io/org/*'', Issuer = ''iss''\<rparr>"

theorem matches_pins_authority_witness:
  "url_pinned (Subject sample_identity) ''https://f.io/org/r''"
proof -
  have "matches sample_identity ''https://f.io/org/r'' ''iss'' SubjectURL" by code_simp
  from matches_pins_authority [OF this] show ?thesis by (simp add: sample_identity_def)
qed

end
