(* ===== verification/TrustPolicy.thy ===== *)
theory TrustPolicy
  imports Identity
begin

text \<open>
  The trust policy (internal/trustpolicy) and the source policy of internal/cli/policy.go:
  ordered rules whose patterns are slash-separated globs over \<^verbatim>\<open>registry/repository\<close>,
  the first matching rule deciding.
\<close>

section \<open>Patterns over repository references\<close>

definition matchSegment :: "string \<Rightarrow> string \<Rightarrow> bool" where
  "matchSegment pat s =
     (let parts = split_on CHR ''*'' pat in
      if length parts = 1 then pat = s else glob_parts parts s)"

text \<open>A segment of two stars tries every split of the name, as the loop of the source does.\<close>

primrec matchSegments :: "string list \<Rightarrow> string list \<Rightarrow> bool" where
  "matchSegments [] name = (name = [])"
| "matchSegments (p # pat) name =
     (if p = ''**'' then list_ex (\<lambda>i. matchSegments pat (drop i name)) [0..<Suc (length name)]
      else (case name of
              [] \<Rightarrow> False
            | n # ns \<Rightarrow> (if matchSegment p n then matchSegments pat ns else False)))"

definition Match :: "string \<Rightarrow> string \<Rightarrow> bool" where
  "Match pattern name = matchSegments (split_on CHR ''/'' pattern) (split_on CHR ''/'' name)"

datatype pattern_error = EmptyPattern | EmptySegment | EmbeddedStars | TooManyStars

fun validate_segments :: "string list \<Rightarrow> nat \<Rightarrow> pattern_error + nat" where
  "validate_segments [] doubleStar = Inr doubleStar"
| "validate_segments (seg # segs) doubleStar =
     (if seg = '''' then Inl EmptySegment
      else if contains_sub seg ''**'' \<and> seg \<noteq> ''**'' then Inl EmbeddedStars
      else validate_segments segs (if seg = ''**'' then doubleStar + 1 else doubleStar))"

definition ValidatePattern :: "string \<Rightarrow> pattern_error option" where
  "ValidatePattern pattern =
     (if pattern = '''' then Some EmptyPattern
      else (case validate_segments (split_on CHR ''/'' pattern) 0 of
              Inl e \<Rightarrow> Some e
            | Inr doubleStar \<Rightarrow> (if 4 < doubleStar then Some TooManyStars else None)))"

section \<open>Rules and policies\<close>

record rule =
  Pattern :: string
  KeyFiles :: "string list"
  Identities :: "identity list"
  TrustRoot :: string

record policy =
  rules :: "rule list"

datatype rule_error =
    BadPattern pattern_error | NoSigner | NoTrustRoot | UnusedTrustRoot
  | BadIdentity nat identity_error

fun validate_identities :: "identity list \<Rightarrow> nat \<Rightarrow> rule_error option" where
  "validate_identities [] j = None"
| "validate_identities (i # ids) j =
     (case Validate i of Some e \<Rightarrow> Some (BadIdentity (j + 1) e)
      | None \<Rightarrow> validate_identities ids (j + 1))"

definition validateRule :: "rule \<Rightarrow> rule_error option" where
  "validateRule r =
     (case ValidatePattern (Pattern r) of
        Some e \<Rightarrow> Some (BadPattern e)
      | None \<Rightarrow>
          (if KeyFiles r = [] \<and> Identities r = [] then Some NoSigner
           else if Identities r \<noteq> [] \<and> TrustRoot r = '''' then Some NoTrustRoot
           else if TrustRoot r \<noteq> '''' \<and> Identities r = [] then Some UnusedTrustRoot
           else validate_identities (Identities r) 0))"

fun validate_rules :: "rule list \<Rightarrow> nat \<Rightarrow> (nat \<times> rule_error) option" where
  "validate_rules [] i = None"
| "validate_rules (r # rs) i =
     (case validateRule r of Some e \<Rightarrow> Some (i + 1, e) | None \<Rightarrow> validate_rules rs (i + 1))"

text \<open>\<^verbatim>\<open>New\<close>: the first bad rule is named by its position from one.\<close>

definition New :: "rule list \<Rightarrow> (nat \<times> rule_error) + policy" where
  "New rs = (case validate_rules rs 0 of Some e \<Rightarrow> Inl e | None \<Rightarrow> Inr \<lparr>rules = rs\<rparr>)"

fun first_rule :: "rule list \<Rightarrow> string \<Rightarrow> rule option" where
  "first_rule [] repoRef = None"
| "first_rule (r # rs) repoRef = (if Match (Pattern r) repoRef then Some r else first_rule rs repoRef)"

definition RuleFor :: "policy \<Rightarrow> string \<Rightarrow> rule option" where
  "RuleFor p repoRef = first_rule (rules p) repoRef"

definition Patterns :: "policy \<Rightarrow> string list" where
  "Patterns p = map Pattern (rules p)"

section \<open>Source policies\<close>

record source_rule =
  src_pattern :: string
  OMSKey :: string

datatype source_error = NoSourceRule | BadSourcePattern nat pattern_error | NoOMSKey nat

fun validate_sources :: "source_rule list \<Rightarrow> nat \<Rightarrow> source_error option" where
  "validate_sources [] i = None"
| "validate_sources (r # rs) i =
     (case ValidatePattern (src_pattern r) of
        Some e \<Rightarrow> Some (BadSourcePattern (i + 1) e)
      | None \<Rightarrow> (if OMSKey r = '''' then Some (NoOMSKey (i + 1)) else validate_sources rs (i + 1)))"

text \<open>The configured value is \<open>None\<close> when \<^verbatim>\<open>verify.sources\<close> is not set.\<close>

definition loadSourcePolicy ::
  "source_rule list option \<Rightarrow> source_error + source_rule list option" where
  "loadSourcePolicy cfg =
     (case cfg of
        None \<Rightarrow> Inr None
      | Some raw \<Rightarrow>
          (if raw = [] then Inl NoSourceRule
           else (case validate_sources raw 0 of Some e \<Rightarrow> Inl e | None \<Rightarrow> Inr (Some raw))))"

fun first_source :: "source_rule list \<Rightarrow> string \<Rightarrow> source_rule option" where
  "first_source [] repo = None"
| "first_source (r # rs) repo =
     (if Match (src_pattern r) repo then Some r else first_source rs repo)"

definition keyFor :: "source_rule list option \<Rightarrow> string \<Rightarrow> string option" where
  "keyFor p repo =
     (case p of None \<Rightarrow> None | Some rs \<Rightarrow> map_option OMSKey (first_source rs repo))"

datatype policy_error = NoPolicyRule | BadRule nat rule_error

definition loadPolicy :: "rule list option \<Rightarrow> policy_error + policy option" where
  "loadPolicy cfg =
     (case cfg of
        None \<Rightarrow> Inr None
      | Some raw \<Rightarrow>
          (if raw = [] then Inl NoPolicyRule
           else (case New raw of
                   Inl (i, e) \<Rightarrow> Inl (BadRule i e)
                 | Inr p \<Rightarrow> Inr (Some p))))"

section \<open>First match, as a contract\<close>

text \<open>
  Both policies look a name up in an ordered table. The contract is the two equations of a
  first-match search; everything a caller relies on follows from them.
\<close>

locale first_match =
  fixes applies :: "'r \<Rightarrow> string \<Rightarrow> bool"
    and look :: "'r list \<Rightarrow> string \<Rightarrow> 'r option"
  assumes look_nil: "look [] n = None"
    and look_cons: "look (r # rs) n = (if applies r n then Some r else look rs n)"
begin

lemma look_miss: "look rs n = None \<longleftrightarrow> (\<forall>r \<in> set rs. \<not> applies r n)"
  by (induction rs) (auto simp: look_nil look_cons)

lemma look_first:
  "look rs n = Some r \<longleftrightarrow>
   (\<exists>above below. rs = above @ r # below \<and> applies r n \<and> (\<forall>q \<in> set above. \<not> applies q n))"
proof (induction rs)
  case Nil
  show ?case by (simp add: look_nil)
next
  case (Cons q rs)
  show ?case
  proof (cases "applies q n")
    case True
    then show ?thesis by (auto simp: look_cons Cons_eq_append_conv)
  next
    case False
    then show ?thesis by (auto simp: look_cons Cons.IH Cons_eq_append_conv) (metis append_Cons set_ConsD)+
  qed
qed

lemma look_append: "look (rs @ qs) n = (case look rs n of Some r \<Rightarrow> Some r | None \<Rightarrow> look qs n)"
  by (induction rs) (auto simp: look_nil look_cons)

end

interpretation signing_rules: first_match "\<lambda>r. Match (Pattern r)" first_rule
  by unfold_locales simp_all

interpretation source_rules: first_match "\<lambda>r. Match (src_pattern r)" first_source
  by unfold_locales simp_all

section \<open>What a reference pattern means\<close>

inductive path :: "string list \<Rightarrow> string list \<Rightarrow> bool" where
  path_nil: "path [] []"
| path_seg: "p \<noteq> ''**'' \<Longrightarrow> glob p n \<Longrightarrow> path ps ns \<Longrightarrow> path (p # ps) (n # ns)"
| path_stars: "path ps ns \<Longrightarrow> path (''**'' # ps) (ms @ ns)"

inductive_simps path_Nil [simp]: "path [] ns"
inductive_simps path_Cons: "path (p # ps) ns"

lemma matchSegment_glob: "matchSegment p n = glob p n"
  using globMatch_glob by (simp add: matchSegment_def globMatch_def)

lemma matchSegments_path: "matchSegments pat name = path pat name"
proof (induction pat arbitrary: name)
  case Nil
  show ?case by simp
next
  case (Cons p pat)
  show ?case
  proof (cases "p = ''**''")
    case True
    have "(\<exists>i \<in> {0..<Suc (length name)}. path pat (drop i name)) = (\<exists>ms ns. name = ms @ ns \<and> path pat ns)"
      (is "?L = ?R")
    proof
      assume ?L
      then obtain i where "path pat (drop i name)" by blast
      then show ?R by (metis append_take_drop_id)
    next
      assume ?R
      then obtain ms ns where "name = ms @ ns" "path pat ns" by blast
      then show ?L by (intro bexI [of _ "length ms"]) auto
    qed
    then show ?thesis
      using True by (simp only: matchSegments.simps if_True list_ex_iff set_upt Cons.IH path_Cons) auto
  next
    case False
    with Cons.IH show ?thesis by (cases name) (simp_all add: path_Cons matchSegment_glob)
  qed
qed

text \<open>
  C36. A repository reference matches a pattern exactly when its segments can be laid against
  the pattern's: a segment of two stars takes any number of them (none included), any other
  segment takes one, whose text is the segment's with each star filled.
\<close>

theorem Match_meaning:
  "Match pattern name = path (split_on CHR ''/'' pattern) (split_on CHR ''/'' name)"
  by (simp add: Match_def matchSegments_path)

section \<open>What matching costs\<close>

text \<open>The elements a search loop visits: up to and with the first success.\<close>

fun visited :: "('a \<Rightarrow> bool) \<Rightarrow> 'a list \<Rightarrow> 'a list" where
  "visited P [] = []"
| "visited P (x # xs) = (if P x then [x] else x # visited P xs)"

lemma visited_bounds: "set (visited P xs) \<subseteq> set xs \<and> length (visited P xs) \<le> length xs"
  by (induction xs) auto

text \<open>
  The iterations of \<^verbatim>\<open>matchSegments\<close> and of the calls it makes, each split of a
  two-star segment stopping at the first success.
\<close>

primrec match_work :: "string list \<Rightarrow> string list \<Rightarrow> nat" where
  "match_work [] name = 1"
| "match_work (p # pat) name =
     (if p = ''**'' then
        Suc (sum_list (map (\<lambda>i. match_work pat (drop i name))
          (visited (\<lambda>i. matchSegments pat (drop i name)) [0..<Suc (length name)])))
      else (case name of
              [] \<Rightarrow> 1
            | n # ns \<Rightarrow> (if matchSegment p n then Suc (match_work pat ns) else 1)))"

lemma sum_list_bounded: "(\<And>x. x \<in> set xs \<Longrightarrow> f x \<le> b) \<Longrightarrow> sum_list (map f xs) \<le> length xs * (b::nat)"
  by (induction xs) (auto simp: add_mono)

lemma step_bounds:
  fixes x :: nat
  assumes "1 \<le> x"
  shows "a \<le> b * x \<Longrightarrow> Suc a \<le> Suc b * x" and "Suc 0 \<le> Suc b * x"
  using assms by auto

lemma match_work_bound:
  "match_work pat name \<le> Suc (length pat) * Suc (length name) ^ count_list pat ''**''"
proof (induction pat arbitrary: name)
  case Nil
  show ?case by simp
next
  case (Cons p pat)
  let ?n = "Suc (length name)" and ?k = "count_list pat ''**''"
  have one: "1 \<le> ?n ^ j" for j by simp
  show ?case
  proof (cases "p = ''**''")
    case True
    let ?b = "Suc (length pat) * ?n ^ ?k"
    let ?is = "visited (\<lambda>i. matchSegments pat (drop i name)) [0..<?n]"
    have "match_work pat (drop i name) \<le> ?b" for i
      by (rule order_trans [OF Cons.IH]) (intro mult_le_mono2 power_mono; simp)
    then have "sum_list (map (\<lambda>i. match_work pat (drop i name)) ?is) \<le> length ?is * ?b"
      by (intro sum_list_bounded)
    also have "\<dots> \<le> ?n * ?b"
      using visited_bounds [of "\<lambda>i. matchSegments pat (drop i name)" "[0..<?n]"]
      by (intro mult_le_mono1) simp
    also have "\<dots> = Suc (length pat) * ?n ^ Suc ?k" by (simp only: power_Suc mult_ac)
    finally show ?thesis using True one [of "Suc ?k"] by simp
  next
    case False
    show ?thesis
    proof (cases name)
      case Nil
      with False show ?thesis by simp
    next
      case (Cons n ns)
      have "match_work pat ns \<le> Suc (length pat) * Suc (length ns) ^ ?k" by (rule Cons.IH)
      also have "\<dots> \<le> Suc (length pat) * ?n ^ ?k"
        by (intro mult_le_mono2 power_mono) (simp_all add: Cons)
      finally have "match_work (p # pat) name \<le> Suc (Suc (length pat)) * ?n ^ ?k"
        using False step_bounds [OF one [of ?k]] by (simp add: Cons del: mult_Suc)
      with False show ?thesis by simp
    qed
  qed
qed

lemma validate_segments_Inr:
  "validate_segments segs k = Inr m \<longleftrightarrow>
   m = k + count_list segs ''**'' \<and> (\<forall>s \<in> set segs. s \<noteq> '''' \<and> (contains_sub s ''**'' \<longrightarrow> s = ''**''))"
  by (induction segs k rule: validate_segments.induct) auto

text \<open>
  A pattern the validation accepts is matched in a number of steps that is at most a
  fixed polynomial of the two lengths: the limit on two-star segments rules out the
  exponential search.
\<close>

theorem accepted_pattern_cost:
  assumes "ValidatePattern pattern = None"
  shows "match_work (split_on CHR ''/'' pattern) (split_on CHR ''/'' name)
    \<le> Suc (length (split_on CHR ''/'' pattern)) * Suc (length (split_on CHR ''/'' name)) ^ 4"
proof -
  let ?p = "split_on CHR ''/'' pattern" and ?n = "split_on CHR ''/'' name"
  from assms have "count_list ?p ''**'' \<le> 4"
    by (auto simp: ValidatePattern_def validate_segments_Inr split: if_splits sum.splits)
  then have "Suc (length ?n) ^ count_list ?p ''**'' \<le> Suc (length ?n) ^ 4"
    by (intro power_increasing) simp_all
  with match_work_bound [of ?p ?n] show ?thesis by (meson mult_le_mono2 order_trans)
qed

theorem accepted_pattern_cost_witness:
  "match_work (split_on CHR ''/'' ''r/**/m'') (split_on CHR ''/'' ''r/a/b'') \<le> 4 * 4 ^ 4"
proof -
  have "ValidatePattern ''r/**/m'' = None" by code_simp
  from accepted_pattern_cost [OF this, of "''r/a/b''"] show ?thesis by simp
qed

section \<open>Which patterns are refused\<close>

lemma path_hits_empty: "path pat name \<Longrightarrow> '''' \<in> set pat \<Longrightarrow> '''' \<in> set name"
  by (induction rule: path.induct) auto

definition unstar :: "string \<Rightarrow> string" where
  "unstar = map (\<lambda>c. if c = CHR ''*'' then CHR ''x'' else c)"

lemma glob_unstar: "glob p (unstar p)"
proof (induction p)
  case Nil
  show ?case by (simp add: unstar_def)
next
  case (Cons c p)
  then show ?case
    using glob_star [OF Cons, of "''x''"] by (cases "c = CHR ''*''") (auto simp: unstar_def intro: glob.intros)
qed

lemma path_unstar: "path pat (map unstar pat)"
proof (induction pat)
  case Nil
  show ?case by simp
next
  case (Cons p pat)
  then show ?case
    using path_stars [OF Cons, of "[unstar p]"] path_seg [OF _ glob_unstar Cons]
    by (cases "p = ''**''") auto
qed

lemma unstar_Nil [simp]: "unstar p = '''' \<longleftrightarrow> p = ''''" "'''' = unstar p \<longleftrightarrow> p = ''''"
  by (auto simp: unstar_def)

lemma split_unstar: "split_on CHR ''/'' (unstar s) = map unstar (split_on CHR ''/'' s)"
proof (induction s)
  case Nil
  show ?case by (simp add: unstar_def)
next
  case (Cons c s)
  then show ?case by (cases "split_on CHR ''/'' s") (auto simp: unstar_def)
qed

text \<open>
  The refusal of an empty segment is exact: a pattern can match a reference whose
  segments are all non-empty and which holds no star if and only if none of its own segments
  is empty. What \<^verbatim>\<open>ValidatePattern\<close> accepts can therefore always match something.
\<close>

theorem pattern_can_match:
  "(\<exists>name. Match pattern name \<and> '''' \<notin> set (split_on CHR ''/'' name) \<and> CHR ''*'' \<notin> set name) \<longleftrightarrow>
   '''' \<notin> set (split_on CHR ''/'' pattern)"
proof
  assume "\<exists>name. Match pattern name \<and> '''' \<notin> set (split_on CHR ''/'' name) \<and> CHR ''*'' \<notin> set name"
  then show "'''' \<notin> set (split_on CHR ''/'' pattern)"
    by (auto simp: Match_def matchSegments_path dest: path_hits_empty)
next
  assume "'''' \<notin> set (split_on CHR ''/'' pattern)"
  moreover have "Match pattern (unstar pattern)"
    by (simp add: Match_def matchSegments_path split_unstar path_unstar)
  moreover have "CHR ''*'' \<notin> set (unstar pattern)" by (auto simp: unstar_def)
  ultimately show "\<exists>name. Match pattern name \<and> '''' \<notin> set (split_on CHR ''/'' name) \<and> CHR ''*'' \<notin> set name"
    by (intro exI [of _ "unstar pattern"]) (auto simp: split_unstar)
qed

section \<open>What a policy decides\<close>

lemma validate_identities_None:
  "validate_identities ids j = None \<longleftrightarrow> (\<forall>i \<in> set ids. Validate i = None)"
  by (induction ids j rule: validate_identities.induct) (auto split: option.splits)

lemma validate_rules_None: "validate_rules rs i = None \<longleftrightarrow> (\<forall>r \<in> set rs. validateRule r = None)"
  by (induction rs i rule: validate_rules.induct) (auto split: option.splits)

lemma validate_rules_Some:
  "validate_rules rs k = Some (i, e) \<Longrightarrow>
   \<exists>above r below. rs = above @ r # below \<and> i = k + length above + 1 \<and> validateRule r = Some e \<and>
      (\<forall>q \<in> set above. validateRule q = None)"
proof (induction rs k rule: validate_rules.induct)
  case (1 k)
  then show ?case by simp
next
  case (2 r rs k)
  show ?case
  proof (cases "validateRule r")
    case None
    with 2 obtain above q below where "rs = above @ q # below" "i = k + 1 + length above + 1"
      "validateRule q = Some e" "\<forall>q \<in> set above. validateRule q = None" by auto
    with None show ?thesis by (intro exI [of _ "r # above"] exI [of _ q] exI [of _ below]) simp
  next
    case (Some e')
    with "2.prems" show ?thesis by (intro exI [of _ "[]"]) simp
  qed
qed

lemma validateRule_None:
  "validateRule r = None \<longleftrightarrow>
   ValidatePattern (Pattern r) = None \<and> (KeyFiles r \<noteq> [] \<or> Identities r \<noteq> []) \<and>
   (Identities r = [] \<longleftrightarrow> TrustRoot r = '''') \<and> (\<forall>i \<in> set (Identities r). Validate i = None)"
  by (auto simp: validateRule_def validate_identities_None split: option.splits)

text \<open>
  An accepted policy decides by its first matching rule, refuses a reference no rule
  matches, and every rule it can answer with names a signer, has a trust root exactly when it
  names identities, and holds only identities that passed validation; a refused list of rules
  is reported by the position and the error of its first bad rule.
\<close>

theorem policy_decides:
  "(case New rs of
      Inl (i, e) \<Rightarrow>
        (\<exists>above r below. rs = above @ r # below \<and> i = length above + 1 \<and> validateRule r = Some e \<and>
           (\<forall>q \<in> set above. validateRule q = None))
    | Inr p \<Rightarrow>
        (\<forall>name r. RuleFor p name = Some r \<longleftrightarrow>
           (\<exists>above below. rs = above @ r # below \<and> Match (Pattern r) name \<and>
              (\<forall>q \<in> set above. \<not> Match (Pattern q) name))) \<and>
        (\<forall>name. RuleFor p name = None \<longleftrightarrow> (\<forall>q \<in> set rs. \<not> Match (Pattern q) name)) \<and>
        (\<forall>r \<in> set (rules p).
           ValidatePattern (Pattern r) = None \<and> (KeyFiles r \<noteq> [] \<or> Identities r \<noteq> []) \<and>
           (Identities r = [] \<longleftrightarrow> TrustRoot r = '''') \<and> (\<forall>i \<in> set (Identities r). Validate i = None)))"
proof (cases "validate_rules rs 0")
  case None
  then have "\<forall>r \<in> set rs. validateRule r = None" by (simp only: validate_rules_None)
  with None show ?thesis
    by (auto simp: New_def RuleFor_def signing_rules.look_first signing_rules.look_miss
        validateRule_None)
next
  case (Some ie)
  then obtain i e where "validate_rules rs 0 = Some (i, e)" by (cases ie) simp
  with validate_rules_Some [OF this] show ?thesis by (simp add: New_def)
qed

definition sample_rule :: rule where
  "sample_rule = \<lparr>Pattern = ''r/**'', KeyFiles = [''k''], Identities = [], TrustRoot = ''''\<rparr>"

theorem policy_decides_witness:
  "(case New [sample_rule] of Inl _ \<Rightarrow> False | Inr p \<Rightarrow> RuleFor p ''r/a'' = Some sample_rule)"
proof -
  have ok: "New [sample_rule] = Inr \<lparr>rules = [sample_rule]\<rparr>" by code_simp
  have "Match (Pattern sample_rule) ''r/a''" by code_simp
  with policy_decides [of "[sample_rule]"] ok have "RuleFor \<lparr>rules = [sample_rule]\<rparr> ''r/a'' = Some sample_rule"
    by fastforce
  with ok show ?thesis by simp
qed

text \<open>
  A source policy supplies the key of its first matching rule and no key where no rule
  matches or none is configured; the key it supplies is never empty, and a policy that is
  set but has no rule is refused rather than read as no policy.
\<close>

theorem source_policy_keys:
  "(case loadSourcePolicy cfg of
      Inl e \<Rightarrow> cfg \<noteq> None \<and> (e = NoSourceRule \<longleftrightarrow> cfg = Some [])
    | Inr p \<Rightarrow> p = cfg \<and> p \<noteq> Some [] \<and>
        (\<forall>repo key. keyFor p repo = Some key \<longleftrightarrow>
           (\<exists>above r below. cfg = Some (above @ r # below) \<and> OMSKey r = key \<and> key \<noteq> '''' \<and>
              Match (src_pattern r) repo \<and> (\<forall>q \<in> set above. \<not> Match (src_pattern q) repo))))"
proof -
  have bad: "validate_sources rs i \<noteq> Some NoSourceRule" for rs i
    by (induction rs i rule: validate_sources.induct) (auto split: option.splits)
  have good: "validate_sources rs i = None \<Longrightarrow> r \<in> set rs \<Longrightarrow> OMSKey r \<noteq> ''''" for rs i r
    by (induction rs i rule: validate_sources.induct) (auto split: option.splits if_splits)
  show ?thesis
  proof (cases cfg)
    case None
    then show ?thesis by (simp add: loadSourcePolicy_def keyFor_def)
  next
    case (Some rs)
    show ?thesis
    proof (cases "rs = [] \<or> validate_sources rs 0 \<noteq> None")
      case True
      with Some bad show ?thesis by (auto simp: loadSourcePolicy_def split: option.splits)
    next
      case False
      with Some have load: "loadSourcePolicy cfg = Inr cfg" by (simp add: loadSourcePolicy_def)
      have "keyFor cfg repo = Some key \<longleftrightarrow>
           (\<exists>above r below. cfg = Some (above @ r # below) \<and> OMSKey r = key \<and> key \<noteq> '''' \<and>
              Match (src_pattern r) repo \<and> (\<forall>q \<in> set above. \<not> Match (src_pattern q) repo))" for repo key
      proof -
        have "keyFor cfg repo = Some key \<longleftrightarrow> (\<exists>r. first_source rs repo = Some r \<and> OMSKey r = key)"
          using Some by (auto simp: keyFor_def)
        moreover have "\<forall>above r below. rs = above @ r # below \<longrightarrow> OMSKey r \<noteq> ''''"
          using False good [of rs 0] by simp
        ultimately show ?thesis
          unfolding source_rules.look_first Some option.inject by blast
      qed
      with load False Some show ?thesis by simp
    qed
  qed
qed

theorem source_policy_keys_witness:
  "keyFor (Some [\<lparr>src_pattern = ''o/*'', OMSKey = ''k''\<rparr>]) ''o/r'' = Some ''k''"
proof -
  let ?c = "Some [\<lparr>src_pattern = ''o/*'', OMSKey = ''k''\<rparr>]"
  have "loadSourcePolicy ?c = Inr ?c" by code_simp
  with source_policy_keys [of ?c] have
    "keyFor ?c ''o/r'' = Some ''k'' \<longleftrightarrow>
     (\<exists>above r below. ?c = Some (above @ r # below) \<and> OMSKey r = ''k'' \<and> ''k'' \<noteq> '''' \<and>
        Match (src_pattern r) ''o/r'' \<and> (\<forall>q \<in> set above. \<not> Match (src_pattern q) ''o/r''))" by simp
  moreover have "Match ''o/*'' ''o/r''" by code_simp
  ultimately show ?thesis by (simp add: Cons_eq_append_conv)
qed

end
