(* ===== verification/Json.thy ===== *)
theory Json
  imports Prelude
begin

text \<open>
  What the sources use of Go's \<^verbatim>\<open>encoding/json\<close>: the grammar of a document
  (\<open>parse_json\<close>, which refuses trailing data as \<^verbatim>\<open>json.Unmarshal\<close> does) and
  the decoding of objects into struct fields, which a key selects regardless of its case, a
  later key overriding an earlier one and null leaving the zero value. Bytes from 128 up are
  kept as they are and the nesting limit of the library is not modelled.
\<close>

datatype json =
    JNull | JBool bool | JNum string | JStr string
  | JArr "json list" | JObj "(string \<times> json) list"

section \<open>Scanning\<close>

definition is_ws :: "char \<Rightarrow> bool" where
  "is_ws c \<longleftrightarrow> c = CHR '' '' \<or> c = CHR 0x09 \<or> c = CHR 0x0A \<or> c = CHR 0x0D"

definition skip_ws :: "string \<Rightarrow> string" where
  "skip_ws = dropWhile is_ws"

definition is_digit :: "char \<Rightarrow> bool" where
  "is_digit c \<longleftrightarrow> (let n = of_char c :: nat in 48 \<le> n \<and> n \<le> 57)"

definition digit_value :: "char \<Rightarrow> nat" where
  "digit_value c = of_char c - 48"

definition hex_value :: "char \<Rightarrow> nat option" where
  "hex_value c =
     (let n = of_char c :: nat in
      if 48 \<le> n \<and> n \<le> 57 then Some (n - 48)
      else if 97 \<le> n \<and> n \<le> 102 then Some (n - 87)
      else if 65 \<le> n \<and> n \<le> 70 then Some (n - 55)
      else None)"

text \<open>Four hexadecimal digits after a backslash and a u.\<close>

fun hex4 :: "string \<Rightarrow> nat option" where
  "hex4 (a # b # c # d # s) =
     (case (hex_value a, hex_value b, hex_value c, hex_value d) of
        (Some w, Some x, Some y, Some z) \<Rightarrow> Some (4096 * w + 256 * x + 16 * y + z)
      | _ \<Rightarrow> None)"
| "hex4 s = None"

definition utf8 :: "nat \<Rightarrow> string" where
  "utf8 r =
     (if r < 128 then [char_of r]
      else if r < 2048 then [char_of (192 + r div 64), char_of (128 + r mod 64)]
      else if r < 65536 then
        [char_of (224 + r div 4096), char_of (128 + r div 64 mod 64), char_of (128 + r mod 64)]
      else
        [char_of (240 + r div 262144), char_of (128 + r div 4096 mod 64),
         char_of (128 + r div 64 mod 64), char_of (128 + r mod 64)])"

definition surrogate :: "nat \<Rightarrow> bool" where
  "surrogate r \<longleftrightarrow> 55296 \<le> r \<and> r < 57344"

text \<open>A surrogate pair is one character; half of one is the replacement character.\<close>

definition unicode_escape :: "string \<Rightarrow> (string \<times> nat) option" where
  "unicode_escape s =
     (case hex4 s of
        None \<Rightarrow> None
      | Some r \<Rightarrow>
          (if \<not> surrogate r then Some (utf8 r, 4)
           else (case (if take 2 (drop 4 s) = [CHR 0x5C, CHR ''u''] then hex4 (drop 6 s) else None) of
                   Some r2 \<Rightarrow>
                     (if r < 56320 \<and> 56320 \<le> r2 \<and> r2 < 57344
                      then Some (utf8 (65536 + (r - 55296) * 1024 + (r2 - 56320)), 10)
                      else Some (utf8 65533, 4))
                 | None \<Rightarrow> Some (utf8 65533, 4))))"

definition simple_escape :: "char \<Rightarrow> char option" where
  "simple_escape e =
     (if e = CHR 0x22 \<or> e = CHR 0x5C \<or> e = CHR ''/'' then Some e
      else if e = CHR ''b'' then Some (CHR 0x08)
      else if e = CHR ''f'' then Some (CHR 0x0C)
      else if e = CHR ''n'' then Some (CHR 0x0A)
      else if e = CHR ''r'' then Some (CHR 0x0D)
      else if e = CHR ''t'' then Some (CHR 0x09)
      else None)"

text \<open>The rest of a string after its opening quote: its value and what follows it.\<close>

fun scan_string :: "nat \<Rightarrow> string \<Rightarrow> (string \<times> string) option" where
  "scan_string 0 s = None"
| "scan_string (Suc n) [] = None"
| "scan_string (Suc n) (c # cs) =
     (if c = CHR 0x22 then Some ([], cs)
      else if c = CHR 0x5C then
        (case cs of
           [] \<Rightarrow> None
         | e # es \<Rightarrow>
             (if e = CHR ''u'' then
                (case unicode_escape es of
                   None \<Rightarrow> None
                 | Some (u, k) \<Rightarrow> map_option (\<lambda>(t, r). (u @ t, r)) (scan_string n (drop k es)))
              else
                (case simple_escape e of
                   None \<Rightarrow> None
                 | Some x \<Rightarrow> map_option (\<lambda>(t, r). (x # t, r)) (scan_string n es))))
      else if (of_char c :: nat) < 32 then None
      else map_option (\<lambda>(t, r). (c # t, r)) (scan_string n cs))"

text \<open>Each part of a number: its text and what follows it, \<open>None\<close> when it is malformed.\<close>

definition digits :: "string \<Rightarrow> string \<times> string" where
  "digits s = (takeWhile is_digit s, dropWhile is_digit s)"

definition scan_integer :: "string \<Rightarrow> (string \<times> string) option" where
  "scan_integer s =
     (let (d, r) = digits s in
      if d = [] then None
      else if hd d = CHR ''0'' then Some ([CHR ''0''], tl d @ r)
      else Some (d, r))"

definition scan_fraction :: "string \<Rightarrow> (string \<times> string) option" where
  "scan_fraction s =
     (if prefix ''.'' s
      then (let (d, r) = digits (tl s) in if d = [] then None else Some (CHR ''.'' # d, r))
      else Some ([], s))"

definition scan_exponent :: "string \<Rightarrow> (string \<times> string) option" where
  "scan_exponent s =
     (if prefix ''e'' s \<or> prefix ''E'' s then
        (let sg = (if prefix ''+'' (tl s) \<or> prefix ''-'' (tl s) then [hd (tl s)] else []);
             (d, r) = digits (drop (length sg) (tl s)) in
         if d = [] then None else Some (hd s # sg @ d, r))
      else Some ([], s))"

definition scan_number :: "string \<Rightarrow> (string \<times> string) option" where
  "scan_number s =
     (let sg = (if prefix ''-'' s then ''-'' else []) in
      (case scan_integer (drop (length sg) s) of
         None \<Rightarrow> None
       | Some (i, r1) \<Rightarrow>
           (case scan_fraction r1 of
              None \<Rightarrow> None
            | Some (f, r2) \<Rightarrow>
                (case scan_exponent r2 of
                   None \<Rightarrow> None
                 | Some (e, r3) \<Rightarrow> Some (sg @ i @ f @ e, r3)))))"

section \<open>The grammar\<close>

text \<open>
  The fuel is the number of bytes and one more, which no document exceeds: every call reads at
  least one byte.
\<close>

fun value_at :: "nat \<Rightarrow> string \<Rightarrow> (json \<times> string) option"
  and members :: "nat \<Rightarrow> string \<Rightarrow> ((string \<times> json) list \<times> string) option"
  and elements :: "nat \<Rightarrow> string \<Rightarrow> (json list \<times> string) option" where
  "value_at 0 s = None"
| "value_at (Suc n) s =
     (let t = skip_ws s in
      if prefix ''{'' t then
        (let u = skip_ws (tl t) in
         if prefix ''}'' u then Some (JObj [], tl u)
         else map_option (\<lambda>(ms, r). (JObj ms, r)) (members n u))
      else if prefix ''['' t then
        (let u = skip_ws (tl t) in
         if prefix '']'' u then Some (JArr [], tl u)
         else map_option (\<lambda>(es, r). (JArr es, r)) (elements n u))
      else if prefix [CHR 0x22] t then
        map_option (\<lambda>(x, r). (JStr x, r)) (scan_string (length t) (tl t))
      else if prefix ''true'' t then Some (JBool True, drop 4 t)
      else if prefix ''false'' t then Some (JBool False, drop 5 t)
      else if prefix ''null'' t then Some (JNull, drop 4 t)
      else map_option (\<lambda>(x, r). (JNum x, r)) (scan_number t))"
| "members 0 s = None"
| "members (Suc n) s =
     (if \<not> prefix [CHR 0x22] (skip_ws s) then None
      else (case scan_string (length s) (tl (skip_ws s)) of
              None \<Rightarrow> None
            | Some (k, r) \<Rightarrow>
                (if \<not> prefix '':'' (skip_ws r) then None
                 else (case value_at n (tl (skip_ws r)) of
                         None \<Rightarrow> None
                       | Some (v, r2) \<Rightarrow>
                           (let r3 = skip_ws r2 in
                            if prefix ''}'' r3 then Some ([(k, v)], tl r3)
                            else if prefix '','' r3
                            then map_option (\<lambda>(ms, q). ((k, v) # ms, q)) (members n (tl r3))
                            else None)))))"
| "elements 0 s = None"
| "elements (Suc n) s =
     (case value_at n s of
        None \<Rightarrow> None
      | Some (v, r) \<Rightarrow>
          (let r2 = skip_ws r in
           if prefix '']'' r2 then Some ([v], tl r2)
           else if prefix '','' r2 then map_option (\<lambda>(es, q). (v # es, q)) (elements n (tl r2))
           else None))"

definition parse_json :: "string \<Rightarrow> json option" where
  "parse_json s =
     (case value_at (Suc (length s)) s of
        Some (v, r) \<Rightarrow> (if skip_ws r = [] then Some v else None)
      | None \<Rightarrow> None)"

section \<open>Decoding into a struct\<close>

text \<open>The value a struct field is given: that of the last key that names it, null being nothing.\<close>

definition field :: "string \<Rightarrow> (string \<times> json) list \<Rightarrow> json option" where
  "field name ms =
     (case filter (\<lambda>(k, v). to_lower k = to_lower name \<and> v \<noteq> JNull) ms of
        [] \<Rightarrow> None | vs \<Rightarrow> Some (snd (last vs)))"

text \<open>\<open>None\<close> is a decoding error; a missing field is the zero value.\<close>

definition str_field :: "string \<Rightarrow> (string \<times> json) list \<Rightarrow> string option" where
  "str_field name ms =
     (case field name ms of None \<Rightarrow> Some '''' | Some (JStr s) \<Rightarrow> Some s | Some _ \<Rightarrow> None)"

fun nat_of_digits :: "nat \<Rightarrow> string \<Rightarrow> nat" where
  "nat_of_digits a [] = a"
| "nat_of_digits a (c # cs) = nat_of_digits (10 * a + digit_value c) cs"

text \<open>A number as an \<^verbatim>\<open>int64\<close>: no fraction, no exponent, in range.\<close>

definition int64_of :: "string \<Rightarrow> int option" where
  "int64_of s =
     (let neg = prefix ''-'' s; d = (if neg then tl s else s);
          n = int (nat_of_digits 0 d); v = (if neg then - n else n) in
      if d = [] \<or> \<not> list_all is_digit d then None
      else if - (2 ^ 63) \<le> v \<and> v < 2 ^ 63 then Some v else None)"

definition int_field :: "string \<Rightarrow> (string \<times> json) list \<Rightarrow> int option" where
  "int_field name ms =
     (case field name ms of None \<Rightarrow> Some 0 | Some (JNum s) \<Rightarrow> int64_of s | Some _ \<Rightarrow> None)"

definition bool_field :: "string \<Rightarrow> (string \<times> json) list \<Rightarrow> bool option" where
  "bool_field name ms =
     (case field name ms of None \<Rightarrow> Some False | Some (JBool b) \<Rightarrow> Some b | Some _ \<Rightarrow> None)"

text \<open>A field whose type has a decoder of its own; a missing field is \<open>Some None\<close>.\<close>

definition sub_field :: "(json \<Rightarrow> 'a option) \<Rightarrow> string \<Rightarrow> (string \<times> json) list \<Rightarrow> 'a option option" where
  "sub_field dec name ms =
     (case field name ms of None \<Rightarrow> Some None | Some v \<Rightarrow> map_option Some (dec v))"

fun decode_all :: "(json \<Rightarrow> 'a option) \<Rightarrow> json list \<Rightarrow> 'a list option" where
  "decode_all dec [] = Some []"
| "decode_all dec (j # js) =
     (case dec j of None \<Rightarrow> None | Some x \<Rightarrow> map_option ((#) x) (decode_all dec js))"

definition list_field :: "(json \<Rightarrow> 'a option) \<Rightarrow> string \<Rightarrow> (string \<times> json) list \<Rightarrow> 'a list option" where
  "list_field dec name ms =
     (case field name ms of None \<Rightarrow> Some [] | Some (JArr js) \<Rightarrow> decode_all dec js | Some _ \<Rightarrow> None)"

fun decode_str :: "json \<Rightarrow> string option" where
  "decode_str JNull = Some ''''"
| "decode_str (JStr s) = Some s"
| "decode_str _ = None"

fun decode_pairs :: "(json \<Rightarrow> 'a option) \<Rightarrow> (string \<times> json) list \<Rightarrow> (string \<times> 'a) list option" where
  "decode_pairs dec [] = Some []"
| "decode_pairs dec ((k, j) # ms) =
     (case dec j of None \<Rightarrow> None | Some x \<Rightarrow> map_option ((#) (k, x)) (decode_pairs dec ms))"

text \<open>A Go map keyed by strings, as an association list in the order of the keys' last uses.\<close>

definition map_field :: "(json \<Rightarrow> 'a option) \<Rightarrow> string \<Rightarrow> (string \<times> json) list \<Rightarrow> (string \<times> 'a) list option" where
  "map_field dec name ms =
     (case field name ms of
        None \<Rightarrow> Some []
      | Some (JObj kvs) \<Rightarrow> map_option rev (decode_pairs dec kvs)
      | Some _ \<Rightarrow> None)"

text \<open>A Go map read: the zero value where the key is missing.\<close>

definition lookup_str :: "(string \<times> string) list \<Rightarrow> string \<Rightarrow> string" where
  "lookup_str m k = (case map_of m k of Some v \<Rightarrow> v | None \<Rightarrow> '''')"

lemma length_skip_ws: "length (skip_ws s) \<le> length s"
  by (simp add: skip_ws_def length_dropWhile_le)

lemma decode_all_length: "decode_all dec js = Some xs \<Longrightarrow> length xs = length js"
  by (induction js arbitrary: xs) (auto split: option.splits)

end
