(* ===== verification/Oci.thy ===== *)
theory Oci
  imports Json
begin

text \<open>
  The OCI vocabulary the program is written over: descriptors, the manifest document, the
  media types it names, and the content library as a parameter. The library
  (\<^verbatim>\<open>oras.land/oras-go\<close>) is not part of the sources, so the record \<open>oras\<close> holds one
  function for each of its operations that the store calls, over a layout state of any type;
  what the store relies on is stated by the predicate \<open>oras_contract\<close>.
\<close>

section \<open>Descriptors and manifests\<close>

text \<open>
  The collector identifies a node by three fields; a descriptor adds the annotations, as an
  association list.
\<close>

record node =
  MediaType :: string
  Digest :: string
  Size :: int

record descriptor = node +
  Annotations :: "(string \<times> string) list"

abbreviation node_of :: "descriptor \<Rightarrow> node" where
  "node_of \<equiv> node.truncate"

definition AnnotationRefName :: string where
  "AnnotationRefName = ''org.opencontainers.image.ref.name''"

definition ref_name :: "descriptor \<Rightarrow> string" where
  "ref_name d = lookup_str (Annotations d) AnnotationRefName"

definition MediaTypeImageManifest :: string where
  "MediaTypeImageManifest = ''application/vnd.oci.image.manifest.v1+json''"

definition MediaTypeImageIndex :: string where
  "MediaTypeImageIndex = ''application/vnd.oci.image.index.v1+json''"

definition mediaTypeArtifactManifest :: string where
  "mediaTypeArtifactManifest = ''application/vnd.oci.artifact.manifest.v1+json''"

definition decode_node :: "json \<Rightarrow> node option" where
  "decode_node j =
     (case j of
        JObj ms \<Rightarrow>
          (case (str_field ''mediaType'' ms, str_field ''digest'' ms, int_field ''size'' ms) of
             (Some mt, Some dg, Some sz) \<Rightarrow> Some \<lparr>MediaType = mt, Digest = dg, Size = sz\<rparr>
           | _ \<Rightarrow> None)
      | JNull \<Rightarrow> Some \<lparr>MediaType = '''', Digest = '''', Size = 0\<rparr>
      | _ \<Rightarrow> None)"

definition decode_descriptor :: "json \<Rightarrow> descriptor option" where
  "decode_descriptor j =
     (case decode_node j of
        None \<Rightarrow> None
      | Some n \<Rightarrow>
          (case (case j of JObj ms \<Rightarrow> map_field decode_str ''annotations'' ms | _ \<Rightarrow> Some []) of
             None \<Rightarrow> None
           | Some an \<Rightarrow> Some (node.extend n (descriptor.fields an))))"

text \<open>The fields of an image manifest the sources read.\<close>

record manifest =
  m_artifactType :: string
  Config :: descriptor
  Layers :: "descriptor list"
  m_annotations :: "(string \<times> string) list"

definition no_descriptor :: descriptor where
  "no_descriptor = \<lparr>MediaType = '''', Digest = '''', Size = 0, Annotations = []\<rparr>"

definition decode_manifest :: "json \<Rightarrow> manifest option" where
  "decode_manifest j =
     (case j of
        JObj ms \<Rightarrow>
          (case (str_field ''artifactType'' ms, sub_field decode_descriptor ''config'' ms,
                 list_field decode_descriptor ''layers'' ms, map_field decode_str ''annotations'' ms) of
             (Some ty, Some cfg, Some ls, Some an) \<Rightarrow>
               Some \<lparr>m_artifactType = ty,
                     Config = (case cfg of Some d \<Rightarrow> d | None \<Rightarrow> no_descriptor),
                     Layers = ls, m_annotations = an\<rparr>
           | _ \<Rightarrow> None)
      | JNull \<Rightarrow> Some \<lparr>m_artifactType = '''', Config = no_descriptor, Layers = [], m_annotations = []\<rparr>
      | _ \<Rightarrow> None)"

definition unmarshal_manifest :: "string \<Rightarrow> manifest option" where
  "unmarshal_manifest raw = Option.bind (parse_json raw) decode_manifest"

section \<open>The content library\<close>

datatype oras_error = NotFound | NotExist | InvalidReference | OtherError string

text \<open>\<^verbatim>\<open>index.json\<close> as a read of it finds it.\<close>

datatype index_file = Missing | Unreadable | Garbled | Manifests "descriptor list"

record 'l oras =
  Exists :: "'l \<Rightarrow> node \<Rightarrow> oras_error + bool"
  Successors :: "'l \<Rightarrow> node \<Rightarrow> oras_error + node list"
  FetchAll :: "'l \<Rightarrow> node \<Rightarrow> oras_error + string"
  oci_Resolve :: "'l \<Rightarrow> string \<Rightarrow> oras_error + descriptor"
  Untag :: "'l \<Rightarrow> string \<Rightarrow> 'l \<times> oras_error option"
  Delete :: "'l \<Rightarrow> node \<Rightarrow> 'l \<times> oras_error option"
  Collect :: "'l \<Rightarrow> 'l \<times> oras_error option"
  SaveIndex :: "'l \<Rightarrow> 'l \<times> oras_error option"
  read_index :: "'l \<Rightarrow> index_file"
  write_index :: "'l \<Rightarrow> descriptor list \<Rightarrow> 'l \<times> oras_error option"
  reopen :: "'l \<Rightarrow> 'l \<times> oras_error option"
  read_ingest :: "'l \<Rightarrow> oras_error + string list"
  remove_ingest :: "'l \<Rightarrow> string \<Rightarrow> 'l \<times> oras_error option"

end
