(* ===== verification/Store.thy ===== *)
theory Store
  imports Oci "HOL-Library.Char_ord" "HOL-Library.List_Lexorder" "HOL-Library.Product_Lexorder"
begin

text \<open>
  The local store (internal/store/store.go): reading the index and the heads of its
  manifests, the closure of what manifests name, the decision which descriptions stay, and
  the operations that change the store: removal of a reference and collection. The layout is
  a value \<open>l\<close> of the library's state, threaded through the operations. A result of \<open>None\<close>
  of an operation that walks the content graph means the walk does not return.
\<close>

section \<open>Errors and entries\<close>

record held =
  held_Ref :: string
  Holder :: string
  Attached :: bool
  Through :: string

datatype store_error =
    IndexRead | IndexDecode
  | HeadFetch oras_error | HeadDecode string
  | DropEntry string oras_error | UnlinkOrphan string oras_error | RemoveOrphan string oras_error
  | RemoveReferrer string oras_error | SaveView oras_error | Collection oras_error
  | SaveIndexFile oras_error | Reopen oras_error
  | IngestRead oras_error | IngestRemove string oras_error
  | HeldBy held | RefNotFound string | RefUntag oras_error | RemoveWith string string oras_error

record head =
  h_subject :: "node option"
  artifactType :: string

record entry =
  desc :: descriptor
  ref :: string
  subject :: "node option"
  describes :: bool

definition indexManifests :: "'l oras \<Rightarrow> 'l \<Rightarrow> store_error + descriptor list" where
  "indexManifests O1 l =
     (case read_index O1 l of
        Missing \<Rightarrow> Inr []
      | Unreadable \<Rightarrow> Inl IndexRead
      | Garbled \<Rightarrow> Inl IndexDecode
      | Manifests ds \<Rightarrow> Inr ds)"

section \<open>Heads\<close>

definition describingTypes :: "string list" where
  "describingTypes =
     [''application/vnd.dev.cosign.simplesigning.v1+json'',
      ''application/vnd.cncf.notary.signature'',
      ''application/vnd.dsse.envelope.v1+json'',
      ''application/vnd.in-toto+json'',
      ''application/spdx+json'',
      ''application/vnd.cyclonedx+json'']"

definition describingPrefixes :: "string list" where
  "describingPrefixes =
     [''application/vnd.dev.sigstore.bundle'', ''application/vnd.dev.cosign.artifact.'']"

definition describesOnly :: "string \<Rightarrow> bool" where
  "describesOnly ty =
     (if ty \<in> set describingTypes then True
      else list_ex (\<lambda>p. prefix p ty) describingPrefixes)"

text \<open>The head of a manifest document: its subject, and its type or its config's.\<close>

definition unmarshal_head :: "string \<Rightarrow> head option" where
  "unmarshal_head raw =
     (case parse_json raw of
        Some (JObj ms) \<Rightarrow>
          (case (str_field ''artifactType'' ms, sub_field decode_node ''config'' ms,
                 sub_field decode_node ''subject'' ms) of
             (Some ty, Some cfg, Some sub) \<Rightarrow>
               Some \<lparr>h_subject = sub,
                     artifactType = (case cfg of
                                       Some c \<Rightarrow> (if ty = '''' then MediaType c else ty)
                                     | None \<Rightarrow> ty)\<rparr>
           | _ \<Rightarrow> None)
      | Some JNull \<Rightarrow> Some \<lparr>h_subject = None, artifactType = ''''\<rparr>
      | _ \<Rightarrow> None)"

definition readHead :: "'l oras \<Rightarrow> 'l \<Rightarrow> node \<Rightarrow> store_error + head" where
  "readHead O1 l n =
     (if MediaType n \<in> {MediaTypeImageManifest, MediaTypeImageIndex, mediaTypeArtifactManifest}
      then (case FetchAll O1 l n of
              Inl e \<Rightarrow> Inl (HeadFetch e)
            | Inr raw \<Rightarrow>
                (case unmarshal_head raw of
                   None \<Rightarrow> Inl (HeadDecode (Digest n))
                 | Some h \<Rightarrow> Inr h))
      else Inr \<lparr>h_subject = None, artifactType = ''''\<rparr>)"

section \<open>The index\<close>

text \<open>Which entry last claims each name; every entry also claims its own digest.\<close>

fun last_claims :: "descriptor list \<Rightarrow> nat \<Rightarrow> (string \<Rightarrow> int) \<Rightarrow> (string \<Rightarrow> int)" where
  "last_claims [] i m = m"
| "last_claims (d # ds) i m =
     (let m1 = m(Digest d := -1) in
      last_claims ds (Suc i) (if ref_name d \<noteq> '''' then m1(ref_name d := int i) else m1))"

definition namedEntries :: "descriptor list \<Rightarrow> bool list" where
  "namedEntries all =
     (let m = last_claims all 0 (\<lambda>_. 0) in
      map (\<lambda>(i, d). ref_name d \<noteq> '''' \<and> m (ref_name d) = int i) (zip [0..<length all] all))"

definition entry_of :: "'l oras \<Rightarrow> 'l \<Rightarrow> descriptor \<Rightarrow> bool \<Rightarrow> entry" where
  "entry_of O1 l d named =
     (let h = (case readHead O1 l (node_of d) of
                 Inl _ \<Rightarrow> \<lparr>h_subject = None, artifactType = ''''\<rparr> | Inr h \<Rightarrow> h);
          r = ref_name d in
      \<lparr>desc = d,
       ref = (if r = Digest d \<or> \<not> named then '''' else r),
       subject = h_subject h,
       describes = (h_subject h \<noteq> None \<and> describesOnly (artifactType h))\<rparr>)"

definition readIndex :: "'l oras \<Rightarrow> 'l \<Rightarrow> store_error + entry list" where
  "readIndex O1 l =
     bind_res (indexManifests O1 l)
       (\<lambda>all. Inr (map (\<lambda>(d, nm). entry_of O1 l d nm) (zip all (namedEntries all))))"

section \<open>What manifests name\<close>

text \<open>
  The worklist of \<^verbatim>\<open>successorClosure\<close>, the last element first; \<open>vis\<close> are the visited
  nodes and the result is the set of digests marked.
\<close>

partial_function (option) closure_loop ::
  "'l oras \<Rightarrow> 'l \<Rightarrow> node set \<Rightarrow> string set \<Rightarrow> node list \<Rightarrow> string set option" where
  "closure_loop O1 l vis rch queue =
     (if queue = [] then Some rch
      else
        (let n = last queue; rest = butlast queue in
         if n \<in> vis then closure_loop O1 l vis rch rest
         else
           (case Successors O1 l n of
              Inl _ \<Rightarrow>
                (if Exists O1 l n = Inr True
                 then closure_loop O1 l (insert n vis) (insert (Digest n) rch) rest
                 else closure_loop O1 l (insert n vis) rch rest)
            | Inr ss \<Rightarrow> closure_loop O1 l (insert n vis) (insert (Digest n) rch) (rest @ ss))))"

definition successorClosure :: "'l oras \<Rightarrow> 'l \<Rightarrow> node list \<Rightarrow> string set option" where
  "successorClosure O1 l roots = closure_loop O1 l {} {} roots"

section \<open>Which descriptions stay\<close>

definition entry_node :: "entry \<Rightarrow> node" where
  "entry_node e = node_of (desc e)"

definition staysFor :: "'l oras \<Rightarrow> 'l \<Rightarrow> entry \<Rightarrow> string set \<Rightarrow> bool" where
  "staysFor O1 l e rch =
     (case subject e of
        None \<Rightarrow> False
      | Some s \<Rightarrow>
          (if Digest s \<in> rch then True
           else if ref e = '''' then False
           else if Digest (desc e) \<in> rch then True
           else Exists O1 l s = Inr False))"

text \<open>One pass of the admission loop: the admitted, the reachable, and whether any was added.\<close>

fun admit_pass ::
  "'l oras \<Rightarrow> 'l \<Rightarrow> entry list \<Rightarrow> string set \<Rightarrow> string set \<Rightarrow> bool \<Rightarrow> (string set \<times> string set \<times> bool) option"
where
  "admit_pass O1 l [] adm rch grew = Some (adm, rch, grew)"
| "admit_pass O1 l (e # es) adm rch grew =
     (if subject e = None \<or> Digest (desc e) \<in> adm then admit_pass O1 l es adm rch grew
      else if \<not> staysFor O1 l e rch then admit_pass O1 l es adm rch grew
      else (case successorClosure O1 l [entry_node e] of
              None \<Rightarrow> None
            | Some und \<Rightarrow>
                admit_pass O1 l es (insert (Digest (desc e)) adm) (rch \<union> und) True))"

partial_function (option) admit_loop ::
  "'l oras \<Rightarrow> 'l \<Rightarrow> entry list \<Rightarrow> string set \<Rightarrow> string set \<Rightarrow> string set option" where
  "admit_loop O1 l es adm rch =
     Option.bind (admit_pass O1 l es adm rch False)
       (\<lambda>(adm', rch', grew). if grew then admit_loop O1 l es adm' rch' else Some adm')"

definition content_roots :: "entry list \<Rightarrow> node list" where
  "content_roots es = map entry_node (filter (\<lambda>e. ref e \<noteq> '''' \<and> \<not> describes e) es)"

definition admit :: "'l oras \<Rightarrow> 'l \<Rightarrow> entry list \<Rightarrow> string set option" where
  "admit O1 l es =
     Option.bind (successorClosure O1 l (content_roots es)) (\<lambda>rch. admit_loop O1 l es {} rch)"

fun referrers_pass ::
  "'l oras \<Rightarrow> 'l \<Rightarrow> entry list \<Rightarrow> string set \<Rightarrow> string set \<Rightarrow> entry list \<Rightarrow> (string set \<times> entry list) option"
where
  "referrers_pass O1 l [] rch kept refs = Some (kept, refs)"
| "referrers_pass O1 l (e # es) rch kept refs =
     (if ref e \<noteq> '''' \<or> (case subject e of None \<Rightarrow> True | Some s \<Rightarrow> Digest s \<notin> rch)
      then referrers_pass O1 l es rch kept refs
      else (case successorClosure O1 l [entry_node e] of
              None \<Rightarrow> None
            | Some und \<Rightarrow> referrers_pass O1 l es rch (kept \<union> und) (refs @ [e])))"

definition withReferrersOf ::
  "'l oras \<Rightarrow> 'l \<Rightarrow> entry list \<Rightarrow> string set \<Rightarrow> (string set \<times> entry list) option" where
  "withReferrersOf O1 l es rch = referrers_pass O1 l es rch rch []"

definition keeps ::
  "'l oras \<Rightarrow> 'l \<Rightarrow> entry list \<Rightarrow> (string set \<times> entry list) option" where
  "keeps O1 l es =
     Option.bind (admit O1 l es)
       (\<lambda>adm. let holders = filter (\<lambda>e. ref e \<noteq> '''' \<and> (\<not> describes e \<or> Digest (desc e) \<in> adm)) es in
          Option.bind (successorClosure O1 l (map entry_node holders))
            (\<lambda>rch. Option.bind (withReferrersOf O1 l es rch)
               (\<lambda>(kept, referrers). Some (kept, holders @ referrers))))"

text \<open>\<^verbatim>\<open>Held\<close>: whether collection keeps a descriptor.\<close>

definition Held :: "'l oras \<Rightarrow> 'l \<Rightarrow> node \<Rightarrow> (store_error + bool) option" where
  "Held O1 l d =
     (case readIndex O1 l of
        Inl e \<Rightarrow> Some (Inl e)
      | Inr es \<Rightarrow> map_option (\<lambda>(kept, _). Inr (Digest d \<in> kept)) (keeps O1 l es))"

section \<open>Operations that can stop early\<close>

text \<open>A step that may not return, or stop with an error, followed by another.\<close>

definition and_then ::
  "('l \<times> store_error option) option \<Rightarrow> ('l \<Rightarrow> ('l \<times> store_error option) option) \<Rightarrow>
   ('l \<times> store_error option) option" where
  "and_then r f =
     (case r of
        None \<Rightarrow> None
      | Some (l, Some e) \<Rightarrow> Some (l, Some e)
      | Some (l, None) \<Rightarrow> f l)"

section \<open>Collection\<close>

fun drop_entries :: "'l oras \<Rightarrow> descriptor list \<Rightarrow> 'l \<Rightarrow> 'l \<times> store_error option" where
  "drop_entries O1 [] l = (l, None)"
| "drop_entries O1 (d # ds) l =
     (if Exists O1 l (node_of d) \<noteq> Inr False then drop_entries O1 ds l
      else (case Delete O1 l (node_of d) of
              (l', None) \<Rightarrow> drop_entries O1 ds l'
            | (l', Some e) \<Rightarrow>
                (if e = NotFound \<or> e = NotExist then drop_entries O1 ds l'
                 else (l', Some (DropEntry (Digest d) e)))))"

definition dropIndexEntriesWithoutBlobs :: "'l oras \<Rightarrow> 'l \<Rightarrow> 'l \<times> store_error option" where
  "dropIndexEntriesWithoutBlobs O1 l =
     (case indexManifests O1 l of
        Inl e \<Rightarrow> (l, Some e)
      | Inr all \<Rightarrow> drop_entries O1 all l)"

fun unlink_entries :: "'l oras \<Rightarrow> string set \<Rightarrow> entry list \<Rightarrow> 'l \<Rightarrow> 'l \<times> store_error option" where
  "unlink_entries O1 adm [] l = (l, None)"
| "unlink_entries O1 adm (e # es) l =
     (if ref e = '''' \<or> \<not> describes e \<or> Digest (desc e) \<in> adm then unlink_entries O1 adm es l
      else (case Untag O1 l (ref e) of
              (l1, u) \<Rightarrow>
                (if u \<noteq> None \<and> u \<noteq> Some NotFound \<and> u \<noteq> Some InvalidReference
                 then (l1, Some (UnlinkOrphan (ref e) (the u)))
                 else (case Delete O1 l1 (entry_node e) of
                         (l2, d) \<Rightarrow>
                           (if d \<noteq> None \<and> d \<noteq> Some NotFound
                            then (l2, Some (RemoveOrphan (ref e) (the d)))
                            else unlink_entries O1 adm es l2)))))"

definition unlinkOrphanedTagged :: "'l oras \<Rightarrow> 'l \<Rightarrow> ('l \<times> store_error option) option" where
  "unlinkOrphanedTagged O1 l =
     (case readIndex O1 l of
        Inl e \<Rightarrow> Some (l, Some e)
      | Inr es \<Rightarrow> map_option (\<lambda>adm. unlink_entries O1 adm es l) (admit O1 l es))"

text \<open>The digests to forget are collected while the entries out of reach are deleted.\<close>

fun delete_untagged ::
  "'l oras \<Rightarrow> string set \<Rightarrow> string set \<Rightarrow> entry list \<Rightarrow> string list \<Rightarrow> 'l \<Rightarrow>
   'l \<times> (store_error + string list)" where
  "delete_untagged O1 rch kept [] forget l = (l, Inr forget)"
| "delete_untagged O1 rch kept (e # es) forget l =
     (case (ref e, subject e) of
        ([], Some s) \<Rightarrow>
          (if Digest s \<in> rch then delete_untagged O1 rch kept es forget l
           else if Digest (desc e) \<in> kept
           then delete_untagged O1 rch kept es (forget @ [Digest (desc e)]) l
           else (case Delete O1 l (entry_node e) of
                   (l', d) \<Rightarrow>
                     (if d \<noteq> None \<and> d \<noteq> Some NotFound
                      then (l', Inl (RemoveReferrer (Digest (desc e)) (the d)))
                      else delete_untagged O1 rch kept es forget l')))
      | _ \<Rightarrow> delete_untagged O1 rch kept es forget l)"

definition forgetUntagged :: "'l oras \<Rightarrow> 'l \<Rightarrow> string list \<Rightarrow> 'l \<times> store_error option" where
  "forgetUntagged O1 l ds =
     (if ds = [] then (l, None)
      else (case read_index O1 l of
              Manifests all \<Rightarrow>
                (let kept = map snd (filter (\<lambda>(nm, m).
                       \<not> (Digest m \<in> set ds \<and> (ref_name m = '''' \<or> ref_name m = Digest m \<or> \<not> nm)))
                     (zip (namedEntries all) all)) in
                 (case write_index O1 l kept of
                    (l1, Some e) \<Rightarrow> (l1, Some (SaveIndexFile e))
                  | (l1, None) \<Rightarrow>
                      (case reopen O1 l1 of
                         (l2, Some e) \<Rightarrow> (l2, Some (Reopen e))
                       | (l2, None) \<Rightarrow> (l2, None))))
            | Garbled \<Rightarrow> (l, Some IndexDecode)
            | _ \<Rightarrow> (l, Some IndexRead)))"

definition deleteUnreachableUntagged :: "'l oras \<Rightarrow> 'l \<Rightarrow> ('l \<times> store_error option) option" where
  "deleteUnreachableUntagged O1 l =
     (case readIndex O1 l of
        Inl e \<Rightarrow> Some (l, Some e)
      | Inr es \<Rightarrow>
          Option.bind (successorClosure O1 l (map entry_node (filter (\<lambda>e. ref e \<noteq> '''') es)))
            (\<lambda>rch. Option.bind (withReferrersOf O1 l es rch)
               (\<lambda>(kept, _).
                  (case delete_untagged O1 rch kept es [] l of
                     (l', Inl e) \<Rightarrow> Some (l', Some e)
                   | (l', Inr forget) \<Rightarrow> Some (forgetUntagged O1 l' forget)))))"

definition unlinkOrphanedReferrers :: "'l oras \<Rightarrow> 'l \<Rightarrow> ('l \<times> store_error option) option" where
  "unlinkOrphanedReferrers O1 l =
     and_then (unlinkOrphanedTagged O1 l) (deleteUnreachableUntagged O1)"

fun clear_ingest :: "'l oras \<Rightarrow> string list \<Rightarrow> 'l \<Rightarrow> 'l \<times> store_error option" where
  "clear_ingest O1 [] l = (l, None)"
| "clear_ingest O1 (f # fs) l =
     (case remove_ingest O1 l f of
        (l', None) \<Rightarrow> clear_ingest O1 fs l'
      | (l', Some e) \<Rightarrow> (l', Some (IngestRemove f e)))"

text \<open>The library's collection, then the index saved whether or not it finished.\<close>

definition collect_and_save :: "'l oras \<Rightarrow> 'l \<Rightarrow> 'l \<times> store_error option" where
  "collect_and_save O1 l =
     (let (l1, gcErr) = Collect O1 l; (l2, saveErr) = SaveIndex O1 l1 in
      (l2, (case gcErr of
              Some e \<Rightarrow> Some (Collection e)
            | None \<Rightarrow> map_option SaveView saveErr)))"

definition remove_partials :: "'l oras \<Rightarrow> 'l \<Rightarrow> 'l \<times> store_error option" where
  "remove_partials O1 l =
     (case read_ingest O1 l of
        Inl e \<Rightarrow> (l, if e = NotExist then None else Some (IngestRead e))
      | Inr names \<Rightarrow> clear_ingest O1 names l)"

definition GC :: "'l oras \<Rightarrow> 'l \<Rightarrow> ('l \<times> store_error option) option" where
  "GC O1 l =
     and_then (Some (dropIndexEntriesWithoutBlobs O1 l))
       (\<lambda>l1. and_then (unlinkOrphanedReferrers O1 l1)
          (\<lambda>l2. and_then (Some (collect_and_save O1 l2))
             (\<lambda>l3. Some (remove_partials O1 l3))))"

section \<open>Removal\<close>

text \<open>One pass over the entries, and the passes until none adds a depth.\<close>

fun depth_pass :: "entry list \<Rightarrow> (string \<Rightarrow> nat option) \<Rightarrow> bool \<Rightarrow> (string \<Rightarrow> nat option) \<times> bool" where
  "depth_pass [] depth grew = (depth, grew)"
| "depth_pass (e # es) depth grew =
     (if ref e = '''' \<or> \<not> describes e then depth_pass es depth grew
      else (case subject e of
              None \<Rightarrow> depth_pass es depth grew
            | Some s \<Rightarrow>
                (case depth (Digest s) of
                   None \<Rightarrow> depth_pass es depth grew
                 | Some d \<Rightarrow>
                     (if depth (Digest (desc e)) \<noteq> None then depth_pass es depth grew
                      else depth_pass es (depth(Digest (desc e) \<mapsto> d + 1)) True))))"

partial_function (option) depth_loop ::
  "entry list \<Rightarrow> (string \<Rightarrow> nat option) \<Rightarrow> (string \<Rightarrow> nat option) option" where
  "depth_loop es depth =
     (if snd (depth_pass es depth False) then depth_loop es (fst (depth_pass es depth False))
      else Some (fst (depth_pass es depth False)))"

definition holder_order :: "entry list \<Rightarrow> entry list" where
  "holder_order = sort_key (\<lambda>e. (describes e, ref e))"

text \<open>The first tagged holder whose closure has the target, by its position.\<close>

fun reaching :: "'l oras \<Rightarrow> 'l \<Rightarrow> entry list \<Rightarrow> string \<Rightarrow> nat \<Rightarrow> nat option option" where
  "reaching O1 l [] target i = Some None"
| "reaching O1 l (h # hs) target i =
     (if ref h = '''' then reaching O1 l hs target (i + 1)
      else Option.bind (successorClosure O1 l [entry_node h])
             (\<lambda>u. if target \<in> u then Some (Some i) else reaching O1 l hs target (i + 1)))"

fun best_attached ::
  "'l oras \<Rightarrow> 'l \<Rightarrow> entry list \<Rightarrow> entry list \<Rightarrow> string \<Rightarrow> nat option \<Rightarrow> nat option option" where
  "best_attached O1 l hs [] d best = Some best"
| "best_attached O1 l hs (h # rest) d best =
     (if ref h \<noteq> '''' then best_attached O1 l hs rest d best
      else (case subject h of
              None \<Rightarrow> best_attached O1 l hs rest d best
            | Some s \<Rightarrow>
                Option.bind (successorClosure O1 l [entry_node h])
                  (\<lambda>u. if d \<notin> u then best_attached O1 l hs rest d best
                       else Option.bind (reaching O1 l hs (Digest s) 0)
                         (\<lambda>r. best_attached O1 l hs rest d
                            (case r of
                               None \<Rightarrow> best
                             | Some i \<Rightarrow>
                                 (case best of
                                    None \<Rightarrow> Some i
                                  | Some b \<Rightarrow> (if i < b then Some i else best)))))))"

definition holderOf :: "'l oras \<Rightarrow> 'l \<Rightarrow> entry list \<Rightarrow> string \<Rightarrow> (string \<times> bool) option" where
  "holderOf O1 l holders d =
     (let hs = holder_order holders in
      Option.bind (reaching O1 l hs d 0)
        (\<lambda>r. case r of
               Some i \<Rightarrow> Some (ref (hs ! i), False)
             | None \<Rightarrow>
                 map_option (\<lambda>b. case b of
                      Some i \<Rightarrow> (ref (hs ! i), True)
                    | None \<Rightarrow> (''other content in the store'', False))
                   (best_attached O1 l hs hs d None)))"

text \<open>The first tagged entry that would go and is kept.\<close>

definition first_kept :: "string set \<Rightarrow> entry list \<Rightarrow> entry option" where
  "first_kept kept along = find (\<lambda>e. Digest (desc e) \<in> kept \<and> ref e \<noteq> '''') along"

text \<open>The refusal, or the entries that go: what is left of the entries decides.\<close>

definition weigh ::
  "'l oras \<Rightarrow> 'l \<Rightarrow> node \<Rightarrow> string \<Rightarrow> entry list \<Rightarrow> string set \<Rightarrow> entry list \<Rightarrow>
   (store_error + bool \<times> entry list) option" where
  "weigh O1 l d r along kept holders =
     (if Digest d \<in> kept then
        map_option (\<lambda>(h, a). Inl (HeldBy \<lparr>held_Ref = r, Holder = h, Attached = a, Through = ''''\<rparr>))
          (holderOf O1 l holders (Digest d))
      else (case first_kept kept along of
              Some e \<Rightarrow>
                map_option (\<lambda>(h, a). Inl (HeldBy \<lparr>held_Ref = r, Holder = h, Attached = a, Through = ref e\<rparr>))
                  (holderOf O1 l holders (Digest (desc e)))
            | None \<Rightarrow> Some (Inr (True, along))))"

definition going_along :: "(string \<Rightarrow> nat option) \<Rightarrow> node \<Rightarrow> entry list \<Rightarrow> entry list" where
  "going_along depth d es =
     sort_key (\<lambda>e. - int (the (depth (Digest (desc e)))))
       (filter (\<lambda>e. depth (Digest (desc e)) \<noteq> None \<and> Digest (desc e) \<noteq> Digest d) es)"

definition deletable ::
  "'l oras \<Rightarrow> 'l \<Rightarrow> node \<Rightarrow> string \<Rightarrow> (store_error + bool \<times> entry list) option" where
  "deletable O1 l d r =
     (case readIndex O1 l of
        Inl e \<Rightarrow> Some (Inl e)
      | Inr es \<Rightarrow>
          (if list_ex (\<lambda>e. Digest (desc e) = Digest d \<and> ref e \<noteq> '''' \<and> ref e \<noteq> r) es
           then Some (Inr (False, []))
           else
             Option.bind (depth_loop es [Digest d \<mapsto> 0])
               (\<lambda>depth. Option.bind (keeps O1 l (filter (\<lambda>e. depth (Digest (desc e)) = None) es))
                  (\<lambda>(kept, holders). weigh O1 l d r (going_along depth d es) kept holders))))"

text \<open>The manifests that go along, once per digest, with the references of each.\<close>

fun along_order :: "string set \<Rightarrow> entry list \<Rightarrow> node list" where
  "along_order seen [] = []"
| "along_order seen (e # es) =
     (if Digest (desc e) \<in> seen then along_order seen es
      else entry_node e # along_order (insert (Digest (desc e)) seen) es)"

definition along_names :: "entry list \<Rightarrow> string \<Rightarrow> string list" where
  "along_names along d = map ref (filter (\<lambda>e. Digest (desc e) = d \<and> ref e \<noteq> '''') along)"

fun delete_along ::
  "'l oras \<Rightarrow> (string \<Rightarrow> string list) \<Rightarrow> string \<Rightarrow> node list \<Rightarrow> string list \<Rightarrow> 'l \<Rightarrow>
   'l \<times> string list \<times> store_error option" where
  "delete_along O1 names r [] refs l = (l, refs, None)"
| "delete_along O1 names r (d # ds) refs l =
     (case Delete O1 l d of
        (l', e) \<Rightarrow>
          (if e \<noteq> None \<and> e \<noteq> Some NotFound then (l', refs, Some (RemoveWith (Digest d) r (the e)))
           else delete_along O1 names r ds (refs @ names (Digest d)) l'))"

text \<open>What is to be deleted with the reference, decided before anything is changed.\<close>

definition plan_of :: "node \<Rightarrow> store_error + bool \<times> entry list \<Rightarrow> store_error + node option \<times> entry list" where
  "plan_of d res =
     (case res of
        Inl e \<Rightarrow> Inl e
      | Inr (del, taken) \<Rightarrow> Inr (if del then (Some d, taken) else (None, [])))"

definition removal_plan ::
  "'l oras \<Rightarrow> 'l \<Rightarrow> string \<Rightarrow> (store_error + node option \<times> entry list) option" where
  "removal_plan O1 l r =
     (case oci_Resolve O1 l r of
        Inl _ \<Rightarrow> Some (Inr (None, []))
      | Inr d \<Rightarrow>
          (case readHead O1 l (node_of d) of
             Inl _ \<Rightarrow> Some (Inr (None, []))
           | Inr h \<Rightarrow>
               (if h_subject h \<noteq> None \<and> describesOnly (artifactType h) then
                  map_option (plan_of (node_of d)) (deletable O1 l (node_of d) r)
                else Some (Inr (None, [])))))"

definition RemoveReporting ::
  "'l oras \<Rightarrow> 'l \<Rightarrow> string \<Rightarrow> ('l \<times> string list \<times> store_error option) option" where
  "RemoveReporting O1 l r =
     Option.bind (removal_plan O1 l r)
       (\<lambda>plan. case plan of
          Inl e \<Rightarrow> Some (l, [], Some e)
        | Inr (deleteAfter, along) \<Rightarrow>
            Some (case delete_along O1 (along_names along) r (along_order {} along) [] l of
                    (l1, refs, Some e) \<Rightarrow> (l1, refs, Some e)
                  | (l1, refs, None) \<Rightarrow>
                      (case Untag O1 l1 r of
                         (l2, Some e) \<Rightarrow> (l2, refs, Some (if e = NotFound then RefNotFound r else RefUntag e))
                       | (l2, None) \<Rightarrow>
                           (case deleteAfter of
                              None \<Rightarrow> (l2, refs, None)
                            | Some d \<Rightarrow>
                                (case Delete O1 l2 d of
                                   (l3, e) \<Rightarrow>
                                     (l3, refs, if e \<noteq> None \<and> e \<noteq> Some NotFound
                                                then Some (RemoveReferrer r (the e)) else None))))))"

definition Remove :: "'l oras \<Rightarrow> 'l \<Rightarrow> string \<Rightarrow> ('l \<times> store_error option) option" where
  "Remove O1 l r = map_option (\<lambda>(l', _, e). (l', e)) (RemoveReporting O1 l r)"

end
