(* ===== verification/StoreGraph.thy ===== *)
theory StoreGraph
  imports Store
begin

text \<open>
  What the walks of the store compute: the closure marks exactly what is reachable through
  nodes the library can read, the admission loop computes the least set of descriptions that
  have a reason to stay, and both return whenever the graph is finite.
\<close>

section \<open>Reachability\<close>

inductive_set reach :: "'l oras \<Rightarrow> 'l \<Rightarrow> node set \<Rightarrow> node set" for O1 l R where
  reach_root: "n \<in> R \<Longrightarrow> n \<in> reach O1 l R"
| reach_step: "n \<in> reach O1 l R \<Longrightarrow> Successors O1 l n = Inr ss \<Longrightarrow> m \<in> set ss \<Longrightarrow> m \<in> reach O1 l R"

text \<open>A node is marked when its successors can be read, or it is present all the same.\<close>

definition marks :: "'l oras \<Rightarrow> 'l \<Rightarrow> node \<Rightarrow> bool" where
  "marks O1 l n \<longleftrightarrow> (\<exists>ss. Successors O1 l n = Inr ss) \<or> Exists O1 l n = Inr True"

definition marked :: "'l oras \<Rightarrow> 'l \<Rightarrow> node set \<Rightarrow> string set" where
  "marked O1 l R = Digest ` {n \<in> reach O1 l R. marks O1 l n}"

lemma reach_mono: "R \<subseteq> S \<Longrightarrow> reach O1 l R \<subseteq> reach O1 l S"
proof
  fix n assume "R \<subseteq> S" "n \<in> reach O1 l R"
  from this(2,1) show "n \<in> reach O1 l S"
    by (induction rule: reach.induct) (auto intro: reach.intros)
qed

lemma reach_Un: "reach O1 l (R \<union> S) = reach O1 l R \<union> reach O1 l S"
proof
  show "reach O1 l (R \<union> S) \<subseteq> reach O1 l R \<union> reach O1 l S"
  proof
    fix n assume "n \<in> reach O1 l (R \<union> S)"
    then show "n \<in> reach O1 l R \<union> reach O1 l S"
      by (induction rule: reach.induct) (auto intro: reach.intros)
  qed
qed (simp add: reach_mono)

lemma reach_finite_union:
  "finite (reach O1 l S) \<Longrightarrow> R \<subseteq> S \<Longrightarrow> finite (reach O1 l R)"
  by (meson finite_subset reach_mono)

lemma marked_mono: "R \<subseteq> S \<Longrightarrow> marked O1 l R \<subseteq> marked O1 l S"
  unfolding marked_def by (intro image_mono) (auto dest: subsetD [OF reach_mono])

lemma marked_Un: "marked O1 l (R \<union> S) = marked O1 l R \<union> marked O1 l S"
  by (auto simp: marked_def reach_Un)

lemma reach_least:
  "R \<subseteq> V \<Longrightarrow> (\<And>n ss. n \<in> V \<Longrightarrow> Successors O1 l n = Inr ss \<Longrightarrow> set ss \<subseteq> V) \<Longrightarrow> reach O1 l R \<subseteq> V"
proof
  fix n
  assume R: "R \<subseteq> V" and V: "\<And>n ss. n \<in> V \<Longrightarrow> Successors O1 l n = Inr ss \<Longrightarrow> set ss \<subseteq> V"
    and "n \<in> reach O1 l R"
  from this(3) show "n \<in> V" by (induction rule: reach.induct) (use R V in blast)+
qed

section \<open>The closure\<close>

definition walked :: "'l oras \<Rightarrow> 'l \<Rightarrow> node set \<Rightarrow> node set \<Rightarrow> string set \<Rightarrow> node list \<Rightarrow> bool" where
  "walked O1 l R vis rch queue \<longleftrightarrow>
     R \<subseteq> vis \<union> set queue \<and> vis \<union> set queue \<subseteq> reach O1 l R \<and>
     (\<forall>n \<in> vis. \<forall>ss. Successors O1 l n = Inr ss \<longrightarrow> set ss \<subseteq> vis \<union> set queue) \<and>
     rch = Digest ` {n \<in> vis. marks O1 l n}"

lemma queue_split: "queue \<noteq> [] \<Longrightarrow> set queue = insert (last queue) (set (butlast queue))"
  by (cases queue rule: rev_cases) auto

lemmas closure_loop_induct = closure_loop.raw_induct [rotated 1, consumes 1, case_names step]

lemma closure_loop_walked:
  "closure_loop O1 l vis rch queue = Some res \<Longrightarrow> walked O1 l R vis rch queue \<Longrightarrow> res = marked O1 l R"
proof (induction O1 l vis rch queue res rule: closure_loop_induct)
  case (step loop O1 l vis rch queue res)
  note inv = step.prems
  show ?case
  proof (cases "queue = []")
    case True
    with step.hyps have "res = rch" by simp
    moreover have "reach O1 l R = vis"
      using inv True by (intro subset_antisym reach_least) (auto simp: walked_def)
    ultimately show ?thesis using inv by (simp add: walked_def marked_def)
  next
    case False
    let ?n = "last queue" and ?q = "butlast queue"
    note q = queue_split [OF False]
    have n: "?n \<in> reach O1 l R" using inv q by (auto simp: walked_def)
    have nx: "x \<in> vis \<or> x \<in> set queue" if "m \<in> vis" "Successors O1 l m = Inr ss" "x \<in> set ss" for m ss x
      using inv that unfolding walked_def by blast
    consider (old) "?n \<in> vis"
      | (here) e where "?n \<notin> vis" "Successors O1 l ?n = Inl e" "Exists O1 l ?n = Inr True"
      | (gone) e where "?n \<notin> vis" "Successors O1 l ?n = Inl e" "Exists O1 l ?n \<noteq> Inr True"
      | (read) ss where "?n \<notin> vis" "Successors O1 l ?n = Inr ss"
      by (cases "Successors O1 l ?n") auto
    then show ?thesis
    proof cases
      case old
      have "loop O1 l vis rch ?q = Some res" using step.hyps False old by (simp add: Let_def)
      moreover have "vis \<union> set queue = vis \<union> set ?q" using old q by auto
      with inv have "walked O1 l R vis rch ?q" by (simp add: walked_def)
      ultimately show ?thesis by (rule step.IH)
    next
      case here
      have "loop O1 l (insert ?n vis) (insert (Digest ?n) rch) ?q = Some res"
        using step.hyps False here by (simp add: Let_def)
      moreover have "walked O1 l R (insert ?n vis) (insert (Digest ?n) rch) ?q"
        using inv q here n by (auto simp: walked_def marks_def)
      ultimately show ?thesis by (rule step.IH)
    next
      case gone
      have "loop O1 l (insert ?n vis) rch ?q = Some res"
        using step.hyps False gone by (simp add: Let_def)
      moreover have "walked O1 l R (insert ?n vis) rch ?q"
        using inv q gone n by (auto simp: walked_def marks_def)
      ultimately show ?thesis by (rule step.IH)
    next
      case read
      have "loop O1 l (insert ?n vis) (insert (Digest ?n) rch) (?q @ ss) = Some res"
        using step.hyps False read by (simp add: Let_def)
      moreover have "insert ?n vis \<union> set (?q @ ss) = vis \<union> set queue \<union> set ss" using q by auto
      then have "walked O1 l R (insert ?n vis) (insert (Digest ?n) rch) (?q @ ss)"
        using inv read n unfolding walked_def
        by (auto simp: marks_def intro: reach_step dest: nx)
      ultimately show ?thesis by (rule step.IH)
    qed
  qed
qed

lemma closure_loop_returns:
  assumes fin: "finite U"
    and closed: "\<And>n ss. n \<in> U \<Longrightarrow> Successors O1 l n = Inr ss \<Longrightarrow> set ss \<subseteq> U"
  shows "set queue \<subseteq> U \<Longrightarrow> \<exists>res. closure_loop O1 l vis rch queue = Some res"
proof (induction "card (U - vis)" arbitrary: vis rch queue rule: less_induct)
  case less
  note outer = less.hyps
  from less.prems show ?case
  proof (induction queue rule: rev_induct)
    case Nil
    show ?case by (simp add: closure_loop.simps)
  next
    case (snoc n q)
    show ?case
    proof (cases "n \<in> vis")
      case True
      with snoc show ?thesis by (subst closure_loop.simps) (simp add: Let_def)
    next
      case False
      with snoc.prems fin have "card (U - insert n vis) < card (U - vis)"
        by (intro psubset_card_mono) auto
      from outer [OF this] have go: "set q' \<subseteq> U \<Longrightarrow> \<exists>res. closure_loop O1 l (insert n vis) r q' = Some res"
        for q' r by blast
      show ?thesis
      proof (cases "Successors O1 l n")
        case (Inl e)
        with False go snoc.prems show ?thesis by (subst closure_loop.simps) (simp add: Let_def)
      next
        case (Inr ss)
        with closed snoc.prems have "set (q @ ss) \<subseteq> U" by auto
        with False Inr go [of "q @ ss"] show ?thesis by (subst closure_loop.simps) (simp add: Let_def)
      qed
    qed
  qed
qed

lemma successorClosure_marked:
  "successorClosure O1 l roots = Some res \<Longrightarrow> res = marked O1 l (set roots)"
  unfolding successorClosure_def
  by (erule closure_loop_walked) (auto simp: walked_def intro: reach_root)

lemma successorClosure_returns:
  assumes "finite (reach O1 l (set roots))"
  shows "\<exists>res. successorClosure O1 l roots = Some res"
  unfolding successorClosure_def
  by (rule closure_loop_returns [OF assms]) (auto intro: reach.intros)

text \<open>
  The collector's reachability question is answered exactly: on a finite graph the walk
  returns, and a digest is in the result if and only if some node reachable from the roots
  carries it and either its successors can be read or it is present in the store. A node the
  store does not hold is not marked, whatever names it.
\<close>

theorem successorClosure_exact:
  assumes "finite (reach O1 l (set roots))"
  shows "\<exists>res. successorClosure O1 l roots = Some res \<and>
    (\<forall>d. d \<in> res \<longleftrightarrow>
       (\<exists>n \<in> reach O1 l (set roots). Digest n = d \<and>
          ((\<exists>ss. Successors O1 l n = Inr ss) \<or> Exists O1 l n = Inr True)))"
  using successorClosure_returns [OF assms] successorClosure_marked
  by (fastforce simp: marked_def marks_def)

section \<open>The admission loop\<close>

lemma admit_pass_effect:
  "admit_pass O1 l es adm rch g = Some (adm', rch', g') \<Longrightarrow>
   adm \<subseteq> adm' \<and> adm' \<subseteq> adm \<union> (\<lambda>e. Digest (desc e)) ` set es \<and> (g \<longrightarrow> g') \<and>
   (g' \<and> \<not> g \<longrightarrow> adm \<subset> adm') \<and>
   (\<not> g' \<longrightarrow> adm' = adm \<and> rch' = rch \<and>
      (\<forall>e \<in> set es. subject e \<noteq> None \<and> Digest (desc e) \<notin> adm \<longrightarrow> \<not> staysFor O1 l e rch))"
proof (induction O1 l es adm rch g rule: admit_pass.induct)
  case (1 O1 l adm rch g)
  then show ?case by simp
next
  case (2 O1 l e es adm rch g)
  consider (skip) "subject e = None \<or> Digest (desc e) \<in> adm"
    | (stay) "\<not> (subject e = None \<or> Digest (desc e) \<in> adm)" "\<not> staysFor O1 l e rch"
    | (add) u where "\<not> (subject e = None \<or> Digest (desc e) \<in> adm)" "staysFor O1 l e rch"
        "successorClosure O1 l [entry_node e] = Some u"
    using "2.prems" by (auto split: if_splits option.splits)
  then show ?case
  proof cases
    case skip
    then have "admit_pass O1 l es adm rch g = Some (adm', rch', g')" using "2.prems" by simp
    from "2.IH"(1) [OF skip this] skip show ?thesis by auto
  next
    case stay
    with "2.prems" have "admit_pass O1 l es adm rch g = Some (adm', rch', g')" by (simp split: if_splits)
    from "2.IH"(2) [OF stay this] stay show ?thesis by auto
  next
    case add
    then have rec: "admit_pass O1 l es (insert (Digest (desc e)) adm) (rch \<union> u) True = Some (adm', rch', g')"
      using "2.prems" by auto
    from "2.IH"(3) [OF add(1) _ add(3) rec] add show ?thesis by auto
  qed
qed

text \<open>Whatever each admission preserves, the loop preserves.\<close>

lemma admit_pass_inv:
  assumes "admit_pass O1 l es adm rch g = Some (adm', rch', g')" and "P adm rch"
    and "\<And>e a r. e \<in> set es \<Longrightarrow> P a r \<Longrightarrow> subject e \<noteq> None \<Longrightarrow> staysFor O1 l e r \<Longrightarrow>
      P (insert (Digest (desc e)) a) (r \<union> marked O1 l {entry_node e})"
  shows "P adm' rch'"
  using assms
proof (induction O1 l es adm rch g rule: admit_pass.induct)
  case (1 O1 l adm rch g)
  then show ?case by simp
next
  case (2 O1 l e es adm rch g)
  note step = "2.prems"(3)
  show ?case
  proof (cases "subject e = None \<or> Digest (desc e) \<in> adm \<or> \<not> staysFor O1 l e rch")
    case True
    then have "admit_pass O1 l es adm rch g = Some (adm', rch', g')"
      using "2.prems"(1) by (auto split: if_splits)
    with "2.IH"(1,2) True "2.prems"(2) step show ?thesis by (meson list.set_intros(2))
  next
    case False
    then obtain u where u: "successorClosure O1 l [entry_node e] = Some u"
      and rec: "admit_pass O1 l es (insert (Digest (desc e)) adm) (rch \<union> u) True = Some (adm', rch', g')"
      using "2.prems"(1) by (auto split: option.splits)
    from successorClosure_marked [OF u] have "u = marked O1 l {entry_node e}" by simp
    with step [of e adm rch] False "2.prems"(2)
    have "P (insert (Digest (desc e)) adm) (rch \<union> u)" by simp
    with "2.IH"(3) False u rec step show ?thesis by (meson list.set_intros(2))
  qed
qed

lemmas admit_loop_induct = admit_loop.raw_induct [rotated 1, consumes 1, case_names step]

lemma admit_loop_final:
  assumes "admit_loop O1 l es adm rch = Some res" and "P adm rch"
    and "\<And>e a r. e \<in> set es \<Longrightarrow> P a r \<Longrightarrow> subject e \<noteq> None \<Longrightarrow> staysFor O1 l e r \<Longrightarrow>
      P (insert (Digest (desc e)) a) (r \<union> marked O1 l {entry_node e})"
  shows "\<exists>r. P res r \<and>
    (\<forall>e \<in> set es. subject e \<noteq> None \<and> Digest (desc e) \<notin> res \<longrightarrow> \<not> staysFor O1 l e r)"
  using assms
proof (induction O1 l es adm rch res rule: admit_loop_induct)
  case (step loop O1 l es adm rch res)
  from step.hyps obtain adm' rch' g' where p: "admit_pass O1 l es adm rch False = Some (adm', rch', g')"
    and res: "(if g' then loop O1 l es adm' rch' else Some adm') = Some res"
    by (cases "admit_pass O1 l es adm rch False") auto
  have P': "P adm' rch'" by (rule admit_pass_inv [where P = P, OF p step.prems(1)]) (rule step.prems(2))
  show ?case
  proof (cases g')
    case True
    with res have "loop O1 l es adm' rch' = Some res" by simp
    from step.IH [OF this P' step.prems(2)] show ?thesis by blast
  next
    case False
    with admit_pass_effect [OF p] res P' show ?thesis by auto
  qed
qed

lemma admit_pass_returns:
  assumes "\<And>e. e \<in> set es \<Longrightarrow> finite (reach O1 l {entry_node e})"
  shows "\<exists>res. admit_pass O1 l es adm rch g = Some res"
  using assms
proof (induction O1 l es adm rch g rule: admit_pass.induct)
  case (1 O1 l adm rch g)
  show ?case by simp
next
  case (2 O1 l e es adm rch g)
  from "2.prems" have "finite (reach O1 l (set [entry_node e]))" by simp
  from successorClosure_returns [OF this] obtain u where "successorClosure O1 l [entry_node e] = Some u" ..
  with 2 show ?case by simp
qed

lemma admit_loop_returns:
  assumes fin: "\<And>e. e \<in> set es \<Longrightarrow> finite (reach O1 l {entry_node e})"
  shows "\<exists>res. admit_loop O1 l es adm rch = Some res"
proof (induction "card ((\<lambda>e. Digest (desc e)) ` set es - adm)" arbitrary: adm rch rule: less_induct)
  case less
  from admit_pass_returns [OF fin] obtain adm' rch' g'
    where p: "admit_pass O1 l es adm rch False = Some (adm', rch', g')"
    by (metis prod_cases3)
  show ?case
  proof (cases g')
    case True
    from admit_pass_effect [OF p] True
    have "(\<lambda>e. Digest (desc e)) ` set es - adm' \<subset> (\<lambda>e. Digest (desc e)) ` set es - adm" by auto
    then have "card ((\<lambda>e. Digest (desc e)) ` set es - adm') < card ((\<lambda>e. Digest (desc e)) ` set es - adm)"
      by (intro psubset_card_mono) auto
    from less [OF this, of rch'] p True show ?thesis by (subst admit_loop.simps) simp
  next
    case False
    with p show ?thesis by (subst admit_loop.simps) simp
  qed
qed

lemma admit_returns:
  assumes "finite (reach O1 l (entry_node ` set es))"
  shows "\<exists>adm. admit O1 l es = Some adm"
proof -
  have "finite (reach O1 l (set (content_roots es)))"
    using assms by (rule reach_finite_union) (auto simp: content_roots_def)
  from successorClosure_returns [OF this] obtain rch
    where "successorClosure O1 l (content_roots es) = Some rch" ..
  moreover have each: "finite (reach O1 l {entry_node e})" if "e \<in> set es" for e
    using assms by (rule reach_finite_union) (use that in auto)
  from admit_loop_returns [OF each] obtain adm where "admit_loop O1 l es {} rch = Some adm" by blast
  ultimately show ?thesis by (simp add: admit_def)
qed

text \<open>
  What is alive beside the tagged artifacts: a description of something alive, and, if it is
  tagged, one that is itself reached or whose subject is gone from the store.
\<close>

inductive alive :: "'l oras \<Rightarrow> 'l \<Rightarrow> entry list \<Rightarrow> entry \<Rightarrow> bool" for O1 l es where
  alive_root: "e \<in> set es \<Longrightarrow> subject e = Some s \<Longrightarrow> Digest s \<in> marked O1 l (set (content_roots es)) \<Longrightarrow>
    alive O1 l es e"
| alive_chain: "e \<in> set es \<Longrightarrow> subject e = Some s \<Longrightarrow> alive O1 l es f \<Longrightarrow>
    Digest s \<in> marked O1 l {entry_node f} \<Longrightarrow> alive O1 l es e"
| alive_reached: "e \<in> set es \<Longrightarrow> subject e = Some s \<Longrightarrow> ref e \<noteq> '''' \<Longrightarrow>
    Digest (desc e) \<in> marked O1 l (set (content_roots es)) \<Longrightarrow> alive O1 l es e"
| alive_reached_chain: "e \<in> set es \<Longrightarrow> subject e = Some s \<Longrightarrow> ref e \<noteq> '''' \<Longrightarrow> alive O1 l es f \<Longrightarrow>
    Digest (desc e) \<in> marked O1 l {entry_node f} \<Longrightarrow> alive O1 l es e"
| alive_gone: "e \<in> set es \<Longrightarrow> subject e = Some s \<Longrightarrow> ref e \<noteq> '''' \<Longrightarrow> Exists O1 l s = Inr False \<Longrightarrow>
    alive O1 l es e"

text \<open>An index in which a digest stands for one node.\<close>

definition one_node :: "entry list \<Rightarrow> bool" where
  "one_node es \<longleftrightarrow>
     (\<forall>e \<in> set es. \<forall>f \<in> set es. Digest (desc e) = Digest (desc f) \<longrightarrow> entry_node e = entry_node f)"

lemma alive_in: "alive O1 l es e \<Longrightarrow> e \<in> set es \<and> subject e \<noteq> None"
  by (cases rule: alive.cases) auto

definition admitted_so_far ::
  "'l oras \<Rightarrow> 'l \<Rightarrow> entry list \<Rightarrow> string set \<Rightarrow> string set \<Rightarrow> bool" where
  "admitted_so_far O1 l es adm rch \<longleftrightarrow>
     adm \<subseteq> (\<lambda>e. Digest (desc e)) ` {e. alive O1 l es e} \<and>
     marked O1 l (set (content_roots es)) \<subseteq> rch \<and>
     rch \<subseteq> marked O1 l (set (content_roots es)) \<union> (\<Union>f \<in> {e. alive O1 l es e}. marked O1 l {entry_node f}) \<and>
     (\<forall>d \<in> adm. \<exists>e \<in> set es. Digest (desc e) = d \<and> marked O1 l {entry_node e} \<subseteq> rch)"

lemma admitted_so_far_step:
  assumes e: "e \<in> set es" "subject e \<noteq> None" and inv: "admitted_so_far O1 l es a r"
    and stay: "staysFor O1 l e r"
  shows "admitted_so_far O1 l es (insert (Digest (desc e)) a) (r \<union> marked O1 l {entry_node e})"
proof -
  from e obtain s where s: "subject e = Some s" by blast
  have r: "d \<in> marked O1 l (set (content_roots es)) \<or> (\<exists>f. alive O1 l es f \<and> d \<in> marked O1 l {entry_node f})"
    if "d \<in> r" for d using inv that by (auto simp: admitted_so_far_def)
  have "alive O1 l es e"
    using stay r [of "Digest s"] r [of "Digest (desc e)"] e s
    by (auto simp: staysFor_def split: if_splits intro: alive.intros)
  moreover have "\<exists>f \<in> set es. Digest (desc f) = d \<and> marked O1 l {entry_node f} \<subseteq> r \<union> marked O1 l {entry_node e}"
    if "d \<in> insert (Digest (desc e)) a" for d
    using inv that e by (auto simp: admitted_so_far_def) (meson le_supI1)
  ultimately show ?thesis using inv by (auto simp: admitted_so_far_def)
qed

lemma admit_final:
  assumes "admit O1 l es = Some adm"
  shows "\<exists>rch. admitted_so_far O1 l es adm rch \<and>
    (\<forall>e \<in> set es. subject e \<noteq> None \<and> Digest (desc e) \<notin> adm \<longrightarrow> \<not> staysFor O1 l e rch)"
proof -
  from assms obtain rch0 where c: "successorClosure O1 l (content_roots es) = Some rch0"
    and loop: "admit_loop O1 l es {} rch0 = Some adm" by (auto simp: admit_def bind_eq_Some_conv)
  have init: "admitted_so_far O1 l es {} rch0"
    using successorClosure_marked [OF c] by (simp add: admitted_so_far_def)
  show ?thesis
    by (rule admit_loop_final [where P = "admitted_so_far O1 l es", OF loop init])
       (rule admitted_so_far_step)
qed

text \<open>
  C34. The admission loop computes the least set of descriptions with a reason to stay,
  whatever the order of the entries: on a finite graph whose index gives each digest one node
  it returns, and an entry's digest is admitted exactly if an entry of that digest describes,
  directly or through other such entries, something a tagged artifact reaches, or is tagged
  and reached itself, or is tagged and describes a subject the store does not hold.
\<close>

theorem admit_least:
  assumes fin: "finite (reach O1 l (entry_node ` set es))" and one: "one_node es"
  shows "admit O1 l es = Some ((\<lambda>e. Digest (desc e)) ` {e. alive O1 l es e})"
proof -
  from admit_returns [OF fin] obtain adm where adm: "admit O1 l es = Some adm" ..
  from admit_final [OF adm] obtain rch where inv: "admitted_so_far O1 l es adm rch"
    and settled: "\<forall>e \<in> set es. subject e \<noteq> None \<and> Digest (desc e) \<notin> adm \<longrightarrow> \<not> staysFor O1 l e rch"
    by blast
  have chain: "marked O1 l {entry_node f} \<subseteq> rch" if "f \<in> set es" "Digest (desc f) \<in> adm" for f
  proof -
    from inv have "\<forall>d \<in> adm. \<exists>e \<in> set es. Digest (desc e) = d \<and> marked O1 l {entry_node e} \<subseteq> rch"
      unfolding admitted_so_far_def by blast
    with that(2) obtain e where e: "e \<in> set es" "Digest (desc e) = Digest (desc f)"
      "marked O1 l {entry_node e} \<subseteq> rch" by blast
    from one e(1,2) that(1) have "entry_node e = entry_node f" unfolding one_node_def by blast
    with e(3) show ?thesis by simp
  qed
  have "Digest (desc e) \<in> adm" if "alive O1 l es e" for e
    using that
  proof (induction rule: alive.induct)
    case (alive_root e s)
    with inv have "staysFor O1 l e rch" by (auto simp: staysFor_def admitted_so_far_def)
    with settled alive_root show ?case by auto
  next
    case (alive_chain e s f)
    from alive_chain have "Digest s \<in> rch" using chain [of f] alive_in [of O1 l es f] by auto
    with alive_chain have "staysFor O1 l e rch" by (simp add: staysFor_def)
    with settled alive_chain show ?case by auto
  next
    case (alive_reached e s)
    with inv have "staysFor O1 l e rch" by (auto simp: staysFor_def admitted_so_far_def)
    with settled alive_reached show ?case by auto
  next
    case (alive_reached_chain e s f)
    from alive_reached_chain have "Digest (desc e) \<in> rch" using chain [of f] alive_in [of O1 l es f] by auto
    with alive_reached_chain have "staysFor O1 l e rch" by (simp add: staysFor_def)
    with settled alive_reached_chain show ?case by auto
  next
    case (alive_gone e s)
    then have "staysFor O1 l e rch" by (auto simp: staysFor_def)
    with settled alive_gone show ?case by auto
  qed
  with inv have "adm = (\<lambda>e. Digest (desc e)) ` {e. alive O1 l es e}"
    by (auto simp: admitted_so_far_def)
  with adm show ?thesis by simp
qed

end
