(* ===== verification/StoreSafety.thy ===== *)
theory StoreSafety
  imports StoreGraph
begin

text \<open>
  What removal and collection never do: lose a blob that a tagged artifact is made of, or the
  tag that names it. The library's operations enter through their documented effects.
\<close>

section \<open>Names\<close>

lemma last_claims_other:
  "(\<forall>d \<in> set ds. Digest d \<noteq> x \<and> ref_name d \<noteq> x) \<Longrightarrow> last_claims ds i m x = m x"
  by (induction ds i m rule: last_claims.induct) (auto simp: Let_def)

lemma last_claims_range:
  "last_claims ds i m x = m x \<or> last_claims ds i m x = -1 \<or>
   (\<exists>k < length ds. last_claims ds i m x = int (i + k) \<and> ref_name (ds ! k) = x)"
proof (induction ds i m rule: last_claims.induct)
  case (1 i m)
  show ?case by simp
next
  case (2 d ds i m)
  let ?m1 = "m(Digest d := -1)"
  let ?m2 = "if ref_name d \<noteq> '''' then ?m1(ref_name d := int i) else ?m1"
  have eq: "last_claims (d # ds) i m x = last_claims ds (Suc i) ?m2 x" by (simp add: Let_def)
  from 2 [OF refl] consider "last_claims ds (Suc i) ?m2 x = ?m2 x" | "last_claims ds (Suc i) ?m2 x = -1"
    | k where "k < length ds" "last_claims ds (Suc i) ?m2 x = int (Suc i + k)" "ref_name (ds ! k) = x"
    by blast
  then show ?case
  proof cases
    case 1
    then have "last_claims (d # ds) i m x = ?m2 x" by (simp add: Let_def)
    then show ?thesis by (auto split: if_splits intro: exI [of _ 0])
  next
    case 2
    with eq show ?thesis by simp
  next
    case (3 k)
    then have "Suc k < length (d # ds)" "last_claims (d # ds) i m x = int (i + Suc k)"
      "ref_name ((d # ds) ! Suc k) = x" by (simp_all add: Let_def)
    then show ?thesis by blast
  qed
qed

lemma last_claims_append:
  "last_claims (us @ ds) i m = last_claims ds (i + length us) (last_claims us i m)"
  by (induction us i m rule: last_claims.induct) (simp_all add: Let_def)

text \<open>The layout resolves a name to the last entry claiming it, and a digest is a claim.\<close>

definition holds_name :: "descriptor \<Rightarrow> descriptor list \<Rightarrow> bool" where
  "holds_name d later \<longleftrightarrow>
     ref_name d \<noteq> '''' \<and> (\<forall>v \<in> set later. Digest v \<noteq> ref_name d \<and> ref_name v \<noteq> ref_name d)"

lemma last_claims_here:
  "last_claims (us @ d # vs) 0 (\<lambda>_. 0) (ref_name d) = int (length us) \<and> ref_name d \<noteq> '''' \<longleftrightarrow>
   holds_name d vs"
proof -
  let ?m = "last_claims us 0 (\<lambda>_. 0)"
  let ?m2 = "?m(Digest d := -1, ref_name d := int (length us))"
  have eq: "last_claims (us @ d # vs) 0 (\<lambda>_. 0) (ref_name d) = last_claims vs (Suc (length us)) ?m2 (ref_name d)"
    if "ref_name d \<noteq> ''''" using that by (simp add: last_claims_append Let_def)
  show ?thesis
  proof (cases "ref_name d = '''' \<or> holds_name d vs")
    case True
    then show ?thesis using last_claims_other [of vs "ref_name d"] eq by (auto simp: holds_name_def)
  next
    case False
    then have ne: "ref_name d \<noteq> ''''" by simp
    from False have "\<exists>v \<in> set vs. Digest v = ref_name d \<or> ref_name v = ref_name d"
      by (auto simp: holds_name_def)
    then obtain as v bs where vs: "vs = as @ v # bs" and v: "Digest v = ref_name d \<or> ref_name v = ref_name d"
      and last: "\<forall>w \<in> set bs. \<not> (Digest w = ref_name d \<or> ref_name w = ref_name d)"
      using split_list_last_prop [of vs "\<lambda>v. Digest v = ref_name d \<or> ref_name v = ref_name d"] by blast
    let ?k = "Suc (length us) + length as" and ?m3 = "last_claims as (Suc (length us)) ?m2"
    have "last_claims vs (Suc (length us)) ?m2 (ref_name d) =
        (let m1 = ?m3(Digest v := -1) in
         (if ref_name v \<noteq> '''' then m1(ref_name v := int ?k) else m1)) (ref_name d)"
      using last last_claims_other [of bs "ref_name d"] by (simp add: vs last_claims_append Let_def)
    also have "\<dots> = -1 \<or> \<dots> = int ?k" using v ne by (cases "ref_name v = ref_name d") (simp_all add: Let_def)
    finally show ?thesis using eq [OF ne] False ne by auto
  qed
qed

lemma length_namedEntries [simp]: "length (namedEntries all) = length all"
  by (simp add: namedEntries_def Let_def)

lemma namedEntries_at:
  "namedEntries (us @ d # vs) ! length us \<longleftrightarrow> holds_name d vs"
  using last_claims_here [of us d vs] by (auto simp: namedEntries_def Let_def nth_append)

text \<open>The named descriptors of an index, in order, by their decomposition.\<close>

lemma named_iff:
  "(d, True) \<in> set (zip all (namedEntries all)) \<longleftrightarrow> (\<exists>us vs. all = us @ d # vs \<and> holds_name d vs)"
proof
  assume "(d, True) \<in> set (zip all (namedEntries all))"
  then obtain i where i: "i < length all" "all ! i = d" "namedEntries all ! i"
    by (auto simp: in_set_zip)
  have "all = take i all @ d # drop (Suc i) all" using i id_take_nth_drop by fastforce
  moreover from this i namedEntries_at [of "take i all" d "drop (Suc i) all"]
  have "holds_name d (drop (Suc i) all)" by simp
  ultimately show "\<exists>us vs. all = us @ d # vs \<and> holds_name d vs" by blast
next
  assume "\<exists>us vs. all = us @ d # vs \<and> holds_name d vs"
  then obtain us vs where all: "all = us @ d # vs" "holds_name d vs" by blast
  then have "namedEntries all ! length us" "all ! length us = d" "length us < length all"
    by (simp_all add: namedEntries_at)
  then show "(d, True) \<in> set (zip all (namedEntries all))" by (fastforce simp: in_set_zip)
qed

text \<open>A name belongs to one entry of the index.\<close>

lemma holds_name_unique:
  assumes "us @ d # vs = us' @ d' # vs'" "holds_name d vs" "holds_name d' vs'" "ref_name d = ref_name d'"
  shows "d = d'"
  using assms
  by (auto simp: append_eq_append_conv2 Cons_eq_append_conv append_eq_Cons_conv holds_name_def)

section \<open>Tags\<close>

definition index_tags :: "descriptor list \<Rightarrow> (string \<times> node) set" where
  "index_tags all =
     {(ref_name d, node_of d) |d us vs. all = us @ d # vs \<and> holds_name d vs \<and> ref_name d \<noteq> Digest d}"

definition tags :: "'l oras \<Rightarrow> 'l \<Rightarrow> (string \<times> node) set" where
  "tags O1 l = (case indexManifests O1 l of Inl _ \<Rightarrow> {} | Inr all \<Rightarrow> index_tags all)"

lemma index_tags_unique: "(r, n) \<in> index_tags all \<Longrightarrow> (r, n') \<in> index_tags all \<Longrightarrow> n = n'"
  unfolding index_tags_def by (auto dest: holds_name_unique)

lemma index_tags_filter:
  assumes keep: "\<And>d us vs. all = us @ d # vs \<Longrightarrow> holds_name d vs \<Longrightarrow> ref_name d \<noteq> Digest d \<Longrightarrow> P (True, d)"
  shows "index_tags all \<subseteq> index_tags (map snd (filter P (zip (namedEntries all) all)))"
proof
  fix x assume "x \<in> index_tags all"
  then obtain d us vs where x: "x = (ref_name d, node_of d)" and all: "all = us @ d # vs"
    and h: "holds_name d vs" "ref_name d \<noteq> Digest d" by (auto simp: index_tags_def)
  obtain b us' vs' where nm: "namedEntries all = us' @ b # vs'" "length us' = length us" "length vs' = length vs"
  proof -
    let ?nm = "namedEntries all" and ?i = "length us"
    have "?nm = take ?i ?nm @ ?nm ! ?i # drop (Suc ?i) ?nm"
      by (rule id_take_nth_drop) (simp add: all)
    with all that [of "take ?i ?nm" "?nm ! ?i" "drop (Suc ?i) ?nm"] show thesis by simp
  qed
  have b: "b" using namedEntries_at [of us d vs] h nm by (simp add: all nth_append)
  have "map snd (filter P (zip (namedEntries all) all)) =
      map snd (filter P (zip us' us)) @ d # map snd (filter P (zip vs' vs))"
    using keep [OF all h] b by (simp only: nm(1)) (simp add: all nm zip_append)
  moreover have "set (map snd (filter P (zip vs' vs))) \<subseteq> set vs" by (auto dest: set_zip_rightD)
  with h have "holds_name d (map snd (filter P (zip vs' vs)))" by (auto simp: holds_name_def)
  ultimately show "x \<in> index_tags (map snd (filter P (zip (namedEntries all) all)))"
    using x h unfolding index_tags_def by blast
qed

lemma entry_of_sel:
  "entry_node (entry_of O1 l d nm) = node_of d" "desc (entry_of O1 l d nm) = d"
  "ref (entry_of O1 l d nm) = (if ref_name d = Digest d \<or> \<not> nm then '''' else ref_name d)"
  by (simp_all add: entry_of_def entry_node_def Let_def)

lemma readIndex_tags:
  assumes "readIndex O1 l = Inr es"
  shows "(\<exists>e \<in> set es. ref e = r \<and> entry_node e = n \<and> r \<noteq> '''') \<longleftrightarrow> (r, n) \<in> tags O1 l"
proof -
  from assms obtain all where all: "indexManifests O1 l = Inr all"
    and es: "es = map (\<lambda>(d, nm). entry_of O1 l d nm) (zip all (namedEntries all))"
    by (auto simp: readIndex_def)
  have "(\<exists>e \<in> set es. ref e = r \<and> entry_node e = n \<and> r \<noteq> '''') \<longleftrightarrow>
      (\<exists>d. (d, True) \<in> set (zip all (namedEntries all)) \<and> ref_name d \<noteq> Digest d \<and> ref_name d = r \<and>
         node_of d = n \<and> r \<noteq> '''')"
    by (force simp: es entry_of_sel split: if_splits)
  also have "\<dots> \<longleftrightarrow> (r, n) \<in> tags O1 l"
    unfolding named_iff by (auto simp: tags_def all index_tags_def holds_name_def)
  finally show ?thesis .
qed

section \<open>What the library promises\<close>

definition same_at :: "'l oras \<Rightarrow> 'l \<Rightarrow> 'l \<Rightarrow> node \<Rightarrow> bool" where
  "same_at O1 l l' n \<longleftrightarrow>
     Exists O1 l' n = Exists O1 l n \<and> Successors O1 l' n = Successors O1 l n \<and>
     FetchAll O1 l' n = FetchAll O1 l n"

text \<open>
  The documented behaviour of the content library: storage is addressed by digest, a manifest
  that is not there names nothing, \<^verbatim>\<open>Delete\<close> removes one digest and its index entries,
  \<^verbatim>\<open>Untag\<close> one name, and \<^verbatim>\<open>GC\<close> nothing a tag reaches; saving, replacing and
  re-reading the index leave the blobs alone, a replaced index is the old one or the new one,
  and partial downloads are not part of the layout.
\<close>

definition reads_agree :: "'l oras \<Rightarrow> bool" where
  "reads_agree O1 \<longleftrightarrow>
     (\<forall>l n m. Digest n = Digest m \<longrightarrow> Exists O1 l n = Exists O1 l m) \<and>
     (\<forall>l n ss. Successors O1 l n = Inr ss \<and> ss \<noteq> [] \<longrightarrow> Exists O1 l n = Inr True)"

definition delete_removes_one :: "'l oras \<Rightarrow> bool" where
  "delete_removes_one O1 \<longleftrightarrow>
     (\<forall>l n m. Digest m \<noteq> Digest n \<longrightarrow> same_at O1 l (fst (Delete O1 l n)) m) \<and>
     (\<forall>l n r m. (r, m) \<in> tags O1 l \<and> Digest m \<noteq> Digest n \<longrightarrow> (r, m) \<in> tags O1 (fst (Delete O1 l n)))"

definition untag_removes_one :: "'l oras \<Rightarrow> bool" where
  "untag_removes_one O1 \<longleftrightarrow>
     (\<forall>l r m. same_at O1 l (fst (Untag O1 l r)) m) \<and>
     (\<forall>l r q m. (q, m) \<in> tags O1 l \<and> q \<noteq> r \<longrightarrow> (q, m) \<in> tags O1 (fst (Untag O1 l r)))"

definition collect_keeps_tagged :: "'l oras \<Rightarrow> bool" where
  "collect_keeps_tagged O1 \<longleftrightarrow>
     (\<forall>l m. m \<in> reach O1 l (snd ` tags O1 l) \<and> Exists O1 l m = Inr True \<longrightarrow>
        same_at O1 l (fst (Collect O1 l)) m) \<and>
     (\<forall>l r m. (r, m) \<in> tags O1 l \<and> Exists O1 l m = Inr True \<longrightarrow> (r, m) \<in> tags O1 (fst (Collect O1 l)))"

definition index_writes_only_index :: "'l oras \<Rightarrow> bool" where
  "index_writes_only_index O1 \<longleftrightarrow>
     (\<forall>l m. same_at O1 l (fst (SaveIndex O1 l)) m) \<and> (\<forall>l. tags O1 l \<subseteq> tags O1 (fst (SaveIndex O1 l))) \<and>
     (\<forall>l ds m. same_at O1 l (fst (write_index O1 l ds)) m) \<and>
     (\<forall>l ds. read_index O1 (fst (write_index O1 l ds)) \<in> {read_index O1 l, Manifests ds}) \<and>
     (\<forall>l m. same_at O1 l (fst (reopen O1 l)) m) \<and>
     (\<forall>l. read_index O1 (fst (reopen O1 l)) = read_index O1 l) \<and>
     (\<forall>l f m. same_at O1 l (fst (remove_ingest O1 l f)) m) \<and>
     (\<forall>l f. read_index O1 (fst (remove_ingest O1 l f)) = read_index O1 l)"

definition oras_contract :: "'l oras \<Rightarrow> bool" where
  "oras_contract O1 \<longleftrightarrow>
     reads_agree O1 \<and> delete_removes_one O1 \<and> untag_removes_one O1 \<and> collect_keeps_tagged O1 \<and>
     index_writes_only_index O1"

definition finite_graph :: "'l oras \<Rightarrow> bool" where
  "finite_graph O1 \<longleftrightarrow> (\<forall>l R. finite R \<longrightarrow> finite (reach O1 l R))"

lemma contract_index:
  assumes "index_writes_only_index O1"
  shows "write_index O1 l ds = (l1, e1) \<Longrightarrow>
      same_at O1 l l1 m \<and> read_index O1 l1 \<in> {read_index O1 l, Manifests ds}"
    and "reopen O1 l = (l1, e1) \<Longrightarrow> same_at O1 l l1 m \<and> read_index O1 l1 = read_index O1 l"
    and "remove_ingest O1 l f = (l1, e1) \<Longrightarrow> same_at O1 l l1 m \<and> read_index O1 l1 = read_index O1 l"
    and "SaveIndex O1 l = (l1, e1) \<Longrightarrow> same_at O1 l l1 m \<and> tags O1 l \<subseteq> tags O1 l1"
  using assms [unfolded index_writes_only_index_def] by (metis fst_conv)+

section \<open>What is intact\<close>

text \<open>The heads the store reads as a description.\<close>

definition description :: "'l oras \<Rightarrow> 'l \<Rightarrow> node \<Rightarrow> bool" where
  "description O1 l n \<longleftrightarrow>
     (case readHead O1 l n of
        Inl _ \<Rightarrow> False | Inr h \<Rightarrow> h_subject h \<noteq> None \<and> describesOnly (artifactType h))"

text \<open>A tagged artifact that is present and is not a description.\<close>

definition tagged_content :: "'l oras \<Rightarrow> 'l \<Rightarrow> string \<Rightarrow> node \<Rightarrow> bool" where
  "tagged_content O1 l r n \<longleftrightarrow>
     (r, n) \<in> tags O1 l \<and> Exists O1 l n = Inr True \<and> \<not> description O1 l n"

definition parts :: "'l oras \<Rightarrow> 'l \<Rightarrow> node \<Rightarrow> node set" where
  "parts O1 l n = {m \<in> reach O1 l {n}. Exists O1 l m = Inr True}"

text \<open>After \<open>l0\<close> became \<open>l\<close>: the tag is there and every part reads as it did.\<close>

definition intact :: "'l oras \<Rightarrow> 'l \<Rightarrow> string \<Rightarrow> node \<Rightarrow> 'l \<Rightarrow> bool" where
  "intact O1 l0 r n l \<longleftrightarrow> (r, n) \<in> tags O1 l \<and> (\<forall>m \<in> parts O1 l0 n. same_at O1 l0 l m)"

lemma intact_refl: "tagged_content O1 l r n \<Longrightarrow> intact O1 l r n l"
  by (simp add: intact_def tagged_content_def same_at_def)

lemma same_at_trans: "same_at O1 a b m \<Longrightarrow> same_at O1 b c m \<Longrightarrow> same_at O1 a c m"
  by (simp add: same_at_def)

lemma root_part: "tagged_content O1 l r n \<Longrightarrow> n \<in> parts O1 l n"
  by (simp add: parts_def tagged_content_def reach_root)

lemma description_entry: "describes (entry_of O1 l d nm) \<longleftrightarrow> description O1 l (node_of d)"
  by (cases "readHead O1 l (node_of d)") (auto simp: entry_of_def description_def Let_def)

lemma readIndex_describes:
  "readIndex O1 l = Inr es \<Longrightarrow> e \<in> set es \<Longrightarrow> describes e \<longleftrightarrow> description O1 l (entry_node e)"
  by (auto simp: readIndex_def description_entry entry_of_sel)

lemma readIndex_subject: "readIndex O1 l = Inr es \<Longrightarrow> e \<in> set es \<Longrightarrow> describes e \<Longrightarrow> subject e \<noteq> None"
  by (auto simp: readIndex_def entry_of_def Let_def)

lemma tags_unique: "(r, n) \<in> tags O1 l \<Longrightarrow> (r, n') \<in> tags O1 l \<Longrightarrow> n = n'"
  by (auto simp: tags_def index_tags_unique split: sum.splits)

lemma intact_reach:
  assumes "reads_agree O1" and "intact O1 l0 r n l"
  shows "reach O1 l0 {n} \<subseteq> reach O1 l {n}"
proof
  fix m assume "m \<in> reach O1 l0 {n}"
  then show "m \<in> reach O1 l {n}"
  proof (induction rule: reach.induct)
    case (reach_root m)
    then show ?case by (rule reach.reach_root)
  next
    case (reach_step p ss m)
    then have "ss \<noteq> []" by auto
    with assms(1) reach_step have "Exists O1 l0 p = Inr True" unfolding reads_agree_def by blast
    with reach_step have "p \<in> parts O1 l0 n" by (simp add: parts_def)
    with assms(2) have "Successors O1 l p = Successors O1 l0 p" by (auto simp: intact_def same_at_def)
    with reach_step show ?case by (auto intro: reach.reach_step)
  qed
qed

text \<open>The parts are marked by every closure that starts at the artifact, later too.\<close>

lemma parts_marked:
  assumes "reads_agree O1" "intact O1 l0 r n l" "m \<in> parts O1 l0 n"
  shows "Digest m \<in> marked O1 l {n}"
proof -
  from assms(3) have "m \<in> reach O1 l {n}" using intact_reach [OF assms(1,2)] by (auto simp: parts_def)
  moreover from assms have "Exists O1 l m = Inr True" by (auto simp: intact_def same_at_def parts_def)
  ultimately show ?thesis by (auto simp: marked_def marks_def)
qed

lemma intact_content:
  assumes "tagged_content O1 l0 r n" "intact O1 l0 r n l"
  shows "tagged_content O1 l r n"
proof -
  from assms have "same_at O1 l0 l n" using root_part [OF assms(1)] by (simp add: intact_def)
  with assms show ?thesis
    by (auto simp: tagged_content_def intact_def same_at_def description_def readHead_def)
qed

section \<open>Steps that keep it intact\<close>

lemma intact_delete:
  assumes "delete_removes_one O1" "tagged_content O1 l0 r n" "intact O1 l0 r n l"
    and "\<And>m. m \<in> parts O1 l0 n \<Longrightarrow> Digest m \<noteq> Digest d"
  shows "intact O1 l0 r n (fst (Delete O1 l d))"
proof -
  from assms(4) [OF root_part [OF assms(2)]] assms(1,3)
  have "(r, n) \<in> tags O1 (fst (Delete O1 l d))" by (simp add: delete_removes_one_def intact_def)
  moreover have "same_at O1 l0 (fst (Delete O1 l d)) m" if "m \<in> parts O1 l0 n" for m
    using assms(1,3) assms(4) [OF that] that
    by (meson delete_removes_one_def intact_def same_at_trans)
  ultimately show ?thesis by (simp add: intact_def)
qed

lemma intact_same:
  assumes "intact O1 l0 r n l" and "(r, n) \<in> tags O1 l'" and "\<And>m. m \<in> parts O1 l0 n \<Longrightarrow> same_at O1 l l' m"
  shows "intact O1 l0 r n l'"
  using assms by (auto simp: intact_def intro: same_at_trans)

lemma tags_read_index: "read_index O1 l' = read_index O1 l \<Longrightarrow> tags O1 l' = tags O1 l"
  by (simp add: tags_def indexManifests_def)

lemma intact_untag:
  "untag_removes_one O1 \<Longrightarrow> intact O1 l0 r n l \<Longrightarrow> q \<noteq> r \<Longrightarrow> intact O1 l0 r n (fst (Untag O1 l q))"
  by (rule intact_same) (auto simp: untag_removes_one_def intact_def)

lemma intact_drop_entries:
  assumes "oras_contract O1" "tagged_content O1 l0 r n"
  shows "intact O1 l0 r n l \<Longrightarrow> intact O1 l0 r n (fst (drop_entries O1 ds l))"
proof (induction ds arbitrary: l)
  case Nil
  then show ?case by simp
next
  case (Cons d ds)
  show ?case
  proof (cases "Exists O1 l (node_of d) = Inr False")
    case False
    with Cons show ?thesis by simp
  next
    case True
    have "Digest m \<noteq> Digest (node_of d)" if m: "m \<in> parts O1 l0 n" for m
    proof -
      from Cons.prems m have "Exists O1 l m = Inr True" by (auto simp: intact_def same_at_def parts_def)
      with True assms(1) show ?thesis by (metis oras_contract_def reads_agree_def sum.inject(2))
    qed
    with assms Cons.prems have *: "intact O1 l0 r n (fst (Delete O1 l (node_of d)))"
      by (intro intact_delete) (auto simp: oras_contract_def)
    obtain l' e where de: "Delete O1 l (node_of d) = (l', e)" by fastforce
    with * Cons.IH [of l'] True show ?thesis by (cases e) auto
  qed
qed

lemma intact_unlink_entries:
  assumes "oras_contract O1" "tagged_content O1 l0 r n"
    and "\<And>e. e \<in> set es \<Longrightarrow> ref e \<noteq> '''' \<Longrightarrow> describes e \<Longrightarrow> Digest (desc e) \<notin> adm \<Longrightarrow>
      ref e \<noteq> r \<and> (\<forall>m \<in> parts O1 l0 n. Digest m \<noteq> Digest (desc e))"
  shows "intact O1 l0 r n l \<Longrightarrow> intact O1 l0 r n (fst (unlink_entries O1 adm es l))"
  using assms(3)
proof (induction es arbitrary: l)
  case Nil
  then show ?case by simp
next
  case (Cons e es)
  note rest = Cons.IH [OF _ Cons.prems(2) [OF list.set_intros(2)]]
  show ?case
  proof (cases "ref e = '''' \<or> \<not> describes e \<or> Digest (desc e) \<in> adm")
    case True
    with rest Cons.prems(1) show ?thesis by simp
  next
    case False
    with Cons.prems(2) [of e] have e: "ref e \<noteq> r" "\<forall>m \<in> parts O1 l0 n. Digest m \<noteq> Digest (entry_node e)"
      by (auto simp: entry_node_def node.defs)
    obtain l1 u where un: "Untag O1 l (ref e) = (l1, u)" by fastforce
    obtain l2 d where de: "Delete O1 l1 (entry_node e) = (l2, d)" by fastforce
    have i1: "intact O1 l0 r n l1"
      using intact_untag [of O1 l0 r n l "ref e"] assms(1) Cons.prems(1) e(1) un by (simp add: oras_contract_def)
    have i2: "intact O1 l0 r n l2"
      using intact_delete [of O1 l0 r n l1 "entry_node e"] assms(1,2) i1 e(2) de by (simp add: oras_contract_def)
    from False un de i1 i2 rest show ?thesis by simp
  qed
qed

lemma content_root:
  assumes "tagged_content O1 l r n" "readIndex O1 l = Inr es" "r \<noteq> ''''"
  shows "n \<in> set (content_roots es)"
proof -
  from assms have "(r, n) \<in> tags O1 l" by (simp add: tagged_content_def)
  with readIndex_tags [OF assms(2)] assms(3) obtain e where e: "e \<in> set es" "ref e = r" "entry_node e = n"
    by blast
  with readIndex_describes [OF assms(2) e(1)] assms(1,3) show ?thesis
    by (auto simp: content_roots_def tagged_content_def)
qed

lemma tag_ne: "(r, n) \<in> tags O1 l \<Longrightarrow> r \<noteq> ''''"
  by (auto simp: tags_def index_tags_def holds_name_def split: sum.splits)

lemma content_ne: "tagged_content O1 l r n \<Longrightarrow> r \<noteq> ''''"
  by (auto simp: tagged_content_def dest: tag_ne)

lemma intact_unlinkOrphanedTagged:
  assumes c: "oras_contract O1" "tagged_content O1 l0 r n" and i: "intact O1 l0 r n l"
    and res: "unlinkOrphanedTagged O1 l = Some (l', err)"
  shows "intact O1 l0 r n l'"
proof (cases "readIndex O1 l")
  case (Inl e)
  with res i show ?thesis by (simp add: unlinkOrphanedTagged_def)
next
  case (Inr es)
  with res obtain adm where adm: "admit O1 l es = Some adm" and l': "unlink_entries O1 adm es l = (l', err)"
    by (auto simp: unlinkOrphanedTagged_def)
  from admit_final [OF adm] obtain rch where inv: "admitted_so_far O1 l es adm rch"
    and settled: "\<forall>e \<in> set es. subject e \<noteq> None \<and> Digest (desc e) \<notin> adm \<longrightarrow> \<not> staysFor O1 l e rch"
    by blast
  have content: "tagged_content O1 l r n" by (rule intact_content [OF c(2) i])
  have root: "n \<in> set (content_roots es)"
    by (rule content_root [OF content Inr content_ne [OF content]])
  have parts: "Digest m \<in> rch" if "m \<in> parts O1 l0 n" for m
  proof -
    have "Digest m \<in> marked O1 l {n}" using c(1) i that by (intro parts_marked) (auto simp: oras_contract_def)
    also have "\<dots> \<subseteq> marked O1 l (set (content_roots es))" using root by (intro marked_mono) simp
    also have "\<dots> \<subseteq> rch" using inv by (simp add: admitted_so_far_def)
    finally show ?thesis .
  qed
  have "ref e \<noteq> r \<and> (\<forall>m \<in> parts O1 l0 n. Digest m \<noteq> Digest (desc e))"
    if e: "e \<in> set es" "ref e \<noteq> ''''" "describes e" "Digest (desc e) \<notin> adm" for e
  proof
    have "(ref e, entry_node e) \<in> tags O1 l" using readIndex_tags [OF Inr] e by blast
    moreover have "(r, n) \<in> tags O1 l" using i by (simp add: intact_def)
    moreover have "entry_node e \<noteq> n"
      using readIndex_describes [OF Inr e(1)] e(3) content by (auto simp: tagged_content_def)
    ultimately show "ref e \<noteq> r" using tags_unique [of r n O1 l "entry_node e"] by auto
    from readIndex_subject [OF Inr e(1,3)] settled e have "\<not> staysFor O1 l e rch" by blast
    with readIndex_subject [OF Inr e(1,3)] e(2) have "Digest (desc e) \<notin> rch"
      by (auto simp: staysFor_def split: if_splits)
    show "\<forall>m \<in> parts O1 l0 n. Digest m \<noteq> Digest (desc e)"
    proof
      fix m assume "m \<in> parts O1 l0 n"
      from parts [OF this] \<open>Digest (desc e) \<notin> rch\<close> show "Digest m \<noteq> Digest (desc e)" by auto
    qed
  qed
  then have "intact O1 l0 r n (fst (unlink_entries O1 adm es l))"
    by (intro intact_unlink_entries [OF c _ i]) blast+
  with l' show ?thesis by simp
qed

lemma referrers_pass_grows:
  "referrers_pass O1 l es rch kept refs = Some (kept', refs') \<Longrightarrow> kept \<subseteq> kept'"
  by (induction O1 l es rch kept refs rule: referrers_pass.induct)
     (auto split: if_splits option.splits)

lemma intact_delete_untagged:
  assumes "oras_contract O1" "tagged_content O1 l0 r n"
    and "\<And>m. m \<in> parts O1 l0 n \<Longrightarrow> Digest m \<in> kept"
  shows "intact O1 l0 r n l \<Longrightarrow> intact O1 l0 r n (fst (delete_untagged O1 rch kept es forget l))"
proof (induction es arbitrary: l forget)
  case Nil
  then show ?case by simp
next
  case (Cons e es)
  show ?case
  proof (cases "\<exists>s. ref e = '''' \<and> subject e = Some s \<and> Digest s \<notin> rch \<and> Digest (desc e) \<notin> kept")
    case False
    then consider "ref e \<noteq> ''''" | "subject e = None" | s where "ref e = ''''" "subject e = Some s" "Digest s \<in> rch"
      | s where "ref e = ''''" "subject e = Some s" "Digest s \<notin> rch" "Digest (desc e) \<in> kept"
      by (cases "subject e") auto
    then show ?thesis
      by cases (use Cons in \<open>auto split: list.splits option.splits\<close>)
  next
    case True
    then obtain s where e: "ref e = ''''" "subject e = Some s" "Digest s \<notin> rch" "Digest (desc e) \<notin> kept"
      by blast
    obtain l' d where de: "Delete O1 l (entry_node e) = (l', d)" by fastforce
    have "\<forall>m \<in> parts O1 l0 n. Digest m \<noteq> Digest (entry_node e)"
      using e(4) assms(3) by (metis entry_node_def node.select_convs(2) node.truncate_def)
    with intact_delete [of O1 l0 r n l "entry_node e"] assms(1,2) Cons.prems de
    have "intact O1 l0 r n l'" by (simp add: oras_contract_def)
    with Cons.IH e de show ?thesis by simp
  qed
qed

lemma tags_write_filtered:
  assumes "index_writes_only_index O1" and all: "read_index O1 l = Manifests all"
    and keep: "\<And>d us vs. all = us @ d # vs \<Longrightarrow> holds_name d vs \<Longrightarrow> ref_name d \<noteq> Digest d \<Longrightarrow> P (True, d)"
  shows "tags O1 l \<subseteq> tags O1 (fst (write_index O1 l (map snd (filter P (zip (namedEntries all) all)))))"
    (is "_ \<subseteq> tags O1 (fst (write_index O1 l ?ds))")
proof -
  have "index_tags all \<subseteq> index_tags ?ds" by (rule index_tags_filter) (rule keep)
  moreover obtain l1 e1 where w: "write_index O1 l ?ds = (l1, e1)" by fastforce
  then have "read_index O1 (fst (write_index O1 l ?ds)) \<in> {Manifests all, Manifests ?ds}"
    using contract_index(1) [OF assms(1) w] all by simp
  ultimately show ?thesis using all by (auto simp: tags_def indexManifests_def)
qed

lemma intact_forgetUntagged:
  assumes "oras_contract O1" and i: "intact O1 l0 r n l"
  shows "intact O1 l0 r n (fst (forgetUntagged O1 l ds))"
proof (cases "ds \<noteq> [] \<and> (\<exists>all. read_index O1 l = Manifests all)")
  case False
  then have "fst (forgetUntagged O1 l ds) = l"
    by (cases "read_index O1 l") (auto simp: forgetUntagged_def)
  with i show ?thesis by simp
next
  case True
  then obtain all where all: "read_index O1 l = Manifests all" by blast
  let ?P = "\<lambda>(nm, m). \<not> (Digest m \<in> set ds \<and> (ref_name m = '''' \<or> ref_name m = Digest m \<or> \<not> nm))"
  let ?kept = "map snd (filter ?P (zip (namedEntries all) all))"
  from assms(1) have ix: "index_writes_only_index O1" by (simp add: oras_contract_def)
  obtain l1 e1 where w: "write_index O1 l ?kept = (l1, e1)" by fastforce
  obtain l2 e2 where o: "reopen O1 l1 = (l2, e2)" by fastforce
  have "tags O1 l \<subseteq> tags O1 (fst (write_index O1 l ?kept))"
    by (rule tags_write_filtered [OF ix all]) (auto simp: holds_name_def)
  with i w have "(r, n) \<in> tags O1 l1" by (auto simp: intact_def)
  moreover have "same_at O1 l l1 m" for m using contract_index(1) [OF ix w] by blast
  ultimately have i1: "intact O1 l0 r n l1" using intact_same [OF i] by blast
  have "read_index O1 l2 = read_index O1 l1" "same_at O1 l1 l2 m" for m
    using contract_index(2) [OF ix o] by blast+
  then have i2: "intact O1 l0 r n l2"
    using intact_same [OF i1, of l2] i1 tags_read_index [of O1 l2 l1] by (simp add: intact_def)
  have "forgetUntagged O1 l ds =
      (case (l1, e1) of (l1, Some e) \<Rightarrow> (l1, Some (SaveIndexFile e))
       | (l1, None) \<Rightarrow> (case reopen O1 l1 of (l2, Some e) \<Rightarrow> (l2, Some (Reopen e)) | (l2, None) \<Rightarrow> (l2, None)))"
    using True w by (simp add: forgetUntagged_def all Let_def)
  then have "fst (forgetUntagged O1 l ds) \<in> {l1, l2}" using o by (cases e1; cases e2) auto
  with i1 i2 show ?thesis by auto
qed

lemma intact_deleteUnreachableUntagged:
  assumes c: "oras_contract O1" "tagged_content O1 l0 r n" and i: "intact O1 l0 r n l"
    and res: "deleteUnreachableUntagged O1 l = Some (l', err)"
  shows "intact O1 l0 r n l'"
proof (cases "readIndex O1 l")
  case (Inl e)
  with res i show ?thesis by (simp add: deleteUnreachableUntagged_def)
next
  case (Inr es)
  let ?roots = "map entry_node (filter (\<lambda>e. ref e \<noteq> '''') es)"
  from Inr res obtain rch kept refs where rch: "successorClosure O1 l ?roots = Some rch"
    and kept: "withReferrersOf O1 l es rch = Some (kept, refs)"
    and l': "(case delete_untagged O1 rch kept es [] l of
                (l', Inl e) \<Rightarrow> Some (l', Some e)
              | (l', Inr forget) \<Rightarrow> Some (forgetUntagged O1 l' forget)) = Some (l', err)"
    by (auto simp: deleteUnreachableUntagged_def bind_eq_Some_conv)
  from i have t: "(r, n) \<in> tags O1 l" by (simp add: intact_def)
  with readIndex_tags [OF Inr, of r n] obtain e where "e \<in> set es" "ref e = r" "entry_node e = n" "r \<noteq> ''''"
    by blast
  then have root: "n \<in> set ?roots" by force
  have "Digest m \<in> kept" if "m \<in> parts O1 l0 n" for m
  proof -
    have "Digest m \<in> marked O1 l {n}" using c(1) i that by (intro parts_marked) (auto simp: oras_contract_def)
    also have "\<dots> \<subseteq> marked O1 l (set ?roots)" using root by (intro marked_mono) simp
    also have "\<dots> = rch" using successorClosure_marked [OF rch] by simp
    also have "\<dots> \<subseteq> kept" using referrers_pass_grows kept by (fastforce simp: withReferrersOf_def)
    finally show ?thesis .
  qed
  from intact_delete_untagged [OF c this i]
  have *: "intact O1 l0 r n (fst (delete_untagged O1 rch kept es [] l))" by blast
  obtain l1 res1 where du: "delete_untagged O1 rch kept es [] l = (l1, res1)" by fastforce
  from * du have i1: "intact O1 l0 r n l1" by simp
  show ?thesis
  proof (cases res1)
    case (Inl e)
    with l' du i1 show ?thesis by simp
  next
    case (Inr forget)
    with l' du have "forgetUntagged O1 l1 forget = (l', err)" by simp
    with intact_forgetUntagged [OF c(1) i1, of forget] show ?thesis by simp
  qed
qed

lemma intact_collect_and_save:
  assumes c: "oras_contract O1" "tagged_content O1 l0 r n" and i: "intact O1 l0 r n l"
  shows "intact O1 l0 r n (fst (collect_and_save O1 l))"
proof -
  from c(1) have gc: "collect_keeps_tagged O1" and ix: "index_writes_only_index O1" and ra: "reads_agree O1"
    by (simp_all add: oras_contract_def)
  obtain l1 e1 where g: "Collect O1 l = (l1, e1)" by fastforce
  obtain l2 e2 where sv: "SaveIndex O1 l1 = (l2, e2)" by fastforce
  from i have t: "(r, n) \<in> tags O1 l" by (simp add: intact_def)
  have here: "Exists O1 l m = Inr True" if "m \<in> parts O1 l0 n" for m
    using that i by (auto simp: intact_def same_at_def parts_def)
  have sub: "parts O1 l0 n \<subseteq> reach O1 l (snd ` tags O1 l)"
  proof -
    have "parts O1 l0 n \<subseteq> reach O1 l {n}" using intact_reach [OF ra i] by (auto simp: parts_def)
    also have "\<dots> \<subseteq> reach O1 l (snd ` tags O1 l)" using t by (intro reach_mono) force
    finally show ?thesis .
  qed
  have "(r, n) \<in> tags O1 l1" using gc t here [OF root_part [OF c(2)]] g by (metis collect_keeps_tagged_def fst_conv)
  moreover have "same_at O1 l l1 m" if "m \<in> parts O1 l0 n" for m
    using gc here [OF that] sub that g by (metis collect_keeps_tagged_def fst_conv subsetD)
  ultimately have i1: "intact O1 l0 r n l1" using intact_same [OF i] by blast
  have "tags O1 l1 \<subseteq> tags O1 l2" "same_at O1 l1 l2 m" for m
    using contract_index(4) [OF ix sv] by blast+
  then have "intact O1 l0 r n l2" using intact_same [OF i1, of l2] i1 by (auto simp: intact_def)
  then show ?thesis by (simp add: collect_and_save_def g sv)
qed

lemma intact_clear_ingest:
  assumes "index_writes_only_index O1"
  shows "intact O1 l0 r n l \<Longrightarrow> intact O1 l0 r n (fst (clear_ingest O1 fs l))"
proof (induction fs arbitrary: l)
  case Nil
  then show ?case by simp
next
  case (Cons f fs)
  obtain l' e where rm: "remove_ingest O1 l f = (l', e)" by fastforce
  have "read_index O1 l' = read_index O1 l" "same_at O1 l l' m" for m
    using contract_index(3) [OF assms rm] by blast+
  then have "intact O1 l0 r n l'"
    using intact_same [OF Cons.prems, of l'] Cons.prems tags_read_index [of O1 l' l] by (simp add: intact_def)
  with Cons.IH rm show ?case by (cases e) simp_all
qed

lemma and_then_Some:
  "and_then x f = Some (l', err) \<longleftrightarrow>
   (\<exists>l e. x = Some (l, Some e) \<and> l' = l \<and> err = Some e) \<or> (\<exists>l. x = Some (l, None) \<and> f l = Some (l', err))"
  by (auto simp: and_then_def split: option.splits prod.splits)

lemma intact_GC:
  assumes c: "oras_contract O1" "tagged_content O1 l r n" and res: "GC O1 l = Some (l', err)"
  shows "intact O1 l r n l'"
proof -
  note i0 = intact_refl [OF c(2)]
  have i1: "intact O1 l r n (fst (dropIndexEntriesWithoutBlobs O1 l))"
    using intact_drop_entries [OF c i0] i0 by (simp add: dropIndexEntriesWithoutBlobs_def split: sum.split)
  have i2: "intact O1 l r n l2" if "intact O1 l r n l1" "unlinkOrphanedReferrers O1 l1 = Some (l2, e)" for l1 l2 e
    using that(2) intact_unlinkOrphanedTagged [OF c that(1)] intact_deleteUnreachableUntagged [OF c]
    unfolding unlinkOrphanedReferrers_def and_then_Some by blast
  have i4: "intact O1 l r n (fst (remove_partials O1 l3))" if "intact O1 l r n l3" for l3
    using that intact_clear_ingest [of O1 l r n l3] c(1)
    by (simp add: remove_partials_def oras_contract_def split: sum.split)
  have "snd x = y \<Longrightarrow> x = (fst x, y)" for x :: "'a \<times> store_error option" and y by (cases x) simp
  with res i1 i2 i4 intact_collect_and_save [OF c] show ?thesis
    unfolding GC_def and_then_Some option.inject by (metis fst_conv)
qed

end
