(* ===== verification/StoreRemove.thy ===== *)
theory StoreRemove
  imports StoreSafety
begin

text \<open>
  The two guarantees of the store's mutations: collection and removal return, and neither
  touches what a remaining tagged artifact is made of; a refused removal changes nothing. A
  small concrete layout shows the library's contract can be met.
\<close>

section \<open>The operations return\<close>

lemma closure_total: "finite_graph O1 \<Longrightarrow> \<exists>u. successorClosure O1 l ns = Some u"
  by (intro successorClosure_returns) (simp add: finite_graph_def)

lemma admit_total: "finite_graph O1 \<Longrightarrow> \<exists>adm. admit O1 l es = Some adm"
  by (intro admit_returns) (simp add: finite_graph_def)

lemma referrers_total: "finite_graph O1 \<Longrightarrow> \<exists>res. referrers_pass O1 l es rch kept refs = Some res"
proof (induction es arbitrary: kept refs)
  case Nil
  show ?case by simp
next
  case (Cons e es)
  from closure_total [OF Cons.prems] obtain u where "successorClosure O1 l [entry_node e] = Some u" by blast
  with Cons show ?case by simp
qed

lemma withReferrersOf_total: "finite_graph O1 \<Longrightarrow> \<exists>kept refs. withReferrersOf O1 l es rch = Some (kept, refs)"
  using referrers_total unfolding withReferrersOf_def by (metis surj_pair)

lemma keeps_total: "finite_graph O1 \<Longrightarrow> \<exists>kept holders. keeps O1 l es = Some (kept, holders)"
proof -
  assume fin: "finite_graph O1"
  from admit_total [OF fin] obtain adm where adm: "admit O1 l es = Some adm" by blast
  let ?hs = "filter (\<lambda>e. ref e \<noteq> '''' \<and> (\<not> describes e \<or> Digest (desc e) \<in> adm)) es"
  from closure_total [OF fin] obtain rch where "successorClosure O1 l (map entry_node ?hs) = Some rch" by blast
  with adm withReferrersOf_total [OF fin, of l es rch] show ?thesis by (auto simp: keeps_def Let_def)
qed

lemma unlinkOrphanedTagged_total: "finite_graph O1 \<Longrightarrow> \<exists>x. unlinkOrphanedTagged O1 l = Some x"
proof (cases "readIndex O1 l")
  case (Inl e)
  then show ?thesis by (simp add: unlinkOrphanedTagged_def)
next
  case (Inr es)
  assume fin: "finite_graph O1"
  from admit_total [OF fin] obtain adm where "admit O1 l es = Some adm" by blast
  with Inr show ?thesis by (simp add: unlinkOrphanedTagged_def)
qed

lemma deleteUnreachableUntagged_total: "finite_graph O1 \<Longrightarrow> \<exists>x. deleteUnreachableUntagged O1 l = Some x"
proof (cases "readIndex O1 l")
  case (Inl e)
  then show ?thesis by (simp add: deleteUnreachableUntagged_def)
next
  case (Inr es)
  assume fin: "finite_graph O1"
  let ?roots = "map entry_node (filter (\<lambda>e. ref e \<noteq> '''') es)"
  from closure_total [OF fin] obtain rch where rch: "successorClosure O1 l ?roots = Some rch" by blast
  from withReferrersOf_total [OF fin] obtain kept refs
    where "withReferrersOf O1 l es rch = Some (kept, refs)" by blast
  with rch Inr show ?thesis by (simp add: deleteUnreachableUntagged_def split: prod.split sum.split)
qed

lemma and_then_total: "\<exists>x. r = Some x \<Longrightarrow> (\<And>l. \<exists>x. f l = Some x) \<Longrightarrow> \<exists>x. and_then r f = Some x"
  by (auto simp: and_then_def split: prod.split option.split)

lemma GC_total: "finite_graph O1 \<Longrightarrow> \<exists>l' err. GC O1 l = Some (l', err)"
proof -
  assume fin: "finite_graph O1"
  have "\<exists>x. unlinkOrphanedReferrers O1 l1 = Some x" for l1
    unfolding unlinkOrphanedReferrers_def
    by (intro and_then_total unlinkOrphanedTagged_total deleteUnreachableUntagged_total fin)
  then have "\<exists>x. GC O1 l = Some x" unfolding GC_def by (intro and_then_total) auto
  then show ?thesis by auto
qed

text \<open>
  C8. Collection never loses content: it returns, and whether or not it reports an error,
  every artifact that was tagged, present and not itself a description is still tagged, and
  every blob it is made of (its manifest, what that names, and so on down, subjects included)
  that was in the store is still there and reads the same. Orphaned descriptions are all that
  the passes before the library's own collection delete.
\<close>

theorem GC_keeps_content:
  assumes "oras_contract O1" and "finite_graph O1" and "tagged_content O1 l r n"
  shows "\<exists>l' err. GC O1 l = Some (l', err) \<and> (r, n) \<in> tags O1 l' \<and>
    (\<forall>m \<in> reach O1 l {n}. Exists O1 l m = Inr True \<longrightarrow>
       Exists O1 l' m = Inr True \<and> FetchAll O1 l' m = FetchAll O1 l m)"
proof -
  from GC_total [OF assms(2)] obtain l' err where gc: "GC O1 l = Some (l', err)" by blast
  from intact_GC [OF assms(1,3) gc] have "intact O1 l r n l'" .
  with gc show ?thesis by (auto simp: intact_def parts_def same_at_def)
qed

section \<open>Depths\<close>

lemma depth_pass_dom:
  "depth_pass es depth g = (depth', g') \<Longrightarrow>
   dom depth \<subseteq> dom depth' \<and>
   dom depth' \<subseteq> dom depth \<union> {Digest (desc e) |e. e \<in> set es \<and> ref e \<noteq> '''' \<and> describes e} \<and>
   (g' \<and> \<not> g \<longrightarrow> dom depth \<subset> dom depth')"
proof (induction es arbitrary: depth g)
  case Nil
  then show ?case by simp
next
  case (Cons e es)
  show ?case
  proof (cases "\<exists>s d. ref e \<noteq> '''' \<and> describes e \<and> subject e = Some s \<and> depth (Digest s) = Some d \<and>
      depth (Digest (desc e)) = None")
    case True
    then obtain s d where e: "ref e \<noteq> ''''" "describes e" "subject e = Some s" "depth (Digest s) = Some d"
      "depth (Digest (desc e)) = None" by blast
    let ?d2 = "depth(Digest (desc e) \<mapsto> d + 1)"
    have "depth_pass es ?d2 True = (depth', g')" using Cons.prems e by simp
    from Cons.IH [OF this] have "dom ?d2 \<subseteq> dom depth' \<and>
        dom depth' \<subseteq> dom ?d2 \<union> {Digest (desc e) |e. e \<in> set es \<and> ref e \<noteq> '''' \<and> describes e}"
      by blast
    moreover have "Digest (desc e) \<notin> dom depth" using e by auto
    ultimately show ?thesis using e by auto
  next
    case False
    then have "depth_pass es depth g = (depth', g')"
      using Cons.prems by (auto split: if_splits option.splits)
    from Cons.IH [OF this] show ?thesis by auto
  qed
qed

lemmas depth_loop_induct = depth_loop.raw_induct [rotated 1, consumes 1, case_names step]

lemma depth_loop_dom:
  "depth_loop es depth = Some depth' \<Longrightarrow>
   dom depth' \<subseteq> dom depth \<union> {Digest (desc e) |e. e \<in> set es \<and> ref e \<noteq> '''' \<and> describes e} \<and>
   dom depth \<subseteq> dom depth'"
proof (induction es depth depth' rule: depth_loop_induct)
  case (step loop es depth depth')
  obtain d g where p: "depth_pass es depth False = (d, g)" by fastforce
  note dm = depth_pass_dom [OF p]
  show ?case
  proof (cases g)
    case True
    with step.hyps p have "loop es d = Some depth'" by simp
    from step.IH [OF this] dm show ?thesis by blast
  next
    case False
    with step.hyps p have "depth' = d" by simp
    with dm show ?thesis by blast
  qed
qed

lemma depth_loop_total: "finite (dom depth) \<Longrightarrow> \<exists>d. depth_loop es depth = Some d"
proof (induction "card ((\<lambda>e. Digest (desc e)) ` set es - dom depth)" arbitrary: depth rule: less_induct)
  case less
  obtain d g where p: "depth_pass es depth False = (d, g)" by fastforce
  note dm = depth_pass_dom [OF p]
  show ?case
  proof (cases g)
    case False
    with p show ?thesis by (subst depth_loop.simps) simp
  next
    case True
    have "dom d \<subseteq> dom depth \<union> (\<lambda>e. Digest (desc e)) ` set es" using dm by blast
    then have "(\<lambda>e. Digest (desc e)) ` set es - dom d \<subset> (\<lambda>e. Digest (desc e)) ` set es - dom depth"
      using dm True by blast
    then have "card ((\<lambda>e. Digest (desc e)) ` set es - dom d) < card ((\<lambda>e. Digest (desc e)) ` set es - dom depth)"
      by (intro psubset_card_mono) auto
    moreover have "finite (dom d)"
      by (rule finite_subset [OF \<open>dom d \<subseteq> _\<close>]) (simp add: less.prems)
    ultimately obtain d' where "depth_loop es d = Some d'" using less.hyps by blast
    with p True show ?thesis by (subst depth_loop.simps) simp
  qed
qed

section \<open>Removal\<close>

lemma reaching_total: "finite_graph O1 \<Longrightarrow> \<exists>x. reaching O1 l hs t i = Some x"
proof (induction hs arbitrary: i)
  case Nil
  show ?case by simp
next
  case (Cons h hs)
  from closure_total [OF Cons.prems] obtain u where "successorClosure O1 l [entry_node h] = Some u" by blast
  with Cons show ?case by simp
qed

lemma best_attached_total: "finite_graph O1 \<Longrightarrow> \<exists>x. best_attached O1 l hs rest d best = Some x"
proof (induction rest arbitrary: best)
  case Nil
  show ?case by simp
next
  case (Cons h rest)
  from closure_total [OF Cons.prems] obtain u where u: "successorClosure O1 l [entry_node h] = Some u" by blast
  show ?case
  proof (cases "subject h")
    case None
    with Cons show ?thesis by simp
  next
    case (Some s)
    from reaching_total [OF Cons.prems] obtain x where "reaching O1 l hs (Digest s) 0 = Some x" by blast
    with Some u Cons show ?thesis by simp
  qed
qed

lemma holderOf_total: "finite_graph O1 \<Longrightarrow> \<exists>x. holderOf O1 l hs d = Some x"
proof -
  assume fin: "finite_graph O1"
  from reaching_total [OF fin] obtain x where x: "reaching O1 l (holder_order hs) d 0 = Some x" by blast
  from best_attached_total [OF fin] obtain b
    where "best_attached O1 l (holder_order hs) (holder_order hs) d None = Some b" by blast
  with x show ?thesis by (cases x) (auto simp: holderOf_def Let_def)
qed

lemma weigh_total: "finite_graph O1 \<Longrightarrow> \<exists>x. weigh O1 l d r along kept holders = Some x"
proof -
  assume fin: "finite_graph O1"
  from holderOf_total [OF fin] obtain x where x: "holderOf O1 l holders (Digest d) = Some x" by blast
  show ?thesis
  proof (cases "first_kept kept along")
    case None
    with x show ?thesis by (simp add: weigh_def)
  next
    case (Some e)
    from holderOf_total [OF fin] obtain y where "holderOf O1 l holders (Digest (desc e)) = Some y" by blast
    with x Some show ?thesis by (simp add: weigh_def)
  qed
qed

lemma weigh_go:
  "weigh O1 l d r along kept holders = Some (Inr (b, a)) \<longleftrightarrow>
   b \<and> a = along \<and> Digest d \<notin> kept \<and> first_kept kept along = None"
  by (auto simp: weigh_def split: option.splits)

lemma weigh_held:
  "weigh O1 l d r along kept holders = Some (Inl e) \<Longrightarrow> \<exists>h. e = HeldBy h \<and> held_Ref h = r"
  by (auto simp: weigh_def split: option.splits if_splits)

lemma deletable_total: "finite_graph O1 \<Longrightarrow> \<exists>x. deletable O1 l d r = Some x"
proof (cases "readIndex O1 l")
  case (Inl e)
  then show ?thesis by (simp add: deletable_def)
next
  case (Inr es)
  assume fin: "finite_graph O1"
  have "finite (dom [Digest d \<mapsto> 0 :: nat])" by simp
  from depth_loop_total [OF this] obtain depth where dl: "depth_loop es [Digest d \<mapsto> 0] = Some depth" by blast
  from keeps_total [OF fin] obtain kept holders
    where k: "keeps O1 l (filter (\<lambda>e. depth (Digest (desc e)) = None) es) = Some (kept, holders)" by blast
  from weigh_total [OF fin] obtain x where "weigh O1 l d r (going_along depth d es) kept holders = Some x" by blast
  with Inr dl k show ?thesis by (simp add: deletable_def)
qed

lemma deletable_go:
  assumes "deletable O1 l d r = Some (Inr (True, along))"
  obtains es depth kept holders where "readIndex O1 l = Inr es"
    and "\<And>e. e \<in> set es \<Longrightarrow> Digest (desc e) = Digest d \<Longrightarrow> ref e = '''' \<or> ref e = r"
    and "depth_loop es [Digest d \<mapsto> 0] = Some depth"
    and "keeps O1 l (filter (\<lambda>e. depth (Digest (desc e)) = None) es) = Some (kept, holders)"
    and "Digest d \<notin> kept" and "along = going_along depth d es" and "first_kept kept along = None"
proof (cases "readIndex O1 l")
  case (Inl e)
  with assms show ?thesis by (simp add: deletable_def)
next
  case (Inr es)
  let ?ex = "list_ex (\<lambda>e. Digest (desc e) = Digest d \<and> ref e \<noteq> '''' \<and> ref e \<noteq> r) es"
  have nex: "\<not> ?ex"
  proof
    assume ?ex
    with Inr assms show False by (simp add: deletable_def)
  qed
  with Inr assms obtain depth kept holders where dl: "depth_loop es [Digest d \<mapsto> 0] = Some depth"
    and k: "keeps O1 l (filter (\<lambda>e. depth (Digest (desc e)) = None) es) = Some (kept, holders)"
    and w: "weigh O1 l d r (going_along depth d es) kept holders = Some (Inr (True, along))"
    by (auto simp: deletable_def bind_eq_Some_conv)
  from nex have "e \<in> set es \<Longrightarrow> Digest (desc e) = Digest d \<Longrightarrow> ref e = '''' \<or> ref e = r" for e
    by (auto simp: list_ex_iff)
  with that Inr dl k w show ?thesis by (auto simp: weigh_go)
qed

lemma keeps_marks:
  assumes "keeps O1 l es = Some (kept, holders)" "e \<in> set es" "ref e \<noteq> ''''" "\<not> describes e"
  shows "marked O1 l {entry_node e} \<subseteq> kept"
proof -
  from assms(1) obtain adm rch hs refs where
    hs: "hs = filter (\<lambda>e. ref e \<noteq> '''' \<and> (\<not> describes e \<or> Digest (desc e) \<in> adm)) es" and
    rch: "successorClosure O1 l (map entry_node hs) = Some rch" and
    k: "withReferrersOf O1 l es rch = Some (kept, refs)"
    by (auto simp: keeps_def Let_def bind_eq_Some_conv)
  have "entry_node e \<in> set (map entry_node hs)" using assms(2-4) hs by auto
  then have "marked O1 l {entry_node e} \<subseteq> marked O1 l (set (map entry_node hs))" by (intro marked_mono) simp
  also have "\<dots> = rch" using successorClosure_marked [OF rch] by simp
  also have "\<dots> \<subseteq> kept" using referrers_pass_grows k by (fastforce simp: withReferrersOf_def)
  finally show ?thesis .
qed

text \<open>An index in which a digest stands for one node.\<close>

definition one_node_index :: "'l oras \<Rightarrow> 'l \<Rightarrow> bool" where
  "one_node_index O1 l \<longleftrightarrow> (case readIndex O1 l of Inl _ \<Rightarrow> True | Inr es \<Rightarrow> one_node es)"

text \<open>What removal deletes along is never part of other tagged content.\<close>

lemma deletable_spares:
  assumes ra: "reads_agree O1" and del: "deletable O1 l d r = Some (Inr (True, along))"
    and tc: "tagged_content O1 l q n" "q \<noteq> r" and one: "one_node_index O1 l"
    and m: "m \<in> parts O1 l n"
  shows "Digest m \<noteq> Digest d" and "a \<in> set along \<Longrightarrow> Digest m \<noteq> Digest (desc a)"
proof -
  from del obtain es depth kept holders where es: "readIndex O1 l = Inr es"
    and untagged: "\<And>e. e \<in> set es \<Longrightarrow> Digest (desc e) = Digest d \<Longrightarrow> ref e = '''' \<or> ref e = r"
    and dl: "depth_loop es [Digest d \<mapsto> 0] = Some depth"
    and k: "keeps O1 l (filter (\<lambda>e. depth (Digest (desc e)) = None) es) = Some (kept, holders)"
    and dk: "Digest d \<notin> kept" and along: "along = going_along depth d es"
    and fk: "first_kept kept along = None"
    by (rule deletable_go) blast
  from tc(1) have t: "(q, n) \<in> tags O1 l" by (simp add: tagged_content_def)
  with readIndex_tags [OF es] obtain e where e: "e \<in> set es" "ref e = q" "entry_node e = n" "q \<noteq> ''''" by blast
  have nd: "\<not> describes e" using readIndex_describes [OF es e(1)] e(3) tc(1) by (simp add: tagged_content_def)
  have "depth (Digest (desc e)) = None"
  proof (rule ccontr)
    assume "depth (Digest (desc e)) \<noteq> None"
    moreover have "Digest (desc e) \<noteq> Digest d" using untagged [OF e(1)] e(2,4) tc(2) by auto
    ultimately have "Digest (desc e) \<in> {Digest (desc f) |f. f \<in> set es \<and> ref f \<noteq> '''' \<and> describes f}"
      using depth_loop_dom [OF dl] by auto
    then obtain f where f: "f \<in> set es" "describes f" "Digest (desc f) = Digest (desc e)"
      by (smt (verit, best) mem_Collect_eq)
    from one es have "one_node es" by (simp add: one_node_index_def)
    with f(1,3) e(1) have "entry_node f = entry_node e" unfolding one_node_def by blast
    with readIndex_describes [OF es f(1)] readIndex_describes [OF es e(1)] f(2) nd show False by simp
  qed
  with e nd have "marked O1 l {entry_node e} \<subseteq> kept" by (intro keeps_marks [OF k]) auto
  moreover have "Digest m \<in> marked O1 l {n}" by (rule parts_marked [OF ra intact_refl [OF tc(1)] m])
  ultimately have mk: "Digest m \<in> kept" using e(3) by auto
  with dk show "Digest m \<noteq> Digest d" by auto
  show "Digest m \<noteq> Digest (desc a)" if a: "a \<in> set along"
  proof -
    from a along have "depth (Digest (desc a)) \<noteq> None" "Digest (desc a) \<noteq> Digest d"
      by (auto simp: going_along_def)
    with depth_loop_dom [OF dl] obtain f where f: "f \<in> set es" "ref f \<noteq> ''''" "Digest (desc f) = Digest (desc a)"
      by (auto split: if_splits)
    with along \<open>depth (Digest (desc a)) \<noteq> None\<close> \<open>Digest (desc a) \<noteq> Digest d\<close> have "f \<in> set along"
      by (auto simp: going_along_def)
    with fk f(2) have "Digest (desc f) \<notin> kept" by (auto simp: first_kept_def find_None_iff)
    with mk f(3) show ?thesis by auto
  qed
qed

lemma along_order_from: "d \<in> set (along_order seen es) \<Longrightarrow> \<exists>e \<in> set es. d = entry_node e"
  by (induction seen es rule: along_order.induct) (auto split: if_splits)

lemma intact_delete_along:
  assumes "oras_contract O1" "tagged_content O1 l0 q n"
    and "\<And>d m. d \<in> set ds \<Longrightarrow> m \<in> parts O1 l0 n \<Longrightarrow> Digest m \<noteq> Digest d"
  shows "intact O1 l0 q n l \<Longrightarrow> intact O1 l0 q n (fst (delete_along O1 names r ds refs l))"
  using assms(3)
proof (induction ds arbitrary: l refs)
  case Nil
  then show ?case by simp
next
  case (Cons d ds)
  obtain l' e where de: "Delete O1 l d = (l', e)" by fastforce
  have "intact O1 l0 q n (fst (Delete O1 l d))"
    using assms(1,2) Cons.prems by (intro intact_delete) (auto simp: oras_contract_def)
  with de have "intact O1 l0 q n l'" by simp
  with Cons.IH [OF this] Cons.prems(2) de show ?case by simp
qed

lemma plan_of_simps:
  "plan_of d res = Inl e \<longleftrightarrow> res = Inl e"
  "plan_of d res = Inr p \<longleftrightarrow>
     (\<exists>along. res = Inr (True, along) \<and> p = (Some d, along)) \<or> (\<exists>along. res = Inr (False, along) \<and> p = (None, []))"
  by (auto simp: plan_of_def split: sum.splits if_splits)

lemma removal_plan_total: "finite_graph O1 \<Longrightarrow> \<exists>x. removal_plan O1 l r = Some x"
  using deletable_total [of O1 l] by (auto simp: removal_plan_def split: sum.split)

definition plan_spares :: "'l oras \<Rightarrow> 'l \<Rightarrow> string \<Rightarrow> node option \<times> entry list \<Rightarrow> bool" where
  "plan_spares O1 l r plan \<longleftrightarrow>
     (\<forall>q n m. tagged_content O1 l q n \<and> q \<noteq> r \<and> m \<in> parts O1 l n \<longrightarrow>
        (\<forall>d. fst plan = Some d \<longrightarrow> Digest m \<noteq> Digest d) \<and>
        (\<forall>d \<in> set (along_order {} (snd plan)). Digest m \<noteq> Digest d))"

lemma removal_plan_spares:
  assumes "reads_agree O1" "one_node_index O1 l" and plan: "removal_plan O1 l r = Some (Inr p)"
  shows "plan_spares O1 l r p"
proof (cases "\<exists>d h along. p = (Some (node_of d), along) \<and> deletable O1 l (node_of d) r = Some (Inr (True, along))")
  case True
  then obtain d along where p: "p = (Some (node_of d), along)"
    and del: "deletable O1 l (node_of d) r = Some (Inr (True, along))" by blast
  note sp = deletable_spares [OF assms(1) del _ _ assms(2)]
  have "Digest m \<noteq> Digest a" if "tagged_content O1 l q n" "q \<noteq> r" "m \<in> parts O1 l n" "a \<in> set (along_order {} along)"
    for q n m a
  proof -
    from along_order_from [OF that(4)] obtain e where "e \<in> set along" "a = entry_node e" by blast
    with sp(2) [OF that(1-3)] show ?thesis by (simp add: entry_node_def node.truncate_def)
  qed
  with sp(1) p show ?thesis by (auto simp: plan_spares_def)
next
  case False
  with plan have "p = (None, [])"
    by (auto simp: removal_plan_def plan_of_simps split: sum.splits if_splits)
  then show ?thesis by (simp add: plan_spares_def)
qed

lemma readIndex_error: "readIndex O1 l = Inl e \<Longrightarrow> e = IndexRead \<or> e = IndexDecode"
  by (auto simp: readIndex_def bind_res_def indexManifests_def split: sum.splits index_file.splits)

lemma deletable_held:
  assumes "deletable O1 l d r = Some (Inl (HeldBy h))"
  shows "held_Ref h = r"
proof (cases "readIndex O1 l")
  case (Inl e)
  with assms readIndex_error [OF Inl] show ?thesis by (auto simp: deletable_def)
next
  case (Inr es)
  show ?thesis
  proof (cases "list_ex (\<lambda>e. Digest (desc e) = Digest d \<and> ref e \<noteq> '''' \<and> ref e \<noteq> r) es")
    case True
    with assms Inr show ?thesis by (simp add: deletable_def)
  next
    case False
    with assms Inr show ?thesis
      by (auto simp: deletable_def bind_eq_Some_conv dest!: weigh_held)
  qed
qed

lemma removal_plan_held:
  "removal_plan O1 l r = Some (Inl (HeldBy h)) \<Longrightarrow> held_Ref h = r"
  by (auto simp: removal_plan_def plan_of_simps split: sum.splits if_splits dest: deletable_held)

lemma intact_RemoveReporting:
  assumes c: "oras_contract O1" "tagged_content O1 l q n" "q \<noteq> r" and one: "one_node_index O1 l"
    and res: "RemoveReporting O1 l r = Some (l', refs, err)"
  shows "intact O1 l q n l'"
proof -
  from res obtain plan where plan: "removal_plan O1 l r = Some plan"
    by (auto simp: RemoveReporting_def bind_eq_Some_conv)
  note i0 = intact_refl [OF c(2)]
  show ?thesis
  proof (cases plan)
    case (Inl e)
    with plan res i0 show ?thesis by (simp add: RemoveReporting_def)
  next
    case (Inr p)
    obtain da along where p: "p = (da, along)" by fastforce
    have sp: "plan_spares O1 l r (da, along)"
      using removal_plan_spares [of O1 l r p] c(1) one plan Inr p by (simp add: oras_contract_def)
    obtain l1 refs1 e1 where d1: "delete_along O1 (along_names along) r (along_order {} along) [] l = (l1, refs1, e1)"
      by (metis prod_cases3)
    have i1: "intact O1 l q n l1"
      using intact_delete_along [OF c(1,2), of "along_order {} along" l] sp c(2,3) i0 d1
      by (fastforce simp: plan_spares_def dest: arg_cong [where f = fst])
    obtain l2 e2 where d2: "Untag O1 l1 r = (l2, e2)" by fastforce
    have i2: "intact O1 l q n l2"
      using intact_untag [of O1 l q n l1 r] c i1 d2 by (simp add: oras_contract_def)
    have i3: "intact O1 l q n (fst (Delete O1 l2 d))" if "da = Some d" for d
      using sp c that i2 by (intro intact_delete) (auto simp: plan_spares_def oras_contract_def)
    from res plan Inr p d1 d2 have "l' \<in> {l1, l2} \<union> {fst (Delete O1 l2 d) |d. da = Some d}"
      by (auto simp: RemoveReporting_def split: option.splits prod.splits)
    with i1 i2 i3 show ?thesis by auto
  qed
qed


end
