(* ===== verification/StoreLayout.thy ===== *)
theory StoreLayout
  imports StoreRemove
begin

text \<open>
  A small layout kept in two lists, the index and the blobs, that meets the content library's
  contract: the guarantees of the store apply to it, which the witnesses show on a model with
  a signature.
\<close>

record layout =
  lay_index :: "descriptor list"
  lay_blobs :: "(string \<times> string) list"

definition names_of :: "string \<Rightarrow> node list option" where
  "names_of raw =
     (case (unmarshal_manifest raw, unmarshal_head raw) of
        (Some m, Some h) \<Rightarrow>
          Some ((case h_subject h of None \<Rightarrow> [] | Some s \<Rightarrow> [s]) @ node_of (Config m) # map node_of (Layers m))
      | _ \<Rightarrow> None)"

definition disk :: "layout oras" where
  "disk = \<lparr>
     Exists = (\<lambda>l n. Inr (map_of (lay_blobs l) (Digest n) \<noteq> None)),
     Successors = (\<lambda>l n.
        if MediaType n = MediaTypeImageManifest then
          (case map_of (lay_blobs l) (Digest n) of
             None \<Rightarrow> Inl NotFound
           | Some raw \<Rightarrow> (case names_of raw of None \<Rightarrow> Inl (OtherError ''decode'') | Some ns \<Rightarrow> Inr ns))
        else Inr []),
     FetchAll = (\<lambda>l n. case map_of (lay_blobs l) (Digest n) of None \<Rightarrow> Inl NotFound | Some raw \<Rightarrow> Inr raw),
     oci_Resolve = (\<lambda>l r. case filter (\<lambda>d. ref_name d = r) (lay_index l) of [] \<Rightarrow> Inl NotFound | ds \<Rightarrow> Inr (last ds)),
     Untag = (\<lambda>l r. (l\<lparr>lay_index := filter (\<lambda>d. ref_name d \<noteq> r) (lay_index l)\<rparr>, None)),
     Delete = (\<lambda>l n. (l\<lparr>lay_index := filter (\<lambda>d. Digest d \<noteq> Digest n) (lay_index l),
                        lay_blobs := filter (\<lambda>b. fst b \<noteq> Digest n) (lay_blobs l)\<rparr>, None)),
     Collect = (\<lambda>l. (l, None)),
     SaveIndex = (\<lambda>l. (l, None)),
     read_index = (\<lambda>l. Manifests (lay_index l)),
     write_index = (\<lambda>l ds. (l\<lparr>lay_index := ds\<rparr>, None)),
     reopen = (\<lambda>l. (l, None)),
     read_ingest = (\<lambda>l. Inr []),
     remove_ingest = (\<lambda>l f. (l, None))\<rparr>"

lemma disk_tags: "tags disk l = index_tags (lay_index l)"
  by (simp add: tags_def indexManifests_def disk_def)

lemma index_tags_plain_filter:
  assumes "(r, n) \<in> index_tags all" and "\<And>d. ref_name d = r \<Longrightarrow> node_of d = n \<Longrightarrow> Q d"
  shows "(r, n) \<in> index_tags (filter Q all)"
proof -
  from assms(1) obtain d us vs where d: "r = ref_name d" "n = node_of d" "all = us @ d # vs"
    "holds_name d vs" "ref_name d \<noteq> Digest d" by (auto simp: index_tags_def)
  with assms(2) have "filter Q all = filter Q us @ d # filter Q vs" by simp
  moreover have "holds_name d (filter Q vs)" using d(4) by (auto simp: holds_name_def)
  ultimately show ?thesis using d unfolding index_tags_def by blast
qed

lemma map_of_filter_other: "k \<noteq> x \<Longrightarrow> map_of (filter (\<lambda>b. fst b \<noteq> x) bs) k = map_of bs k"
  by (induction bs) auto

lemma disk_finite: "finite_graph disk"
proof -
  have "finite (reach disk l R)" if R: "finite R" for l R
  proof (rule finite_subset)
    let ?all = "\<Union>raw \<in> snd ` set (lay_blobs l). set (case names_of raw of None \<Rightarrow> [] | Some ns \<Rightarrow> ns)"
    show "finite (R \<union> ?all)" by (intro finite_UnI finite_UN_I R finite_imageI finite_set)
    show "reach disk l R \<subseteq> R \<union> ?all"
    proof
      fix n assume "n \<in> reach disk l R"
      then show "n \<in> R \<union> ?all"
      proof (cases rule: reach.cases)
        case reach_root
        then show ?thesis by simp
      next
        case (reach_step p ss)
        from reach_step(2,3) obtain raw where raw: "map_of (lay_blobs l) (Digest p) = Some raw" "names_of raw = Some ss"
          by (auto simp: disk_def split: if_splits option.splits)
        from map_of_SomeD [OF raw(1)] have "raw \<in> snd ` set (lay_blobs l)" by force
        with raw(2) reach_step(3) show ?thesis by auto
      qed
    qed
  qed
  then show ?thesis by (simp add: finite_graph_def)
qed

lemma disk_contract: "oras_contract disk"
proof -
  have "reads_agree disk"
    by (auto simp: reads_agree_def disk_def split: if_splits option.splits)
  moreover have "delete_removes_one disk"
    unfolding delete_removes_one_def disk_tags
    by (auto simp: disk_def same_at_def map_of_filter_other node.truncate_def intro!: index_tags_plain_filter)
  moreover have "untag_removes_one disk"
    unfolding untag_removes_one_def disk_tags
    by (auto simp: disk_def same_at_def intro!: index_tags_plain_filter)
  moreover have "collect_keeps_tagged disk"
    by (simp add: collect_keeps_tagged_def disk_tags) (simp add: disk_def same_at_def)
  moreover have "index_writes_only_index disk"
    by (simp add: index_writes_only_index_def disk_tags) (simp add: disk_def same_at_def)
  ultimately show ?thesis by (simp add: oras_contract_def)
qed

section \<open>A model with a signature\<close>

text \<open>Text with the quotes of a JSON document written as tildes.\<close>

definition quoted :: "string \<Rightarrow> string" where
  "quoted = map (\<lambda>c. if c = CHR ''~'' then CHR 0x22 else c)"

definition sample_node :: "string \<Rightarrow> node" where
  "sample_node d = \<lparr>MediaType = MediaTypeImageManifest, Digest = d, Size = 9\<rparr>"

definition sample_tag :: "string \<Rightarrow> string \<Rightarrow> descriptor" where
  "sample_tag d r = \<lparr>MediaType = MediaTypeImageManifest, Digest = d, Size = 9, Annotations = [(AnnotationRefName, r)]\<rparr>"

definition sample_layout :: layout where
  "sample_layout = \<lparr>
     lay_index = [sample_tag ''d:m'' ''model'', sample_tag ''d:s'' ''model.sig''],
     lay_blobs =
       [(''d:m'', quoted ''{~config~:{~mediaType~:~c~,~digest~:~d:c~,~size~:2}}''),
        (''d:c'', ''{}''),
        (''d:s'', quoted (''{~artifactType~:~application/spdx+json~,~subject~:{~mediaType~:~'' @ MediaTypeImageManifest
                 @ ''~,~digest~:~d:m~,~size~:9}}''))]\<rparr>"

lemma sample_es:
  "readIndex disk sample_layout =
     Inr [\<lparr>desc = sample_tag ''d:m'' ''model'', ref = ''model'', subject = None, describes = False\<rparr>,
          \<lparr>desc = sample_tag ''d:s'' ''model.sig'', ref = ''model.sig'',
           subject = Some (sample_node ''d:m''), describes = True\<rparr>]"
  by code_simp

lemma sample_content: "tagged_content disk sample_layout ''model'' (sample_node ''d:m'')"
proof -
  have "(''model'', sample_node ''d:m'') \<in> tags disk sample_layout"
    using readIndex_tags [OF sample_es, of "''model''" "sample_node ''d:m''"]
    by (simp add: entry_node_def sample_tag_def sample_node_def node.truncate_def)
  moreover have "Exists disk sample_layout (sample_node ''d:m'') = Inr True" by code_simp
  moreover have "\<not> description disk sample_layout (sample_node ''d:m'')" by code_simp
  ultimately show ?thesis by (simp add: tagged_content_def)
qed

theorem GC_keeps_content_witness:
  "\<exists>l' err. GC disk sample_layout = Some (l', err) \<and> (''model'', sample_node ''d:m'') \<in> tags disk l'"
  using GC_keeps_content [OF disk_contract disk_finite sample_content] by blast

lemma sample_one_node: "one_node_index disk sample_layout"
  by (simp add: one_node_index_def sample_es one_node_def sample_tag_def entry_node_def node.truncate_def)


theorem successorClosure_exact_witness:
  "\<exists>res. successorClosure disk sample_layout [sample_node ''d:s''] = Some res \<and> ''d:m'' \<in> res"
proof -
  have f: "finite (reach disk sample_layout (set [sample_node ''d:s'']))"
    using disk_finite by (simp add: finite_graph_def)
  have s: "Successors disk sample_layout (sample_node ''d:s'') = Inr [sample_node ''d:m'', node_of no_descriptor]"
    by code_simp
  have "sample_node ''d:m'' \<in> reach disk sample_layout (set [sample_node ''d:s''])"
    by (rule reach_step [OF reach_root s]) simp_all
  moreover have "Exists disk sample_layout (sample_node ''d:m'') = Inr True" by code_simp
  moreover have "Digest (sample_node ''d:m'') = ''d:m''" by (simp add: sample_node_def)
  ultimately show ?thesis using successorClosure_exact [OF f] by blast
qed

definition sample_entries :: "entry list" where
  "sample_entries =
     [\<lparr>desc = sample_tag ''d:m'' ''model'', ref = ''model'', subject = None, describes = False\<rparr>,
      \<lparr>desc = sample_tag ''d:s'' ''model.sig'', ref = ''model.sig'',
       subject = Some (sample_node ''d:m''), describes = True\<rparr>]"

theorem admit_least_witness:
  "\<exists>adm. admit disk sample_layout sample_entries = Some adm \<and> ''d:s'' \<in> adm"
proof -
  let ?s = "\<lparr>desc = sample_tag ''d:s'' ''model.sig'', ref = ''model.sig'',
      subject = Some (sample_node ''d:m''), describes = True\<rparr>"
  have f: "finite (reach disk sample_layout (entry_node ` set sample_entries))"
    using disk_finite by (simp add: finite_graph_def)
  have one: "one_node sample_entries"
    by (simp add: one_node_def sample_entries_def sample_tag_def entry_node_def node.truncate_def)
  have root: "sample_node ''d:m'' \<in> set (content_roots sample_entries)" by code_simp
  have ex: "Exists disk sample_layout (sample_node ''d:m'') = Inr True" by code_simp
  have "Digest (sample_node ''d:m'') \<in> marked disk sample_layout (set (content_roots sample_entries))"
    unfolding marked_def marks_def by (rule imageI) (simp add: reach_root root ex)
  then have "alive disk sample_layout sample_entries ?s"
    by (intro alive_root) (auto simp: sample_entries_def)
  then have "Digest (desc ?s) \<in> (\<lambda>e. Digest (desc e)) ` {e. alive disk sample_layout sample_entries e}" by blast
  moreover have "Digest (desc ?s) = ''d:s''" by (simp add: sample_tag_def)
  ultimately show ?thesis using admit_least [OF f one] by metis
qed

end
