(* ===== verification/Encoding.thy ===== *)
theory Encoding
  imports Json
begin

text \<open>
  Encodings of the standard library the sources read and write: hexadecimal, base64 with
  padding, decimal integers, and the splitting of a line into fields.
\<close>

abbreviation byte :: "char \<Rightarrow> nat" where
  "byte c \<equiv> of_char c"

lemma byte_less [simp]: "byte c < 256"
  by (cases c) (simp add: of_char_def)

section \<open>Hexadecimal\<close>

definition hex_char :: "nat \<Rightarrow> char" where
  "hex_char n = char_of (if n < 10 then n + 48 else n + 87)"

fun hex_encode :: "string \<Rightarrow> string" where
  "hex_encode [] = []"
| "hex_encode (c # cs) = hex_char (byte c div 16) # hex_char (byte c mod 16) # hex_encode cs"

fun hex_decode :: "string \<Rightarrow> string option" where
  "hex_decode [] = Some []"
| "hex_decode [c] = None"
| "hex_decode (a # b # cs) =
     (case (hex_value a, hex_value b) of
        (Some x, Some y) \<Rightarrow> map_option ((#) (char_of (16 * x + y))) (hex_decode cs)
      | _ \<Rightarrow> None)"

lemma hex_value_char: "n < 16 \<Longrightarrow> hex_value (hex_char n) = Some n"
  by (auto simp: hex_char_def hex_value_def)

lemma hex_roundtrip [simp]: "hex_decode (hex_encode s) = Some s"
proof (induction s)
  case Nil
  show ?case by simp
next
  case (Cons c s)
  have "byte c div 16 < 16" using byte_less [of c] by (simp add: less_mult_imp_div_less)
  with Cons show ?case by (simp add: hex_value_char)
qed

lemma hex_injective: "hex_encode s = hex_encode t \<longleftrightarrow> s = t"
  by (metis hex_roundtrip option.inject)

lemma hex_char_plain: "n < 16 \<Longrightarrow> hex_char n \<noteq> CHR 0x22 \<and> hex_char n \<noteq> CHR '' ''"
proof -
  have "\<forall>n \<in> set [0..<16]. hex_char n \<noteq> CHR 0x22 \<and> hex_char n \<noteq> CHR '' ''" by code_simp
  then show "n < 16 \<Longrightarrow> ?thesis" by simp
qed

lemma hex_plain: "CHR 0x22 \<notin> set (hex_encode s)"
proof (induction s)
  case Nil
  show ?case by simp
next
  case (Cons c s)
  have "byte c div 16 < 16" using byte_less [of c] by (simp add: less_mult_imp_div_less)
  with Cons hex_char_plain [of "byte c div 16"] hex_char_plain [of "byte c mod 16"] show ?case by auto
qed

section \<open>Base64\<close>

definition b64_char :: "nat \<Rightarrow> char" where
  "b64_char n =
     (if n < 26 then char_of (n + 65) else if n < 52 then char_of (n + 71)
      else if n < 62 then char_of (n - 4) else if n = 62 then CHR ''+'' else CHR ''/'')"

definition b64_value :: "char \<Rightarrow> nat option" where
  "b64_value c =
     (let n = byte c in
      if 65 \<le> n \<and> n \<le> 90 then Some (n - 65)
      else if 97 \<le> n \<and> n \<le> 122 then Some (n - 71)
      else if 48 \<le> n \<and> n \<le> 57 then Some (n + 4)
      else if n = 43 then Some 62 else if n = 47 then Some 63 else None)"

fun b64_encode :: "string \<Rightarrow> string" where
  "b64_encode [] = []"
| "b64_encode [a] = [b64_char (byte a div 4), b64_char (byte a mod 4 * 16), CHR ''='', CHR ''='']"
| "b64_encode [a, b] =
     [b64_char (byte a div 4), b64_char (byte a mod 4 * 16 + byte b div 16), b64_char (byte b mod 16 * 4), CHR ''='']"
| "b64_encode (a # b # c # cs) =
     b64_char (byte a div 4) # b64_char (byte a mod 4 * 16 + byte b div 16) #
     b64_char (byte b mod 16 * 4 + byte c div 64) # b64_char (byte c mod 64) # b64_encode cs"

definition b64_bytes :: "nat \<Rightarrow> nat \<Rightarrow> nat \<Rightarrow> nat \<Rightarrow> string" where
  "b64_bytes w x y z =
     [char_of (w * 4 + x div 16), char_of (x mod 16 * 16 + y div 4), char_of (y mod 4 * 64 + z)]"

fun b64_groups :: "string \<Rightarrow> string option" where
  "b64_groups [] = Some []"
| "b64_groups (a # b # c # d # cs) =
     (case (b64_value a, b64_value b) of
        (Some w, Some x) \<Rightarrow>
          (if d = CHR ''='' then
             (if cs \<noteq> [] then None
              else if c = CHR ''='' then Some (take 1 (b64_bytes w x 0 0))
              else (case b64_value c of None \<Rightarrow> None | Some y \<Rightarrow> Some (take 2 (b64_bytes w x y 0))))
           else (case (b64_value c, b64_value d) of
                   (Some y, Some z) \<Rightarrow> map_option ((@) (b64_bytes w x y z)) (b64_groups cs)
                 | _ \<Rightarrow> None))
      | _ \<Rightarrow> None)"
| "b64_groups s = None"

text \<open>\<^verbatim>\<open>StdEncoding.DecodeString\<close> skips line ends and is not strict about spare bits.\<close>

definition b64_decode :: "string \<Rightarrow> string option" where
  "b64_decode s = b64_groups (filter (\<lambda>c. c \<noteq> CHR 0x0A \<and> c \<noteq> CHR 0x0D) s)"

lemma b64_char_value: "n < 64 \<Longrightarrow> b64_value (b64_char n) = Some n \<and> b64_char n \<noteq> CHR ''='' \<and>
    b64_char n \<noteq> CHR 0x0A \<and> b64_char n \<noteq> CHR 0x0D \<and> b64_char n \<noteq> CHR 0x22"
proof -
  assume n: "n < 64"
  have other: "b64_value c = Some k \<Longrightarrow> c \<noteq> CHR ''='' \<and> c \<noteq> CHR 0x0A \<and> c \<noteq> CHR 0x0D \<and> c \<noteq> CHR 0x22" for c k
    by (auto simp: b64_value_def)
  consider "n < 26" | "26 \<le> n" "n < 52" | "52 \<le> n" "n < 62" | "n = 62" | "n = 63" using n by linarith
  then have "b64_value (b64_char n) = Some n"
    by cases (simp_all add: b64_char_def b64_value_def Let_def, linarith+)
  with other [OF this] show ?thesis by simp
qed

lemma sextets:
  fixes a b c :: nat
  assumes "a < 256" "b < 256" "c < 256"
  shows "a div 4 < 64" "a mod 4 * 16 + b div 16 < 64" "b mod 16 * 4 + c div 64 < 64" "c mod 64 < 64"
    "a mod 4 * 16 < 64" "b mod 16 * 4 < 64"
proof -
  have d: "a div 4 < 64" "b div 16 < 16" "c div 64 < 4" using assms by (simp_all add: less_mult_imp_div_less)
  have m: "a mod 4 < 4" "b mod 16 < 16" by simp_all
  have add: "x < 4 \<Longrightarrow> y < 16 \<Longrightarrow> x * 16 + y < 64" "y < 16 \<Longrightarrow> x < 4 \<Longrightarrow> y * 4 + x < 64" for x y :: nat
    by linarith+
  show "a div 4 < 64" by (rule d)
  show "a mod 4 * 16 + b div 16 < 64" by (rule add(1) [OF m(1) d(2)])
  show "b mod 16 * 4 + c div 64 < 64" by (rule add(2) [OF m(2) d(3)])
  show "c mod 64 < 64" by simp
  show "a mod 4 * 16 < 64" using add(1) [OF m(1), of 0] by simp
  show "b mod 16 * 4 < 64" using add(2) [OF m(2), of 0] by simp
qed

lemma unsextets:
  fixes a b c :: nat
  assumes "b < 256" "c < 256"
  shows "a div 4 * 4 + (a mod 4 * 16 + b div 16) div 16 = a"
    and "(a mod 4 * 16 + b div 16) mod 16 * 16 + (b mod 16 * 4 + c div 64) div 4 = b"
    and "(b mod 16 * 4 + c div 64) mod 4 * 64 + c mod 64 = c"
proof -
  have "b div 16 < 16" "c div 64 < 4" using assms by (simp_all add: less_mult_imp_div_less)
  then show "a div 4 * 4 + (a mod 4 * 16 + b div 16) div 16 = a"
    and "(a mod 4 * 16 + b div 16) mod 16 * 16 + (b mod 16 * 4 + c div 64) div 4 = b"
    and "(b mod 16 * 4 + c div 64) mod 4 * 64 + c mod 64 = c" by simp_all
qed

lemma b64_bytes_of:
  "b64_bytes (byte a div 4) (byte a mod 4 * 16 + byte b div 16) (byte b mod 16 * 4 + byte c div 64) (byte c mod 64) = [a, b, c]"
  unfolding b64_bytes_def unsextets [OF byte_less byte_less] by simp

lemma b64_groups_encode: "b64_groups (b64_encode s) = Some s"
proof (induction s rule: b64_encode.induct)
  case 1
  show ?case by simp
next
  case (2 a)
  note s = sextets [OF byte_less [of a] byte_less [of a] byte_less [of a]]
  have "a = hd (b64_bytes (byte a div 4) (byte a mod 4 * 16) 0 0)" by (simp add: b64_bytes_def)
  then show ?case using b64_char_value [OF s(1)] b64_char_value [OF s(5)] by (simp add: b64_bytes_def)
next
  case (3 a b)
  note s = sextets [OF byte_less [of a] byte_less [of b] byte_less [of b]]
  show ?case
    using b64_char_value [OF s(1)] b64_char_value [OF s(2)] b64_char_value [OF s(6)] b64_bytes_of [of a b "CHR 0x00"]
    by (simp add: b64_bytes_def)
next
  case (4 a b c cs)
  note s = sextets [OF byte_less [of a] byte_less [of b] byte_less [of c]]
  show ?case
    using b64_char_value [OF s(1)] b64_char_value [OF s(2)] b64_char_value [OF s(3)] b64_char_value [OF s(4)] 4
      b64_bytes_of [of a b c] by simp
qed

lemma b64_plain: "c \<in> set (b64_encode s) \<Longrightarrow> c \<noteq> CHR 0x0A \<and> c \<noteq> CHR 0x0D \<and> c \<noteq> CHR 0x22"
proof (induction s rule: b64_encode.induct)
  case 1
  then show ?case by simp
next
  case (2 a)
  note s = sextets [OF byte_less [of a] byte_less [of a] byte_less [of a]]
  from 2 b64_char_value [OF s(1)] b64_char_value [OF s(5)] show ?case by auto
next
  case (3 a b)
  note s = sextets [OF byte_less [of a] byte_less [of b] byte_less [of b]]
  from 3 b64_char_value [OF s(1)] b64_char_value [OF s(2)] b64_char_value [OF s(6)] show ?case by auto
next
  case (4 a b c' cs)
  note s = sextets [OF byte_less [of a] byte_less [of b] byte_less [of c']]
  from 4 b64_char_value [OF s(1)] b64_char_value [OF s(2)] b64_char_value [OF s(3)] b64_char_value [OF s(4)]
  show ?case by auto
qed

lemma b64_roundtrip [simp]: "b64_decode (b64_encode s) = Some s"
proof -
  have "filter (\<lambda>c. c \<noteq> CHR 0x0A \<and> c \<noteq> CHR 0x0D) (b64_encode s) = b64_encode s"
    using b64_plain by (simp add: filter_id_conv)
  then show ?thesis by (simp add: b64_decode_def b64_groups_encode)
qed

lemma b64_injective: "b64_encode s = b64_encode t \<longleftrightarrow> s = t"
  by (metis b64_roundtrip option.inject)

section \<open>Decimal integers\<close>

function itoa_nat :: "nat \<Rightarrow> string" where
  "itoa_nat n = (if n < 10 then [char_of (n + 48)] else itoa_nat (n div 10) @ [char_of (n mod 10 + 48)])"
  by pat_completeness auto
termination by (relation "measure id") auto

declare itoa_nat.simps [simp del]

definition itoa :: "int \<Rightarrow> string" where
  "itoa i = (if i < 0 then CHR ''-'' # itoa_nat (nat (- i)) else itoa_nat (nat i))"

text \<open>\<^verbatim>\<open>strconv.ParseInt(s, 10, 64)\<close>.\<close>

definition ParseInt :: "string \<Rightarrow> int option" where
  "ParseInt s =
     (let neg = prefix ''-'' s; d = (if neg \<or> prefix ''+'' s then tl s else s);
          n = int (nat_of_digits 0 d); v = (if neg then - n else n) in
      if d = [] \<or> \<not> list_all is_digit d then None
      else if - (2 ^ 63) \<le> v \<and> v < 2 ^ 63 then Some v else None)"

lemma nat_of_digits_append: "nat_of_digits a (s @ t) = nat_of_digits (nat_of_digits a s) t"
  by (induction a s rule: nat_of_digits.induct) auto

lemma itoa_nat_digits: "itoa_nat n \<noteq> [] \<and> list_all is_digit (itoa_nat n)"
proof (induction n rule: itoa_nat.induct)
  case (1 n)
  have d: "k < 10 \<Longrightarrow> is_digit (char_of (k + 48))" for k :: nat by (simp add: is_digit_def)
  show ?case
  proof (cases "n < 10")
    case True
    then show ?thesis using d [of n] by (simp add: itoa_nat.simps [of n])
  next
    case False
    then show ?thesis using 1 d [of "n mod 10"] by (simp add: itoa_nat.simps [of n])
  qed
qed

lemma nat_of_digits_itoa [simp]: "nat_of_digits 0 (itoa_nat n) = n"
proof (induction n rule: itoa_nat.induct)
  case (1 n)
  then show ?case
    by (cases "n < 10") (simp_all add: itoa_nat.simps [of n] nat_of_digits_append digit_value_def)
qed

lemma digit_plain: "is_digit c \<Longrightarrow> c \<noteq> CHR '' '' \<and> c \<noteq> CHR '','' \<and> c \<noteq> CHR ''-'' \<and> c \<noteq> CHR ''}'' \<and> c \<noteq> CHR ''+''"
  by (auto simp: is_digit_def)

lemma itoa_nat_plain:
  "CHR '' '' \<notin> set (itoa_nat n)" "CHR '','' \<notin> set (itoa_nat n)" "CHR ''}'' \<notin> set (itoa_nat n)" "hd (itoa_nat n) \<noteq> CHR ''-''"
  using itoa_nat_digits [of n] digit_plain by (auto simp: list_all_iff hd_in_set)

lemma itoa_nat_nonzero: "hd (itoa_nat n) = CHR ''0'' \<Longrightarrow> length (itoa_nat n) = 1"
proof (induction n rule: itoa_nat.induct)
  case (1 n)
  show ?case
  proof (cases "n < 10")
    case True
    then show ?thesis by (simp add: itoa_nat.simps [of n])
  next
    case False
    with 1 itoa_nat_digits [of "n div 10"] have h: "hd (itoa_nat (n div 10)) = CHR ''0''" "length (itoa_nat (n div 10)) = 1"
      by (simp_all add: itoa_nat.simps [of n])
    then have "itoa_nat (n div 10) = ''0''" by (cases "itoa_nat (n div 10)") auto
    from arg_cong [OF this, of "nat_of_digits 0"] False show ?thesis by (simp add: digit_value_def)
  qed
qed

lemma itoa_nat_inj: "itoa_nat m = itoa_nat n \<longleftrightarrow> m = n"
  by (metis nat_of_digits_itoa)

lemma itoa_inj: "itoa i = itoa j \<longleftrightarrow> i = j"
proof
  assume e: "itoa i = itoa j"
  have ne: "itoa_nat n \<noteq> CHR ''-'' # s" for n s using itoa_nat_plain(4) [of n] by auto
  from e ne [symmetric] show "i = j"
    by (auto simp: itoa_def itoa_nat_inj ne split: if_splits)
qed simp

lemma itoa_plain: "CHR '','' \<notin> set (itoa i)" "CHR ''}'' \<notin> set (itoa i)"
  using itoa_nat_plain by (auto simp: itoa_def)

section \<open>Fields\<close>

text \<open>\<^verbatim>\<open>strings.Fields\<close> on the ASCII white space.\<close>

definition is_space :: "char \<Rightarrow> bool" where
  "is_space c \<longleftrightarrow> c = CHR '' '' \<or> (9 \<le> byte c \<and> byte c \<le> 13)"

function Fields :: "string \<Rightarrow> string list" where
  "Fields s =
     (let t = dropWhile is_space s in
      if t = [] then []
      else takeWhile (\<lambda>c. \<not> is_space c) t # Fields (dropWhile (\<lambda>c. \<not> is_space c) t))"
  by pat_completeness auto
termination
proof (relation "measure length")
  fix s t assume t: "t = dropWhile is_space s" "t \<noteq> []"
  then have "\<not> is_space (hd t)" using hd_dropWhile by metis
  with t(2) have "length (dropWhile (\<lambda>c. \<not> is_space c) t) < length t"
    by (cases t) (simp_all add: length_dropWhile_le le_imp_less_Suc)
  also have "length t \<le> length s" using t(1) by (simp add: length_dropWhile_le)
  finally show "(dropWhile (\<lambda>c. \<not> is_space c) t, s) \<in> measure length" by simp
qed simp

declare Fields.simps [simp del]

definition trim_right :: "char \<Rightarrow> string \<Rightarrow> string" where
  "trim_right c s = rev (dropWhile ((=) c) (rev s))"

lemma first_char_split:
  "c \<notin> set x \<Longrightarrow> c \<notin> set x' \<Longrightarrow> x @ c # y = x' @ c # y' \<Longrightarrow> x = x' \<and> y = y'"
  by (induction x arbitrary: x') (auto simp: Cons_eq_append_conv append_eq_Cons_conv)

end
