(* ===== verification/Sha256.thy ===== *)
theory Sha256
  imports Prelude
begin

text \<open>
  SHA-256 of the standard library over byte strings, as FIPS 180-4 defines it, and the contract
  the program's uses of a digest rest on.
\<close>

unbundle bit_operations_syntax

type_synonym u32 = "32 word"

section \<open>Words and bytes\<close>

definition be32 :: "string \<Rightarrow> u32" where
  "be32 bs = foldl (\<lambda>a b. push_bit 8 a OR of_char b) 0 bs"

definition bytes32 :: "u32 \<Rightarrow> string" where
  "bytes32 w = [char_of (unat (drop_bit 24 w)), char_of (unat (drop_bit 16 w)),
                char_of (unat (drop_bit 8 w)), char_of (unat w)]"

fun chunks :: "nat \<Rightarrow> nat \<Rightarrow> 'a list \<Rightarrow> 'a list list" where
  "chunks 0 k xs = []"
| "chunks (Suc n) k xs = take k xs # chunks n k (drop k xs)"

text \<open>The message, a one bit, zeros up to a multiple of 64 bytes, and the length in bits.\<close>

definition pad :: "string \<Rightarrow> string" where
  "pad msg =
     (let n = length msg; z = (119 - n mod 64) mod 64 in
      msg @ [CHR 0x80] @ replicate z (CHR 0x00) @
      map (\<lambda>i. char_of (8 * n div 256 ^ (7 - i))) [0..<8])"

section \<open>Compression\<close>

text \<open>The constants of the rounds (FIPS 180-4, 4.2.2), in decimal, one row for eight rounds.\<close>

definition round_constants :: "u32 list" where
  "round_constants = concat [
     [1116352408, 1899447441, 3049323471, 3921009573, 961987163, 1508970993, 2453635748, 2870763221],
     [3624381080, 310598401, 607225278, 1426881987, 1925078388, 2162078206, 2614888103, 3248222580],
     [3835390401, 4022224774, 264347078, 604807628, 770255983, 1249150122, 1555081692, 1996064986],
     [2554220882, 2821834349, 2952996808, 3210313671, 3336571891, 3584528711, 113926993, 338241895],
     [666307205, 773529912, 1294757372, 1396182291, 1695183700, 1986661051, 2177026350, 2456956037],
     [2730485921, 2820302411, 3259730800, 3345764771, 3516065817, 3600352804, 4094571909, 275423344],
     [430227734, 506948616, 659060556, 883997877, 958139571, 1322822218, 1537002063, 1747873779],
     [1955562222, 2024104815, 2227730452, 2361852424, 2428436474, 2756734187, 3204031479, 3329325298]]"

datatype state = State u32 u32 u32 u32 u32 u32 u32 u32

definition initial_state :: state where
  "initial_state = State 1779033703 3144134277 1013904242 2773480762 1359893119 2600822924 528734635 1541459225"

text \<open>The schedule, newest word first.\<close>

fun schedule :: "nat \<Rightarrow> u32 list \<Rightarrow> u32 list" where
  "schedule 0 ws = ws"
| "schedule (Suc n) ws =
     (let x = ws ! 14; s0 = word_rotr 7 x XOR word_rotr 18 x XOR drop_bit 3 x;
          y = ws ! 1; s1 = word_rotr 17 y XOR word_rotr 19 y XOR drop_bit 10 y in
      schedule n ((s1 + ws ! 6 + s0 + ws ! 15) # ws))"

definition round :: "state \<Rightarrow> u32 \<times> u32 \<Rightarrow> state" where
  "round st kw =
     (case st of State a b c d e f g h \<Rightarrow>
        let s1 = word_rotr 6 e XOR word_rotr 11 e XOR word_rotr 25 e;
            ch = (e AND f) XOR (NOT e AND g);
            t1 = h + s1 + ch + fst kw + snd kw;
            s0 = word_rotr 2 a XOR word_rotr 13 a XOR word_rotr 22 a;
            mj = (a AND b) XOR (a AND c) XOR (b AND c)
        in State (t1 + s0 + mj) a b c (d + t1) e f g)"

fun add_state :: "state \<Rightarrow> state \<Rightarrow> state" where
  "add_state (State a b c d e f g h) (State a' b' c' d' e' f' g' h') =
     State (a + a') (b + b') (c + c') (d + d') (e + e') (f + f') (g + g') (h + h')"

definition compress :: "state \<Rightarrow> string \<Rightarrow> state" where
  "compress st block =
     (let ws = rev (schedule 48 (rev (map be32 (chunks 16 4 block)))) in
      add_state st (foldl round st (zip round_constants ws)))"

fun digest_of_state :: "state \<Rightarrow> string" where
  "digest_of_state (State a b c d e f g h) =
     bytes32 a @ bytes32 b @ bytes32 c @ bytes32 d @ bytes32 e @ bytes32 f @ bytes32 g @ bytes32 h"

definition sha256 :: "string \<Rightarrow> string" where
  "sha256 msg = (let p = pad msg in digest_of_state (foldl compress initial_state (chunks (length p div 64) 64 p)))"

lemma length_sha256 [simp]: "length (sha256 msg) = 32"
  unfolding sha256_def Let_def
  by (cases "foldl compress initial_state (chunks (length (pad msg) div 64) 64 (pad msg))")
     (simp add: bytes32_def)

text \<open>Padding fills whole blocks.\<close>

lemma pad_blocks: "length (pad msg) mod 64 = 0"
proof -
  have "(n + 1 + (119 - n mod 64) mod 64 + 8) mod 64 = 0" for n :: nat
  proof -
    define q where "q = n div 64"
    define m where "m = n mod 64"
    have n: "n = 64 * q + m" and m: "m < 64" by (simp_all add: q_def m_def)
    have "(119 - m) mod 64 = (if m \<le> 55 then 55 - m else 119 - m)"
    proof (cases "m \<le> 55")
      case True
      then have "119 - m = 64 + (55 - m)" by simp
      then have "(119 - m) mod 64 = (55 - m) mod 64" by (metis mod_add_self1)
      with True show ?thesis by simp
    next
      case False
      with m show ?thesis by simp
    qed
    with m have "n + 1 + (119 - m) mod 64 + 8 = 64 * (q + (if m \<le> 55 then 1 else 2))" by (simp add: n)
    then show ?thesis unfolding m_def by (metis mod_mult_self1_is_0)
  qed
  from this [of "length msg"] show ?thesis by (simp add: pad_def Let_def ac_simps)
qed

section \<open>Collisions\<close>

text \<open>Two different strings with one digest: what every content address takes for granted.\<close>

definition collision :: "(string \<Rightarrow> string) \<Rightarrow> bool" where
  "collision H \<longleftrightarrow> (\<exists>x y. x \<noteq> y \<and> H x = H y)"

lemma digest_eq: "H x = H y \<Longrightarrow> x = y \<or> collision H"
  by (auto simp: collision_def)

end
