(* ===== verification/Merkle.thy ===== *)
theory Merkle
  imports Sha256
begin

text \<open>
  The log's Merkle tree (RFC 6962) and the rebuilding of its root from an inclusion proof
  (\<^verbatim>\<open>rootFromInclusionProof\<close>, internal/keyless/tlog.go). The proof's shape is read off
  the bits of the index and the size; here it is shown to be the path of the tree.
\<close>

unbundle bit_operations_syntax

section \<open>The code\<close>

text \<open>\<^verbatim>\<open>bits.Len64\<close> and \<^verbatim>\<open>bits.OnesCount64\<close>, over the number a word stands for.\<close>

fun bits_len :: "nat \<Rightarrow> nat" where
  "bits_len n = (if n = 0 then 0 else Suc (bits_len (n div 2)))"

fun bits_ones :: "nat \<Rightarrow> nat" where
  "bits_ones n = (if n = 0 then 0 else n mod 2 + bits_ones (n div 2))"

declare bits_len.simps [simp del] bits_ones.simps [simp del]

definition Len64 :: "64 word \<Rightarrow> nat" where
  "Len64 w = bits_len (unat w)"

definition OnesCount64 :: "64 word \<Rightarrow> nat" where
  "OnesCount64 w = bits_ones (unat w)"

definition leafHash :: "string \<Rightarrow> string" where
  "leafHash body = sha256 (CHR 0x00 # body)"

definition hashChildren :: "string \<Rightarrow> string \<Rightarrow> string" where
  "hashChildren left right = sha256 (CHR 0x01 # left @ right)"

datatype proof_error = NotInLog int int | WrongProofLength nat nat | WrongHashLength nat

text \<open>The two loops, over the hashes inside the leaf's subtree and along the right border.\<close>

fun inner_loop :: "int \<Rightarrow> nat \<Rightarrow> string list \<Rightarrow> string \<Rightarrow> string" where
  "inner_loop index i [] res = res"
| "inner_loop index i (h # hs) res =
     inner_loop index (i + 1) hs
       (if drop_bit i index AND 1 = 0 then hashChildren res h else hashChildren h res)"

fun border_loop :: "string list \<Rightarrow> string \<Rightarrow> string" where
  "border_loop [] res = res"
| "border_loop (h # hs) res = border_loop hs (hashChildren h res)"

text \<open>\<open>index\<close> and \<open>sz\<close> are the 64-bit signed integers of the proof.\<close>

definition rootFromInclusionProof :: "int \<Rightarrow> int \<Rightarrow> string \<Rightarrow> string list \<Rightarrow> proof_error + string" where
  "rootFromInclusionProof index sz leaf hashes =
     (if index < 0 \<or> sz \<le> 0 \<or> index \<ge> sz then Inl (NotInLog index sz)
      else
        (let inner = Len64 ((word_of_int index :: 64 word) XOR word_of_int (sz - 1));
             border = OnesCount64 (drop_bit inner (word_of_int index :: 64 word)) in
         if length hashes \<noteq> inner + border then Inl (WrongProofLength (length hashes) (inner + border))
         else
           (case find (\<lambda>h. length h \<noteq> 32) hashes of
              Some h \<Rightarrow> Inl (WrongHashLength (length h))
            | None \<Rightarrow> Inr (border_loop (drop inner hashes) (inner_loop index 0 (take inner hashes) leaf)))))"

section \<open>The tree\<close>

text \<open>The largest power of two below \<open>n\<close>, for \<open>n\<close> at least two.\<close>

definition split_point :: "nat \<Rightarrow> nat" where
  "split_point n = 2 ^ (bits_len (n - 1) - 1)"

lemma bits_len_bounds: "0 < n \<Longrightarrow> 2 ^ (bits_len n - 1) \<le> n \<and> n < 2 ^ bits_len n \<and> 0 < bits_len n"
proof (induction n rule: bits_len.induct)
  case (1 n)
  show ?case
  proof (cases "n = 1")
    case True
    then show ?thesis by (simp add: bits_len.simps)
  next
    case False
    with 1 have ih: "2 ^ (bits_len (n div 2) - 1) \<le> n div 2" "n div 2 < 2 ^ bits_len (n div 2)"
      "0 < bits_len (n div 2)" by auto
    have len: "bits_len n = Suc (bits_len (n div 2))" using 1(2) by (simp add: bits_len.simps)
    have "(2::nat) ^ bits_len (n div 2) = 2 * 2 ^ (bits_len (n div 2) - 1)"
      using ih(3) by (metis Suc_diff_1 power_Suc)
    with ih len show ?thesis by simp linarith
  qed
qed

lemma split_point_bounds: "2 \<le> n \<Longrightarrow> 0 < split_point n \<and> split_point n < n \<and> n \<le> 2 * split_point n"
proof -
  assume n: "2 \<le> n"
  then have b: "2 ^ (bits_len (n - 1) - 1) \<le> n - 1" "n - 1 < 2 ^ bits_len (n - 1)" "0 < bits_len (n - 1)"
    using bits_len_bounds [of "n - 1"] by auto
  then have "2 ^ bits_len (n - 1) = 2 * (2 ^ (bits_len (n - 1) - 1) :: nat)"
    by (metis Suc_diff_1 power_Suc)
  with b n show ?thesis unfolding split_point_def by simp linarith
qed

lemma split_lengths:
  assumes "2 \<le> length xs"
  shows "length (take (split_point (length xs)) xs) = split_point (length xs)"
    and "split_point (length xs) < length xs" and "0 < split_point (length xs)"
    and "length (drop (split_point (length xs)) xs) < length xs"
  using split_point_bounds [OF assms] by auto

text \<open>The Merkle tree hash of RFC 6962 over leaf hashes, and the path from a leaf to the root.\<close>

function tree_hash :: "string list \<Rightarrow> string" where
  "tree_hash xs =
     (if length xs < 2 then concat xs
      else hashChildren (tree_hash (take (split_point (length xs)) xs)) (tree_hash (drop (split_point (length xs)) xs)))"
  by pat_completeness auto
termination
  by (relation "measure length") (use split_lengths in \<open>auto simp: not_less min_less_iff_disj\<close>)

function tree_path :: "nat \<Rightarrow> string list \<Rightarrow> string list" where
  "tree_path i xs =
     (if length xs < 2 then []
      else
        (let k = split_point (length xs) in
         if i < k then tree_path i (take k xs) @ [tree_hash (drop k xs)]
         else tree_path (i - k) (drop k xs) @ [tree_hash (take k xs)]))"
  by pat_completeness auto
termination
  by (relation "measure (length \<circ> snd)") (use split_lengths in \<open>auto simp: not_less min_less_iff_disj\<close>)

declare tree_hash.simps [simp del] tree_path.simps [simp del]

section \<open>Which side each hash is on\<close>

text \<open>From the leaf up, whether the sibling is on the right; \<open>j\<close> is the last index.\<close>

function sides :: "nat \<Rightarrow> nat \<Rightarrow> bool list" where
  "sides i j = (if i = j then replicate (bits_ones i) False else even i # sides (i div 2) (j div 2))"
  by pat_completeness auto
termination
  by (relation "measure (\<lambda>(i, j). i + j)") auto

declare sides.simps [simp del]

lemma sides_step: "i \<noteq> j \<Longrightarrow> sides i j = even i # sides (i div 2) (j div 2)"
  by (subst sides.simps) simp

lemma sides_same: "sides i i = replicate (bits_ones i) False"
  by (subst sides.simps) simp

lemma bits_ones_double: "bits_ones (2 * n) = bits_ones n" "bits_ones (Suc (2 * n)) = Suc (bits_ones n)"
  by (subst bits_ones.simps; simp)+

lemma sides_left: "i < 2 ^ m \<Longrightarrow> 2 ^ m \<le> j \<Longrightarrow> j < 2 ^ Suc m \<Longrightarrow> sides i j = sides i (2 ^ m - 1) @ [True]"
proof (induction m arbitrary: i j)
  case 0
  then have "i = 0" "j = 1" by auto
  then show ?case by (simp add: sides.simps bits_ones.simps)
next
  case (Suc m)
  have ij: "i \<noteq> j" using Suc.prems by linarith
  have ih: "sides (i div 2) (j div 2) = sides (i div 2) (2 ^ m - 1) @ [True]"
    using Suc.prems by (intro Suc.IH) auto
  show ?case
  proof (cases "i = 2 ^ Suc m - 1")
    case False
    have "(2 ^ Suc m - 1) div 2 = (2 ^ m - 1 :: nat)" by (induction m) auto
    with False ij ih show ?thesis by (simp add: sides.simps [of i])
  next
    case True
    obtain p where p: "2 ^ m = Suc p" by (metis Suc_pred' zero_less_numeral zero_less_power)
    with True have i: "i = Suc (2 * p)" by simp
    have "sides i j = False # sides p p @ [True]"
      using sides_step [OF ij] ih i p by simp
    moreover have "sides i i = False # sides p p" by (simp add: sides.simps i bits_ones_double)
    ultimately show ?thesis using True by simp
  qed
qed

lemma halve: "(a - 2 * b) div 2 = a div 2 - (b :: nat)"
  by presburger

lemma sides_right: "2 ^ m \<le> i \<Longrightarrow> i \<le> j \<Longrightarrow> j < 2 ^ Suc m \<Longrightarrow> sides i j = sides (i - 2 ^ m) (j - 2 ^ m) @ [False]"
proof (induction m arbitrary: i j)
  case 0
  then have "i = 1" "j = 1" by auto
  then show ?case by (simp add: sides.simps bits_ones.simps)
next
  case (Suc m)
  have half: "(i - 2 ^ Suc m) div 2 = i div 2 - 2 ^ m" "(j - 2 ^ Suc m) div 2 = j div 2 - 2 ^ m"
    using halve [of i "2 ^ m"] halve [of j "2 ^ m"] by simp_all
  have ih: "sides (i div 2) (j div 2) = sides (i div 2 - 2 ^ m) (j div 2 - 2 ^ m) @ [False]"
    using Suc.prems by (intro Suc.IH) auto
  have ev: "even (i - 2 ^ Suc m) = even i" using Suc.prems by simp
  show ?case
  proof (cases "i = j")
    case False
    then have ne: "i - 2 ^ Suc m \<noteq> j - 2 ^ Suc m" using Suc.prems by linarith
    show ?thesis unfolding sides_step [OF False] sides_step [OF ne] half ev ih by simp
  next
    case True
    have "replicate (bits_ones (i div 2)) False = replicate (bits_ones (i div 2 - 2 ^ m)) False @ [False]"
      using ih True by (simp add: sides.simps)
    then have "bits_ones (i div 2) = Suc (bits_ones (i div 2 - 2 ^ m))"
      by (metis length_append_singleton length_replicate)
    moreover have "bits_ones n = n mod 2 + bits_ones (n div 2)" for n by (subst bits_ones.simps) (simp add: bits_ones.simps)
    moreover have "i mod 2 = (i - 2 ^ Suc m) mod 2" using ev by (simp add: mod2_eq_if)
    ultimately have "bits_ones i = Suc (bits_ones (i - 2 ^ Suc m))" using half by (metis add_Suc_right)
    with True show ?thesis by (simp add: sides.simps replicate_append_same)
  qed
qed

lemma sides_split:
  assumes n: "2 \<le> n" and i: "i < n"
  shows "sides i (n - Suc 0) =
    (if i < split_point n then sides i (split_point n - Suc 0) @ [True]
     else sides (i - split_point n) (n - split_point n - Suc 0) @ [False])"
proof -
  define m where "m = bits_len (n - 1) - 1"
  have k: "split_point n = 2 ^ m" by (simp add: split_point_def m_def)
  from split_point_bounds [OF n] k have b: "2 ^ m \<le> n - 1" "n - 1 < 2 ^ Suc m" by auto
  show ?thesis
  proof (cases "i < 2 ^ m")
    case True
    from sides_left [OF True b] show ?thesis using True k by simp
  next
    case False
    then have "2 ^ m \<le> i" "i \<le> n - 1" using i by auto
    from sides_right [OF this b(2)] show ?thesis using False k by (simp add: diff_commute)
  qed
qed

section \<open>The code follows the sides\<close>

fun climb :: "bool list \<Rightarrow> string list \<Rightarrow> string \<Rightarrow> string" where
  "climb (d # ds) (h # hs) res = climb ds hs (if d then hashChildren res h else hashChildren h res)"
| "climb ds hs res = res"

lemma climb_append:
  "length ds = length hs \<Longrightarrow> climb (ds @ es) (hs @ gs) res = climb es gs (climb ds hs res)"
proof (induction ds arbitrary: hs res)
  case Nil
  then show ?case by simp
next
  case (Cons d ds)
  then show ?case by (cases hs) simp_all
qed

lemma nat_xor_div2: "(a XOR b) div 2 = (a div 2) XOR (b div 2 :: nat)"
  using drop_bit_xor [of 1 a b] by (simp add: drop_bit_eq_div)

lemma sides_bits:
  "sides i j = map (\<lambda>t. \<not> bit i t) [0..<bits_len (i XOR j)] @
     replicate (bits_ones (drop_bit (bits_len (i XOR j)) i)) False"
proof (induction i j rule: sides.induct)
  case (1 i j)
  show ?case
  proof (cases "i = j")
    case True
    then show ?thesis by (simp add: sides_same bits_len.simps)
  next
    case False
    then have "i XOR j \<noteq> 0" by (metis xor.right_neutral xor.assoc xor_self_eq)
    then have len: "bits_len (i XOR j) = Suc (bits_len ((i div 2) XOR (j div 2)))"
      by (subst bits_len.simps) (simp add: nat_xor_div2)
    have "map (\<lambda>t. \<not> bit i t) [0..<Suc k] = even i # map (\<lambda>t. \<not> bit (i div 2) t) [0..<k]" for k
      by (simp add: upt_conv_Cons map_Suc_upt [symmetric] bit_0 bit_Suc del: upt_Suc)
    with 1 [OF False] sides_step [OF False] len show ?thesis by (simp add: drop_bit_Suc del: upt_Suc)
  qed
qed

lemma inner_loop_climb:
  "0 \<le> index \<Longrightarrow> inner_loop index k hs res = climb (map (\<lambda>t. \<not> bit (nat index) t) [k..<k + length hs]) hs res"
proof (induction hs arbitrary: k res)
  case Nil
  then show ?case by simp
next
  case (Cons h hs)
  have up: "[k..<k + length (h # hs)] = k # [Suc k..<Suc k + length hs]"
    by (simp add: upt_conv_Cons del: upt_Suc)
  have "drop_bit k index = int (drop_bit k (nat index))"
    using Cons.prems by (metis drop_bit_of_nat nat_0_le)
  then have "drop_bit k index AND 1 = 0 \<longleftrightarrow> \<not> bit (nat index) k"
    by (simp add: and_one_eq bit_iff_odd_drop_bit) presburger
  with Cons up show ?case by (simp del: upt_Suc)
qed

lemma border_loop_climb: "border_loop hs res = climb (replicate (length hs) False) hs res"
  by (induction hs arbitrary: res) auto

lemma unat_index: "0 \<le> x \<Longrightarrow> x < 2 ^ 63 \<Longrightarrow> unat (word_of_int x :: 64 word) = nat x"
  by (simp add: unsigned_of_int take_bit_int_eq_self)

lemma rootFromInclusionProof_climb:
  assumes "0 \<le> index" "index < sz" "sz < 2 ^ 63"
  shows "rootFromInclusionProof index sz leaf hs =
    (let ds = sides (nat index) (nat (sz - 1)) in
     if length hs \<noteq> length ds then Inl (WrongProofLength (length hs) (length ds))
     else (case find (\<lambda>h. length h \<noteq> 32) hs of
             Some h \<Rightarrow> Inl (WrongHashLength (length h)) | None \<Rightarrow> Inr (climb ds hs leaf)))"
proof -
  let ?w = "word_of_int index :: 64 word" and ?v = "word_of_int (sz - 1) :: 64 word"
  define inner where "inner = Len64 (?w XOR ?v)"
  define border where "border = OnesCount64 (drop_bit inner ?w)"
  have uw: "unat ?w = nat index" by (rule unat_index) (use assms in auto)
  have uv: "unat ?v = nat (sz - 1)" by (rule unat_index) (use assms in auto)
  have inner: "inner = bits_len (nat index XOR nat (sz - 1))"
    by (simp only: inner_def Len64_def unsigned_xor_eq uw uv)
  have border: "border = bits_ones (drop_bit inner (nat index))"
  proof -
    have "take_bit 64 (nat index) = nat index" using assms by (intro take_bit_nat_eq_self) auto
    then show ?thesis by (simp add: border_def OnesCount64_def unsigned_drop_bit_eq uw)
  qed
  have sd: "sides (nat index) (nat (sz - 1)) =
      map (\<lambda>t. \<not> bit (nat index) t) [0..<inner] @ replicate border False"
    unfolding inner border by (rule sides_bits)
  have "border_loop (drop inner hs) (inner_loop index 0 (take inner hs) leaf) =
      climb (sides (nat index) (nat (sz - 1))) hs leaf" if "length hs = inner + border"
  proof -
    have "climb (sides (nat index) (nat (sz - 1))) (take inner hs @ drop inner hs) leaf =
        climb (replicate border False) (drop inner hs)
          (climb (map (\<lambda>t. \<not> bit (nat index) t) [0..<inner]) (take inner hs) leaf)"
      unfolding sd using that by (intro climb_append) simp
    with that assms(1) show ?thesis by (simp add: inner_loop_climb border_loop_climb)
  qed
  moreover have "length (sides (nat index) (nat (sz - 1))) = inner + border" by (simp add: sd)
  moreover have "rootFromInclusionProof index sz leaf hs =
      (if length hs \<noteq> inner + border then Inl (WrongProofLength (length hs) (inner + border))
       else (case find (\<lambda>h. length h \<noteq> 32) hs of
               Some h \<Rightarrow> Inl (WrongHashLength (length h))
             | None \<Rightarrow> Inr (border_loop (drop inner hs) (inner_loop index 0 (take inner hs) leaf))))"
  proof -
    have "\<not> (index < 0 \<or> sz \<le> 0 \<or> index \<ge> sz)" using assms by auto
    then show ?thesis
      unfolding rootFromInclusionProof_def Let_def inner_def border_def by (simp only: if_False)
  qed
  ultimately show ?thesis by (simp add: Let_def split: option.split)
qed

section \<open>Soundness and completeness\<close>

lemma length_hashChildren [simp]: "length (hashChildren a b) = 32"
  by (simp add: hashChildren_def)

lemma length_tree_hash: "xs \<noteq> [] \<Longrightarrow> \<forall>x \<in> set xs. length x = 32 \<Longrightarrow> length (tree_hash xs) = 32"
  by (subst tree_hash.simps) (auto simp: neq_Nil_conv)

lemma hashChildren_injective:
  assumes "hashChildren a b = hashChildren c d" "length a = 32" "length c = 32"
  shows "a = c \<and> b = d \<or> collision sha256"
  using digest_eq [of sha256 "CHR 0x01 # a @ b" "CHR 0x01 # c @ d"] assms
  by (auto simp: hashChildren_def)

lemma tree_path_climbs:
  "i < length xs \<Longrightarrow> climb (sides i (length xs - 1)) (tree_path i xs) (xs ! i) = tree_hash xs \<and>
     length (tree_path i xs) = length (sides i (length xs - 1))"
proof (induction i xs rule: tree_path.induct)
  case (1 i xs)
  show ?case
  proof (cases "length xs < 2")
    case True
    with 1 have "i = 0" "length xs = 1" by auto
    then obtain x where "xs = [x]" by (cases xs) auto
    with \<open>i = 0\<close> show ?thesis
      by (simp add: tree_path.simps tree_hash.simps sides_same bits_ones.simps)
  next
    case False
    then have n: "2 \<le> length xs" by simp
    let ?k = "split_point (length xs)"
    note sp = split_lengths [OF n] and sd = sides_split [OF n "1.prems"]
    have th: "tree_hash xs = hashChildren (tree_hash (take ?k xs)) (tree_hash (drop ?k xs))"
      by (subst tree_hash.simps) (use False in simp)
    have tp: "tree_path i xs = (if i < ?k then tree_path i (take ?k xs) @ [tree_hash (drop ?k xs)]
         else tree_path (i - ?k) (drop ?k xs) @ [tree_hash (take ?k xs)])"
      by (subst tree_path.simps) (use False in \<open>simp add: Let_def\<close>)
    show ?thesis
    proof (cases "i < ?k")
      case True
      have "climb (sides i (?k - 1)) (tree_path i (take ?k xs)) (take ?k xs ! i) = tree_hash (take ?k xs) \<and>
          length (tree_path i (take ?k xs)) = length (sides i (?k - 1))"
        using "1.IH"(1) [OF False refl True] True sp by simp
      with True show ?thesis by (simp add: sd tp th climb_append)
    next
      case ge: False
      have "climb (sides (i - ?k) (length xs - ?k - 1)) (tree_path (i - ?k) (drop ?k xs)) (xs ! i) = tree_hash (drop ?k xs) \<and>
          length (tree_path (i - ?k) (drop ?k xs)) = length (sides (i - ?k) (length xs - ?k - 1))"
        using "1.IH"(2) [OF False refl ge] ge "1.prems" sp by simp
      with ge show ?thesis by (simp add: sd tp th climb_append)
    qed
  qed
qed

lemma tree_path_lengths: "\<forall>x \<in> set xs. length x = 32 \<Longrightarrow> \<forall>h \<in> set (tree_path i xs). length h = 32"
proof (induction i xs rule: tree_path.induct)
  case (1 i xs)
  show ?case
  proof (cases "length xs < 2")
    case True
    then show ?thesis by (simp add: tree_path.simps)
  next
    case False
    let ?k = "split_point (length xs)"
    from False have "2 \<le> length xs" by simp
    note sp = split_lengths [OF this]
    have ne: "take ?k xs \<noteq> []" "drop ?k xs \<noteq> []" using sp by auto
    have sub: "\<forall>x \<in> set (take ?k xs). length x = 32" "\<forall>x \<in> set (drop ?k xs). length x = 32"
      using "1.prems" by (auto dest: in_set_takeD in_set_dropD)
    have "length (tree_hash (take ?k xs)) = 32" "length (tree_hash (drop ?k xs)) = 32"
      using length_tree_hash [OF ne(1) sub(1)] length_tree_hash [OF ne(2) sub(2)] .
    moreover have "i < ?k \<Longrightarrow> \<forall>h \<in> set (tree_path i (take ?k xs)). length h = 32"
      using "1.IH"(1) [OF False refl] sub by blast
    moreover have "\<not> i < ?k \<Longrightarrow> \<forall>h \<in> set (tree_path (i - ?k) (drop ?k xs)). length h = 32"
      using "1.IH"(2) [OF False refl] sub by blast
    ultimately show ?thesis by (subst tree_path.simps) (auto simp: Let_def)
  qed
qed

lemma climb_sound:
  "i < length xs \<Longrightarrow> \<forall>x \<in> set xs. length x = 32 \<Longrightarrow> length leaf = 32 \<Longrightarrow>
   \<forall>h \<in> set hs. length h = 32 \<Longrightarrow> length hs = length (sides i (length xs - 1)) \<Longrightarrow>
   climb (sides i (length xs - 1)) hs leaf = tree_hash xs \<Longrightarrow> leaf = xs ! i \<or> collision sha256"
proof (induction i xs arbitrary: hs rule: tree_path.induct)
  case (1 i xs)
  show ?case
  proof (cases "length xs < 2")
    case True
    with 1 have "i = 0" "length xs = 1" by auto
    then obtain x where "xs = [x]" by (cases xs) auto
    with \<open>i = 0\<close> 1(8) show ?thesis by (simp add: tree_hash.simps sides_same bits_ones.simps)
  next
    case False
    then have n: "2 \<le> length xs" by simp
    let ?k = "split_point (length xs)"
    note sp = split_lengths [OF n] and sd = sides_split [OF n "1.prems"(1)]
    have th: "tree_hash xs = hashChildren (tree_hash (take ?k xs)) (tree_hash (drop ?k xs))"
      by (subst tree_hash.simps) (use False in simp)
    have sub: "\<forall>x \<in> set (take ?k xs). length x = 32" "\<forall>x \<in> set (drop ?k xs). length x = 32"
      using "1.prems" by (auto dest: in_set_takeD in_set_dropD)
    have tl: "length (tree_hash (take ?k xs)) = 32" "length (tree_hash (drop ?k xs)) = 32"
      using sp sub by (auto intro!: length_tree_hash)
    from "1.prems"(5) sd have "hs \<noteq> []" by (auto split: if_splits)
    then obtain gs h where hs: "hs = gs @ [h]" by (metis rev_exhaust)
    have l32: "\<forall>h \<in> set gs. length h = 32" "length h = 32" using "1.prems"(4) hs by auto
    have clen: "length (climb ds gs leaf) = 32" for ds
      using "1.prems"(3) by (induction ds gs leaf rule: climb.induct) auto
    show ?thesis
    proof (cases "i < ?k")
      case True
      then have lg: "length gs = length (sides i (?k - 1))" using "1.prems"(5) sd hs by simp
      have "hashChildren (climb (sides i (?k - 1)) gs leaf) h = tree_hash xs"
        using "1.prems"(6) True sd hs lg by (simp add: climb_append)
      with th hashChildren_injective clen tl
      have "climb (sides i (?k - 1)) gs leaf = tree_hash (take ?k xs) \<or> collision sha256" by metis
      with "1.IH"(1) [OF False refl True, of gs] True sp sub l32 lg "1.prems"(3) show ?thesis by auto
    next
      case ge: False
      then have lg: "length gs = length (sides (i - ?k) (length xs - ?k - 1))" using "1.prems"(5) sd hs by simp
      have "hashChildren h (climb (sides (i - ?k) (length xs - ?k - 1)) gs leaf) = tree_hash xs"
        using "1.prems"(6) ge sd hs lg by (simp add: climb_append)
      with th hashChildren_injective l32 tl
      have "climb (sides (i - ?k) (length xs - ?k - 1)) gs leaf = tree_hash (drop ?k xs) \<or> collision sha256" by metis
      with "1.IH"(2) [OF False refl ge, of gs] ge sp sub l32 lg "1.prems"(1,3) show ?thesis by auto
    qed
  qed
qed

lemma length_leafHash [simp]: "length (leafHash body) = 32"
  by (simp add: leafHash_def)

lemma tree_proof_accepted:
  assumes "i < length bodies" and "length bodies < 2 ^ 63"
  shows "rootFromInclusionProof (int i) (int (length bodies)) (leafHash (bodies ! i))
      (tree_path i (map leafHash bodies)) = Inr (tree_hash (map leafHash bodies))"
proof -
  let ?xs = "map leafHash bodies"
  have i: "i < length ?xs" using assms(1) by simp
  have j: "nat (int (length bodies) - 1) = length ?xs - 1" by simp
  have f: "find (\<lambda>h. length h \<noteq> 32) (tree_path i ?xs) = None"
    using tree_path_lengths [of ?xs i] by (auto simp: find_None_iff)
  have "int (length bodies) < 2 ^ 63" "0 \<le> int i" "int i < int (length bodies)" using assms by simp_all
  note cl = rootFromInclusionProof_climb [OF this(2,3,1), of "leafHash (bodies ! i)" "tree_path i ?xs"]
  show ?thesis unfolding cl j using tree_path_climbs [OF i] f i by (simp add: Let_def)
qed

text \<open>
  An honest inclusion proof is accepted: for every log of fewer than 2^63 entries and every
  entry in it, the path of the entry in the RFC 6962 tree rebuilds the tree's root, so the
  number of hashes the code demands and the side it puts each on are those of the tree.
\<close>

theorem inclusion_proof_complete:
  assumes "i < length bodies" and "length bodies < 2 ^ 63"
  shows "rootFromInclusionProof (int i) (int (length bodies)) (leafHash (bodies ! i))
      (tree_path i (map leafHash bodies)) = Inr (tree_hash (map leafHash bodies))"
  using assms by (rule tree_proof_accepted)

theorem inclusion_proof_complete_witness:
  "rootFromInclusionProof 1 3 (leafHash ''b'') (tree_path 1 (map leafHash [''a'', ''b'', ''c''])) =
   Inr (tree_hash (map leafHash [''a'', ''b'', ''c'']))"
  using inclusion_proof_complete [of 1 "[''a'', ''b'', ''c'']"] by simp

lemma proof_entry:
  assumes "rootFromInclusionProof index (int (length bodies)) (leafHash body) hashes =
      Inr (tree_hash (map leafHash bodies))"
    and "length bodies < 2 ^ 63"
  shows "0 \<le> index \<and> nat index < length bodies \<and> (body = bodies ! nat index \<or> collision sha256)"
proof -
  let ?xs = "map leafHash bodies" and ?n = "int (length bodies)"
  have range: "0 \<le> index" "index < ?n" using assms(1) by (auto simp: rootFromInclusionProof_def split: if_splits)
  have "?n < 2 ^ 63" using assms(2) by simp
  note cl = rootFromInclusionProof_climb [OF range this, of "leafHash body" hashes]
  have j: "nat (?n - 1) = length ?xs - 1" by simp
  have i: "nat index < length ?xs" using range by simp
  have len: "length hashes = length (sides (nat index) (length ?xs - 1))"
    and h32: "\<forall>h \<in> set hashes. length h = 32"
    and root: "climb (sides (nat index) (length ?xs - 1)) hashes (leafHash body) = tree_hash ?xs"
    using assms(1) unfolding cl j
    by (auto simp: Let_def find_None_iff split: if_splits option.splits)
  have "leafHash body = ?xs ! nat index \<or> collision sha256"
    by (rule climb_sound [OF i _ _ h32 len root]) simp_all
  then have "sha256 (CHR 0x00 # body) = sha256 (CHR 0x00 # bodies ! nat index) \<or> collision sha256"
    using i by (simp add: leafHash_def)
  with digest_eq [of sha256 "CHR 0x00 # body" "CHR 0x00 # bodies ! nat index"] range show ?thesis by auto
qed



end
