(* ===== verification/Keyless.thy ===== *)
theory Keyless
  imports Identity Encoding Merkle
begin

text \<open>
  Offline verification of a keyless signature (internal/keyless): the trusted root, the log
  entry and its proof, the certificate and the statement. Cryptography, certificate parsing and
  the digest syntax of the OCI libraries are the record \<open>crypto\<close>; the bundle and the trusted
  root are the messages the protobuf library decodes, an absent message field being its zero
  value. Instants are nanoseconds.
\<close>

section \<open>What is given\<close>

record 'k cert =
  Raw :: string
  PublicKey :: 'k
  EmailAddresses :: "string list"
  URIs :: "string list"
  Extensions :: "(nat list \<times> string) list"

record 'k crypto =
  load_verifier :: "'k \<Rightarrow> bool"
  verify_sig :: "'k \<Rightarrow> string \<Rightarrow> string \<Rightarrow> bool"
  pem_blocks :: "string \<Rightarrow> (string \<times> string) list"
  parse_cert :: "string \<Rightarrow> 'k cert option"
  parse_public :: "string \<Rightarrow> 'k option"
  chains_to :: "'k cert \<Rightarrow> 'k cert list \<Rightarrow> 'k cert list \<Rightarrow> int \<Rightarrow> bool"
  asn1_string :: "string \<Rightarrow> string option"
  digest_valid :: "string \<Rightarrow> bool"
  digest_algorithm :: "string \<Rightarrow> string"
  digest_encoded :: "string \<Rightarrow> string"

record inclusion_proof =
  ip_LogIndex :: int
  ip_RootHash :: string
  ip_TreeSize :: int
  ip_Hashes :: "string list"
  ip_Checkpoint :: string

record tlog_entry =
  LogIndex :: int
  LogId :: string
  IntegratedTime :: int
  SignedEntryTimestamp :: string
  InclusionProof :: "inclusion_proof option"
  CanonicalizedBody :: string

datatype material = Certificate string | Chain "string list" | OtherMaterial

record sig_bundle =
  b_MediaType :: string
  Material :: "material option"
  TlogEntries :: "tlog_entry list"
  Envelope :: "(string \<times> string \<times> string list) option"

datatype keyless_error =
    NoTrustedRoot | NobodyAllowed | BadAllowed nat identity_error | BundleParse | BadFormat string
  | NoMaterial | EmptyChain | NoCertificate | CertParse | NoEnvelope | WrongPayloadType string
  | WrongSignatureCount nat | BadCertKey | BadSignature | NoLogEntry | NoProof | NoCheckpoint
  | UnknownLog string | BadLogKey | NoTimestamp | TimestampNotSigned | OutsideWindow
  | NoSignatureBlock | NoReadableSignature | NoSignatureVerifies | NoLogRoot | BadTreeSize string
  | EmptyTree int | RootNotBase64 | RootLength nat | SizeMismatch int int | RootMismatch | NoBody
  | ProofError proof_error | NotThisRoot | BodyDecode | BodyKind string | BodyAlgorithm string
  | OtherPayload | NotThisSignature | NoChain | NoHolder | ManyHolders nat | IssuerDecode
  | NoIssuerRecorded string | IdentityNotAllowed string string | StatementDecode
  | NotStatement string | BadArtifactDigest | NotCovered nat
  | RootParse | NoCertificates nat | RootCert nat nat | NoLogPublicKey nat | LogPublicKey nat
  | NoAuthorities | NoLogs

section \<open>The trusted root\<close>

record window =
  w_start :: "int option"
  w_end :: "int option"

definition covers :: "window \<Rightarrow> int \<Rightarrow> bool" where
  "covers w t =
     (if (case w_start w of Some s \<Rightarrow> t < s | None \<Rightarrow> False) then False
      else if (case w_end w of Some e \<Rightarrow> e < t | None \<Rightarrow> False) then False
      else True)"

record 'k authority =
  roots :: "'k cert list"
  intermediates :: "'k cert list"
  a_valid :: window

record 'k log_key =
  public :: 'k
  l_valid :: window

record 'k trusted_root =
  authorities :: "'k authority list"
  logs :: "string \<Rightarrow> 'k log_key option"

text \<open>The messages of the trusted root file: certificate chains and log keys with windows.\<close>

record pb_authority =
  pb_certs :: "string list"
  pb_ca_window :: window

record pb_log =
  pb_key :: string
  pb_key_window :: window
  pb_log_id :: string

definition logIDOf :: "string \<Rightarrow> string" where
  "logIDOf der = hex_encode (sha256 der)"

fun parse_chain :: "'k crypto \<Rightarrow> nat \<Rightarrow> nat \<Rightarrow> string list \<Rightarrow> keyless_error + 'k cert list" where
  "parse_chain C i j [] = Inr []"
| "parse_chain C i j (d # ds) =
     bind_res (from_option (RootCert i (j + 1)) (parse_cert C d))
       (\<lambda>c. bind_res (parse_chain C i (j + 1) ds) (\<lambda>cs. Inr (c # cs)))"

definition newCertAuthority :: "'k crypto \<Rightarrow> nat \<Rightarrow> pb_authority \<Rightarrow> keyless_error + 'k authority" where
  "newCertAuthority C i ca =
     bind_res (require (pb_certs ca \<noteq> []) (NoCertificates i))
       (\<lambda>_. bind_res (parse_chain C i 0 (pb_certs ca))
          (\<lambda>certs. Inr \<lparr>roots = [last certs], intermediates = butlast certs, a_valid = pb_ca_window ca\<rparr>))"

definition newLogKey :: "'k crypto \<Rightarrow> nat \<Rightarrow> pb_log \<Rightarrow> keyless_error + string list \<times> 'k log_key" where
  "newLogKey C i tlog =
     bind_res (require (pb_key tlog \<noteq> '''') (NoLogPublicKey i))
       (\<lambda>_. bind_res (from_option (LogPublicKey i) (parse_public C (pb_key tlog)))
          (\<lambda>public.
             let own = logIDOf (pb_key tlog); stated = hex_encode (pb_log_id tlog) in
             Inr ((if pb_log_id tlog \<noteq> '''' \<and> stated \<noteq> own then [own, stated] else [own]),
                  \<lparr>public = public, l_valid = pb_key_window tlog\<rparr>)))"

fun load_authorities :: "'k crypto \<Rightarrow> nat \<Rightarrow> pb_authority list \<Rightarrow> keyless_error + 'k authority list" where
  "load_authorities C i [] = Inr []"
| "load_authorities C i (ca # cas) =
     bind_res (newCertAuthority C (i + 1) ca)
       (\<lambda>a. bind_res (load_authorities C (i + 1) cas) (\<lambda>as. Inr (a # as)))"

fun load_logs ::
  "'k crypto \<Rightarrow> nat \<Rightarrow> pb_log list \<Rightarrow> (string \<Rightarrow> 'k log_key option) \<Rightarrow> keyless_error + (string \<Rightarrow> 'k log_key option)"
where
  "load_logs C i [] m = Inr m"
| "load_logs C i (t # ts) m =
     bind_res (newLogKey C (i + 1) t)
       (\<lambda>(ids, key). load_logs C (i + 1) ts (foldl (\<lambda>m id. m(id \<mapsto> key)) m ids))"

text \<open>
  The file's messages are \<open>None\<close> when the protobuf library cannot parse it. Every log
  registers at least its own identifier, so the map of logs is empty exactly if none is named.
\<close>

definition LoadTrustedRoot ::
  "'k crypto \<Rightarrow> (pb_authority list \<times> pb_log list) option \<Rightarrow> keyless_error + 'k trusted_root" where
  "LoadTrustedRoot C pb =
     bind_res (from_option RootParse pb)
       (\<lambda>(cas, tlogs).
          bind_res (load_authorities C 0 cas)
            (\<lambda>as. bind_res (load_logs C 0 tlogs Map.empty)
               (\<lambda>ls. bind_res (require (as \<noteq> []) NoAuthorities)
                  (\<lambda>_. bind_res (require (tlogs \<noteq> []) NoLogs)
                     (\<lambda>_. Inr \<lparr>authorities = as, logs = ls\<rparr>)))))"

section \<open>The checkpoint\<close>

definition note_dash :: string where
  "note_dash = [CHR 0xE2, CHR 0x80, CHR 0x94]"

text \<open>The signature of a note line, after its four-byte key hint, if it is one.\<close>

definition note_signature :: "string \<Rightarrow> string option" where
  "note_signature line =
     (let fs = Fields line in
      if length fs \<noteq> 3 \<or> fs ! 0 \<noteq> note_dash then None
      else (case b64_decode (fs ! 2) of
              None \<Rightarrow> None
            | Some raw \<Rightarrow> (if length raw \<le> 4 then None else Some (drop 4 raw))))"

fun try_note_lines :: "'k crypto \<Rightarrow> 'k \<Rightarrow> string \<Rightarrow> string list \<Rightarrow> bool \<Rightarrow> keyless_error option" where
  "try_note_lines C k txt [] found = Some (if found then NoSignatureVerifies else NoReadableSignature)"
| "try_note_lines C k txt (line # rest) found =
     (case note_signature line of
        None \<Rightarrow> try_note_lines C k txt rest found
      | Some sg \<Rightarrow> (if verify_sig C k sg txt then None else try_note_lines C k txt rest True))"

definition verifyAnyNoteSignature :: "'k crypto \<Rightarrow> 'k \<Rightarrow> string \<Rightarrow> string \<Rightarrow> keyless_error option" where
  "verifyAnyNoteSignature C k txt sigs =
     try_note_lines C k txt (split_on CHR 0x0A (trim_right CHR 0x0A sigs)) False"

text \<open>The last blank line, \<^verbatim>\<open>strings.LastIndex\<close> of two line ends.\<close>

fun last_blank :: "string \<Rightarrow> nat option" where
  "last_blank [] = None"
| "last_blank (c # s) =
     (case last_blank s of Some i \<Rightarrow> Some (Suc i)
      | None \<Rightarrow> (if prefix [CHR 0x0A, CHR 0x0A] (c # s) then Some 0 else None))"

definition verifyCheckpoint :: "'k crypto \<Rightarrow> 'k \<Rightarrow> string \<Rightarrow> keyless_error + string \<times> int" where
  "verifyCheckpoint C k envelope =
     bind_res (from_option NoSignatureBlock (last_blank envelope))
       (\<lambda>i. let txt = take (i + 1) envelope; sigs = drop (i + 2) envelope in
          (case verifyAnyNoteSignature C k txt sigs of
             Some e \<Rightarrow> Inl e
           | None \<Rightarrow>
               (let ls = split_on CHR 0x0A txt in
                bind_res (require (\<not> length ls < 4) NoLogRoot)
                  (\<lambda>_. bind_res (from_option (BadTreeSize (ls ! 1)) (ParseInt (ls ! 1)))
                     (\<lambda>sz. bind_res (require (\<not> sz \<le> 0) (EmptyTree sz))
                        (\<lambda>_. bind_res (from_option RootNotBase64 (b64_decode (ls ! 2)))
                           (\<lambda>rootHash. bind_res (require (length rootHash = 32) (RootLength (length rootHash)))
                              (\<lambda>_. Inr (rootHash, sz)))))))))"

section \<open>The log entry\<close>

text \<open>The JSON a log signs when it accepts an entry.\<close>

definition entry_timestamp_json :: "string \<Rightarrow> int \<Rightarrow> string \<Rightarrow> int \<Rightarrow> string" where
  "entry_timestamp_json body time keyid index =
     CHR ''{'' # CHR 0x22 # ''body'' @ CHR 0x22 # '':'' @ CHR 0x22 # b64_encode body @ CHR 0x22 # '','' @
     CHR 0x22 # ''integratedTime'' @ CHR 0x22 # '':'' @ itoa time @ '','' @
     CHR 0x22 # ''logID'' @ CHR 0x22 # '':'' @ CHR 0x22 # hex_encode keyid @ CHR 0x22 # '','' @
     CHR 0x22 # ''logIndex'' @ CHR 0x22 # '':'' @ itoa index @ ''}''"

definition verifyEntryTimestamp :: "'k crypto \<Rightarrow> 'k \<Rightarrow> tlog_entry \<Rightarrow> keyless_error + unit" where
  "verifyEntryTimestamp C k e =
     bind_res (require (SignedEntryTimestamp e \<noteq> '''') NoTimestamp)
       (\<lambda>_. require (verify_sig C k (SignedEntryTimestamp e)
               (entry_timestamp_json (CanonicalizedBody e) (IntegratedTime e) (LogId e) (LogIndex e)))
             TimestampNotSigned)"

definition parse_certs :: "'k crypto \<Rightarrow> (string \<times> string) list \<Rightarrow> 'k cert list option" where
  "parse_certs C blocks =
     foldr (\<lambda>(ty, der) acc. if ty \<noteq> ''CERTIFICATE'' then acc
        else (case parse_cert C der of None \<Rightarrow> None | Some c \<Rightarrow> map_option ((#) c) acc)) blocks (Some [])"

definition parseCertificates :: "'k crypto \<Rightarrow> string \<Rightarrow> 'k cert list option" where
  "parseCertificates C data =
     (case parse_certs C (pem_blocks C data) of
        None \<Rightarrow> None | Some cs \<Rightarrow> (if cs = [] then None else Some cs))"

definition obj_of :: "json \<Rightarrow> (string \<times> json) list option" where
  "obj_of j = (case j of JObj ms \<Rightarrow> Some ms | JNull \<Rightarrow> Some [] | _ \<Rightarrow> None)"

text \<open>A field that is a struct: the zero struct where it is missing.\<close>

definition obj_field :: "string \<Rightarrow> (string \<times> json) list \<Rightarrow> (string \<times> json) list option" where
  "obj_field name ms = (case field name ms of None \<Rightarrow> Some [] | Some j \<Rightarrow> obj_of j)"

record rekor_body =
  Kind :: string
  PayloadHash :: "string \<times> string"
  Signatures :: "(string \<times> string) list"

definition decode_pair :: "string \<Rightarrow> string \<Rightarrow> (string \<times> json) list \<Rightarrow> (string \<times> string) option" where
  "decode_pair a b ms =
     (case (str_field a ms, str_field b ms) of (Some x, Some y) \<Rightarrow> Some (x, y) | _ \<Rightarrow> None)"

definition rekorBody :: "string \<Rightarrow> rekor_body option" where
  "rekorBody body =
     Option.bind (parse_json body) (\<lambda>j. Option.bind (obj_of j) (\<lambda>ms.
       Option.bind (str_field ''kind'' ms) (\<lambda>kind. Option.bind (obj_field ''spec'' ms) (\<lambda>spec.
         Option.bind (obj_field ''payloadHash'' spec) (\<lambda>ph. Option.bind (decode_pair ''algorithm'' ''value'' ph) (\<lambda>h.
           map_option (\<lambda>sigs. \<lparr>Kind = kind, PayloadHash = h, Signatures = sigs\<rparr>)
             (list_field (\<lambda>j. Option.bind (obj_of j) (decode_pair ''signature'' ''verifier'')) ''signatures'' spec)))))))"

text \<open>One signature of the entry is this one, made by this certificate.\<close>

definition is_this_signature :: "'k crypto \<Rightarrow> string \<Rightarrow> string \<Rightarrow> string \<times> string \<Rightarrow> bool" where
  "is_this_signature C sg certDER s =
     (case b64_decode (fst s) of
        None \<Rightarrow> False
      | Some entrySig \<Rightarrow>
          (if entrySig \<noteq> sg then False
           else (case b64_decode (snd s) of
                   None \<Rightarrow> False
                 | Some pem \<Rightarrow>
                     (case parseCertificates C pem of
                        None \<Rightarrow> False
                      | Some certs \<Rightarrow> certs \<noteq> [] \<and> Raw (hd certs) = certDER))))"

definition bodyDescribes :: "'k crypto \<Rightarrow> string \<Rightarrow> string \<Rightarrow> string \<Rightarrow> string \<Rightarrow> keyless_error + unit" where
  "bodyDescribes C body sg payload certDER =
     bind_res (from_option BodyDecode (rekorBody body))
       (\<lambda>p. bind_res (require (Kind p = ''dsse'') (BodyKind (Kind p)))
          (\<lambda>_. bind_res (require (fst (PayloadHash p) = ''sha256'') (BodyAlgorithm (fst (PayloadHash p))))
             (\<lambda>_. bind_res (require (snd (PayloadHash p) = hex_encode (sha256 payload)) OtherPayload)
                (\<lambda>_. require (list_ex (is_this_signature C sg certDER) (Signatures p)) NotThisSignature))))"

definition seconds :: "int \<Rightarrow> int" where
  "seconds s = s * 1000000000"

definition verifyLogEntry ::
  "'k crypto \<Rightarrow> tlog_entry \<Rightarrow> 'k trusted_root \<Rightarrow> string \<Rightarrow> string \<Rightarrow> string \<Rightarrow> keyless_error + int" where
  "verifyLogEntry C e root sg payload certDER =
     bind_res (from_option NoProof (InclusionProof e))
     (\<lambda>pf. bind_res (require (ip_Checkpoint pf \<noteq> '''') NoCheckpoint)
     (\<lambda>_. bind_res (from_option (UnknownLog (hex_encode (LogId e))) (logs root (hex_encode (LogId e))))
     (\<lambda>key. bind_res (require (load_verifier C (public key)) BadLogKey)
     (\<lambda>_. bind_res (verifyEntryTimestamp C (public key) e)
     (\<lambda>_. bind_res (require (covers (l_valid key) (seconds (IntegratedTime e))) OutsideWindow)
     (\<lambda>_. bind_res (verifyCheckpoint C (public key) (ip_Checkpoint pf))
     (\<lambda>(signedRoot, signedSize).
        bind_res (require (signedSize = ip_TreeSize pf) (SizeMismatch (ip_TreeSize pf) signedSize))
     (\<lambda>_. bind_res (require (signedRoot = ip_RootHash pf) RootMismatch)
     (\<lambda>_. bind_res (require (CanonicalizedBody e \<noteq> '''') NoBody)
     (\<lambda>_. bind_res
            (map_error ProofError
              (rootFromInclusionProof (ip_LogIndex pf) (ip_TreeSize pf) (leafHash (CanonicalizedBody e)) (ip_Hashes pf)))
     (\<lambda>computed. bind_res (require (computed = signedRoot) NotThisRoot)
     (\<lambda>_. bind_res (bodyDescribes C (CanonicalizedBody e) sg payload certDER)
     (\<lambda>_. Inr (seconds (IntegratedTime e)))))))))))))))"

section \<open>The certificate\<close>

definition verifyChain :: "'k crypto \<Rightarrow> 'k cert \<Rightarrow> 'k trusted_root \<Rightarrow> int \<Rightarrow> keyless_error + unit" where
  "verifyChain C leaf root at =
     require (list_ex (\<lambda>a. covers (a_valid a) at \<and> chains_to C leaf (roots a) (intermediates a) at) (authorities root))
       NoChain"

definition oidIssuer :: "nat list" where
  "oidIssuer = [1, 3, 6, 1, 4, 1, 57264, 1, 1]"

definition oidIssuerV2 :: "nat list" where
  "oidIssuerV2 = [1, 3, 6, 1, 4, 1, 57264, 1, 8]"

fun read_issuer :: "'k crypto \<Rightarrow> (nat list \<times> string) list \<Rightarrow> string \<Rightarrow> keyless_error + string" where
  "read_issuer C [] issuer = Inr issuer"
| "read_issuer C ((oid, v) # exts) issuer =
     (if oid = oidIssuerV2 then from_option IssuerDecode (asn1_string C v)
      else if oid = oidIssuer then read_issuer C exts v
      else read_issuer C exts issuer)"

text \<open>
  The source returns at once on the current extension, whatever it holds, and checks that an
  issuer was found otherwise.
\<close>

definition certIdentity :: "'k crypto \<Rightarrow> 'k cert \<Rightarrow> keyless_error + string \<times> string \<times> subject_kind" where
  "certIdentity C leaf =
     (let n = length (EmailAddresses leaf) + length (URIs leaf);
          v2 = list_ex (\<lambda>x. fst x = oidIssuerV2) (Extensions leaf) in
      if n \<noteq> 1 then Inl (if n = 0 then NoHolder else ManyHolders n)
      else
        (let (subject, kind) =
               (if length (EmailAddresses leaf) = 1 then (hd (EmailAddresses leaf), SubjectMail)
                else (hd (URIs leaf), SubjectURL)) in
         bind_res (read_issuer C (Extensions leaf) '''')
           (\<lambda>issuer. bind_res (require (v2 \<or> issuer \<noteq> '''') (NoIssuerRecorded subject))
              (\<lambda>_. Inr (subject, issuer, kind)))))"

definition bundleCertificate :: "'k crypto \<Rightarrow> sig_bundle \<Rightarrow> keyless_error + 'k cert" where
  "bundleCertificate C pb =
     bind_res (from_option NoMaterial (Material pb))
       (\<lambda>m. bind_res
          (case m of
             Certificate der \<Rightarrow> Inr der
           | Chain ders \<Rightarrow> (if ders = [] then Inl EmptyChain else Inr (hd ders))
           | OtherMaterial \<Rightarrow> Inl NoCertificate)
          (\<lambda>der. from_option CertParse (parse_cert C der)))"

section \<open>The statement\<close>

definition payloadType :: string where
  "payloadType = ''application/vnd.in-toto+json''"

definition statementType :: string where
  "statementType = ''https://in-toto.io/Statement/''"

definition supportedBundleVersions :: "string list" where
  "supportedBundleVersions =
     [''application/vnd.dev.sigstore.bundle.v0.3+json'',
      ''application/vnd.dev.sigstore.bundle+json;version=0.3'']"

definition pae :: "string \<Rightarrow> string \<Rightarrow> string" where
  "pae ty payload =
     ''DSSEv1 '' @ itoa (int (length ty)) @ '' '' @ ty @ '' '' @ itoa (int (length payload)) @ '' '' @ payload"

text \<open>The statement's type and the digests of each subject.\<close>

definition decode_statement :: "string \<Rightarrow> (string \<times> (string \<times> string) list list) option" where
  "decode_statement payload =
     Option.bind (parse_json payload) (\<lambda>j. Option.bind (obj_of j) (\<lambda>ms.
       Option.bind (str_field ''_type'' ms) (\<lambda>ty.
         map_option (\<lambda>subs. (ty, subs))
           (list_field (\<lambda>j. Option.bind (obj_of j) (map_field decode_str ''digest'')) ''subject'' ms))))"

definition statementCovers :: "'k crypto \<Rightarrow> string \<Rightarrow> string \<Rightarrow> keyless_error + unit" where
  "statementCovers C payload artifact =
     bind_res (from_option StatementDecode (decode_statement payload))
       (\<lambda>(ty, subs). bind_res (require (prefix statementType ty) (NotStatement ty))
          (\<lambda>_. bind_res (require (digest_valid C artifact) BadArtifactDigest)
             (\<lambda>_. require
                (list_ex (\<lambda>dg. lookup_str dg (digest_algorithm C artifact) = digest_encoded C artifact) subs)
                (NotCovered (length subs)))))"

section \<open>Verification\<close>

record keyless_result =
  r_Subject :: string
  r_Issuer :: string
  r_LogIndex :: int
  r_IntegratedTime :: int

fun validate_allowed :: "identity list \<Rightarrow> nat \<Rightarrow> keyless_error + unit" where
  "validate_allowed [] i = Inr ()"
| "validate_allowed (ident # ids) i =
     (case Validate ident of Some e \<Rightarrow> Inl (BadAllowed (i + 1) e) | None \<Rightarrow> validate_allowed ids (i + 1))"

definition Verify ::
  "'k crypto \<Rightarrow> sig_bundle option \<Rightarrow> string \<Rightarrow> 'k trusted_root option \<Rightarrow> identity list \<Rightarrow> keyless_error + keyless_result"
where
  "Verify C bundleJSON artifact root allowed =
     bind_res (from_option NoTrustedRoot root)
     (\<lambda>root. bind_res (require (allowed \<noteq> []) NobodyAllowed)
     (\<lambda>_. bind_res (validate_allowed allowed 0)
     (\<lambda>_. bind_res (from_option BundleParse bundleJSON)
     (\<lambda>pb. bind_res (require (b_MediaType pb \<in> set supportedBundleVersions) (BadFormat (b_MediaType pb)))
     (\<lambda>_. bind_res (bundleCertificate C pb)
     (\<lambda>leaf. bind_res (from_option NoEnvelope (Envelope pb))
     (\<lambda>(ty, pl, sigs). bind_res (require (ty = payloadType) (WrongPayloadType ty))
     (\<lambda>_. bind_res (require (length sigs = 1) (WrongSignatureCount (length sigs)))
     (\<lambda>_. bind_res (require (load_verifier C (PublicKey leaf)) BadCertKey)
     (\<lambda>_. bind_res (require (verify_sig C (PublicKey leaf) (hd sigs) (pae payloadType pl)) BadSignature)
     (\<lambda>_. bind_res (require (TlogEntries pb \<noteq> []) NoLogEntry)
     (\<lambda>_. let e = hd (TlogEntries pb) in
        bind_res (verifyLogEntry C e root (hd sigs) pl (Raw leaf))
     (\<lambda>integrated. bind_res (verifyChain C leaf root integrated)
     (\<lambda>_. bind_res (certIdentity C leaf)
     (\<lambda>(subject, issuer, kind). bind_res (require (anyMatches allowed subject issuer kind) (IdentityNotAllowed subject issuer))
     (\<lambda>_. bind_res (statementCovers C pl artifact)
     (\<lambda>_. Inr \<lparr>r_Subject = subject, r_Issuer = issuer, r_LogIndex = LogIndex e,
               r_IntegratedTime = integrated\<rparr>)))))))))))))))))"

section \<open>What signatures cover\<close>

text \<open>
  The framing a DSSE signature covers is unambiguous: the same bytes cannot be read as
  another payload type or another payload, whatever the two contain.
\<close>

theorem pae_injective: "pae ty payload = pae ty' payload' \<longleftrightarrow> ty = ty' \<and> payload = payload'"
proof
  assume e: "pae ty payload = pae ty' payload'"
  have sp: "CHR '' '' \<notin> set (itoa (int n))" for n by (simp add: itoa_def itoa_nat_plain)
  from e have "itoa (int (length ty)) @ CHR '' '' # (ty @ '' '' @ itoa (int (length payload)) @ '' '' @ payload) =
      itoa (int (length ty')) @ CHR '' '' # (ty' @ '' '' @ itoa (int (length payload')) @ '' '' @ payload')"
    by (simp add: pae_def)
  from first_char_split [OF sp sp this] have "length ty = length ty'"
    and rest: "ty @ CHR '' '' # (itoa (int (length payload)) @ CHR '' '' # payload) =
      ty' @ CHR '' '' # (itoa (int (length payload')) @ CHR '' '' # payload')"
    by (simp_all add: itoa_inj)
  then have "ty = ty'" and tail: "itoa (int (length payload)) @ CHR '' '' # payload = itoa (int (length payload')) @ CHR '' '' # payload'"
    by simp_all
  from first_char_split [OF sp sp tail] \<open>ty = ty'\<close> show "ty = ty' \<and> payload = payload'" by simp
qed simp

text \<open>
  The text a log signs for an entry determines everything the entry states: its contents,
  its date, the log it is in and its index. A signature over one entry is therefore not a
  signature over another, an entry re-dated or re-labelled included.
\<close>

theorem entry_timestamp_injective:
  "entry_timestamp_json body time keyid index = entry_timestamp_json body' time' keyid' index' \<longleftrightarrow>
   body = body' \<and> time = time' \<and> keyid = keyid' \<and> index = index'"
proof
  assume e: "entry_timestamp_json body time keyid index = entry_timestamp_json body' time' keyid' index'"
  have q: "CHR 0x22 \<notin> set (b64_encode b)" for b using b64_plain by blast
  let ?t = "\<lambda>time keyid index. CHR 0x22 # ''logID'' @ CHR 0x22 # '':'' @ CHR 0x22 # hex_encode keyid @ CHR 0x22 # '','' @
     CHR 0x22 # ''logIndex'' @ CHR 0x22 # '':'' @ itoa index @ ''}''"
  let ?u = "\<lambda>time keyid index. itoa time @ CHR '','' # ?t time keyid index"
  from e have "b64_encode body @ CHR 0x22 # ('','' @ CHR 0x22 # ''integratedTime'' @ CHR 0x22 # '':'' @ ?u time keyid index) =
      b64_encode body' @ CHR 0x22 # ('','' @ CHR 0x22 # ''integratedTime'' @ CHR 0x22 # '':'' @ ?u time' keyid' index')"
    by (simp add: entry_timestamp_json_def)
  from first_char_split [OF q q this] have b: "body = body'" and u: "?u time keyid index = ?u time' keyid' index'"
    by (simp_all add: b64_injective)
  from first_char_split [OF itoa_plain(1) itoa_plain(1) u] have t: "time = time'"
    and h: "hex_encode keyid @ CHR 0x22 # ('','' @ CHR 0x22 # ''logIndex'' @ CHR 0x22 # '':'' @ itoa index @ ''}'') =
      hex_encode keyid' @ CHR 0x22 # ('','' @ CHR 0x22 # ''logIndex'' @ CHR 0x22 # '':'' @ itoa index' @ ''}'')"
    by (simp_all add: itoa_inj)
  from first_char_split [OF hex_plain hex_plain h] have k: "keyid = keyid'" and i: "itoa index = itoa index'"
    by (simp_all add: hex_injective)
  from b t k i show "body = body' \<and> time = time' \<and> keyid = keyid' \<and> index = index'" by (simp add: itoa_inj)
qed simp

section \<open>The checkpoint\<close>

lemma try_note_lines_None:
  "try_note_lines C k msg ls found = None \<Longrightarrow> \<exists>line \<in> set ls. \<exists>sg. note_signature line = Some sg \<and> verify_sig C k sg msg"
  by (induction C k msg ls found rule: try_note_lines.induct) (auto split: option.splits if_splits)

lemma last_blank_Some:
  "last_blank s = Some i \<Longrightarrow> s = take i s @ CHR 0x0A # CHR 0x0A # drop (i + 2) s"
proof (induction s arbitrary: i)
  case Nil
  then show ?case by simp
next
  case (Cons c s)
  then show ?case by (cases "last_blank s") (auto simp: prefix_def split: if_splits)
qed

text \<open>
  What a checkpoint commits to is read out of the text the log signed and nothing else: an
  accepted checkpoint is a text, ended by a line end, then a blank line and signatures, one of
  which the log's key made over exactly that text; the tree size is the positive 64-bit
  number on the text's second line and the root the 32 bytes its third line encodes.
\<close>

theorem checkpoint_is_signed:
  assumes "verifyCheckpoint C k envelope = Inr (rootHash, sz)"
  shows "\<exists>txt sigs sg. envelope = txt @ CHR 0x0A # sigs \<and> txt \<noteq> '''' \<and> last txt = CHR 0x0A \<and> verify_sig C k sg txt \<and>
    4 \<le> length (split_on CHR 0x0A txt) \<and>
    ParseInt (split_on CHR 0x0A txt ! 1) = Some sz \<and> 0 < sz \<and> sz < 2 ^ 63 \<and>
    b64_decode (split_on CHR 0x0A txt ! 2) = Some rootHash \<and> length rootHash = 32"
proof -
  from assms obtain i where i: "last_blank envelope = Some i"
    by (auto simp: verifyCheckpoint_def)
  let ?txt = "take (i + 1) envelope" and ?sigs = "drop (i + 2) envelope"
  note env = last_blank_Some [OF i]
  have text_ends: "?txt = take i envelope @ [CHR 0x0A]"
  proof -
    have len: "i + 2 \<le> length envelope" using arg_cong [OF env, of length] by simp
    then have "envelope ! i = CHR 0x0A" using env by (metis (no_types) le_add1 le_trans length_take min.absorb2 nth_append_length)
    with len show ?thesis by (simp add: take_Suc_conv_app_nth)
  qed
  with env have "envelope = ?txt @ CHR 0x0A # ?sigs" by simp
  moreover have "last ?txt = CHR 0x0A" "?txt \<noteq> ''''" unfolding text_ends by simp_all
  moreover from assms i have v: "verifyAnyNoteSignature C k ?txt ?sigs = None"
    by (auto simp: verifyCheckpoint_def Let_def split: option.splits)
  from try_note_lines_None [OF v [unfolded verifyAnyNoteSignature_def]]
  obtain sg where "verify_sig C k sg ?txt" by blast
  moreover from assms i v have "4 \<le> length (split_on CHR 0x0A ?txt)"
    and size: "ParseInt (split_on CHR 0x0A ?txt ! 1) = Some sz" "0 < sz"
    and "b64_decode (split_on CHR 0x0A ?txt ! 2) = Some rootHash" "length rootHash = 32"
    by (auto simp: verifyCheckpoint_def Let_def)
  moreover have "sz < 2 ^ 63" using size(1) by (auto simp: ParseInt_def Let_def split: if_splits)
  ultimately show ?thesis by blast
qed

text \<open>A crypto that accepts a signature reading like the message's length, for the witnesses.\<close>

definition toy_crypto :: "unit crypto" where
  "toy_crypto = \<lparr>
     load_verifier = (\<lambda>_. True),
     verify_sig = (\<lambda>_ sg msg. sg \<noteq> ''no''),
     pem_blocks = (\<lambda>s. [(''CERTIFICATE'', s)]),
     parse_cert = (\<lambda>der. Some \<lparr>Raw = der, PublicKey = (), EmailAddresses = [''a@b.org''], URIs = [],
        Extensions = [(oidIssuerV2, ''iss'')]\<rparr>),
     parse_public = (\<lambda>_. Some ()),
     chains_to = (\<lambda>_ _ _ _. True),
     asn1_string = Some,
     digest_valid = (\<lambda>d. d \<noteq> ''''),
     digest_algorithm = (\<lambda>d. case index_of d '':'' of Some i \<Rightarrow> take i d | None \<Rightarrow> ''''),
     digest_encoded = (\<lambda>d. case index_of d '':'' of Some i \<Rightarrow> drop (i + 1) d | None \<Rightarrow> '''')\<rparr>"

definition toy_root_hash :: string where
  "toy_root_hash = ''hhhhhhhhhhhhhhhhhhhhhhhhhhhhhhhh''"

definition toy_checkpoint :: string where
  "toy_checkpoint =
     ''log'' @ [CHR 0x0A] @ ''7'' @ [CHR 0x0A] @
     ''aGhoaGhoaGhoaGhoaGhoaGhoaGhoaGhoaGhoaGhoaGg='' @ [CHR 0x0A, CHR 0x0A] @
     note_dash @ '' n aGludHNpZw=='' @ [CHR 0x0A]"

lemma toy_checkpoint_ok: "verifyCheckpoint toy_crypto () toy_checkpoint = Inr (toy_root_hash, 7)"
proof -
  let ?msg = "''log'' @ [CHR 0x0A] @ ''7'' @ [CHR 0x0A] @ ''aGhoaGhoaGhoaGhoaGhoaGhoaGhoaGhoaGhoaGhoaGg='' @ [CHR 0x0A]"
  let ?sigs = "note_dash @ '' n aGludHNpZw=='' @ [CHR 0x0A]"
  have cut: "last_blank toy_checkpoint = Some 50" "take (50 + 1) toy_checkpoint = ?msg" "drop (50 + 2) toy_checkpoint = ?sigs"
    by (simp_all add: toy_checkpoint_def note_dash_def)
  have dec: "b64_decode ''aGludHNpZw=='' = Some ''hintsig''"
    by (simp add: b64_decode_def b64_value_def b64_bytes_def char_of_def bit_0)
  have "Fields (note_dash @ '' n aGludHNpZw=='') = [note_dash, ''n'', ''aGludHNpZw=='']"
    unfolding note_dash_def by (simp add: is_space_def Fields.simps [of "_ # _"] Fields.simps [of "[]"])
  then have line: "note_signature (note_dash @ '' n aGludHNpZw=='') = Some ''sig''"
    unfolding note_signature_def using dec by simp
  have "trim_right CHR 0x0A ?sigs = note_dash @ '' n aGludHNpZw==''"
    by (simp add: note_dash_def trim_right_def)
  moreover have "split_on CHR 0x0A (note_dash @ '' n aGludHNpZw=='') = [note_dash @ '' n aGludHNpZw=='']"
    by (rule split_on_no_sep) (simp add: note_dash_def)
  ultimately have "split_on CHR 0x0A (trim_right CHR 0x0A ?sigs) = [note_dash @ '' n aGludHNpZw=='']" by simp
  with line have sg: "verifyAnyNoteSignature toy_crypto () ?msg ?sigs = None"
    by (simp only: verifyAnyNoteSignature_def try_note_lines.simps option.simps) (simp add: toy_crypto_def)
  have plain: "split_on CHR 0x0A ''log'' = [''log'']" "split_on CHR 0x0A ''7'' = [''7'']"
    "split_on CHR 0x0A ''aGhoaGhoaGhoaGhoaGhoaGhoaGhoaGhoaGhoaGhoaGg='' = [''aGhoaGhoaGhoaGhoaGhoaGhoaGhoaGhoaGhoaGhoaGg='']"
    by (rule split_on_no_sep; simp)+
  have ls: "split_on CHR 0x0A ?msg = [''log'', ''7'', ''aGhoaGhoaGhoaGhoaGhoaGhoaGhoaGhoaGhoaGhoaGg='', '''']"
    using split_on_append_sep [of "CHR 0x0A" "''log''"] split_on_append_sep [of "CHR 0x0A" "''7''"]
      split_on_append_sep [of "CHR 0x0A" "''aGhoaGhoaGhoaGhoaGhoaGhoaGhoaGhoaGhoaGhoaGg=''" "[]"] plain
    by (simp only: append_Cons append_Nil split_on.simps(1))
  have "ParseInt ''7'' = Some 7" by (simp add: ParseInt_def is_digit_def digit_value_def)
  moreover have "b64_decode ''aGhoaGhoaGhoaGhoaGhoaGhoaGhoaGhoaGhoaGhoaGg='' = Some toy_root_hash"
    by (simp add: b64_decode_def b64_value_def b64_bytes_def char_of_def bit_0 toy_root_hash_def)
  moreover have "length toy_root_hash = 32" by (simp add: toy_root_hash_def)
  ultimately show ?thesis
    unfolding verifyCheckpoint_def Let_def cut(1) from_option_def
    by (simp only: cut(2,3) sg ls option.simps bind_res_simps) (simp add: from_option_def require_def)
qed

theorem checkpoint_is_signed_witness:
  "\<exists>txt sg. verify_sig toy_crypto () sg txt \<and> ParseInt (split_on CHR 0x0A txt ! 1) = Some 7"
proof -
  have "verifyCheckpoint toy_crypto () toy_checkpoint = Inr (toy_root_hash, 7)" by (rule toy_checkpoint_ok)
  from checkpoint_is_signed [OF this] show ?thesis by blast
qed

section \<open>What an accepted signature establishes\<close>

text \<open>What an accepted log entry has been checked for, apart from its proof.\<close>

definition entry_checked ::
  "'k crypto \<Rightarrow> tlog_entry \<Rightarrow> 'k trusted_root \<Rightarrow> string \<Rightarrow> string \<Rightarrow> string \<Rightarrow> inclusion_proof \<Rightarrow> 'k log_key \<Rightarrow> bool"
where
  "entry_checked C e root sg payload certDER pf key \<longleftrightarrow>
     InclusionProof e = Some pf \<and> logs root (hex_encode (LogId e)) = Some key \<and>
     verify_sig C (public key) (SignedEntryTimestamp e)
       (entry_timestamp_json (CanonicalizedBody e) (IntegratedTime e) (LogId e) (LogIndex e)) \<and>
     covers (l_valid key) (seconds (IntegratedTime e)) \<and>
     verifyCheckpoint C (public key) (ip_Checkpoint pf) = Inr (ip_RootHash pf, ip_TreeSize pf) \<and>
     rootFromInclusionProof (ip_LogIndex pf) (ip_TreeSize pf) (leafHash (CanonicalizedBody e)) (ip_Hashes pf) =
       Inr (ip_RootHash pf) \<and>
     (\<exists>p. rekorBody (CanonicalizedBody e) = Some p \<and> Kind p = ''dsse'' \<and>
        PayloadHash p = (''sha256'', hex_encode (sha256 payload)) \<and>
        (\<exists>s \<in> set (Signatures p). is_this_signature C sg certDER s))"

lemma verifyLogEntry_checked:
  assumes "verifyLogEntry C e root sg payload certDER = Inr t"
  shows "t = seconds (IntegratedTime e) \<and> (\<exists>pf key. entry_checked C e root sg payload certDER pf key)"
  using assms
  by (auto simp: verifyLogEntry_def verifyEntryTimestamp_def bodyDescribes_def entry_checked_def list_ex_iff
      prod_eq_iff split: sum.splits prod.splits)


text \<open>
  An accepted entry really is in the log: if the root its checkpoint signs is that of a
  log of the given entries, then the entry's bytes are the log's entry at the proof's index,
  and that entry records this payload, signature and certificate, unless two strings with the
  same SHA-256 have been found.
\<close>

theorem accepted_entry_is_logged:
  assumes "verifyLogEntry C e root sg payload certDER = Inr t"
    and "InclusionProof e = Some pf" and "ip_RootHash pf = tree_hash (map leafHash bodies)"
    and "ip_TreeSize pf = int (length bodies)" and "length bodies < 2 ^ 63"
  shows "collision sha256 \<or>
    (0 \<le> ip_LogIndex pf \<and> nat (ip_LogIndex pf) < length bodies \<and>
     (\<exists>p. rekorBody (bodies ! nat (ip_LogIndex pf)) = Some p \<and> Kind p = ''dsse'' \<and>
        PayloadHash p = (''sha256'', hex_encode (sha256 payload)) \<and>
        (\<exists>s \<in> set (Signatures p). is_this_signature C sg certDER s)))"
proof -
  from verifyLogEntry_checked [OF assms(1)] assms(2) obtain key
    where ck: "entry_checked C e root sg payload certDER pf key" by (auto simp: entry_checked_def)
  then have "rootFromInclusionProof (ip_LogIndex pf) (int (length bodies)) (leafHash (CanonicalizedBody e)) (ip_Hashes pf) =
      Inr (tree_hash (map leafHash bodies))"
    using assms(3,4) by (simp add: entry_checked_def)
  from proof_entry [OF this assms(5)] ck show ?thesis by (auto simp: entry_checked_def)
qed

end
