(* ===== verification/JsonText.thy ===== *)
theory JsonText
  imports Encoding
begin

text \<open>
  Documents as \<^verbatim>\<open>json.Marshal\<close> renders them, and the fact that the reader of
  \<^verbatim>\<open>Json\<close> returns what was written. Numbers are natural numbers without leading zeros. Bytes
  from 128 up are kept as they are: the library does so for valid UTF-8, but for two separators it
  escapes.
\<close>

text \<open>What a string may not hold as it is: quotes, backslashes, controls, and the HTML characters.\<close>

definition escape_char :: "char \<Rightarrow> string" where
  "escape_char c =
     (let n = of_char c :: nat in
      if c = CHR 0x22 \<or> c = CHR 0x5C then [CHR 0x5C, c]
      else if c = CHR 0x08 then [CHR 0x5C, CHR ''b'']
      else if c = CHR 0x0C then [CHR 0x5C, CHR ''f'']
      else if c = CHR 0x0A then [CHR 0x5C, CHR ''n'']
      else if c = CHR 0x0D then [CHR 0x5C, CHR ''r'']
      else if c = CHR 0x09 then [CHR 0x5C, CHR ''t'']
      else if n < 32 \<or> c = CHR ''<'' \<or> c = CHR ''>'' \<or> c = CHR ''&''
      then [CHR 0x5C, CHR ''u'', CHR ''0'', CHR ''0'', hex_char (n div 16), hex_char (n mod 16)]
      else [c])"

definition escape :: "string \<Rightarrow> string" where
  "escape s = concat (map escape_char s)"

definition quote :: "string \<Rightarrow> string" where
  "quote s = CHR 0x22 # escape s @ [CHR 0x22]"

fun show_json :: "json \<Rightarrow> string"
  and show_members :: "(string \<times> json) list \<Rightarrow> string"
  and show_elements :: "json list \<Rightarrow> string" where
  "show_json JNull = ''null''"
| "show_json (JBool b) = (if b then ''true'' else ''false'')"
| "show_json (JNum s) = s"
| "show_json (JStr s) = quote s"
| "show_json (JArr es) = CHR ''['' # (if es = [] then '']'' else show_elements es)"
| "show_json (JObj ms) = CHR ''{'' # (if ms = [] then ''}'' else show_members ms)"
| "show_members [] = []"
| "show_members ((k, v) # ms) =
     quote k @ CHR '':'' # show_json v @ (if ms = [] then ''}'' else CHR '','' # show_members ms)"
| "show_elements [] = []"
| "show_elements (e # es) = show_json e @ (if es = [] then '']'' else CHR '','' # show_elements es)"

fun written :: "json \<Rightarrow> bool" and written_members :: "(string \<times> json) list \<Rightarrow> bool"
  and written_elements :: "json list \<Rightarrow> bool" where
  "written JNull = True"
| "written (JBool b) = True"
| "written (JNum s) = (s \<noteq> [] \<and> list_all is_digit s \<and> (hd s = CHR ''0'' \<longrightarrow> length s = 1))"
| "written (JStr s) = True"
| "written (JArr es) = written_elements es"
| "written (JObj ms) = written_members ms"
| "written_members [] = True"
| "written_members ((k, v) # ms) = (written v \<and> written_members ms)"
| "written_elements [] = True"
| "written_elements (e # es) = (written e \<and> written_elements es)"

fun need :: "json \<Rightarrow> nat" and need_members :: "(string \<times> json) list \<Rightarrow> nat"
  and need_elements :: "json list \<Rightarrow> nat" where
  "need (JArr es) = Suc (need_elements es)"
| "need (JObj ms) = Suc (need_members ms)"
| "need _ = 1"
| "need_members [] = 0"
| "need_members ((k, v) # ms) = Suc (max (need v) (need_members ms))"
| "need_elements [] = 0"
| "need_elements (e # es) = Suc (max (need e) (need_elements es))"

text \<open>What may follow a value inside a document.\<close>

definition follows :: "string \<Rightarrow> bool" where
  "follows r \<longleftrightarrow> r = [] \<or> hd r = CHR '','' \<or> hd r = CHR '']'' \<or> hd r = CHR ''}''"

lemma unescape_unicode:
  assumes "byte c < 128"
  shows "unicode_escape (CHR ''0'' # CHR ''0'' # hex_char (byte c div 16) # hex_char (byte c mod 16) # t) = Some ([c], 4)"
proof -
  have "hex_value (hex_char (byte c div 16)) = Some (byte c div 16)"
    "hex_value (hex_char (byte c mod 16)) = Some (byte c mod 16)"
    using assms by (auto intro!: hex_value_char)
  moreover have "hex_value (CHR ''0'') = Some 0" by (simp add: hex_value_def)
  moreover have "16 * (byte c div 16) + byte c mod 16 = byte c" by simp
  ultimately show ?thesis
    using assms by (simp add: unicode_escape_def utf8_def surrogate_def)
qed

lemma scan_escape_char:
  "scan_string (Suc n) (escape_char c @ t) = map_option (\<lambda>(u, r). (c # u, r)) (scan_string n t)"
proof -
  have small: "byte c < 128" if "byte c < 32 \<or> c = CHR ''<'' \<or> c = CHR ''>'' \<or> c = CHR ''&''"
    using that by auto
  show ?thesis
    unfolding escape_char_def Let_def
    by (auto simp: simple_escape_def unescape_unicode small)
qed

lemma escape_Cons: "escape (c # s) = escape_char c @ escape s"
  by (simp add: escape_def)

lemma escape_char_ne: "escape_char c \<noteq> []"
  by (simp add: escape_char_def Let_def)

lemma length_escape: "length s \<le> length (escape s)"
proof (induction s)
  case (Cons c s)
  then show ?case using escape_char_ne [of c] by (cases "escape_char c") (auto simp: escape_Cons)
qed simp

lemma scan_string_escape: "length s < n \<Longrightarrow> scan_string n (escape s @ CHR 0x22 # r) = Some (s, r)"
proof (induction s arbitrary: n)
  case Nil
  then show ?case by (cases n) (simp_all add: escape_def)
next
  case (Cons c s)
  then obtain m where "n = Suc m" by (cases n) auto
  with Cons show ?case by (simp add: escape_Cons scan_escape_char)
qed

lemma follows_no_digit: "follows r \<Longrightarrow> digits (s @ r) = (s, r)" if "list_all is_digit s"
proof -
  assume "follows r"
  then have "takeWhile is_digit r = [] \<and> dropWhile is_digit r = r"
    by (cases r) (auto simp: follows_def is_digit_def)
  moreover have "takeWhile is_digit s = s" "dropWhile is_digit s = []"
    using that by (simp_all add: list_all_iff)
  ultimately show ?thesis using that by (simp add: digits_def list_all_iff)
qed

lemma scan_number_written: "written (JNum s) \<Longrightarrow> follows r \<Longrightarrow> scan_number (s @ r) = Some (s, r)"
proof -
  assume w: "written (JNum s)" and r: "follows r"
  then obtain c t where s: "s = c # t" by (cases s) auto
  from w s have nm: "\<not> prefix ''-'' (s @ r)" by (auto simp: is_digit_def)
  have dg: "digits (s @ r) = (s, r)" using w r follows_no_digit by simp
  have "scan_integer (s @ r) = Some (s, r)" using w s dg by (auto simp: scan_integer_def)
  moreover have "scan_fraction r = Some ([], r)" "scan_exponent r = Some ([], r)"
    using r by (cases r; auto simp: scan_fraction_def scan_exponent_def follows_def)+
  ultimately show ?thesis using nm by (simp add: scan_number_def Let_def)
qed

lemma skip_ws_solid: "s \<noteq> [] \<Longrightarrow> \<not> is_ws (hd s) \<Longrightarrow> skip_ws (s @ r) = s @ r"
  by (cases s) (simp_all add: skip_ws_def)

lemma show_json_start:
  "written j \<Longrightarrow> show_json j \<noteq> [] \<and> \<not> is_ws (hd (show_json j)) \<and> hd (show_json j) \<noteq> CHR '']'' \<and> hd (show_json j) \<noteq> CHR ''}''"
proof (cases j)
  case (JNum s)
  assume "written j"
  with JNum show ?thesis by (cases s) (auto simp: is_ws_def is_digit_def)
qed (auto simp: quote_def is_ws_def)

lemma skip_ws_show: "written j \<Longrightarrow> skip_ws (show_json j @ r) = show_json j @ r"
  using show_json_start skip_ws_solid by blast

lemma not_digit_start: "written (JNum s) \<Longrightarrow> \<not> prefix [c] (s @ r) \<or> is_digit c"
  by (cases s) auto

lemma read_written:
  "written j \<Longrightarrow> follows r \<Longrightarrow> need j \<le> n \<Longrightarrow> value_at n (show_json j @ r) = Some (j, r)"
  "written_members ms \<Longrightarrow> ms \<noteq> [] \<Longrightarrow> need_members ms \<le> n \<Longrightarrow> members n (show_members ms @ r) = Some (ms, r)"
  "written_elements es \<Longrightarrow> es \<noteq> [] \<Longrightarrow> need_elements es \<le> n \<Longrightarrow> elements n (show_elements es @ r) = Some (es, r)"
proof (induction j and ms and es arbitrary: n r and n r and n r rule: show_json_show_members_show_elements.induct)
  case (3 s)
  then obtain m where n: "n = Suc m" by (cases n) auto
  from 3 obtain c t where s: "s = c # t" by (cases s) auto
  with 3 have d: "is_digit c" by simp
  have "\<not> prefix ''{'' (s @ r)" "\<not> prefix ''['' (s @ r)" "\<not> prefix [CHR 0x22] (s @ r)"
    "\<not> prefix ''true'' (s @ r)" "\<not> prefix ''false'' (s @ r)" "\<not> prefix ''null'' (s @ r)"
    using d by (auto simp: s is_digit_def)
  moreover have "skip_ws (s @ r) = s @ r" using skip_ws_show [of "JNum s" r] 3 by simp
  ultimately show ?case using scan_number_written [of s r] 3 by (simp add: n Let_def)
next
  case (4 s)
  then obtain m where n: "n = Suc m" by (cases n) auto
  have "skip_ws (quote s @ r) = quote s @ r" using skip_ws_show [of "JStr s" r] 4 by simp
  moreover have "scan_string (length (quote s @ r)) (tl (quote s @ r)) = Some (s, r)"
    using scan_string_escape [of s "length (quote s @ r)" r] length_escape [of s] by (simp add: quote_def)
  ultimately show ?case by (simp add: n Let_def quote_def)
next
  case (5 es)
  then obtain m where n: "n = Suc m" by (cases n) auto
  show ?case
  proof (cases es)
    case Nil
    then show ?thesis by (simp add: n Let_def skip_ws_def is_ws_def)
  next
    case (Cons e rest)
    have st: "show_elements es \<noteq> [] \<and> \<not> is_ws (hd (show_elements es)) \<and> hd (show_elements es) \<noteq> CHR '']''"
      using show_json_start [of e] 5 Cons by simp
    then have "skip_ws (show_elements es @ r) = show_elements es @ r" using skip_ws_solid by blast
    moreover have "\<not> prefix '']'' (show_elements es @ r)" using st by (cases "show_elements es") auto
    ultimately show ?thesis using 5 Cons by (simp add: n Let_def skip_ws_def is_ws_def)
  qed
next
  case (6 ms)
  then obtain m where n: "n = Suc m" by (cases n) auto
  show ?case
  proof (cases ms)
    case Nil
    then show ?thesis by (simp add: n Let_def skip_ws_def is_ws_def)
  next
    case (Cons kv rest)
    have st: "show_members ms \<noteq> [] \<and> \<not> is_ws (hd (show_members ms)) \<and> hd (show_members ms) \<noteq> CHR ''}''"
      using Cons by (cases kv) (simp add: quote_def is_ws_def)
    then have "skip_ws (show_members ms @ r) = show_members ms @ r" using skip_ws_solid by blast
    moreover have "\<not> prefix ''}'' (show_members ms @ r)" using st by (cases "show_members ms") auto
    ultimately show ?thesis using 6 Cons by (simp add: n Let_def skip_ws_def is_ws_def)
  qed
next
  case (8 k v ms)
  then obtain m where n: "n = Suc m" by (cases n) auto
  let ?tail = "(if ms = [] then ''}'' else CHR '','' # show_members ms) @ r"
  have fol: "follows ?tail" by (simp add: follows_def)
  have v: "value_at m (show_json v @ ?tail) = Some (v, ?tail)" using 8(1) 8(3-5) fol n by simp
  have key: "scan_string (length (show_members ((k, v) # ms) @ r)) (escape k @ CHR 0x22 # CHR '':'' # show_json v @ ?tail) =
      Some (k, CHR '':'' # show_json v @ ?tail)"
    using length_escape [of k] by (intro scan_string_escape) (simp add: quote_def)
  have eq: "show_members ((k, v) # ms) @ r = CHR 0x22 # escape k @ CHR 0x22 # CHR '':'' # show_json v @ ?tail"
    by (simp add: quote_def)
  have ws: "skip_ws (CHR 0x22 # x) = CHR 0x22 # x" "skip_ws (CHR '':'' # x) = CHR '':'' # x"
    "skip_ws (CHR '','' # x) = CHR '','' # x" "skip_ws (CHR ''}'' # x) = CHR ''}'' # x" for x
    by (simp_all add: skip_ws_def is_ws_def)
  show ?case
  proof (cases "ms = []")
    case True
    then show ?thesis using key v unfolding eq by (simp add: n ws Let_def)
  next
    case False
    have "members m (show_members ms @ r) = Some (ms, r)" using 8(2) 8(3,5) False n by simp
    then show ?thesis using key v False unfolding eq by (simp add: n ws Let_def)
  qed
next
  case (10 e es)
  then obtain m where n: "n = Suc m" by (cases n) auto
  let ?tail = "(if es = [] then '']'' else CHR '','' # show_elements es) @ r"
  have "follows ?tail" by (simp add: follows_def)
  then have v: "value_at m (show_json e @ ?tail) = Some (e, ?tail)" using 10(1) 10(3-5) n by simp
  have ws: "skip_ws (CHR '','' # x) = CHR '','' # x" "skip_ws (CHR '']'' # x) = CHR '']'' # x" for x
    by (simp_all add: skip_ws_def is_ws_def)
  show ?case
  proof (cases "es = []")
    case True
    then show ?thesis using v by (simp add: n ws Let_def)
  next
    case False
    have "elements m (show_elements es @ r) = Some (es, r)" using 10(2) 10(3,5) False n by simp
    then show ?thesis using v False by (simp add: n ws Let_def)
  qed
next
  case 1
  then show ?case by (cases n) (auto simp: Let_def skip_ws_def is_ws_def)
next
  case (2 b)
  then show ?case by (cases n) (auto simp: Let_def skip_ws_def is_ws_def)
qed simp_all

lemma need_length:
  "written j \<Longrightarrow> need j \<le> length (show_json j)"
  "written_members ms \<Longrightarrow> need_members ms \<le> length (show_members ms)"
  "written_elements es \<Longrightarrow> need_elements es \<le> length (show_elements es)"
proof (induction j and ms and es rule: show_json_show_members_show_elements.induct)
  case (3 s)
  then show ?case by (cases s) auto
next
  case (10 e es)
  then show ?case by (cases es) auto
qed (auto simp: quote_def)

lemma parse_show: "written j \<Longrightarrow> parse_json (show_json j) = Some j"
proof -
  assume w: "written j"
  have "value_at (Suc (length (show_json j))) (show_json j @ []) = Some (j, [])"
    using need_length(1) [OF w] by (intro read_written(1) [OF w]) (simp_all add: follows_def)
  then show ?thesis by (simp add: parse_json_def skip_ws_def)
qed

end
