(* ===== verification/KeylessSample.thy ===== *)
theory KeylessSample
  imports Keyless JsonText
begin

text \<open>
  A complete bundle over a one-entry log, accepted by \<^verbatim>\<open>Verify\<close> under a cryptography that
  accepts every signature but one: the witnesses of what verification establishes.
\<close>

section \<open>The documents\<close>

definition my_payload :: string where
  "my_payload = show_json
     (JObj [(''_type'', JStr ''https://in-toto.io/Statement/v1''),
            (''subject'', JArr [JObj [(''digest'', JObj [(''sha256'', JStr ''ab'')])]])])"

definition my_body :: string where
  "my_body = show_json
     (JObj [(''kind'', JStr ''dsse''),
            (''spec'', JObj
               [(''payloadHash'', JObj [(''algorithm'', JStr ''sha256''), (''value'', JStr (hex_encode (sha256 my_payload)))]),
                (''signatures'', JArr [JObj [(''signature'', JStr (b64_encode ''sig'')), (''verifier'', JStr (b64_encode ''cert''))]])])])"

definition my_text :: "string \<Rightarrow> string" where
  "my_text r = ''log'' @ CHR 0x0A # (''1'' @ CHR 0x0A # (b64_encode r @ CHR 0x0A # []))"

definition my_checkpoint :: "string \<Rightarrow> string" where
  "my_checkpoint r = my_text r @ CHR 0x0A # (note_dash @ '' n aGludHNpZw=='' @ [CHR 0x0A])"

definition my_proof :: inclusion_proof where
  "my_proof = \<lparr>ip_LogIndex = 0, ip_RootHash = leafHash my_body, ip_TreeSize = 1, ip_Hashes = [],
     ip_Checkpoint = my_checkpoint (leafHash my_body)\<rparr>"

definition my_entry :: tlog_entry where
  "my_entry = \<lparr>LogIndex = 5, LogId = ''L'', IntegratedTime = 3, SignedEntryTimestamp = ''set'',
     InclusionProof = Some my_proof, CanonicalizedBody = my_body\<rparr>"

definition my_root :: "unit trusted_root" where
  "my_root = \<lparr>authorities = [\<lparr>roots = [], intermediates = [], a_valid = \<lparr>w_start = None, w_end = None\<rparr>\<rparr>],
     logs = [hex_encode ''L'' \<mapsto> \<lparr>public = (), l_valid = \<lparr>w_start = Some 0, w_end = None\<rparr>\<rparr>]\<rparr>"

definition my_bundle :: sig_bundle where
  "my_bundle = \<lparr>b_MediaType = ''application/vnd.dev.sigstore.bundle.v0.3+json'', Material = Some (Certificate ''cert''),
     TlogEntries = [my_entry], Envelope = Some (payloadType, my_payload, [''sig''])\<rparr>"

definition my_identity :: identity where
  "my_identity = \<lparr>Subject = ''a@b.org'', Issuer = ''iss''\<rparr>"

section \<open>Each step\<close>

lemma rekor_my_body:
  "rekorBody my_body = Some \<lparr>Kind = ''dsse'', PayloadHash = (''sha256'', hex_encode (sha256 my_payload)),
     Signatures = [(b64_encode ''sig'', b64_encode ''cert'')]\<rparr>"
proof -
  have "parse_json my_body = Some (JObj [(''kind'', JStr ''dsse''),
            (''spec'', JObj
               [(''payloadHash'', JObj [(''algorithm'', JStr ''sha256''), (''value'', JStr (hex_encode (sha256 my_payload)))]),
                (''signatures'', JArr [JObj [(''signature'', JStr (b64_encode ''sig'')), (''verifier'', JStr (b64_encode ''cert''))]])])])"
    unfolding my_body_def by (rule parse_show) (simp del: b64_encode.simps)
  then show ?thesis
    by (simp add: rekorBody_def obj_of_def str_field_def obj_field_def field_def list_field_def decode_pair_def
        to_lower_def to_lower_char_def Let_def char_of_def bit_0 del: b64_encode.simps)
qed

lemma my_body_described: "bodyDescribes toy_crypto my_body ''sig'' my_payload ''cert'' = Inr ()"
  by (simp add: bodyDescribes_def from_option_def require_def rekor_my_body is_this_signature_def
      parseCertificates_def parse_certs_def del: b64_encode.simps) (simp add: toy_crypto_def)

lemma my_statement_covers: "statementCovers toy_crypto my_payload ''sha256:ab'' = Inr ()"
proof -
  have "parse_json my_payload = Some
     (JObj [(''_type'', JStr ''https://in-toto.io/Statement/v1''),
            (''subject'', JArr [JObj [(''digest'', JObj [(''sha256'', JStr ''ab'')])]])])"
    unfolding my_payload_def by (rule parse_show) simp
  then have "decode_statement my_payload = Some (''https://in-toto.io/Statement/v1'', [[(''sha256'', ''ab'')]])"
    by (simp add: decode_statement_def obj_of_def str_field_def field_def list_field_def map_field_def
        to_lower_def to_lower_char_def Let_def char_of_def bit_0)
  moreover have "prefix statementType ''https://in-toto.io/Statement/v1''" by (simp add: statementType_def)
  moreover have "digest_algorithm toy_crypto ''sha256:ab'' = ''sha256''" "digest_encoded toy_crypto ''sha256:ab'' = ''ab''"
    "digest_valid toy_crypto ''sha256:ab''" by (simp_all add: toy_crypto_def)
  ultimately show ?thesis
    by (simp add: statementCovers_def from_option_def require_def lookup_str_def)
qed

lemma last_blank_append:
  "last_blank (CHR 0x0A # v) = None \<Longrightarrow> last_blank (u @ CHR 0x0A # CHR 0x0A # v) = Some (length u)"
proof (induction u)
  case Nil
  then show ?case by simp
next
  case (Cons c u)
  then show ?case by simp
qed

lemma my_checkpoint_ok:
  assumes "length r = 32"
  shows "verifyCheckpoint toy_crypto () (my_checkpoint r) = Inr (r, 1)"
proof -
  let ?u = "''log'' @ CHR 0x0A # (''1'' @ CHR 0x0A # b64_encode r)" and ?v = "note_dash @ '' n aGludHNpZw=='' @ [CHR 0x0A]"
  have cp: "my_checkpoint r = ?u @ CHR 0x0A # CHR 0x0A # ?v" and tx: "my_text r = ?u @ [CHR 0x0A]"
    by (simp_all add: my_checkpoint_def my_text_def)
  have lb: "last_blank (my_checkpoint r) = Some (length ?u)"
    unfolding cp by (rule last_blank_append) (simp add: note_dash_def)
  have cut: "take (length ?u + 1) (my_checkpoint r) = my_text r" "drop (length ?u + 2) (my_checkpoint r) = ?v"
    unfolding cp tx by simp_all
  have dec: "b64_decode ''aGludHNpZw=='' = Some ''hintsig''"
    by (simp add: b64_decode_def b64_value_def b64_bytes_def char_of_def bit_0)
  have "Fields (note_dash @ '' n aGludHNpZw=='') = [note_dash, ''n'', ''aGludHNpZw=='']"
    unfolding note_dash_def by (simp add: is_space_def Fields.simps [of "_ # _"] Fields.simps [of "[]"])
  then have line: "note_signature (note_dash @ '' n aGludHNpZw=='') = Some ''sig''"
    unfolding note_signature_def using dec by simp
  have "trim_right CHR 0x0A ?v = note_dash @ '' n aGludHNpZw==''"
    by (simp add: note_dash_def trim_right_def)
  moreover have "split_on CHR 0x0A (note_dash @ '' n aGludHNpZw=='') = [note_dash @ '' n aGludHNpZw=='']"
    by (rule split_on_no_sep) (simp add: note_dash_def)
  ultimately have "split_on CHR 0x0A (trim_right CHR 0x0A ?v) = [note_dash @ '' n aGludHNpZw=='']" by simp
  with line have sg: "verifyAnyNoteSignature toy_crypto () (my_text r) ?v = None"
    by (simp only: verifyAnyNoteSignature_def try_note_lines.simps option.simps) (simp add: toy_crypto_def)
  have "CHR 0x0A \<notin> set (b64_encode r)" using b64_plain by blast
  then have plain: "split_on CHR 0x0A ''log'' = [''log'']" "split_on CHR 0x0A ''1'' = [''1'']"
    "split_on CHR 0x0A (b64_encode r) = [b64_encode r]"
    by (rule_tac split_on_no_sep; simp)+
  have ls: "split_on CHR 0x0A (my_text r) = [''log'', ''1'', b64_encode r, '''']"
    unfolding my_text_def split_on_append_sep plain by simp
  have "ParseInt ''1'' = Some 1" by (simp add: ParseInt_def is_digit_def digit_value_def)
  then show ?thesis using assms
    unfolding verifyCheckpoint_def Let_def lb from_option_def
    by (simp only: cut sg ls option.simps bind_res_simps) (simp add: from_option_def require_def)
qed

lemma my_entry_ok: "verifyLogEntry toy_crypto my_entry my_root ''sig'' my_payload ''cert'' = Inr (seconds 3)"
proof -
  have "rootFromInclusionProof 0 1 (leafHash my_body) [] = Inr (leafHash my_body)"
    by (simp add: rootFromInclusionProof_def Let_def Len64_def OnesCount64_def bits_len.simps bits_ones.simps)
  moreover have "my_body \<noteq> ''''" by (simp add: my_body_def)
  moreover have "my_checkpoint r \<noteq> ''''" for r by (simp add: my_checkpoint_def)
  moreover have "logs my_root (hex_encode ''L'') = Some \<lparr>public = (), l_valid = \<lparr>w_start = Some 0, w_end = None\<rparr>\<rparr>"
    by (simp add: my_root_def)
  moreover have "load_verifier toy_crypto k" "verify_sig toy_crypto k ''set'' m" for k m by (simp_all add: toy_crypto_def)
  ultimately show ?thesis
    unfolding verifyLogEntry_def verifyEntryTimestamp_def
    by (simp add: my_entry_def my_proof_def from_option_def require_def map_error_def my_checkpoint_ok
        my_body_described covers_def seconds_def del: hex_encode.simps)
qed

lemma my_bundle_ok:
  "Verify toy_crypto (Some my_bundle) ''sha256:ab'' (Some my_root) [my_identity] =
   Inr \<lparr>r_Subject = ''a@b.org'', r_Issuer = ''iss'', r_LogIndex = 5, r_IntegratedTime = seconds 3\<rparr>"
proof -
  have cls: "classifySubject ''a@b.org'' = Inr SubjectExact"
    by (simp add: classifySubject_def)
  have val: "Validate my_identity = None" by (simp add: Validate_def my_identity_def cls)
  have "globMatch ''a@b.org'' ''a@b.org''" by (simp add: globMatch_glob glob_refl)
  then have any: "anyMatches [my_identity] ''a@b.org'' ''iss'' SubjectMail"
    by (simp add: anyMatches_def matches_def my_identity_def cls)
  let ?leaf = "\<lparr>Raw = ''cert'', PublicKey = (), EmailAddresses = [''a@b.org''], URIs = [],
        Extensions = [(oidIssuerV2, ''iss'')]\<rparr>"
  have leaf: "bundleCertificate toy_crypto my_bundle = Inr ?leaf"
    by (simp add: bundleCertificate_def my_bundle_def from_option_def toy_crypto_def)
  have chain: "verifyChain toy_crypto ?leaf my_root (seconds 3) = Inr ()"
    by (simp add: verifyChain_def my_root_def covers_def toy_crypto_def)
  have ident: "certIdentity toy_crypto ?leaf = Inr (''a@b.org'', ''iss'', SubjectMail)"
    by (simp add: certIdentity_def toy_crypto_def from_option_def require_def)
  have ok: "load_verifier toy_crypto ()" "verify_sig toy_crypto () ''sig'' m" for m by (simp_all add: toy_crypto_def)
  have parts: "b_MediaType my_bundle \<in> set supportedBundleVersions" "Envelope my_bundle = Some (payloadType, my_payload, [''sig''])"
    "TlogEntries my_bundle = [my_entry]" "LogIndex my_entry = 5"
    by (simp_all add: my_bundle_def supportedBundleVersions_def my_entry_def)
  show ?thesis
    unfolding Verify_def Let_def
    by (simp add: val leaf parts ok my_entry_ok chain ident any my_statement_covers from_option_def require_def)
qed


theorem accepted_entry_is_logged_witness:
  "collision sha256 \<or> (\<exists>p. rekorBody ([my_body] ! 0) = Some p)"
proof -
  have "tree_hash (map leafHash [my_body]) = leafHash my_body" by (simp add: tree_hash.simps)
  with accepted_entry_is_logged [OF my_entry_ok, of my_proof "[my_body]"] show ?thesis
    by (auto simp: my_entry_def my_proof_def)
qed

end
