(* ===== verification/Codec.thy ===== *)
theory Codec
  imports Encoding
begin

text \<open>
  Reading binary data off a stream: the primitives of \<^verbatim>\<open>io\<close> and \<^verbatim>\<open>encoding/binary\<close>
  over the bytes still to come, and the contract a reader and a writer of one format share.
  A reader returns its value with the rest of the stream.
\<close>

section \<open>Little-endian integers\<close>

fun le_nat :: "string \<Rightarrow> nat" where
  "le_nat [] = 0"
| "le_nat (c # cs) = byte c + 256 * le_nat cs"

fun le_bytes :: "nat \<Rightarrow> nat \<Rightarrow> string" where
  "le_bytes 0 n = []"
| "le_bytes (Suc k) n = char_of (n mod 256) # le_bytes k (n div 256)"

lemma length_le_bytes [simp]: "length (le_bytes k n) = k"
  by (induction k arbitrary: n) auto

lemma le_nat_bytes: "n < 256 ^ k \<Longrightarrow> le_nat (le_bytes k n) = n"
proof (induction k arbitrary: n)
  case 0
  then show ?case by simp
next
  case (Suc k)
  then have "n div 256 < 256 ^ k" by (simp add: less_mult_imp_div_less mult.commute)
  from Suc.IH [OF this] show ?case by simp
qed

lemma le_nat_less: "le_nat bs < 256 ^ length bs"
proof (induction bs)
  case (Cons c cs)
  have "byte c + 256 * le_nat cs < 256 * Suc (le_nat cs)" by simp
  also have "\<dots> \<le> 256 * 256 ^ length cs" using Cons by (simp only: Suc_leI mult_le_mono2)
  finally show ?case by simp
qed simp

definition le_word :: "string \<Rightarrow> 'a::len word" where
  "le_word bs = word_of_nat (le_nat bs)"

lemma le_word_bytes:
  assumes "256 ^ k = (2 :: nat) ^ LENGTH('a)"
  shows "le_word (le_bytes k (unat (w :: 'a::len word))) = w"
proof -
  have "unat w < 256 ^ k" unfolding assms by (rule unsigned_less)
  then show ?thesis by (simp add: le_word_def le_nat_bytes)
qed

lemma unat_u64: "n < 2 ^ 64 \<Longrightarrow> unat (word_of_nat n :: 64 word) = n"
  by (simp add: unsigned_of_nat take_bit_nat_eq_self)

section \<open>Reading a stream\<close>

datatype stream_error = Eof

text \<open>\<^verbatim>\<open>io.ReadFull\<close>, \<^verbatim>\<open>io.CopyN\<close> and \<^verbatim>\<open>bufio.Reader.Discard\<close>: all of the bytes asked
  for, or an error.\<close>

definition take_bytes :: "nat \<Rightarrow> string \<Rightarrow> stream_error + string \<times> string" where
  "take_bytes n bs = (if n \<le> length bs then Inr (take n bs, drop n bs) else Inl Eof)"

definition read_u32 :: "string \<Rightarrow> stream_error + 32 word \<times> string" where
  "read_u32 bs = bind_res (take_bytes 4 bs) (\<lambda>(b, r). Inr (le_word b, r))"

definition read_u64 :: "string \<Rightarrow> stream_error + 64 word \<times> string" where
  "read_u64 bs = bind_res (take_bytes 8 bs) (\<lambda>(b, r). Inr (le_word b, r))"

definition put_u32 :: "32 word \<Rightarrow> string" where
  "put_u32 w = le_bytes 4 (unat w)"

definition put_u64 :: "64 word \<Rightarrow> string" where
  "put_u64 w = le_bytes 8 (unat w)"

lemma take_bytes_append [simp]: "length b = n \<Longrightarrow> take_bytes n (b @ r) = Inr (b, r)"
  by (simp add: take_bytes_def)

lemma take_bytes_Inr:
  "take_bytes n s = Inr (b, r) \<longleftrightarrow> s = b @ r \<and> length b = n"
  by (auto simp: take_bytes_def split: if_splits)

section \<open>The contract of a reader\<close>

text \<open>
  A reader consumes a front part of the stream and does not look behind it: what follows is
  handed on untouched, and more data at the end changes nothing.
\<close>

locale reader =
  fixes dec :: "string \<Rightarrow> 'e + 'a \<times> string"
  assumes consumes: "dec s = Inr (x, r) \<Longrightarrow> \<exists>p. s = p @ r"
    and extends: "dec s = Inr (x, r) \<Longrightarrow> dec (s @ t) = Inr (x, r @ t)"
begin

lemma shrinks: "dec s = Inr (x, r) \<Longrightarrow> length r \<le> length s"
  by (auto dest!: consumes)

text \<open>A front part of a stream that is read to its end is not itself read, unless it is all of it.\<close>

lemma truncated:
  assumes full: "dec (p @ t) = Inr (x, [])" and t: "t \<noteq> []"
  shows "\<exists>e. dec p = Inl e"
proof (cases "dec p")
  case (Inr yr)
  obtain y r where yr: "yr = (y, r)" by (cases yr)
  from extends [of p y r t] Inr yr full have "r @ t = []" by simp
  with t show ?thesis by simp
qed blast

end

text \<open>A format is a reader with a writer it undoes, for the values the format can hold.\<close>

locale codec = reader dec
  for dec :: "string \<Rightarrow> 'e + 'a \<times> string" +
  fixes enc :: "'a \<Rightarrow> string" and holds :: "'a \<Rightarrow> bool"
  assumes reads: "holds x \<Longrightarrow> dec (enc x @ r) = Inr (x, r)"
begin

lemma unique: "holds x \<Longrightarrow> holds y \<Longrightarrow> enc x @ r = enc y @ r' \<Longrightarrow> x = y \<and> r = r'"
  by (metis reads Inr_inject prod.inject)

lemma cut: "holds x \<Longrightarrow> enc x = p @ t \<Longrightarrow> t \<noteq> [] \<Longrightarrow> \<exists>e. dec p = Inl e"
  by (metis truncated reads append.right_neutral)

end

text \<open>Readers compose: the bind of two readers is a reader, and so is one with its errors renamed.\<close>

lemma reader_bind:
  assumes f: "reader f" and g: "\<And>x. reader (g x)"
  shows "reader (\<lambda>s. bind_res (f s) (\<lambda>(x, r). g x r))"
proof
  fix s y r
  assume "bind_res (f s) (\<lambda>(x, r). g x r) = Inr (y, r)"
  then obtain x r0 where x: "f s = Inr (x, r0)" "g x r0 = Inr (y, r)" by auto
  from reader.consumes [OF f x(1)] reader.consumes [OF g x(2)]
  show "\<exists>p. s = p @ r" by auto
  fix t
  from reader.extends [OF f x(1)] reader.extends [OF g x(2)]
  show "bind_res (f (s @ t)) (\<lambda>(x, r). g x r) = Inr (y, r @ t)" by auto
qed

lemma reader_map_error: "reader f \<Longrightarrow> reader (\<lambda>s. map_error h (f s))"
  unfolding reader_def map_error_eq by assumption

lemma reader_return: "reader (\<lambda>s. Inr (x, s))"
  by unfold_locales auto

lemma reader_fail: "reader (\<lambda>s. Inl e)"
  by unfold_locales auto

lemma reader_take: "reader (take_bytes n)"
  by unfold_locales (auto simp: take_bytes_Inr)

lemma reader_if: "reader f \<Longrightarrow> reader g \<Longrightarrow> reader (\<lambda>s. if b then f s else g s)"
  by (cases b) simp_all

lemma reader_option:
  "(\<And>x. reader (f x)) \<Longrightarrow> reader g \<Longrightarrow> reader (\<lambda>s. case c of None \<Rightarrow> g s | Some x \<Rightarrow> f x s)"
  by (cases c) simp_all

lemmas reader_intros = reader_bind reader_map_error reader_return reader_fail reader_take reader_if
  reader_option

lemma reader_u32: "reader read_u32" and reader_u64: "reader read_u64"
  unfolding read_u32_def [abs_def] read_u64_def [abs_def] by (intro reader_intros)+

lemmas reader_words = reader_u32 reader_u64

interpretation u32: codec read_u32 put_u32 "\<lambda>_. True"
  by (intro codec.intro reader_u32 codec_axioms.intro)
     (simp add: read_u32_def put_u32_def le_word_bytes)

interpretation u64: codec read_u64 put_u64 "\<lambda>_. True"
  by (intro codec.intro reader_u64 codec_axioms.intro)
     (simp add: read_u64_def put_u64_def le_word_bytes)

end
