(* ===== verification/Gguf.thy ===== *)
theory Gguf
  imports Codec
begin

text \<open>
  \<^verbatim>\<open>internal/gguf\<close>: the header of a GGUF file. \<open>Read\<close> takes the bytes of the file
  and gives the metadata or the error; \<open>Build\<close> is the writer of \<^verbatim>\<open>gguftest\<close>. The
  metadata is a map, since a later key replaces an earlier one. Floating point values are their
  IEEE bit patterns.
\<close>

section \<open>Values\<close>

datatype gvalue =
    GUint "64 word" | GInt "64 word" | GBool bool | GFloat "64 word" | GString string

datatype gguf_error =
    Stream stream_error
  | BadMagic string
  | BadVersion "32 word"
  | TooManyKVs "64 word"
  | StringTooLong "64 word" nat
  | UnknownType "32 word"
  | ArrayTooLong "64 word"
  | BadElemType "32 word"
  | InMagic gguf_error | InVersion gguf_error | InTensorCount gguf_error | InKVCount gguf_error
  | InKey nat gguf_error | InType string gguf_error | InValue string gguf_error

record gguf_info =
  Version :: "32 word"
  TensorCount :: "64 word"
  Architecture :: string
  Name :: string
  SizeLabel :: string
  License :: string
  Quantization :: string
  ContextLength :: "64 word"
  Metadata :: "string \<Rightarrow> gvalue option"

definition Magic :: string where "Magic = ''GGUF''"

definition maxKVCount :: nat where "maxKVCount = 65536"
definition maxKeyLen :: nat where "maxKeyLen = 64 * 1024"
definition maxStringLen :: nat where "maxStringLen = 64 * 1024 * 1024"
definition maxArrayLen :: nat where "maxArrayLen = 64 * 1024 * 1024"

text \<open>The codes of the value types.\<close>

abbreviation "typeUint8 \<equiv> 0 :: 32 word"
abbreviation "typeInt8 \<equiv> 1 :: 32 word"
abbreviation "typeUint16 \<equiv> 2 :: 32 word"
abbreviation "typeInt16 \<equiv> 3 :: 32 word"
abbreviation "typeUint32 \<equiv> 4 :: 32 word"
abbreviation "typeInt32 \<equiv> 5 :: 32 word"
abbreviation "typeFloat32 \<equiv> 6 :: 32 word"
abbreviation "typeBool \<equiv> 7 :: 32 word"
abbreviation "typeString \<equiv> 8 :: 32 word"
abbreviation "typeArray \<equiv> 9 :: 32 word"
abbreviation "typeUint64 \<equiv> 10 :: 32 word"
abbreviation "typeInt64 \<equiv> 11 :: 32 word"
abbreviation "typeFloat64 \<equiv> 12 :: 32 word"

definition scalarSize :: "32 word \<Rightarrow> nat option" where
  "scalarSize = map_of
     [(typeUint8, 1), (typeInt8, 1), (typeBool, 1),
      (typeUint16, 2), (typeInt16, 2),
      (typeUint32, 4), (typeInt32, 4), (typeFloat32, 4),
      (typeUint64, 8), (typeInt64, 8), (typeFloat64, 8)]"

text \<open>
  The conversion of a 32-bit float to a 64-bit one, on bit patterns: the exponent is rebiased, the
  fraction shifted, a subnormal normalised, and a NaN made quiet.
\<close>

fun top_bit :: "nat \<Rightarrow> nat \<Rightarrow> nat" where
  "top_bit 0 n = 0"
| "top_bit (Suc k) n = (if 2 ^ k \<le> n then k else top_bit k n)"

definition widen_float :: "32 word \<Rightarrow> 64 word" where
  "widen_float w =
     (let n = unat w; s = n div 2 ^ 31; e = n div 2 ^ 23 mod 2 ^ 8; f = n mod 2 ^ 23 in
      word_of_nat (s * 2 ^ 63 +
        (if e = 255 then 2047 * 2 ^ 52 + (if f = 0 then 0 else (f mod 2 ^ 22 + 2 ^ 22) * 2 ^ 29)
         else if e = 0
         then (if f = 0 then 0
               else let k = top_bit 23 f in (k + 874) * 2 ^ 52 + (f - 2 ^ k) * 2 ^ (52 - k))
         else (e + 896) * 2 ^ 52 + f * 2 ^ 29)))"

section \<open>Reading\<close>

definition readScalar :: "32 word \<Rightarrow> nat \<Rightarrow> string \<Rightarrow> gguf_error + gvalue option \<times> string" where
  "readScalar vt n bs =
     bind_res (map_error Stream (take_bytes n bs)) (\<lambda>(buf, r).
       if vt = typeUint8 then Inr (Some (GUint (ucast (le_word buf :: 8 word))), r)
       else if vt = typeInt8 then Inr (Some (GInt (scast (le_word buf :: 8 word))), r)
       else if vt = typeBool then Inr (Some (GBool (le_word buf \<noteq> (0 :: 8 word))), r)
       else if vt = typeUint16 then Inr (Some (GUint (ucast (le_word buf :: 16 word))), r)
       else if vt = typeInt16 then Inr (Some (GInt (scast (le_word buf :: 16 word))), r)
       else if vt = typeUint32 then Inr (Some (GUint (ucast (le_word buf :: 32 word))), r)
       else if vt = typeInt32 then Inr (Some (GInt (scast (le_word buf :: 32 word))), r)
       else if vt = typeFloat32 then Inr (Some (GFloat (widen_float (le_word buf))), r)
       else if vt = typeUint64 then Inr (Some (GUint (le_word buf)), r)
       else if vt = typeInt64 then Inr (Some (GInt (le_word buf)), r)
       else if vt = typeFloat64 then Inr (Some (GFloat (le_word buf)), r)
       else Inl (UnknownType vt))"

definition readString :: "nat \<Rightarrow> string \<Rightarrow> gguf_error + string \<times> string" where
  "readString limit bs =
     bind_res (map_error Stream (read_u64 bs)) (\<lambda>(n, r).
       if limit < unat n then Inl (StringTooLong n limit)
       else map_error Stream (take_bytes (unat n) r))"

definition skipString :: "nat \<Rightarrow> string \<Rightarrow> gguf_error + unit \<times> string" where
  "skipString limit bs =
     bind_res (map_error Stream (read_u64 bs)) (\<lambda>(n, r).
       if limit < unat n then Inl (StringTooLong n limit)
       else bind_res (map_error Stream (take_bytes (unat n) r)) (\<lambda>(_, r). Inr ((), r)))"

fun skip_strings :: "nat \<Rightarrow> string \<Rightarrow> gguf_error + unit \<times> string" where
  "skip_strings 0 bs = Inr ((), bs)"
| "skip_strings (Suc n) bs = bind_res (skipString maxStringLen bs) (\<lambda>(_, r). skip_strings n r)"

text \<open>The count is at most \<open>maxArrayLen\<close>, so its product with the element size fits an \<^verbatim>\<open>int\<close>.\<close>

definition skipArray :: "string \<Rightarrow> gguf_error + unit \<times> string" where
  "skipArray bs =
     bind_res (map_error Stream (read_u32 bs)) (\<lambda>(elem_type, r).
     bind_res (map_error Stream (read_u64 r)) (\<lambda>(count, r).
       if maxArrayLen < unat count then Inl (ArrayTooLong count)
       else case scalarSize elem_type of
         Some k \<Rightarrow> bind_res (map_error Stream (take_bytes (unat count * k) r)) (\<lambda>(_, r). Inr ((), r))
       | None \<Rightarrow>
           if elem_type = typeString then skip_strings (unat count) r
           else Inl (BadElemType elem_type)))"

definition readValue :: "32 word \<Rightarrow> string \<Rightarrow> gguf_error + gvalue option \<times> string" where
  "readValue vt bs =
     (case scalarSize vt of
        Some n \<Rightarrow> readScalar vt n bs
      | None \<Rightarrow>
          if vt = typeString then
            bind_res (readString maxStringLen bs) (\<lambda>(s, r). Inr (Some (GString s), r))
          else if vt = typeArray then bind_res (skipArray bs) (\<lambda>(_, r). Inr (None, r))
          else Inl (UnknownType vt))"

definition store_value :: "string \<Rightarrow> gvalue option \<Rightarrow> (string \<Rightarrow> gvalue option) \<Rightarrow> string \<Rightarrow> gvalue option" where
  "store_value key v m = (case v of None \<Rightarrow> m | Some x \<Rightarrow> m(key \<mapsto> x))"

fun read_kvs :: "nat \<Rightarrow> nat \<Rightarrow> (string \<Rightarrow> gvalue option) \<Rightarrow> string \<Rightarrow>
    gguf_error + (string \<Rightarrow> gvalue option) \<times> string" where
  "read_kvs i 0 m bs = Inr (m, bs)"
| "read_kvs i (Suc n) m bs =
     bind_res (map_error (InKey i) (readString maxKeyLen bs)) (\<lambda>(key, r).
     bind_res (map_error (InType key) (map_error Stream (read_u32 r))) (\<lambda>(vt, r).
     bind_res (map_error (InValue key) (readValue vt r)) (\<lambda>(v, r).
       read_kvs (Suc i) n (store_value key v m) r)))"

section \<open>The typed fields\<close>

definition fileTypeNames :: "(32 word \<times> string) list" where
  "fileTypeNames =
     [(0, ''F32''), (1, ''F16''), (2, ''Q4_0''), (3, ''Q4_1''), (7, ''Q8_0''), (8, ''Q5_0''),
      (9, ''Q5_1''), (10, ''Q2_K''), (11, ''Q3_K_S''), (12, ''Q3_K_M''), (13, ''Q3_K_L''),
      (14, ''Q4_K_S''), (15, ''Q4_K_M''), (16, ''Q5_K_S''), (17, ''Q5_K_M''), (18, ''Q6_K''),
      (19, ''IQ2_XXS''), (20, ''IQ2_XS''), (21, ''Q2_K_S''), (22, ''IQ3_XS''), (23, ''IQ3_XXS''),
      (24, ''IQ1_S''), (25, ''IQ4_NL''), (26, ''IQ3_S''), (27, ''IQ3_M''), (28, ''IQ2_S''),
      (29, ''IQ2_M''), (30, ''IQ4_XS''), (31, ''IQ1_M''), (32, ''BF16''), (36, ''TQ1_0''),
      (37, ''TQ2_0'')]"

definition fileTypeName :: "32 word \<Rightarrow> string" where
  "fileTypeName ft =
     (case map_of fileTypeNames ft of Some name \<Rightarrow> name | None \<Rightarrow> ''FT_'' @ itoa_nat (unat ft))"

definition asUint64 :: "gvalue option \<Rightarrow> 64 word option" where
  "asUint64 v = (case v of
     Some (GUint x) \<Rightarrow> Some x
   | Some (GInt x) \<Rightarrow> if 0 \<le> sint x then Some x else None
   | _ \<Rightarrow> None)"

definition str_meta :: "(string \<Rightarrow> gvalue option) \<Rightarrow> string \<Rightarrow> string" where
  "str_meta m key = (case m key of Some (GString s) \<Rightarrow> s | _ \<Rightarrow> [])"

definition derive :: "gguf_info \<Rightarrow> gguf_info" where
  "derive i =
     (let m = Metadata i; arch = str_meta m ''general.architecture'' in
      i\<lparr>Architecture := arch,
        Name := str_meta m ''general.name'',
        SizeLabel := str_meta m ''general.size_label'',
        License := str_meta m ''general.license'',
        Quantization :=
          (case asUint64 (m ''general.file_type'') of
             Some ft \<Rightarrow> if unat ft \<le> 2 ^ 32 - 1 then fileTypeName (ucast ft) else Quantization i
           | None \<Rightarrow> Quantization i),
        ContextLength :=
          (if arch \<noteq> [] then
             (case asUint64 (m (arch @ ''.context_length'')) of Some cl \<Rightarrow> cl | None \<Rightarrow> ContextLength i)
           else ContextLength i)\<rparr>)"

definition raw_info :: "32 word \<Rightarrow> 64 word \<Rightarrow> (string \<Rightarrow> gvalue option) \<Rightarrow> gguf_info" where
  "raw_info v tc m = \<lparr>Version = v, TensorCount = tc, Architecture = [], Name = [], SizeLabel = [],
     License = [], Quantization = [], ContextLength = 0, Metadata = m\<rparr>"

text \<open>The header and the stream after it, which holds the weights.\<close>

definition read_header :: "string \<Rightarrow> gguf_error + gguf_info \<times> string" where
  "read_header bs =
     bind_res (map_error (InMagic \<circ> Stream) (take_bytes 4 bs)) (\<lambda>(magic, r).
     if magic \<noteq> Magic then Inl (BadMagic magic)
     else bind_res (map_error (InVersion \<circ> Stream) (read_u32 r)) (\<lambda>(version, r).
     if version < 2 \<or> 3 < version then Inl (BadVersion version)
     else bind_res (map_error (InTensorCount \<circ> Stream) (read_u64 r)) (\<lambda>(tensor_count, r).
     bind_res (map_error (InKVCount \<circ> Stream) (read_u64 r)) (\<lambda>(kv_count, r).
     if maxKVCount < unat kv_count then Inl (TooManyKVs kv_count)
     else bind_res (read_kvs 0 (unat kv_count) Map.empty r) (\<lambda>(m, r).
       Inr (derive (raw_info version tensor_count m), r))))))"

definition Read :: "string \<Rightarrow> gguf_error + gguf_info" where
  "Read bs = bind_res (read_header bs) (\<lambda>(i, _). Inr i)"

section \<open>Writing\<close>

datatype tvalue =
    TString string | TUint32 "32 word" | TUint64 "64 word" | TFloat32 "32 word" | TBool bool
  | TStrings "string list"

record gguf_kv =
  kv_Key :: string
  kv_Type :: "32 word"
  kv_Value :: tvalue

definition writeString :: "string \<Rightarrow> string" where
  "writeString s = put_u64 (word_of_nat (length s)) @ s"

fun write_value :: "tvalue \<Rightarrow> string" where
  "write_value (TString s) = writeString s"
| "write_value (TUint32 w) = put_u32 w"
| "write_value (TUint64 w) = put_u64 w"
| "write_value (TFloat32 w) = put_u32 w"
| "write_value (TBool b) = [if b then CHR 0x01 else CHR 0x00]"
| "write_value (TStrings ss) =
     put_u32 typeString @ put_u64 (word_of_nat (length ss)) @ concat (map writeString ss)"

definition write_kv :: "gguf_kv \<Rightarrow> string" where
  "write_kv kv = writeString (kv_Key kv) @ put_u32 (kv_Type kv) @ write_value (kv_Value kv)"

definition build_header :: "32 word \<Rightarrow> 64 word \<Rightarrow> gguf_kv list \<Rightarrow> string" where
  "build_header version tensor_count kvs =
     ''GGUF'' @ put_u32 version @ put_u64 tensor_count @ put_u64 (word_of_nat (length kvs)) @
     concat (map write_kv kvs)"

definition Build :: "32 word \<Rightarrow> 64 word \<Rightarrow> gguf_kv list \<Rightarrow> string \<Rightarrow> string" where
  "Build version tensor_count kvs payload = build_header version tensor_count kvs @ payload"

definition TinyModel :: "string \<Rightarrow> string \<Rightarrow> string \<Rightarrow> 32 word \<Rightarrow> 32 word \<Rightarrow> string \<Rightarrow> string" where
  "TinyModel arch name size_label ctx_len file_type payload =
     Build 3 4
       [\<lparr>kv_Key = ''general.architecture'', kv_Type = typeString, kv_Value = TString arch\<rparr>,
        \<lparr>kv_Key = ''general.name'', kv_Type = typeString, kv_Value = TString name\<rparr>,
        \<lparr>kv_Key = ''general.size_label'', kv_Type = typeString, kv_Value = TString size_label\<rparr>,
        \<lparr>kv_Key = ''general.license'', kv_Type = typeString, kv_Value = TString ''Apache-2.0''\<rparr>,
        \<lparr>kv_Key = ''general.file_type'', kv_Type = typeUint32, kv_Value = TUint32 file_type\<rparr>,
        \<lparr>kv_Key = arch @ ''.context_length'', kv_Type = typeUint32, kv_Value = TUint32 ctx_len\<rparr>,
        \<lparr>kv_Key = arch @ ''.block_count'', kv_Type = typeUint32, kv_Value = TUint32 2\<rparr>,
        \<lparr>kv_Key = ''tokenizer.ggml.tokens'', kv_Type = typeArray,
         kv_Value = TStrings [''<s>'', ''</s>'', ''a'', ''b'']\<rparr>] payload"

end
