(* ===== verification/GgufFormat.thy ===== *)
theory GgufFormat
  imports Gguf
begin

text \<open>
  What the GGUF reader promises: it reads back what the writer writes, refuses every front part of
  a header, keeps its bounds and never looks at the weights.
\<close>

section \<open>The readers\<close>

lemma reader_string: "reader (readString limit)" and reader_skip: "reader (skipString limit)"
  unfolding readString_def [abs_def] skipString_def [abs_def] by (intro reader_intros reader_words)+

lemma reader_skips: "reader (skip_strings n)"
proof (induction n)
  case 0
  show ?case by (simp add: reader_return)
next
  case (Suc n)
  show ?case
    unfolding skip_strings.simps by (intro reader_intros reader_skip Suc)
qed

lemma reader_array: "reader skipArray"
  unfolding skipArray_def [abs_def] by (intro reader_intros reader_words reader_skips)

lemma reader_scalar: "reader (readScalar vt n)"
  unfolding readScalar_def [abs_def] by (intro reader_intros)

lemma reader_value: "reader (readValue vt)"
  unfolding readValue_def [abs_def]
  by (intro reader_intros reader_scalar reader_string reader_array)

lemma reader_kvs: "reader (read_kvs i n m)"
proof (induction n arbitrary: i m)
  case 0
  show ?case by (simp add: reader_return)
next
  case (Suc n)
  show ?case
    unfolding read_kvs.simps by (intro reader_intros reader_words reader_string reader_value Suc)
qed

lemma reader_header: "reader read_header"
  unfolding read_header_def [abs_def] by (intro reader_intros reader_words reader_kvs)

interpretation header: reader read_header
  by (rule reader_header)

section \<open>Writing and reading back\<close>

text \<open>The value a written one is read as; arrays are skipped.\<close>

fun parsed :: "tvalue \<Rightarrow> gvalue option" where
  "parsed (TString s) = Some (GString s)"
| "parsed (TUint32 w) = Some (GUint (ucast w))"
| "parsed (TUint64 w) = Some (GUint w)"
| "parsed (TFloat32 w) = Some (GFloat (widen_float w))"
| "parsed (TBool b) = Some (GBool b)"
| "parsed (TStrings ss) = None"

fun type_of :: "tvalue \<Rightarrow> 32 word" where
  "type_of (TString s) = typeString"
| "type_of (TUint32 w) = typeUint32"
| "type_of (TUint64 w) = typeUint64"
| "type_of (TFloat32 w) = typeFloat32"
| "type_of (TBool b) = typeBool"
| "type_of (TStrings ss) = typeArray"

fun fits :: "tvalue \<Rightarrow> bool" where
  "fits (TString s) \<longleftrightarrow> length s \<le> maxStringLen"
| "fits (TStrings ss) \<longleftrightarrow> length ss \<le> maxArrayLen \<and> (\<forall>s \<in> set ss. length s \<le> maxStringLen)"
| "fits _ \<longleftrightarrow> True"

definition well_typed :: "gguf_kv \<Rightarrow> bool" where
  "well_typed kv \<longleftrightarrow>
     length (kv_Key kv) \<le> maxKeyLen \<and> kv_Type kv = type_of (kv_Value kv) \<and> fits (kv_Value kv)"

definition metadata_of :: "gguf_kv list \<Rightarrow> string \<Rightarrow> gvalue option" where
  "metadata_of kvs = foldl (\<lambda>m kv. store_value (kv_Key kv) (parsed (kv_Value kv)) m) Map.empty kvs"

lemma codec_string:
  assumes "limit < 2 ^ 64"
  shows "codec (readString limit) writeString (\<lambda>s. length s \<le> limit)"
proof (intro codec.intro reader_string codec_axioms.intro)
  fix x r :: string assume "length x \<le> limit"
  with assms have "unat (word_of_nat (length x) :: 64 word) = length x"
    by (simp add: unat_u64)
  with \<open>length x \<le> limit\<close> show "readString limit (writeString x @ r) = Inr (x, r)"
    by (simp add: readString_def writeString_def u64.reads map_error_def)
qed

interpretation key: codec "readString maxKeyLen" writeString "\<lambda>s. length s \<le> maxKeyLen"
  by (rule codec_string) (simp add: maxKeyLen_def)

interpretation str: codec "readString maxStringLen" writeString "\<lambda>s. length s \<le> maxStringLen"
  by (rule codec_string) (simp add: maxStringLen_def)

lemma skip_reads: "readString n s = Inr (x, r) \<Longrightarrow> skipString n s = Inr ((), r)"
  by (auto simp: readString_def skipString_def split: if_splits)

lemma skip_strings_reads:
  "\<forall>s \<in> set ss. length s \<le> maxStringLen \<Longrightarrow>
     skip_strings (length ss) (concat (map writeString ss) @ r) = Inr ((), r)"
  by (induction ss) (simp_all add: skip_reads [OF str.reads])

lemma byte_word: "of_char (if b then CHR 0x01 else CHR 0x00) = (of_bool b :: nat)"
  by (simp add: of_char_def)

lemmas limits = maxKVCount_def maxKeyLen_def maxStringLen_def maxArrayLen_def

lemma value_reads:
  assumes "fits v"
  shows "readValue (type_of v) (write_value v @ r) = Inr (parsed v, r)"
proof (cases v)
  case (TString s)
  with assms show ?thesis by (simp add: readValue_def scalarSize_def str.reads)
next
  case (TStrings ss)
  have "maxArrayLen < 2 ^ 64" by (simp add: maxArrayLen_def)
  with assms TStrings have "unat (word_of_nat (length ss) :: 64 word) = length ss"
    by (simp add: unat_u64)
  with assms TStrings show ?thesis
    by (simp add: readValue_def scalarSize_def skipArray_def u32.reads u64.reads skip_strings_reads
        map_error_def)
next
  case (TBool b)
  then show ?thesis
    by (simp add: readValue_def scalarSize_def readScalar_def map_error_def take_bytes_def
        le_word_def byte_word)
qed (simp_all add: readValue_def scalarSize_def readScalar_def map_error_def put_u32_def put_u64_def
      le_word_bytes)

lemma kvs_read:
  "\<forall>kv \<in> set kvs. well_typed kv \<Longrightarrow>
     read_kvs i (length kvs) m (concat (map write_kv kvs) @ r) =
       Inr (foldl (\<lambda>m kv. store_value (kv_Key kv) (parsed (kv_Value kv)) m) m kvs, r)"
proof (induction kvs arbitrary: i m)
  case Nil
  show ?case by simp
next
  case (Cons kv kvs)
  then show ?case
    by (simp add: well_typed_def write_kv_def key.reads u32.reads value_reads map_error_def)
qed

definition buildable :: "32 word \<Rightarrow> gguf_kv list \<Rightarrow> bool" where
  "buildable version kvs \<longleftrightarrow>
     version \<in> {2, 3} \<and> length kvs \<le> maxKVCount \<and> list_all well_typed kvs"

lemma header_reads:
  assumes "buildable version kvs"
  shows "read_header (build_header version tc kvs @ r) =
    Inr (derive (raw_info version tc (metadata_of kvs)), r)"
proof -
  have "maxKVCount < 2 ^ 64" by (simp add: maxKVCount_def)
  with assms have "unat (word_of_nat (length kvs) :: 64 word) = length kvs"
    by (simp add: unat_u64 buildable_def)
  moreover have "\<not> (version < 2 \<or> 3 < version)" using assms by (auto simp: buildable_def)
  moreover have "take_bytes 4 (CHR ''G'' # CHR ''G'' # CHR ''U'' # CHR ''F'' # t) = Inr (''GGUF'', t)" for t
    by (simp add: take_bytes_def)
  ultimately show ?thesis using assms
    by (simp add: build_header_def read_header_def Magic_def u32.reads u64.reads map_error_def
        kvs_read buildable_def list_all_iff metadata_of_def)
qed

section \<open>Properties\<close>

text \<open>
  C32. Writing and reading back: what \<open>Build\<close> writes for a version the reader knows, at most
  65536 well-typed entries within the limits and any weights, \<open>Read\<close> accepts, and it gives the
  version, the tensor count and exactly the written metadata, later keys replacing earlier ones and
  arrays left out, with the typed fields derived from it.
\<close>

theorem Read_Build:
  assumes "buildable version kvs"
  shows "Read (Build version tc kvs payload) = Inr (derive (raw_info version tc (metadata_of kvs)))"
  using header_reads [OF assms] by (simp add: Read_def Build_def)

definition sample_kvs :: "gguf_kv list" where
  "sample_kvs =
     [\<lparr>kv_Key = ''general.architecture'', kv_Type = typeString, kv_Value = TString ''a''\<rparr>,
      \<lparr>kv_Key = ''t'', kv_Type = typeArray, kv_Value = TStrings [''b'', '''']\<rparr>,
      \<lparr>kv_Key = ''general.file_type'', kv_Type = typeUint32, kv_Value = TUint32 7\<rparr>,
      \<lparr>kv_Key = ''a.context_length'', kv_Type = typeUint64, kv_Value = TUint64 4096\<rparr>]"

lemma sample_buildable: "buildable 3 sample_kvs"
  by (simp add: sample_kvs_def buildable_def well_typed_def limits)

lemma Read_Build_witness:
  "\<exists>i. Read (Build 3 9 sample_kvs ''weights'') = Inr i \<and> Architecture i = ''a'' \<and>
     Quantization i = ''Q8_0'' \<and> ContextLength i = 4096"
  unfolding Read_Build [OF sample_buildable]
  by (simp add: derive_def raw_info_def metadata_of_def sample_kvs_def store_value_def str_meta_def
      asUint64_def fileTypeName_def fileTypeNames_def Let_def)

text \<open>
  A cut header is refused: no proper front part of the header of a file the writer builds is
  accepted, wherever the cut falls.
\<close>

theorem cut_header_refused:
  assumes "buildable version kvs" and "build_header version tc kvs = p @ t" and "t \<noteq> []"
  shows "\<exists>e. Read p = Inl e"
proof -
  from header_reads [OF assms(1), of tc "[]"] assms(2)
  have "read_header (p @ t) = Inr (derive (raw_info version tc (metadata_of kvs)), [])" by simp
  from header.truncated [OF this assms(3)] show ?thesis by (auto simp: Read_def)
qed

lemma cut_header_refused_witness: "\<exists>e. Read (butlast (build_header 3 9 sample_kvs)) = Inl e"
proof -
  have "build_header 3 9 sample_kvs \<noteq> []" by (simp add: build_header_def)
  from cut_header_refused [OF sample_buildable _ _, of 9 "butlast (build_header 3 9 sample_kvs)"
      "[last (build_header 3 9 sample_kvs)]"] this
  show ?thesis by simp
qed

text \<open>What a run of entries adds to the metadata.\<close>

definition kept_within :: "nat \<Rightarrow> (string \<Rightarrow> gvalue option) \<Rightarrow> bool" where
  "kept_within n m \<longleftrightarrow> finite (dom m) \<and> card (dom m) \<le> n \<and> (\<forall>k \<in> dom m. length k \<le> maxKeyLen) \<and>
     (\<forall>k s. m k = Some (GString s) \<longrightarrow> length s \<le> maxStringLen)"

lemma readString_short: "readString limit bs = Inr (s, r) \<Longrightarrow> length s \<le> limit"
  by (auto simp: readString_def take_bytes_Inr split: if_splits)

lemma readValue_short: "readValue vt bs = Inr (Some (GString s), r) \<Longrightarrow> length s \<le> maxStringLen"
  by (auto simp: readValue_def readScalar_def dest: readString_short split: option.splits if_splits)

lemma kept_store:
  assumes "kept_within n m" and "length k \<le> maxKeyLen"
    and "\<And>s. v = Some (GString s) \<Longrightarrow> length s \<le> maxStringLen"
  shows "kept_within (Suc n) (store_value k v m)"
proof (cases v)
  case None
  with assms(1) show ?thesis by (auto simp: store_value_def kept_within_def)
next
  case (Some x)
  from assms(1) have "card (insert k (dom m)) \<le> Suc n"
    using card_insert_le_m1 [of "Suc n" "dom m" k] by (simp add: kept_within_def)
  with assms Some show ?thesis by (auto simp: store_value_def kept_within_def)
qed

lemma kvs_kept:
  "read_kvs i n m bs = Inr (m', r) \<Longrightarrow> kept_within j m \<Longrightarrow> kept_within (j + n) m'"
proof (induction n arbitrary: i m bs j)
  case 0
  then show ?case by simp
next
  case (Suc n)
  from Suc.prems(1) obtain key r1 vt r2 v r3 where
    key: "readString maxKeyLen bs = Inr (key, r1)" and vt: "read_u32 r1 = Inr (vt, r2)" and
    v: "readValue vt r2 = Inr (v, r3)" and
    rest: "read_kvs (Suc i) n (store_value key v m) r3 = Inr (m', r)"
    by clarsimp
  have "kept_within (Suc j) (store_value key v m)"
  proof (rule kept_store [OF Suc.prems(2) readString_short [OF key]])
    fix s assume "v = Some (GString s)"
    with v show "length s \<le> maxStringLen" by (simp add: readValue_short)
  qed
  from Suc.IH [OF rest this] show ?case by simp
qed

lemma derive_keeps [simp]:
  "Metadata (derive i) = Metadata i" "Version (derive i) = Version i"
  "TensorCount (derive i) = TensorCount i"
  by (simp_all add: derive_def Let_def)

text \<open>
  Bounds of the reader on a hostile file: an accepted header has a known version, at most 65536
  metadata entries, keys of at most 64 KiB and strings of at most 64 MiB; and the answer does not
  depend on what follows the header, so no weight is ever looked at.
\<close>

theorem Read_bounded:
  assumes "Read bs = Inr info"
  shows "Version info \<in> {2, 3} \<and> kept_within maxKVCount (Metadata info) \<and> Read (bs @ weights) = Inr info"
proof (intro conjI)
  from assms obtain r where h: "read_header bs = Inr (info, r)" by (auto simp: Read_def)
  then obtain v tc n m r' where v: "2 \<le> v" "v \<le> 3" and n: "unat (n :: 64 word) \<le> maxKVCount"
    and m: "read_kvs 0 (unat n) Map.empty r' = Inr (m, r)" and i: "info = derive (raw_info v tc m)"
    by (auto simp: read_header_def not_less split: if_splits)
  from v have "2 \<le> unat v" "unat v \<le> 3" unfolding word_le_nat_alt by simp_all
  then have "unat v = unat (2 :: 32 word) \<or> unat v = unat (3 :: 32 word)" by auto
  then have "v = 2 \<or> v = 3" by (simp only: word_unat_eq_iff)
  with i show "Version info \<in> {2, 3}" by (auto simp: raw_info_def)
  have "kept_within (0 + unat n) m" by (rule kvs_kept [OF m]) (simp add: kept_within_def)
  with n i show "kept_within maxKVCount (Metadata info)"
    by (auto simp: kept_within_def raw_info_def)
  from header.extends [OF h] show "Read (bs @ weights) = Inr info" by (simp add: Read_def)
qed

lemma Read_bounded_witness:
  "Read (Build 3 9 sample_kvs [] @ ''weights'') = Inr (derive (raw_info 3 9 (metadata_of sample_kvs)))"
  by (rule Read_bounded [THEN conjunct2, THEN conjunct2]) (simp add: Read_def Build_def header_reads [OF sample_buildable, of 9 "[]", simplified])

text \<open>
  A quantization label names one file type: no two values of \<^verbatim>\<open>general.file_type\<close>, known or
  not, get the same label.
\<close>

theorem fileTypeName_injective: "fileTypeName ft = fileTypeName ft' \<longleftrightarrow> ft = ft'"
proof -
  have names: "distinct (map snd fileTypeNames)"
    and types: "distinct (map fst fileTypeNames)"
    and no_FT: "list_all (\<lambda>(_, n). take 3 n \<noteq> ''FT_'') fileTypeNames"
    by (simp_all add: fileTypeNames_def)
  have inj: "a = b" if "map_of fileTypeNames a = Some n" "map_of fileTypeNames b = Some n" for a b n
    using names types map_of_SomeD [OF that(1)] map_of_SomeD [OF that(2)]
    by (metis distinct_map inj_on_def prod.inject snd_conv)
  have other: "n \<noteq> ''FT_'' @ t" if "map_of fileTypeNames a = Some n" for a n t
    using no_FT map_of_SomeD [OF that] by (auto simp: list_all_iff)
  show ?thesis
    by (cases "map_of fileTypeNames ft"; cases "map_of fileTypeNames ft'")
       (auto simp: fileTypeName_def itoa_nat_inj word_unat_eq_iff [symmetric] dest: inj other [THEN notE] other [THEN not_sym [THEN notE]])
qed

end
