(* ===== verification/Digests.thy ===== *)
theory Digests
  imports Oci Sha256 Encoding
begin

text \<open>
  The digest library (\<^verbatim>\<open>opencontainers/go-digest\<close>) as a parameter: one function for each
  operation the sources call. \<open>sha256_digests\<close> is an instance, for SHA-256 in the form the OCI
  specification gives it, on which the witnesses run.
\<close>

record digest_lib =
  Algorithm :: "string \<Rightarrow> string"
  Encoded :: "string \<Rightarrow> string"
  FromBytes :: "string \<Rightarrow> string"
  Validate_ok :: "string \<Rightarrow> bool"
  Verified :: "string \<Rightarrow> string \<Rightarrow> bool"

definition sha256_digest :: "string \<Rightarrow> string" where
  "sha256_digest bs = ''sha256:'' @ hex_encode (sha256 bs)"

definition sha256_digests :: digest_lib where
  "sha256_digests = \<lparr>
     Algorithm = takeWhile (\<lambda>c. c \<noteq> CHR '':''),
     Encoded = (\<lambda>d. drop 1 (dropWhile (\<lambda>c. c \<noteq> CHR '':'') d)),
     FromBytes = sha256_digest,
     Validate_ok = (\<lambda>d. \<exists>h. d = ''sha256:'' @ h \<and> length h = 64 \<and> hex_decode h \<noteq> None),
     Verified = (\<lambda>d bs. sha256_digest bs = d)\<rparr>"

lemma length_hex [simp]: "length (hex_encode s) = 2 * length s"
  by (induction s) auto

lemma sha256_digests_simps [simp]:
  "Algorithm sha256_digests (sha256_digest bs) = ''sha256''"
  "FromBytes sha256_digests bs = sha256_digest bs"
  "Verified sha256_digests d bs \<longleftrightarrow> sha256_digest bs = d"
  "Validate_ok sha256_digests (sha256_digest bs)"
  by (simp_all add: sha256_digests_def sha256_digest_def)

text \<open>SHA-256 digests are equal only for equal bytes, or SHA-256 collides.\<close>

lemma sha256_digest_eq: "sha256_digest a = sha256_digest b \<Longrightarrow> a = b \<or> collision sha256"
  by (auto simp: sha256_digest_def hex_injective dest: digest_eq)

end
