(* ===== verification/Download.thy ===== *)
theory Download
  imports Digests
begin

text \<open>
  \<^verbatim>\<open>internal/transfer/download.go\<close>: one blob fetched into the store, with resume. The server and
  the content library are parameters: \<open>serve\<close> answers a GET of the blob from an offset (0 for
  no Range header) in a state of its own, \<open>push\<close> is the library's verified write. What the local
  file system may refuse during an attempt is a record of faults. A hash in progress is the bytes
  written to it so far.
\<close>

section \<open>The world of a download\<close>

record response =
  status :: nat
  body :: string
  breaks :: bool

datatype push_error = AlreadyExists | PushFailed

record ('s, 'r) world =
  ingest :: "string \<Rightarrow> string option"
  blobs :: 's
  server :: 'r

record faults =
  open_fails :: bool
  read_fails :: bool
  remove_fails :: bool
  new_request_fails :: bool
  create_fails :: bool
  write_stops :: "nat option"
  file_close_fails :: bool
  stat_fails :: bool
  body_close_fails :: bool
  reopen_fails :: bool

datatype dl_error =
    OpenErr | NewRequestErr | GetErr | BadStatus nat | RangeRejected nat | CreateErr | StreamErr
  | StatErr | WrongSize nat int | DigestMismatch string | PushErr | RemoveErr | BodyCloseErr
  | Cancelled | FetchErr | Attempts dl_error

type_synonym 'r serve = "'r \<Rightarrow> nat \<Rightarrow> (unit + response) \<times> 'r"
type_synonym 's push = "'s \<Rightarrow> node \<Rightarrow> string \<Rightarrow> (push_error + unit) \<times> 's"

definition no_faults :: faults where
  "no_faults = \<lparr>open_fails = False, read_fails = False, remove_fails = False,
     new_request_fails = False, create_fails = False, write_stops = None, file_close_fails = False,
     stat_fails = False, body_close_fails = False, reopen_fails = False\<rparr>"

section \<open>The partial file\<close>

definition remove_file ::
    "faults \<Rightarrow> string \<Rightarrow> (string \<Rightarrow> string option) \<Rightarrow> string \<Rightarrow> string option" where
  "remove_file f p m = (if remove_fails f then m else m(p := None))"

definition RehashPartial :: "faults \<Rightarrow> string \<Rightarrow> int \<Rightarrow> (string \<Rightarrow> string option) \<Rightarrow>
    (dl_error + nat \<times> string) \<times> (string \<Rightarrow> string option)" where
  "RehashPartial f p expected m =
     (if open_fails f then (Inl OpenErr, m)
      else case m p of
        None \<Rightarrow> (Inr (0, []), m)
      | Some b \<Rightarrow>
          if read_fails f \<or> expected < int (length b) then (Inr (0, []), remove_file f p m)
          else (Inr (length b, b), m))"

definition installPartial :: "digest_lib \<Rightarrow> 's push \<Rightarrow> faults \<Rightarrow> string \<Rightarrow> node \<Rightarrow> string \<Rightarrow> ('s, 'r) world \<Rightarrow>
    (dl_error + unit) \<times> ('s, 'r) world" where
  "installPartial L push f p d hashed w =
     (if FromBytes L hashed \<noteq> Digest d
      then (Inl (DigestMismatch (FromBytes L hashed)), w\<lparr>ingest := remove_file f p (ingest w)\<rparr>)
      else if reopen_fails f then (Inl OpenErr, w)
      else case ingest w p of
        None \<Rightarrow> (Inl OpenErr, w)
      | Some b \<Rightarrow>
          (case push (blobs w) d b of (r, s) \<Rightarrow>
             if r = Inl PushFailed then (Inl PushErr, w\<lparr>blobs := s\<rparr>)
             else ((if remove_fails f then Inl RemoveErr else Inr ()),
                   w\<lparr>blobs := s, ingest := remove_file f p (ingest w)\<rparr>)))"

section \<open>One attempt\<close>

text \<open>
  The body goes to the file and to the hash. Writing may stop early (a full disk) and so may the
  body; in both cases the bytes that arrived stay in the partial file.
\<close>

definition stream :: "digest_lib \<Rightarrow> 's push \<Rightarrow> faults \<Rightarrow> string \<Rightarrow> node \<Rightarrow> bool \<Rightarrow> string \<Rightarrow> response \<Rightarrow>
    ('s, 'r) world \<Rightarrow> (dl_error + unit) \<times> ('s, 'r) world" where
  "stream L push f p d append_mode hashed resp w =
     (if create_fails f then (Inl CreateErr, w)
      else let old = (if append_mode then (case ingest w p of Some b \<Rightarrow> b | None \<Rightarrow> []) else []);
               got = (case write_stops f of Some n \<Rightarrow> take n (body resp) | None \<Rightarrow> body resp);
               w' = w\<lparr>ingest := (ingest w)(p \<mapsto> old @ got)\<rparr>
      in if length got < length (body resp) \<or> breaks resp \<or> file_close_fails f then (Inl StreamErr, w')
         else if stat_fails f then (Inl StatErr, w')
         else let n = length (old @ got) in
           if int n \<noteq> Size d
           then (Inl (WrongSize n (Size d)),
                 if Size d < int n then w'\<lparr>ingest := remove_file f p (ingest w')\<rparr> else w')
           else installPartial L push f p d (hashed @ got) w')"

definition receive :: "digest_lib \<Rightarrow> 's push \<Rightarrow> faults \<Rightarrow> string \<Rightarrow> node \<Rightarrow> nat \<Rightarrow> string \<Rightarrow> response \<Rightarrow>
    ('s, 'r) world \<Rightarrow> (dl_error + unit) \<times> ('s, 'r) world" where
  "receive L push f p d offset hashed resp w =
     (if status resp = 200 then stream L push f p d False [] resp w
      else if status resp = 206 then stream L push f p d True hashed resp w
      else if status resp = 416
      then (Inl (RangeRejected offset), w\<lparr>ingest := remove_file f p (ingest w)\<rparr>)
      else (Inl (BadStatus (status resp)), w))"

definition close_body ::
    "faults \<Rightarrow> (dl_error + unit) \<times> ('s, 'r) world \<Rightarrow> (dl_error + unit) \<times> ('s, 'r) world" where
  "close_body f rw =
     (case rw of (r, w) \<Rightarrow> (if body_close_fails f \<and> r = Inr () then Inl BodyCloseErr else r, w))"

definition tryDownload :: "digest_lib \<Rightarrow> 'r serve \<Rightarrow> 's push \<Rightarrow> faults \<Rightarrow> string \<Rightarrow> node \<Rightarrow> ('s, 'r) world \<Rightarrow>
    (dl_error + unit) \<times> ('s, 'r) world" where
  "tryDownload L serve push f p d w0 =
     (case RehashPartial f p (Size d) (ingest w0) of (r, m) \<Rightarrow>
        let w = w0\<lparr>ingest := m\<rparr> in
        case r of
          Inl e \<Rightarrow> (Inl e, w)
        | Inr (offset, hashed) \<Rightarrow>
            if int offset = Size d then installPartial L push f p d hashed w
            else if new_request_fails f then (Inl NewRequestErr, w)
            else (case serve (server w) offset of
                (Inl _, s) \<Rightarrow> (Inl GetErr, w\<lparr>server := s\<rparr>)
              | (Inr resp, s) \<Rightarrow>
                  close_body f (receive L push f p d offset hashed resp (w\<lparr>server := s\<rparr>))))"

section \<open>The attempts\<close>

definition downloadAttempts :: nat where "downloadAttempts = 3"

text \<open>
  What happens around the attempts: the faults of each, and whether the context is found ended
  after it or while waiting.
\<close>

record conditions =
  faults_at :: "nat \<Rightarrow> faults"
  ended_after :: "nat \<Rightarrow> bool"
  ended_waiting :: "nat \<Rightarrow> bool"

fun attempts :: "digest_lib \<Rightarrow> 'r serve \<Rightarrow> 's push \<Rightarrow> conditions \<Rightarrow> string \<Rightarrow> node \<Rightarrow> dl_error \<Rightarrow> nat \<Rightarrow> nat \<Rightarrow>
    ('s, 'r) world \<Rightarrow> (dl_error + unit) \<times> ('s, 'r) world" where
  "attempts L serve push c p d last_err i 0 w = (Inl (Attempts last_err), w)"
| "attempts L serve push c p d last_err i (Suc k) w =
     (case tryDownload L serve push (faults_at c i) p d w of
        (Inr _, w') \<Rightarrow> (Inr (), w')
      | (Inl e, w') \<Rightarrow>
          if ended_after c i then (Inl e, w')
          else if ended_waiting c i then (Inl Cancelled, w')
          else attempts L serve push c p d e (Suc i) k w')"

definition fetchWholeBlob :: "(node \<Rightarrow> string option) \<Rightarrow> 's push \<Rightarrow> node \<Rightarrow> ('s, 'r) world \<Rightarrow>
    (dl_error + unit) \<times> ('s, 'r) world" where
  "fetchWholeBlob fetch push d w =
     (case fetch d of
        None \<Rightarrow> (Inl FetchErr, w)
      | Some b \<Rightarrow>
          (case push (blobs w) d b of (r, s) \<Rightarrow>
             (if r = Inl PushFailed then Inl PushErr else Inr (), w\<lparr>blobs := s\<rparr>)))"

definition partial_path :: "digest_lib \<Rightarrow> string \<Rightarrow> node \<Rightarrow> string" where
  "partial_path L ingest_dir d =
     ingest_dir @ ''/'' @ Algorithm L (Digest d) @ ''-'' @ Encoded L (Digest d)"

definition downloadBlob :: "digest_lib \<Rightarrow> 'r serve \<Rightarrow> (node \<Rightarrow> string option) \<Rightarrow> 's push \<Rightarrow> conditions \<Rightarrow> string \<Rightarrow>
    node \<Rightarrow> ('s, 'r) world \<Rightarrow> (dl_error + unit) \<times> ('s, 'r) world" where
  "downloadBlob L serve fetch push c ingest_dir d w =
     (if Algorithm L (Digest d) \<noteq> ''sha256'' then fetchWholeBlob fetch push d w
      else attempts L serve push c (partial_path L ingest_dir d) d Cancelled 0 downloadAttempts w)"

end
