(* ===== verification/DownloadSafety.thy ===== *)
theory DownloadSafety
  imports Download
begin

text \<open>
  What a download promises: it installs only bytes of the recorded digest and size, and from a
  server that answers truthfully it resumes and succeeds.
\<close>

section \<open>The hash covers the file\<close>

text \<open>A hash in progress agrees with the partial file when both hold the same bytes.\<close>

definition in_step :: "string \<Rightarrow> string \<Rightarrow> (string \<Rightarrow> string option) \<Rightarrow> bool" where
  "in_step p hashed m \<longleftrightarrow> m p = Some hashed \<or> m p = None \<and> hashed = []"

lemma rehash_in_step:
  assumes "RehashPartial f p sz m = (Inr (n, h), m')" and "\<not> remove_fails f"
  shows "in_step p h m' \<and> n = length h"
  using assms by (auto simp: RehashPartial_def in_step_def remove_file_def split: if_splits option.splits)

text \<open>What a successful installation hands to the store.\<close>

definition installed :: "digest_lib \<Rightarrow> 's push \<Rightarrow> string \<Rightarrow> node \<Rightarrow> ('s, 'r) world \<Rightarrow> bool" where
  "installed L push p d w \<longleftrightarrow>
     (\<exists>c s r. int (length c) = Size d \<and> FromBytes L c = Digest d \<and> push s d c = (r, blobs w) \<and>
        r \<noteq> Inl PushFailed) \<and> ingest w p = None"

lemma install_installed:
  assumes "installPartial L push f p d h w = (Inr u, w')" and "in_step p h (ingest w)"
    and "int (length h) = Size d" and "\<not> remove_fails f"
  shows "installed L push p d w'"
  using assms
  by (auto simp: installPartial_def installed_def remove_file_def in_step_def
      split: if_splits prod.splits option.splits) blast+

lemma stream_installed:
  assumes "stream L push f p d app h resp w = (Inr u, w')" and "\<not> remove_fails f"
    and "app \<Longrightarrow> in_step p h (ingest w)" and "\<not> app \<Longrightarrow> h = []"
  shows "installed L push p d w'"
proof -
  define old where "old = (if app then (case ingest w p of Some b \<Rightarrow> b | None \<Rightarrow> []) else [])"
  define got where "got = (case write_stops f of Some n \<Rightarrow> take n (body resp) | None \<Rightarrow> body resp)"
  have old: "old = h" using assms(3,4) by (auto simp: old_def in_step_def)
  from assms(1) have "int (length (h @ got)) = Size d \<and>
      installPartial L push f p d (h @ got) (w\<lparr>ingest := (ingest w)(p \<mapsto> h @ got)\<rparr>) = (Inr u, w')"
    unfolding stream_def Let_def old_def [symmetric] got_def [symmetric] old
    by (auto split: if_splits)
  with assms(2) show ?thesis by (auto intro: install_installed simp: in_step_def)
qed

lemma receive_installed:
  assumes "receive L push f p d off h resp w = (Inr u, w')" and "\<not> remove_fails f"
    and "in_step p h (ingest w)"
  shows "installed L push p d w'"
  using assms by (auto simp: receive_def split: if_splits intro: stream_installed)

lemma tryDownload_installed:
  assumes "tryDownload L serve push f p d w = (Inr u, w')" and "\<not> remove_fails f"
  shows "installed L push p d w'"
proof -
  from assms(1) obtain n h m where r: "RehashPartial f p (Size d) (ingest w) = (Inr (n, h), m)"
    and rest: "int n = Size d \<and> installPartial L push f p d h (w\<lparr>ingest := m\<rparr>) = (Inr u, w') \<or>
      (\<exists>resp s. receive L push f p d n h resp (w\<lparr>ingest := m, server := s\<rparr>) = (Inr u, w'))"
    by (auto simp: tryDownload_def close_body_def Let_def split: prod.splits sum.splits if_splits)
  from rehash_in_step [OF r assms(2)] have h: "in_step p h m" and n: "n = length h" by auto
  from rest show ?thesis
  proof (elim disjE exE conjE)
    assume i: "installPartial L push f p d h (w\<lparr>ingest := m\<rparr>) = (Inr u, w')" and "int n = Size d"
    with h n assms(2) show ?thesis by (auto intro: install_installed)
  next
    fix resp s
    assume "receive L push f p d n h resp (w\<lparr>ingest := m, server := s\<rparr>) = (Inr u, w')"
    with h assms(2) show ?thesis by (auto intro: receive_installed)
  qed
qed

lemma attempts_installed:
  assumes "attempts L serve push c p d e i k w = (Inr u, w')"
    and "\<And>i. \<not> remove_fails (faults_at c i)"
  shows "installed L push p d w'"
  using assms(1)
proof (induction k arbitrary: e i w)
  case 0
  then show ?case by simp
next
  case (Suc k)
  obtain r w1 where t: "tryDownload L serve push (faults_at c i) p d w = (r, w1)" by fastforce
  show ?case
  proof (cases r)
    case (Inl e')
    with t Suc.prems have "attempts L serve push c p d e' (Suc i) k w1 = (Inr u, w')"
      by (auto split: if_splits)
    then show ?thesis by (rule Suc.IH)
  next
    case (Inr v)
    with t Suc.prems have "tryDownload L serve push (faults_at c i) p d w = (Inr v, w')" by simp
    from tryDownload_installed [OF this assms(2)] show ?thesis .
  qed
qed

section \<open>Resuming from a truthful server\<close>

text \<open>
  An answer that tells the truth about a blob: the whole of it or the part after the offset, the
  body a front part of that, and all of it unless the connection is seen to break.
\<close>

definition truthful :: "string \<Rightarrow> nat \<Rightarrow> response \<Rightarrow> bool" where
  "truthful whole off resp \<longleftrightarrow>
     (let part = (if status resp = 206 then drop off whole else whole) in
      status resp \<in> {200, 206} \<and> prefix (body resp) part \<and> (breaks resp \<or> body resp = part))"

definition resumable :: "string \<Rightarrow> string \<Rightarrow> (string \<Rightarrow> string option) \<Rightarrow> bool" where
  "resumable whole p m \<longleftrightarrow> (\<forall>b. m p = Some b \<longrightarrow> prefix b whole)"

text \<open>A content library that stores these bytes under this descriptor, or has them already.\<close>

definition accepts :: "'s push \<Rightarrow> node \<Rightarrow> string \<Rightarrow> bool" where
  "accepts push d b \<longleftrightarrow> (\<forall>s. fst (push s d b) \<noteq> Inl PushFailed)"

locale blob_server =
  fixes serve :: "'r serve" and whole :: string and good :: "'r \<Rightarrow> bool" and left :: "'r \<Rightarrow> nat"
  assumes answers: "good r \<Longrightarrow> off < length whole \<Longrightarrow> serve r off = (a, r') \<Longrightarrow>
    good r' \<and> (\<exists>resp. a = Inr resp \<and> truthful whole off resp \<and>
      (breaks resp \<longrightarrow> left r' < left r) \<and> left r' \<le> left r)"
begin

text \<open>The state between attempts.\<close>

definition on_course :: "string \<Rightarrow> ('s, 'r) world \<Rightarrow> bool" where
  "on_course p w \<longleftrightarrow> good (server w) \<and> resumable whole p (ingest w)"

definition finished :: "'s push \<Rightarrow> node \<Rightarrow> 's \<Rightarrow> (dl_error + unit) \<times> ('s, 'r) world \<Rightarrow> bool" where
  "finished push d s rw \<longleftrightarrow>
     fst rw = Inr () \<and> blobs (snd rw) = snd (push s d whole)"

lemma install_finishes:
  assumes "ingest w p = Some whole" and "FromBytes L whole = Digest d"
    and "accepts push d whole"
  shows "finished push d (blobs w) (installPartial L push no_faults p d whole w)"
  using assms(1,2) assms(3)
  by (auto simp: accepts_def installPartial_def finished_def no_faults_def split: prod.splits)
     (metis fst_conv)

lemma stream_whole:
  assumes resp: "truthful whole off resp" and off: "off = length h" and m: "in_step p h (ingest w)"
    and h: "prefix h whole"
    and d: "FromBytes L whole = Digest d" "Size d = int (length whole)"
    and push: "accepts push d whole"
  shows "\<not> breaks resp \<Longrightarrow> finished push d (blobs w) (receive L push no_faults p d off h resp w)"
    and "breaks resp \<Longrightarrow> \<exists>e m'. receive L push no_faults p d off h resp w = (Inl e, w\<lparr>ingest := m'\<rparr>) \<and>
      resumable whole p m'"
proof -
  define app where "app \<longleftrightarrow> status resp = 206"
  define h' where "h' = (if app then h else [])"
  have r: "receive L push no_faults p d off h resp w = stream L push no_faults p d app h' resp w"
    using resp by (auto simp: receive_def truthful_def app_def h'_def Let_def)
  have old: "(if app then (case ingest w p of Some b \<Rightarrow> b | None \<Rightarrow> []) else []) = h'"
    using m by (auto simp: h'_def in_step_def)
  have front: "prefix (h' @ body resp) whole" and full: "\<not> breaks resp \<Longrightarrow> h' @ body resp = whole"
    using resp h off by (auto simp: truthful_def h'_def app_def Let_def prefix_def split: if_splits)
  have s: "stream L push no_faults p d app h' resp w =
      (if breaks resp then (Inl StreamErr, w\<lparr>ingest := (ingest w)(p \<mapsto> h' @ body resp)\<rparr>)
       else if int (length (h' @ body resp)) \<noteq> Size d
       then (Inl (WrongSize (length (h' @ body resp)) (Size d)),
             if Size d < int (length (h' @ body resp))
             then w\<lparr>ingest := ((ingest w)(p \<mapsto> h' @ body resp))(p := None)\<rparr>
             else w\<lparr>ingest := (ingest w)(p \<mapsto> h' @ body resp)\<rparr>)
       else installPartial L push no_faults p d (h' @ body resp) (w\<lparr>ingest := (ingest w)(p \<mapsto> h' @ body resp)\<rparr>))"
    unfolding stream_def old Let_def by (simp add: no_faults_def remove_file_def)
  {
    assume "\<not> breaks resp"
    with full s r d(2) have "receive L push no_faults p d off h resp w =
        installPartial L push no_faults p d whole (w\<lparr>ingest := (ingest w)(p \<mapsto> whole)\<rparr>)" by simp
    moreover have "finished push d (blobs (w\<lparr>ingest := (ingest w)(p \<mapsto> whole)\<rparr>))
        (installPartial L push no_faults p d whole (w\<lparr>ingest := (ingest w)(p \<mapsto> whole)\<rparr>))"
      by (rule install_finishes) (simp_all add: d(1) push)
    ultimately show "finished push d (blobs w) (receive L push no_faults p d off h resp w)" by simp
  next
    assume "breaks resp"
    with s r front show "\<exists>e m'. receive L push no_faults p d off h resp w = (Inl e, w\<lparr>ingest := m'\<rparr>) \<and>
        resumable whole p m'" by (auto simp: resumable_def)
  }
qed

lemma rehash_resumable:
  assumes "resumable whole p m" and "sz = int (length whole)"
  shows "\<exists>h. RehashPartial no_faults p sz m = (Inr (length h, h), m) \<and> in_step p h m \<and> prefix h whole"
proof (cases "m p")
  case None
  then show ?thesis by (intro exI [of _ "[]"]) (simp add: RehashPartial_def no_faults_def in_step_def)
next
  case (Some b)
  with assms have "prefix b whole" by (simp add: resumable_def)
  with Some assms(2) prefix_length_le [OF this] show ?thesis
    by (intro exI [of _ b]) (simp add: RehashPartial_def no_faults_def in_step_def)
qed

text \<open>An attempt finishes, or it stays on course and one of the broken answers is used up.\<close>

lemma attempt_progress:
  assumes w: "on_course p w" and d: "FromBytes L whole = Digest d" "Size d = int (length whole)"
    and push: "accepts push d whole" and ne: "whole \<noteq> []"
  shows "finished push d (blobs w) (tryDownload L serve push no_faults p d w) \<or>
    (\<exists>e w'. tryDownload L serve push no_faults p d w = (Inl e, w') \<and> on_course p w' \<and>
       blobs w' = blobs w \<and> left (server w') < left (server w))"
proof -
  from w have m: "resumable whole p (ingest w)" and g: "good (server w)" by (auto simp: on_course_def)
  from rehash_resumable [OF m d(2)] obtain h where
    h: "RehashPartial no_faults p (Size d) (ingest w) = (Inr (length h, h), ingest w)"
       "in_step p h (ingest w)" "prefix h whole" by auto
  show ?thesis
  proof (cases "length h = length whole")
    case True
    with h(3) have "h = whole" by (auto simp: prefix_def)
    with h(1,2) d ne have "tryDownload L serve push no_faults p d w =
        installPartial L push no_faults p d whole w" and "ingest w p = Some whole"
      by (auto simp: tryDownload_def in_step_def)
    with install_finishes [of w p L d push] d(1) push show ?thesis by simp
  next
    case False
    with h(3) have off: "length h < length whole" by (auto dest: prefix_length_le)
    obtain a r' where a: "serve (server w) (length h) = (a, r')" by fastforce
    from answers [OF g off a] obtain resp where g': "good r'" and resp: "a = Inr resp"
      "truthful whole (length h) resp" and left: "breaks resp \<Longrightarrow> left r' < left (server w)" by auto
    define w1 where "w1 = w\<lparr>server := r'\<rparr>"
    have t: "tryDownload L serve push no_faults p d w =
        receive L push no_faults p d (length h) h resp w1"
      using h(1) False d(2) a resp(1)
      by (auto simp: tryDownload_def Let_def no_faults_def close_body_def w1_def split: prod.splits)
    have m1: "in_step p h (ingest w1)" using h(2) by (simp add: w1_def)
    note whole = stream_whole [OF resp(2) refl m1 h(3) d push]
    show ?thesis
    proof (cases "breaks resp")
      case False
      from whole(1) [OF this] show ?thesis unfolding t by (simp add: w1_def)
    next
      case True
      from whole(2) [OF this] obtain e m' where
        "receive L push no_faults p d (length h) h resp w1 = (Inl e, w1\<lparr>ingest := m'\<rparr>)"
        "resumable whole p m'" by blast
      with t g' left [OF True] show ?thesis by (auto simp: on_course_def w1_def)
    qed
  qed
qed

lemma attempts_finish:
  assumes w: "on_course p w" and d: "FromBytes L whole = Digest d" "Size d = int (length whole)"
    and push: "accepts push d whole" and ne: "whole \<noteq> []"
    and c: "\<And>i. faults_at c i = no_faults" "\<And>i. \<not> ended_after c i" "\<And>i. \<not> ended_waiting c i"
    and k: "left (server w) < k"
  shows "finished push d (blobs w) (attempts L serve push c p d e i k w)"
  using w k
proof (induction k arbitrary: e i w)
  case 0
  then show ?case by simp
next
  case (Suc k)
  from attempt_progress [OF Suc.prems(1) d push ne] show ?case
  proof (elim disjE exE conjE)
    assume f: "finished push d (blobs w) (tryDownload L serve push no_faults p d w)"
    then obtain w' where "tryDownload L serve push no_faults p d w = (Inr (), w')"
      by (cases "tryDownload L serve push no_faults p d w") (auto simp: finished_def)
    with f show ?thesis by (simp add: c finished_def)
  next
    fix e' w'
    assume t: "tryDownload L serve push no_faults p d w = (Inl e', w')" and w': "on_course p w'"
      and "blobs w' = blobs w" and "left (server w') < left (server w)"
    with Suc.prems(2) Suc.IH [OF w', of e' "Suc i"] show ?thesis by (simp add: c)
  qed
qed

end

end
