(* ===== verification/Registry.thy ===== *)
theory Registry
  imports DownloadSafety
begin

text \<open>
  \<^verbatim>\<open>internal/registrytest\<close>: the registry the transfer code is tested against, as a state and
  one handler per request. Blobs and manifests are kept per repository; the switches make it
  misbehave on purpose. A handler returns the reply and the next state.
\<close>

section \<open>State\<close>

record registry =
  rg_blobs :: "string \<Rightarrow> string \<Rightarrow> string option"
  rg_manifests :: "string \<Rightarrow> string \<Rightarrow> (string \<times> string) option"
  uploads :: "string \<Rightarrow> string option"
  nextID :: nat
  failBlobReads :: "string \<Rightarrow> nat"
  failAfterBytes :: nat
  corruptBlob :: string
  ignoreRange :: bool
  missingManifestStatus :: nat

record reply = response +
  headers :: "(string \<times> string) list"

datatype http_method = GET | HEAD | POST | PUT | DELETE | OtherMethod

definition reply_of :: "nat \<Rightarrow> string \<Rightarrow> (string \<times> string) list \<Rightarrow> reply" where
  "reply_of st b hs = \<lparr>status = st, body = b, breaks = False, headers = hs\<rparr>"

text \<open>\<^verbatim>\<open>http.Error\<close> ends the message with a newline.\<close>

definition http_error :: "nat \<Rightarrow> string \<Rightarrow> reply" where
  "http_error st msg = reply_of st (msg @ [CHR 0x0A]) []"

definition New :: registry where
  "New = \<lparr>rg_blobs = (\<lambda>_ _. None), rg_manifests = (\<lambda>_ _. None), uploads = Map.empty, nextID = 0,
     failBlobReads = (\<lambda>_. 0), failAfterBytes = 0, corruptBlob = [], ignoreRange = False,
     missingManifestStatus = 0\<rparr>"

definition put_in :: "string \<Rightarrow> string \<Rightarrow> 'a \<Rightarrow> (string \<Rightarrow> string \<Rightarrow> 'a option) \<Rightarrow> string \<Rightarrow> string \<Rightarrow> 'a option" where
  "put_in repo key x m = m(repo := (m repo)(key \<mapsto> x))"

definition PutBlob :: "digest_lib \<Rightarrow> string \<Rightarrow> string \<Rightarrow> registry \<Rightarrow> string \<times> registry" where
  "PutBlob L repo content r =
     (let d = FromBytes L content in (d, r\<lparr>rg_blobs := put_in repo d content (rg_blobs r)\<rparr>))"

definition PutManifest ::
    "digest_lib \<Rightarrow> string \<Rightarrow> string \<Rightarrow> string \<Rightarrow> string \<Rightarrow> registry \<Rightarrow> string \<times> registry" where
  "PutManifest L repo ref media_type data r =
     (let d = FromBytes L data; e = (media_type, data) in
      (d, r\<lparr>rg_manifests := put_in repo d e (put_in repo ref e (rg_manifests r))\<rparr>))"

definition HasBlob :: "string \<Rightarrow> string \<Rightarrow> registry \<Rightarrow> bool" where
  "HasBlob repo d r \<longleftrightarrow> rg_blobs r repo d \<noteq> None"

definition HasManifest :: "string \<Rightarrow> string \<Rightarrow> registry \<Rightarrow> bool" where
  "HasManifest repo ref r \<longleftrightarrow> rg_manifests r repo ref \<noteq> None"

definition SetFailBlobReads :: "string \<Rightarrow> nat \<Rightarrow> nat \<Rightarrow> registry \<Rightarrow> registry" where
  "SetFailBlobReads d n after r =
     r\<lparr>failBlobReads := (failBlobReads r)(d := n), failAfterBytes := after\<rparr>"

definition CopyManifest :: "string \<Rightarrow> string \<Rightarrow> string \<Rightarrow> registry \<Rightarrow> registry" where
  "CopyManifest repo src dst r =
     (case rg_manifests r repo src of
        Some e \<Rightarrow> r\<lparr>rg_manifests := put_in repo dst e (rg_manifests r)\<rparr>
      | None \<Rightarrow> r)"

section \<open>Uploads\<close>

definition handleUploadStart ::
    "digest_lib \<Rightarrow> string \<Rightarrow> string \<Rightarrow> string \<Rightarrow> registry \<Rightarrow> reply \<times> registry" where
  "handleUploadStart L repo mount src r =
     (case (if mount \<noteq> [] \<and> src \<noteq> [] \<and> Validate_ok L mount then rg_blobs r src mount else None) of
        Some content \<Rightarrow>
          (reply_of 201 [] [(''Location'', ''/v2/'' @ repo @ ''/blobs/'' @ mount)],
           r\<lparr>rg_blobs := put_in repo mount content (rg_blobs r)\<rparr>)
      | None \<Rightarrow>
          (let n = Suc (nextID r); id = ''upload-'' @ itoa_nat n in
           (reply_of 202 [] [(''Location'', ''/v2/'' @ repo @ ''/blobs/uploads/'' @ id)],
            r\<lparr>nextID := n, uploads := (uploads r)(id \<mapsto> repo)\<rparr>)))"

text \<open>The request body, or \<open>None\<close> when reading it fails.\<close>

definition handleUploadPut ::
    "digest_lib \<Rightarrow> string \<Rightarrow> string \<Rightarrow> string option \<Rightarrow> registry \<Rightarrow> reply \<times> registry" where
  "handleUploadPut L repo dq req_body r =
     (if \<not> Validate_ok L dq then (http_error 400 ''bad digest'', r)
      else case req_body of
        None \<Rightarrow> (http_error 400 ''digest mismatch'', r)
      | Some b \<Rightarrow>
          if FromBytes L b \<noteq> dq then (http_error 400 ''digest mismatch'', r)
          else (reply_of 201 [] [(''Docker-Content-Digest'', dq)],
                r\<lparr>rg_blobs := put_in repo dq b (rg_blobs r)\<rparr>))"

section \<open>Manifests\<close>

definition handleManifest :: "digest_lib \<Rightarrow> http_method \<Rightarrow> string \<Rightarrow> string option \<Rightarrow> string \<Rightarrow>
    string \<Rightarrow> registry \<Rightarrow> reply \<times> registry" where
  "handleManifest L m content_type req_body repo ref r =
     (if m = PUT then
        (case req_body of
           None \<Rightarrow> (http_error 400 ''read error'', r)
         | Some b \<Rightarrow>
             (case PutManifest L repo ref content_type b r of (d, r') \<Rightarrow>
                (reply_of 201 [] [(''Docker-Content-Digest'', d)], r')))
      else if m = GET \<or> m = HEAD then
        (case rg_manifests r repo ref of
           None \<Rightarrow>
             (http_error (if missingManifestStatus r = 0 then 404 else missingManifestStatus r)
                ''manifest unknown'', r)
         | Some (mt, data) \<Rightarrow>
             (reply_of 200 (if m = GET then data else [])
                [(''Content-Type'', mt), (''Docker-Content-Digest'', FromBytes L data),
                 (''Content-Length'', itoa_nat (length data))], r))
      else if m = DELETE then
        (if \<not> Validate_ok L ref then (http_error 400 ''delete by digest only'', r)
         else (reply_of 202 [] [],
               r\<lparr>rg_manifests := (rg_manifests r)(repo := (\<lambda>key.
                   case rg_manifests r repo key of
                     Some (mt, data) \<Rightarrow> if FromBytes L data = ref then None else Some (mt, data)
                   | None \<Rightarrow> None))\<rparr>))
      else (http_error 405 ''method not allowed'', r))"

section \<open>Blobs\<close>

text \<open>
  \<^verbatim>\<open>http.ServeContent\<close> for the requests the client makes: no range, or everything from an
  offset on. The range of an empty file is ignored.
\<close>

definition serve_content :: "nat option \<Rightarrow> string \<Rightarrow> (string \<times> string) list \<Rightarrow> reply" where
  "serve_content rng content hs =
     (case rng of
        None \<Rightarrow> reply_of 200 content hs
      | Some n \<Rightarrow>
          if content = [] then reply_of 200 content hs
          else if length content \<le> n then http_error 416 ''invalid range: failed to overlap''
          else reply_of 206 (drop n content) hs)"

definition flip_bytes :: "string \<Rightarrow> string" where
  "flip_bytes = map (\<lambda>c. char_of (255 - of_char c :: nat))"

text \<open>
  A read that is told to fail announces the whole length, sends the first \<open>failAfterBytes\<close> and
  drops the connection, so the client sees the body break off when any are missing.
\<close>

definition handleBlob :: "digest_lib \<Rightarrow> http_method \<Rightarrow> nat option \<Rightarrow> string \<Rightarrow> string \<Rightarrow> registry \<Rightarrow>
    reply \<times> registry" where
  "handleBlob L m rng repo dg r =
     (if \<not> Validate_ok L dg then (http_error 400 ''bad digest'', r)
      else
        let fail_reads = failBlobReads r dg;
            r' = (if 0 < fail_reads \<and> m = GET
                  then r\<lparr>failBlobReads := (failBlobReads r)(dg := fail_reads - 1)\<rparr> else r)
        in case rg_blobs r repo dg of
          None \<Rightarrow> (http_error 404 ''blob unknown'', r')
        | Some stored \<Rightarrow>
            if m = HEAD then
              (reply_of 200 [] [(''Content-Length'', itoa_nat (length stored)), (''Docker-Content-Digest'', dg)], r')
            else if m = GET then
              let content = (if corruptBlob r = dg then flip_bytes stored else stored) in
              if 0 < fail_reads then
                (\<lparr>status = 200, body = take (failAfterBytes r) content,
                  breaks = failAfterBytes r < length content,
                  headers = [(''Content-Type'', ''application/octet-stream''),
                             (''Content-Length'', itoa_nat (length content))]\<rparr>, r')
              else
                (serve_content (if ignoreRange r then None else rng) content
                   [(''Content-Type'', ''application/octet-stream''), (''Docker-Content-Digest'', dg)], r')
            else (http_error 405 ''method not allowed'', r'))"

text \<open>The registry as the server of one blob.\<close>

definition serve_blob :: "digest_lib \<Rightarrow> string \<Rightarrow> string \<Rightarrow> registry serve" where
  "serve_blob L repo dg r off =
     (case handleBlob L GET (if 0 < off then Some off else None) repo dg r of
        (rep, r') \<Rightarrow> (Inr (response.truncate rep), r'))"

end
