(* ===== verification/DownloadSpec.thy ===== *)
theory DownloadSpec
  imports Registry
begin

text \<open>
  The download against the test registry, and the properties of the component.
\<close>

section \<open>The registry answers truthfully\<close>

definition serves :: "digest_lib \<Rightarrow> string \<Rightarrow> string \<Rightarrow> string \<Rightarrow> registry \<Rightarrow> bool" where
  "serves L repo dg whole r \<longleftrightarrow>
     rg_blobs r repo dg = Some whole \<and> Validate_ok L dg \<and> corruptBlob r \<noteq> dg"

interpretation reg: blob_server "serve_blob L repo dg" whole "serves L repo dg whole"
    "\<lambda>r. failBlobReads r dg" for L repo dg whole
proof
  fix r r' off a
  assume g: "serves L repo dg whole r" and off: "off < length whole"
    and s: "serve_blob L repo dg r off = (a, r')"
  have r': "r' = (if 0 < failBlobReads r dg
      then r\<lparr>failBlobReads := (failBlobReads r)(dg := failBlobReads r dg - 1)\<rparr> else r)"
    using g s by (auto simp: serve_blob_def handleBlob_def serves_def Let_def split: if_splits)
  have "truthful whole off resp \<and> (breaks resp \<longrightarrow> 0 < failBlobReads r dg)" if "a = Inr resp" for resp
    using g s off that
    by (auto simp: serve_blob_def handleBlob_def serves_def Let_def truthful_def serve_content_def
        reply_of_def response.truncate_def take_is_prefix split: if_splits)
  moreover have "\<exists>resp. a = Inr resp" using s by (auto simp: serve_blob_def split: prod.splits)
  ultimately show "serves L repo dg whole r' \<and> (\<exists>resp. a = Inr resp \<and> truthful whole off resp \<and>
      (breaks resp \<longrightarrow> failBlobReads r' dg < failBlobReads r dg) \<and>
      failBlobReads r' dg \<le> failBlobReads r dg)"
    using g r' by (auto simp: serves_def)
qed

section \<open>Properties\<close>

text \<open>
  C25. What a download installs. When \<open>downloadBlob\<close> succeeds on a SHA-256 descriptor, from any
  server and any left-over partial file, the store was handed bytes of exactly the recorded size
  that hash to the recorded digest (and took them or had them), and the partial file is gone. Only
  a file system that cannot delete a file is excluded.
\<close>

theorem downloadBlob_verified:
  assumes "downloadBlob L serve fetch push c dir d w = (Inr u, w')"
    and "Algorithm L (Digest d) = ''sha256''" and "\<forall>i. \<not> remove_fails (faults_at c i)"
  shows "installed L push (partial_path L dir d) d w'"
  using assms by (auto simp: downloadBlob_def intro: attempts_installed)

text \<open>A store that keeps bytes by digest, a blob, and a registry that drops two connections.\<close>

definition sample_push :: "(string \<Rightarrow> string option) push" where
  "sample_push s d b = (if s (Digest d) = None then (Inr (), s(Digest d \<mapsto> b)) else (Inl AlreadyExists, s))"

definition sample_blob :: node where
  "sample_blob = \<lparr>MediaType = [], Digest = sha256_digest ''weights'', Size = 7\<rparr>"

definition sample_registry :: registry where
  "sample_registry =
     New\<lparr>rg_blobs := (\<lambda>repo. [sha256_digest ''weights'' \<mapsto> ''weights'']),
         failBlobReads := (\<lambda>_. 2), failAfterBytes := 3\<rparr>"

definition sample_path :: string where
  "sample_path = partial_path sha256_digests ''ingest'' sample_blob"

definition sample_world :: "string \<Rightarrow> (string \<Rightarrow> string option, registry) world" where
  "sample_world b = \<lparr>ingest = [sample_path \<mapsto> b], blobs = Map.empty, server = sample_registry\<rparr>"

definition calm :: conditions where
  "calm = \<lparr>faults_at = (\<lambda>_. no_faults), ended_after = (\<lambda>_. False), ended_waiting = (\<lambda>_. False)\<rparr>"

lemmas sample_defs = sample_push_def sample_blob_def sample_world_def calm_def

lemma downloadBlob_verified_witness:
  "\<exists>w'. downloadBlob sha256_digests (serve_blob sha256_digests [] []) (\<lambda>_. None) sample_push calm
     ''ingest'' sample_blob (sample_world ''weights'') = (Inr (), w') \<and>
   installed sha256_digests sample_push sample_path sample_blob w'"
proof -
  let ?w = "\<lparr>ingest = Map.empty, blobs = [sha256_digest ''weights'' \<mapsto> ''weights''],
    server = sample_registry\<rparr>"
  have run: "downloadBlob sha256_digests (serve_blob sha256_digests [] []) (\<lambda>_. None) sample_push calm
     ''ingest'' sample_blob (sample_world ''weights'') = (Inr (), ?w)"
    unfolding downloadBlob_def downloadAttempts_def sample_path_def [symmetric]
    by (simp add: sample_defs eval_nat_numeral tryDownload_def RehashPartial_def no_faults_def
        installPartial_def remove_file_def Let_def)
  from downloadBlob_verified [OF run] show ?thesis
    unfolding run sample_path_def by (simp add: sample_defs no_faults_def)
qed

text \<open>
  C32. Resuming. The registry holds a non-empty blob under its digest and drops the connection in
  fewer than three of its answers, after any number of bytes, honouring ranges or not. Whatever
  front part of the blob an earlier run left, \<open>downloadBlob\<close> succeeds, and the store receives
  exactly the blob.
\<close>

theorem download_resumes:
  assumes "serves L repo (Digest d) whole (server w)" and "failBlobReads (server w) (Digest d) < 3"
    and "resumable whole (partial_path L dir d) (ingest w)" and "whole \<noteq> []"
    and "Algorithm L (Digest d) = ''sha256''" and "FromBytes L whole = Digest d"
    and "Size d = int (length whole)" and "accepts push d whole"
    and "\<forall>i. faults_at c i = no_faults \<and> \<not> ended_after c i \<and> \<not> ended_waiting c i"
  shows "\<exists>w'. downloadBlob L (serve_blob L repo (Digest d)) fetch push c dir d w = (Inr (), w') \<and>
    blobs w' = snd (push (blobs w) d whole)"
proof -
  have course: "reg.on_course whole L repo (Digest d) (partial_path L dir d) w"
    using assms(1,3) by (simp add: reg.on_course_def)
  have "reg.finished whole push d (blobs w)
      (downloadBlob L (serve_blob L repo (Digest d)) fetch push c dir d w)"
    unfolding downloadBlob_def downloadAttempts_def using assms(2,5,9)
    by (simp add: reg.attempts_finish [OF course assms(6,7,8,4)])
  then show ?thesis
    by (cases "downloadBlob L (serve_blob L repo (Digest d)) fetch push c dir d w")
       (auto simp: reg.finished_def)
qed

lemma download_resumes_witness:
  "\<exists>w'. downloadBlob sha256_digests (serve_blob sha256_digests ''repo'' (Digest sample_blob)) (\<lambda>_. None)
      sample_push calm ''ingest'' sample_blob (sample_world ''we'') = (Inr (), w') \<and>
    blobs w' (Digest sample_blob) = Some ''weights''"
proof -
  have a: "serves sha256_digests ''repo'' (Digest sample_blob) ''weights'' (server (sample_world ''we''))"
    by (simp add: serves_def sample_defs sample_registry_def New_def sha256_digest_def
        sha256_digests_def)
  have b: "failBlobReads (server (sample_world ''we'')) (Digest sample_blob) < 3"
    by (simp add: sample_defs sample_registry_def)
  have c: "resumable ''weights'' (partial_path sha256_digests ''ingest'' sample_blob)
      (ingest (sample_world ''we''))"
    by (simp add: resumable_def sample_world_def sample_path_def)
  have d: "accepts sample_push sample_blob ''weights''"
    by (simp add: accepts_def sample_push_def)
  have "\<exists>w'. downloadBlob sha256_digests
      (serve_blob sha256_digests ''repo'' (Digest sample_blob)) (\<lambda>_. None)
      sample_push calm ''ingest'' sample_blob (sample_world ''we'') = (Inr (), w') \<and>
    blobs w' = snd (sample_push (blobs (sample_world ''we'')) sample_blob ''weights'')"
    by (rule download_resumes [OF a b c _ _ _ _ d]) (simp_all add: sample_blob_def calm_def)
  then show ?thesis by (auto simp: sample_push_def sample_world_def)
qed

text \<open>
  C37. An empty blob cannot be downloaded. Its descriptor has size zero, so the missing partial file
  counts as complete; nothing is requested and the installation finds no file to open. Every
  attempt fails, whatever the server holds.
\<close>

theorem empty_blob_fails:
  assumes "Size d = 0" and "ingest w (partial_path L dir d) = None"
    and "Algorithm L (Digest d) = ''sha256''"
  shows "\<exists>e w'. downloadBlob L serve fetch push c dir d w = (Inl e, w')"
proof -
  have once: "\<exists>e w1. tryDownload L serve push f p d w = (Inl e, w1) \<and> ingest w1 p = None"
    if "ingest w p = None" for f p and w :: "('a, 'b) world"
    using that assms(1)
    by (auto simp: tryDownload_def RehashPartial_def installPartial_def remove_file_def Let_def)
  have "\<exists>e' w'. attempts L serve push c p d e i k w = (Inl e', w')"
    if "ingest w p = None" for e i k p and w :: "('a, 'b) world"
    using that
  proof (induction k arbitrary: e i w)
    case (Suc k)
    from once [OF Suc.prems] obtain e1 w1 where
      "tryDownload L serve push (faults_at c i) p d w = (Inl e1, w1)" "ingest w1 p = None" by blast
    with Suc.IH [of w1 e1 "Suc i"] show ?case by simp
  qed simp
  with assms(2,3) show ?thesis by (auto simp: downloadBlob_def)
qed

lemma empty_blob_fails_witness:
  "\<exists>e w'. downloadBlob sha256_digests (serve_blob sha256_digests [] []) (\<lambda>_. None) sample_push calm
     ''ingest'' \<lparr>MediaType = [], Digest = sha256_digest [], Size = 0\<rparr>
     (sample_world ''weights''\<lparr>ingest := Map.empty\<rparr>) = (Inl e, w')"
  by (rule empty_blob_fails) simp_all

end
