(* ===== verification/Router.thy ===== *)
theory Router
  imports Prelude
begin

text \<open>
  \<^verbatim>\<open>internal/router/router.go\<close>: the instances of the serving router and the steps of the
  goroutines that share them. Each part of the code that runs under one lock is one step; a load
  (the body of the single flight) is a program counter per reference. The model child is the
  boolean \<open>i_alive\<close>; which way a call outside the sources goes (the backend, the start of a child)
  is a choice between steps.
\<close>

section \<open>Instances\<close>

record inst =
  i_ref :: string
  i_memory :: int
  i_lastUsed :: nat
  i_active :: int
  i_alive :: bool

definition busy :: "inst \<Rightarrow> bool" where
  "busy x \<longleftrightarrow> 0 < i_active x"

definition touch :: "nat \<Rightarrow> inst \<Rightarrow> inst" where
  "touch t x = x\<lparr>i_lastUsed := t\<rparr>"

definition begin_use :: "nat \<Rightarrow> inst \<Rightarrow> inst" where
  "begin_use t x = x\<lparr>i_active := i_active x + 1, i_lastUsed := t\<rparr>"

definition end_use :: "nat \<Rightarrow> inst \<Rightarrow> inst" where
  "end_use t x = x\<lparr>i_active := i_active x - 1, i_lastUsed := t\<rparr>"

section \<open>Making room\<close>

text \<open>Sums of footprints are of Go's \<^verbatim>\<open>int64\<close>.\<close>

definition wrap64 :: "int \<Rightarrow> int" where
  "wrap64 n = sint (word_of_int n :: 64 word)"

text \<open>
  One pass over the loaded instances, in the order the map is iterated: the memory in use, and the
  least recently used instance that is neither pinned nor busy (the first of equals).
\<close>

fun room_scan :: "(string \<Rightarrow> bool) \<Rightarrow> (nat \<times> inst) list \<Rightarrow> int \<Rightarrow> (nat \<times> inst) option \<Rightarrow>
    int \<times> (nat \<times> inst) option" where
  "room_scan keep [] used lru = (used, lru)"
| "room_scan keep ((i, x) # xs) used lru =
     room_scan keep xs (wrap64 (used + i_memory x))
       (if keep (i_ref x) \<or> busy x then lru
        else case lru of
          None \<Rightarrow> Some (i, x)
        | Some (j, y) \<Rightarrow> if i_lastUsed x < i_lastUsed y then Some (i, x) else lru)"

datatype room = Fits | Full int | Evict nat

definition room_pass :: "int \<Rightarrow> (string \<Rightarrow> bool) \<Rightarrow> int \<Rightarrow> (nat \<times> inst) list \<Rightarrow> room" where
  "room_pass budget keep need xs =
     (case room_scan keep xs 0 None of (used, lru) \<Rightarrow>
        if wrap64 (used + need) \<le> budget then Fits
        else case lru of None \<Rightarrow> Full used | Some (i, _) \<Rightarrow> Evict i)"

text \<open>The whole of \<open>makeRoom\<close> when nothing else runs: what is evicted, what is left, the verdict.\<close>

datatype verdict = Room | TooBig | Exhausted int

function evict_loop :: "int \<Rightarrow> (string \<Rightarrow> bool) \<Rightarrow> int \<Rightarrow> (nat \<times> inst) list \<Rightarrow> nat list \<Rightarrow>
    verdict \<times> (nat \<times> inst) list \<times> nat list" where
  "evict_loop budget keep need xs gone =
     (case room_pass budget keep need xs of
        Fits \<Rightarrow> (Room, xs, gone)
      | Full used \<Rightarrow> (Exhausted used, xs, gone)
      | Evict i \<Rightarrow>
          if i \<in> set (map fst xs)
          then evict_loop budget keep need (filter (\<lambda>(j, _). j \<noteq> i) xs) (gone @ [i])
          else (Exhausted 0, xs, gone))"
  by pat_completeness auto
termination
proof (relation "measure (\<lambda>(_, _, _, xs, _). length xs)", goal_cases)
  case (2 budget keep need xs gone i)
  then have "\<exists>x \<in> set xs. \<not> (case x of (j, _) \<Rightarrow> j \<noteq> i)" by force
  then show ?case by (auto intro: length_filter_less)
qed simp

definition makeRoom :: "int \<Rightarrow> (string \<Rightarrow> bool) \<Rightarrow> int \<Rightarrow> (nat \<times> inst) list \<Rightarrow>
    verdict \<times> (nat \<times> inst) list \<times> nat list" where
  "makeRoom budget keep need xs =
     (if budget \<le> 0 then (Room, xs, [])
      else if budget < need then (TooBig, xs, [])
      else evict_loop budget keep need xs [])"

section \<open>The router\<close>

text \<open>Where a load stands: before the second look, asking the backend, making room, stopping an
  evicted child, about to start its own, waiting for it to answer.\<close>

datatype load =
    Checking | Asking | Making int | Stopping int nat | Starting int | Booting int nat

record router =
  r_budget :: int
  r_keep :: "string \<Rightarrow> bool"
  loaded :: "string \<Rightarrow> nat option"
  insts :: "nat \<Rightarrow> inst"
  next_id :: nat
  flight :: "string \<Rightarrow> load option"
  missed :: "string \<Rightarrow> nat"
  waiting :: "string \<Rightarrow> nat"
  given :: "nat \<Rightarrow> nat"
  serving :: "nat \<Rightarrow> nat"
  doomed :: "nat set"
  answered :: "(string \<times> nat) list"

definition start_router :: "int \<Rightarrow> (string \<Rightarrow> bool) \<Rightarrow> router" where
  "start_router b keep =
     \<lparr>r_budget = b, r_keep = keep, loaded = Map.empty,
      insts = (\<lambda>_. \<lparr>i_ref = [], i_memory = 0, i_lastUsed = 0, i_active = 0, i_alive = False\<rparr>),
      next_id = 0, flight = Map.empty, missed = (\<lambda>_. 0), waiting = (\<lambda>_. 0), given = (\<lambda>_. 0),
      serving = (\<lambda>_. 0), doomed = {}, answered = []\<rparr>"

definition set_inst :: "nat \<Rightarrow> inst \<Rightarrow> router \<Rightarrow> router" where
  "set_inst i x s = s\<lparr>insts := (insts s)(i := x)\<rparr>"

definition kill :: "nat \<Rightarrow> router \<Rightarrow> router" where
  "kill i s = set_inst i ((insts s i)\<lparr>i_alive := False\<rparr>) s"

definition set_load :: "string \<Rightarrow> load option \<Rightarrow> router \<Rightarrow> router" where
  "set_load ref l s = s\<lparr>flight := (flight s)(ref := l)\<rparr>"

text \<open>The flight ends: every request waiting for it gets the instance, or the status.\<close>

definition deliver :: "string \<Rightarrow> nat \<Rightarrow> nat \<Rightarrow> router \<Rightarrow> router" where
  "deliver ref i t s =
     (let s = set_inst i (touch t (insts s i)) s in
      s\<lparr>flight := (flight s)(ref := None), given := (given s)(i := given s i + waiting s ref),
        waiting := (waiting s)(ref := 0)\<rparr>)"

definition refuse :: "string \<Rightarrow> nat \<Rightarrow> router \<Rightarrow> router" where
  "refuse ref st s =
     s\<lparr>flight := (flight s)(ref := None), waiting := (waiting s)(ref := 0),
       answered := answered s @ replicate (waiting s ref) (ref, st)\<rparr>"

definition unload :: "nat \<Rightarrow> router \<Rightarrow> router" where
  "unload i s = s\<lparr>loaded := (loaded s)(i_ref (insts s i) := None)\<rparr>"

text \<open>An order in which Go may iterate over the loaded instances.\<close>

definition iterates :: "(nat \<times> inst) list \<Rightarrow> router \<Rightarrow> bool" where
  "iterates xs s \<longleftrightarrow> distinct (map fst xs) \<and> set xs = (\<lambda>i. (i, insts s i)) ` ran (loaded s)"

text \<open>The instances the sweeper unloads.\<close>

definition sweep_victims :: "nat \<Rightarrow> router \<Rightarrow> nat set" where
  "sweep_victims cutoff s =
     {i. \<exists>ref. loaded s ref = Some i \<and> \<not> r_keep s ref \<and> \<not> busy (insts s i) \<and> i_lastUsed (insts s i) < cutoff}"

definition drop_victims :: "nat set \<Rightarrow> router \<Rightarrow> router" where
  "drop_victims V s =
     s\<lparr>loaded := (\<lambda>ref. case loaded s ref of Some i \<Rightarrow> if i \<in> V then None else Some i | None \<Rightarrow> None),
       doomed := doomed s \<union> V\<rparr>"

datatype backend_error = Unverified | Unavailable | OtherError

definition spec_status :: "backend_error \<Rightarrow> nat" where
  "spec_status e = (case e of Unverified \<Rightarrow> 403 | Unavailable \<Rightarrow> 503 | OtherError \<Rightarrow> 404)"

section \<open>Steps\<close>

text \<open>Requests: \<open>ensure\<close> up to the flight, then \<open>begin\<close> and \<open>end\<close> around the proxied call.\<close>

inductive request_step :: "router \<Rightarrow> router \<Rightarrow> bool" where
  hit: "loaded s ref = Some i \<Longrightarrow>
    request_step s ((set_inst i (touch t (insts s i)) s)\<lparr>given := (given s)(i := given s i + 1)\<rparr>)"
| miss: "loaded s ref = None \<Longrightarrow>
    request_step s (s\<lparr>missed := (missed s)(ref := missed s ref + 1)\<rparr>)"
| take_off: "0 < missed s ref \<Longrightarrow> flight s ref = None \<Longrightarrow>
    request_step s (s\<lparr>missed := (missed s)(ref := missed s ref - 1),
      waiting := (waiting s)(ref := waiting s ref + 1), flight := (flight s)(ref \<mapsto> Checking)\<rparr>)"
| join: "0 < missed s ref \<Longrightarrow> flight s ref = Some l \<Longrightarrow>
    request_step s (s\<lparr>missed := (missed s)(ref := missed s ref - 1),
      waiting := (waiting s)(ref := waiting s ref + 1)\<rparr>)"
| proxy_begin: "0 < given s i \<Longrightarrow>
    request_step s ((set_inst i (begin_use t (insts s i)) s)
      \<lparr>given := (given s)(i := given s i - 1), serving := (serving s)(i := serving s i + 1)\<rparr>)"
| proxy_end: "0 < serving s i \<Longrightarrow>
    request_step s ((set_inst i (end_use t (insts s i)) s)\<lparr>serving := (serving s)(i := serving s i - 1)\<rparr>)"

text \<open>The flight of one reference. The footprint the backend gives is not negative: a file size scaled.\<close>

inductive load_step :: "string \<Rightarrow> router \<Rightarrow> router \<Rightarrow> bool" where
  found: "flight s ref = Some Checking \<Longrightarrow> loaded s ref = Some i \<Longrightarrow> load_step ref s (deliver ref i t s)"
| absent: "flight s ref = Some Checking \<Longrightarrow> loaded s ref = None \<Longrightarrow>
    load_step ref s (set_load ref (Some Asking) s)"
| spec_error: "flight s ref = Some Asking \<Longrightarrow> load_step ref s (refuse ref (spec_status e) s)"
| too_big: "flight s ref = Some Asking \<Longrightarrow> 0 < r_budget s \<Longrightarrow> r_budget s < need \<Longrightarrow>
    load_step ref s (refuse ref 507 s)"
| guarded: "flight s ref = Some Asking \<Longrightarrow> 0 \<le> need \<Longrightarrow> 0 < r_budget s \<Longrightarrow> need \<le> r_budget s \<Longrightarrow>
    load_step ref s (set_load ref (Some (Making need)) s)"
| unguarded: "flight s ref = Some Asking \<Longrightarrow> 0 \<le> need \<Longrightarrow> r_budget s \<le> 0 \<Longrightarrow>
    load_step ref s (set_load ref (Some (Starting need)) s)"
| fits: "flight s ref = Some (Making need) \<Longrightarrow> iterates xs s \<Longrightarrow>
    room_pass (r_budget s) (r_keep s) need xs = Fits \<Longrightarrow>
    load_step ref s (set_load ref (Some (Starting need)) s)"
| full: "flight s ref = Some (Making need) \<Longrightarrow> iterates xs s \<Longrightarrow>
    room_pass (r_budget s) (r_keep s) need xs = Full used \<Longrightarrow>
    load_step ref s (refuse ref 503 s)"
| evict: "flight s ref = Some (Making need) \<Longrightarrow> iterates xs s \<Longrightarrow>
    room_pass (r_budget s) (r_keep s) need xs = Evict i \<Longrightarrow>
    load_step ref s (unload i (set_load ref (Some (Stopping need i)) s))"
| stopped: "flight s ref = Some (Stopping need i) \<Longrightarrow>
    load_step ref s (kill i (set_load ref (Some (Making need)) s))"
| start_error: "flight s ref = Some (Starting need) \<Longrightarrow> load_step ref s (refuse ref 502 s)"
| spawn: "flight s ref = Some (Starting need) \<Longrightarrow>
    load_step ref s ((set_load ref (Some (Booting need (next_id s)))
      (set_inst (next_id s) \<lparr>i_ref = ref, i_memory = need, i_lastUsed = t, i_active = 0, i_alive = True\<rparr> s))
        \<lparr>next_id := Suc (next_id s)\<rparr>)"
| not_ready: "flight s ref = Some (Booting need i) \<Longrightarrow> st \<in> {500, 502} \<Longrightarrow>
    load_step ref s (refuse ref st (kill i s))"
| placed: "flight s ref = Some (Booting need i) \<Longrightarrow>
    load_step ref s (deliver ref i t (s\<lparr>loaded := (loaded s)(ref \<mapsto> i)\<rparr>))"

text \<open>The rest: a child exits, its reaper runs, the sweeper, the stops it ordered, the shutdown.\<close>

inductive other_step :: "router \<Rightarrow> router \<Rightarrow> bool" where
  exits: "other_step s (kill i s)"
| reap: "loaded s ref = Some i \<Longrightarrow> \<not> i_alive (insts s i) \<Longrightarrow> other_step s (unload i s)"
| sweep: "other_step s (drop_victims (sweep_victims cutoff s) s)"
| stop_doomed: "i \<in> doomed s \<Longrightarrow> other_step s ((kill i s)\<lparr>doomed := doomed s - {i}\<rparr>)"
| shutdown: "other_step s (drop_victims (ran (loaded s)) s)"

inductive step :: "router \<Rightarrow> router \<Rightarrow> bool" where
  "request_step s t \<Longrightarrow> step s t"
| "load_step ref s t \<Longrightarrow> step s t"
| "other_step s t \<Longrightarrow> step s t"

inductive reachable :: "int \<Rightarrow> (string \<Rightarrow> bool) \<Rightarrow> router \<Rightarrow> bool" for b keep where
  start: "reachable b keep (start_router b keep)"
| more: "reachable b keep s \<Longrightarrow> step s t \<Longrightarrow> reachable b keep t"

inductive_cases request_stepE: "request_step s t"
inductive_cases load_stepE: "load_step ref s t"
inductive_cases other_stepE: "other_step s t"
inductive_cases stepE: "step s t"

section \<open>Authorization\<close>

definition trim_prefix :: "string \<Rightarrow> string \<Rightarrow> string" where
  "trim_prefix p s = (if prefix p s then drop (length p) s else s)"

definition authorized :: "string \<Rightarrow> string \<Rightarrow> bool" where
  "authorized token header \<longleftrightarrow> token = [] \<or> trim_prefix ''Bearer '' header = token"

datatype endpoint = Unauthorized | Health | Models | Proxy | NotFound

definition ServeHTTP :: "string \<Rightarrow> string \<Rightarrow> string \<Rightarrow> string \<Rightarrow> endpoint" where
  "ServeHTTP token header http_method path =
     (if \<not> authorized token header then Unauthorized
      else if path = ''/health'' then Health
      else if path = ''/v1/models'' \<and> http_method = ''GET'' then Models
      else if prefix ''/v1/'' path then Proxy
      else NotFound)"

end
