(* ===== verification/RouterSafety.thy ===== *)
theory RouterSafety
  imports Router
begin

text \<open>
  The invariant of the router over all interleavings of requests, loads, the sweeper, exits and the
  shutdown, and what follows for the children it starts and the instances it unloads.
\<close>

section \<open>The invariant\<close>

text \<open>A live child is loaded, being waited for, being stopped, or ordered to stop.\<close>

definition accounted :: "router \<Rightarrow> nat \<Rightarrow> bool" where
  "accounted s i \<longleftrightarrow>
     loaded s (i_ref (insts s i)) = Some i \<or> (\<exists>n. flight s (i_ref (insts s i)) = Some (Booting n i)) \<or>
     (\<exists>r n. flight s r = Some (Stopping n i)) \<or> i \<in> doomed s"

definition wf_router :: "router \<Rightarrow> bool" where
  "wf_router s \<longleftrightarrow>
     (\<forall>ref i. loaded s ref = Some i \<longrightarrow> i < next_id s \<and> i_ref (insts s i) = ref) \<and>
     (\<forall>ref l. flight s ref = Some l \<longrightarrow> l \<noteq> Checking \<longrightarrow> loaded s ref = None) \<and>
     (\<forall>ref n i. flight s ref = Some (Booting n i) \<longrightarrow> i < next_id s \<and> i_ref (insts s i) = ref) \<and>
     (\<forall>i. i_alive (insts s i) \<longrightarrow> i < next_id s \<and> accounted s i) \<and>
     (\<forall>i. i_active (insts s i) = int (serving s i)) \<and>
     (\<forall>i. next_id s \<le> i \<longrightarrow> given s i = 0 \<and> serving s i = 0)"

lemma wf_loaded: "wf_router s \<Longrightarrow> loaded s ref = Some i \<Longrightarrow> i < next_id s \<and> i_ref (insts s i) = ref"
  and wf_flying: "wf_router s \<Longrightarrow> flight s ref = Some l \<Longrightarrow> l \<noteq> Checking \<Longrightarrow> loaded s ref = None"
  and wf_booting: "wf_router s \<Longrightarrow> flight s ref = Some (Booting n i) \<Longrightarrow> i < next_id s \<and> i_ref (insts s i) = ref"
  and wf_alive: "wf_router s \<Longrightarrow> i_alive (insts s i) \<Longrightarrow> i < next_id s \<and> accounted s i"
  and wf_active: "wf_router s \<Longrightarrow> i_active (insts s i) = int (serving s i)"
  and wf_fresh: "wf_router s \<Longrightarrow> next_id s \<le> i \<Longrightarrow> given s i = 0 \<and> serving s i = 0"
  unfolding wf_router_def by blast+

lemmas router_ops = set_inst_def touch_def begin_use_def end_use_def kill_def set_load_def
  deliver_def refuse_def unload_def drop_victims_def Let_def

lemma wfI:
  assumes "\<And>ref i. loaded s ref = Some i \<Longrightarrow> i < next_id s \<and> i_ref (insts s i) = ref"
    and "\<And>ref l. flight s ref = Some l \<Longrightarrow> l \<noteq> Checking \<Longrightarrow> loaded s ref = None"
    and "\<And>ref n i. flight s ref = Some (Booting n i) \<Longrightarrow> i < next_id s \<and> i_ref (insts s i) = ref"
    and "\<And>i. i_alive (insts s i) \<Longrightarrow> i < next_id s \<and> accounted s i"
    and "\<And>i. i_active (insts s i) = int (serving s i)"
    and "\<And>i. next_id s \<le> i \<Longrightarrow> given s i = 0 \<and> serving s i = 0"
  shows "wf_router s"
  using assms unfolding wf_router_def by blast

lemma accounted_cong:
  assumes "accounted s i" and "i_ref (insts t i) = i_ref (insts s i)"
    and "loaded s (i_ref (insts s i)) = Some i \<Longrightarrow> loaded t (i_ref (insts s i)) = Some i \<or> i \<in> doomed t"
    and "\<And>r l. flight s r = Some l \<Longrightarrow> (\<exists>n. l = Booting n i) \<or> (\<exists>n. l = Stopping n i) \<Longrightarrow> flight t r = Some l"
    and "i \<in> doomed s \<Longrightarrow> i \<in> doomed t"
  shows "accounted t i"
  using assms unfolding accounted_def by metis

text \<open>A step that touches neither the loaded map nor the flights, and revives no child.\<close>

lemma wf_frame:
  assumes wf: "wf_router s" and same: "loaded t = loaded s" "flight t = flight s" "next_id t = next_id s" "doomed t = doomed s"
    and ref: "\<And>i. i_ref (insts t i) = i_ref (insts s i)"
    and alive: "\<And>i. i_alive (insts t i) \<Longrightarrow> i_alive (insts s i)"
    and act: "\<And>i. i_active (insts t i) = int (serving t i)"
    and fresh: "\<And>i. next_id s \<le> i \<Longrightarrow> given t i = 0 \<and> serving t i = 0"
  shows "wf_router t"
proof (rule wfI)
  fix i assume "i_alive (insts t i)"
  from wf_alive [OF wf alive [OF this]] have "i < next_id s" and "accounted s i" by auto
  moreover have "accounted t i" by (rule accounted_cong [OF \<open>accounted s i\<close>]) (simp_all add: ref same)
  ultimately show "i < next_id t \<and> accounted t i" by (simp add: same)
qed (use wf_loaded [OF wf] wf_flying [OF wf] wf_booting [OF wf] act fresh in \<open>auto simp: same ref\<close>)

text \<open>A step of one flight that neither holds nor takes a live child.\<close>

lemma wf_flight:
  assumes wf: "wf_router s" and same: "loaded t = loaded s" "insts t = insts s" "next_id t = next_id s" "doomed t = doomed s"
      "given t = given s" "serving t = serving s"
    and fl: "flight t = (flight s)(ref := l')"
    and old: "\<And>n i. flight s ref = Some (Booting n i) \<or> flight s ref = Some (Stopping n i) \<Longrightarrow> \<not> i_alive (insts s i)"
    and new: "\<And>l. l' = Some l \<Longrightarrow> l \<noteq> Checking \<Longrightarrow> loaded s ref = None" "\<And>n i. l' \<noteq> Some (Booting n i)"
  shows "wf_router t"
proof (rule wfI)
  fix i assume a: "i_alive (insts t i)"
  with wf_alive [OF wf, of i] have "i < next_id s" and acc: "accounted s i" by (auto simp: same)
  moreover have "accounted t i"
    by (rule accounted_cong [OF acc]) (use old a in \<open>auto simp: same fl\<close>)
  ultimately show "i < next_id t \<and> accounted t i" by (simp add: same)
next
  fix r l assume "flight t r = Some l" "l \<noteq> Checking"
  then show "loaded t r = None"
    using new(1) wf_flying [OF wf] by (auto simp: same fl split: if_splits)
next
  fix r n i assume "flight t r = Some (Booting n i)"
  then show "i < next_id t \<and> i_ref (insts t i) = r"
    using new(2) wf_booting [OF wf] by (auto simp: same fl split: if_splits)
qed (use wf_loaded [OF wf] wf_active [OF wf] wf_fresh [OF wf] in \<open>auto simp: same\<close>)

lemma wf_start: "wf_router (start_router b keep)"
  by (simp add: wf_router_def start_router_def)

lemma wf_kill: "wf_router s \<Longrightarrow> wf_router (kill i s)"
  by (rule wf_frame) (auto simp: router_ops wf_active wf_fresh split: if_splits)

lemma request_step_wf:
  assumes "request_step s t" and wf: "wf_router s"
  shows "wf_router t"
  using assms(1)
proof cases
  case (hit ref i tm)
  from wf_loaded [OF wf hit(2)] show ?thesis unfolding hit(1)
    by (intro wf_frame [OF wf]) (auto simp: router_ops wf_active [OF wf] wf_fresh [OF wf] split: if_splits)
next
  case (miss ref)
  show ?thesis unfolding miss(1)
    by (intro wf_frame [OF wf]) (auto simp: wf_active [OF wf] wf_fresh [OF wf])
next
  case (take_off ref)
  show ?thesis unfolding take_off(1)
    by (rule wf_flight [OF wf]) (use take_off(3) in auto)
next
  case (join ref l)
  show ?thesis unfolding join(1)
    by (intro wf_frame [OF wf]) (auto simp: wf_active [OF wf] wf_fresh [OF wf])
next
  case (proxy_begin i tm)
  have i: "i < next_id s"
    using wf_fresh [OF wf, of i] proxy_begin(2) by (cases "i < next_id s") auto
  show ?thesis unfolding proxy_begin(1)
    by (rule wf_frame [OF wf]) (use i in \<open>auto simp: router_ops wf_active [OF wf] wf_fresh [OF wf] split: if_splits\<close>)
next
  case (proxy_end i tm)
  have i: "i < next_id s"
    using wf_fresh [OF wf, of i] proxy_end(2) by (cases "i < next_id s") auto
  show ?thesis unfolding proxy_end(1)
    by (rule wf_frame [OF wf])
       (use i proxy_end(2) in \<open>auto simp: router_ops wf_active [OF wf] wf_fresh [OF wf] of_nat_diff split: if_splits\<close>)
qed

section \<open>Loads\<close>

lemma wf_refuse:
  assumes "wf_router s"
    and "\<And>n i. flight s ref = Some (Booting n i) \<or> flight s ref = Some (Stopping n i) \<Longrightarrow> \<not> i_alive (insts s i)"
  shows "wf_router (refuse ref st s)"
  by (rule wf_flight [OF assms(1), of _ ref None]) (use assms(2) in \<open>auto simp: refuse_def\<close>)

lemma wf_set_load:
  assumes "wf_router s" and "flight s ref = Some l" and "loaded s ref = None"
    and "\<And>n i. l \<noteq> Booting n i" "\<And>n i. l = Stopping n i \<Longrightarrow> \<not> i_alive (insts s i)" "\<And>n i. l' \<noteq> Booting n i"
  shows "wf_router (set_load ref (Some l') s)"
  by (rule wf_flight [OF assms(1), of _ ref "Some l'"]) (use assms in \<open>auto simp: set_load_def\<close>)

fun plain :: "load \<Rightarrow> bool" where
  "plain (Booting n i) = False"
| "plain (Stopping n i) = False"
| "plain _ = True"

lemma wf_phase:
  assumes "wf_router s" and "flight s ref = Some l" and "plain l" and "plain l'" and "loaded s ref = None"
  shows "wf_router (set_load ref (Some l') s)"
  by (rule wf_set_load [OF assms(1,2,5)]) (use assms(3,4) in auto)

lemma wf_give_up:
  assumes "wf_router s" and "flight s ref = Some l" and "plain l"
  shows "wf_router (refuse ref st s)"
  by (rule wf_refuse [OF assms(1)]) (use assms(2,3) in auto)

lemma scan_lru:
  "room_scan keep xs used lru = (u, Some (i, x)) \<Longrightarrow>
     lru = Some (i, x) \<or> (i, x) \<in> set xs \<and> \<not> keep (i_ref x) \<and> \<not> busy x"
  by (induction keep xs used lru rule: room_scan.induct) (auto split: if_splits option.splits)

lemma pass_evicts:
  assumes "room_pass b keep need xs = Evict i"
  shows "\<exists>x. (i, x) \<in> set xs \<and> \<not> keep (i_ref x) \<and> \<not> busy x"
  using assms
  by (auto simp: room_pass_def split: prod.splits if_splits option.splits dest!: scan_lru)

lemma evict_loaded:
  assumes wf: "wf_router s" and "iterates xs s" and "room_pass b keep need xs = Evict i"
  shows "loaded s (i_ref (insts s i)) = Some i \<and> \<not> keep (i_ref (insts s i)) \<and> \<not> busy (insts s i)"
proof -
  from pass_evicts [OF assms(3)] obtain x where
    x: "(i, x) \<in> set xs" "\<not> keep (i_ref x)" "\<not> busy x" by blast
  with assms(2) have "i \<in> ran (loaded s)" and "x = insts s i" by (auto simp: iterates_def)
  with x wf_loaded [OF wf] show ?thesis by (auto simp: ran_def)
qed

lemma wf_spawn:
  assumes wf: "wf_router s" and f: "flight s ref = Some (Starting need)"
  shows "wf_router ((set_load ref (Some (Booting need (next_id s)))
      (set_inst (next_id s) \<lparr>i_ref = ref, i_memory = need, i_lastUsed = tm, i_active = 0, i_alive = True\<rparr> s))
        \<lparr>next_id := Suc (next_id s)\<rparr>)" (is "wf_router ?t")
proof (rule wfI)
  fix i assume a: "i_alive (insts ?t i)"
  show "i < next_id ?t \<and> accounted ?t i"
  proof (cases "i = next_id s")
    case True
    then show ?thesis by (simp add: accounted_def router_ops)
  next
    case False
    with a have "i_alive (insts s i)" by (simp add: router_ops)
    from wf_alive [OF wf this] have "i < next_id s" and acc: "accounted s i" by auto
    moreover have "accounted ?t i"
      by (rule accounted_cong [OF acc]) (use False f in \<open>auto simp: router_ops\<close>)
    ultimately show ?thesis by (simp add: router_ops)
  qed
next
  fix r l assume "flight ?t r = Some l" "l \<noteq> Checking"
  then show "loaded ?t r = None"
    using wf_flying [OF wf f] wf_flying [OF wf, of r] by (auto simp: router_ops split: if_splits)
next
  fix r n i assume "flight ?t r = Some (Booting n i)"
  then show "i < next_id ?t \<and> i_ref (insts ?t i) = r"
    using wf_booting [OF wf, of r n i] by (auto simp: router_ops split: if_splits)
next
  fix r i assume "loaded ?t r = Some i"
  then show "i < next_id ?t \<and> i_ref (insts ?t i) = r"
    using wf_loaded [OF wf, of r i] by (auto simp: router_ops)
qed (use wf_active [OF wf] wf_fresh [OF wf] in \<open>auto simp: router_ops\<close>)

lemma wf_deliver_found:
  assumes wf: "wf_router s" and f: "flight s ref = Some Checking" and l: "loaded s ref = Some i"
  shows "wf_router (deliver ref i tm s)"
proof -
  have i: "i < next_id s" using wf_loaded [OF wf l] by simp
  have "wf_router (s\<lparr>flight := (flight s)(ref := None)\<rparr>)" (is "wf_router ?s")
    by (rule wf_flight [OF wf, of _ ref None]) (auto simp: f)
  then show ?thesis
    by (rule wf_frame) (use i in \<open>auto simp: router_ops wf_active [OF wf] wf_fresh [OF wf] split: if_splits\<close>)
qed

lemma wf_deliver_placed:
  assumes wf: "wf_router s" and f: "flight s ref = Some (Booting need i)"
  shows "wf_router (deliver ref i tm (s\<lparr>loaded := (loaded s)(ref \<mapsto> i)\<rparr>))" (is "wf_router ?t")
proof (rule wfI)
  have i: "i < next_id s" "i_ref (insts s i) = ref" using wf_booting [OF wf f] by auto
  have none: "loaded s ref = None" using wf_flying [OF wf f] by simp
  {
    fix j assume a: "i_alive (insts ?t j)"
    show "j < next_id ?t \<and> accounted ?t j"
    proof (cases "j = i")
      case True
      with i show ?thesis by (simp add: accounted_def router_ops)
    next
      case False
      with a have "i_alive (insts s j)" by (simp add: router_ops)
      from wf_alive [OF wf this] have "j < next_id s" and acc: "accounted s j" by auto
      moreover have "accounted ?t j"
        by (rule accounted_cong [OF acc]) (use False f none in \<open>auto simp: router_ops\<close>)
      ultimately show ?thesis by (simp add: router_ops)
    qed
  next
    fix r l assume "flight ?t r = Some l" "l \<noteq> Checking"
    then show "loaded ?t r = None"
      using wf_flying [OF wf, of r] by (auto simp: router_ops split: if_splits)
  next
    fix r n j assume "flight ?t r = Some (Booting n j)"
    then show "j < next_id ?t \<and> i_ref (insts ?t j) = r"
      using wf_booting [OF wf, of r n j] by (auto simp: router_ops split: if_splits)
  next
    fix r j assume "loaded ?t r = Some j"
    then show "j < next_id ?t \<and> i_ref (insts ?t j) = r"
      using wf_loaded [OF wf, of r j] i by (auto simp: router_ops split: if_splits)
  next
    fix j
    show "i_active (insts ?t j) = int (serving ?t j)" using wf_active [OF wf] by (simp add: router_ops)
    show "next_id ?t \<le> j \<Longrightarrow> given ?t j = 0 \<and> serving ?t j = 0"
      using wf_fresh [OF wf] i by (auto simp: router_ops)
  }
qed

lemma wf_evict:
  assumes wf: "wf_router s" and f: "flight s ref = Some (Making need)"
    and l: "loaded s (i_ref (insts s i)) = Some i"
  shows "wf_router (unload i (set_load ref (Some (Stopping need i)) s))" (is "wf_router ?t")
proof (rule wfI)
  fix j assume a: "i_alive (insts ?t j)"
  then have "i_alive (insts s j)" by (simp add: router_ops)
  from wf_alive [OF wf this] have "j < next_id s" and acc: "accounted s j" by auto
  moreover have "accounted ?t j"
  proof (cases "j = i")
    case True
    then show ?thesis by (auto simp: accounted_def router_ops)
  next
    case False
    show ?thesis
      by (rule accounted_cong [OF acc]) (use False l f in \<open>auto simp: router_ops\<close>)
  qed
  ultimately show "j < next_id ?t \<and> accounted ?t j" by (simp add: router_ops)
next
  fix r lo assume "flight ?t r = Some lo" "lo \<noteq> Checking"
  then show "loaded ?t r = None"
    using wf_flying [OF wf, of r] f by (auto simp: router_ops split: if_splits)
next
  fix r n j assume "flight ?t r = Some (Booting n j)"
  then show "j < next_id ?t \<and> i_ref (insts ?t j) = r"
    using wf_booting [OF wf, of r n j] by (auto simp: router_ops split: if_splits)
next
  fix r j assume "loaded ?t r = Some j"
  then show "j < next_id ?t \<and> i_ref (insts ?t j) = r"
    using wf_loaded [OF wf, of r j] by (auto simp: router_ops split: if_splits)
qed (use wf_active [OF wf] wf_fresh [OF wf] in \<open>auto simp: router_ops\<close>)

lemma load_step_wf:
  assumes "load_step ref s t" and wf: "wf_router s"
  shows "wf_router t"
  using assms(1)
proof cases
  case (found i tm)
  then show ?thesis using wf_deliver_found [OF wf] by simp
next
  case absent
  then show ?thesis using wf_phase [OF wf absent(2)] by simp
next
  case (spec_error e)
  then show ?thesis using wf_give_up [OF wf spec_error(2)] by simp
next
  case (too_big need)
  then show ?thesis using wf_give_up [OF wf too_big(2)] by simp
next
  case (guarded need)
  then show ?thesis using wf_phase [OF wf guarded(2)] wf_flying [OF wf guarded(2)] by simp
next
  case (unguarded need)
  then show ?thesis using wf_phase [OF wf unguarded(2)] wf_flying [OF wf unguarded(2)] by simp
next
  case (fits need xs)
  then show ?thesis using wf_phase [OF wf fits(2)] wf_flying [OF wf fits(2)] by simp
next
  case (full need xs used)
  then show ?thesis using wf_give_up [OF wf full(2)] by simp
next
  case (evict need xs i)
  then show ?thesis using wf_evict [OF wf] evict_loaded [OF wf evict(3,4)] by simp
next
  case (stopped need i)
  have "wf_router (set_load ref (Some (Making need)) (kill i s))"
    by (rule wf_set_load [OF wf_kill [OF wf], where ref = ref and l = "Stopping need i"])
       (use stopped wf_flying [OF wf stopped(2)] in \<open>auto simp: router_ops\<close>)
  moreover have "kill i (set_load ref (Some (Making need)) s) = set_load ref (Some (Making need)) (kill i s)"
    by (cases s) (simp add: router_ops)
  ultimately show ?thesis using stopped by simp
next
  case (start_error need)
  then show ?thesis using wf_give_up [OF wf start_error(2)] by simp
next
  case (spawn need tm)
  then show ?thesis using wf_spawn [OF wf] by simp
next
  case (not_ready need i st)
  have "wf_router (refuse ref st (kill i s))"
    by (rule wf_refuse [OF wf_kill [OF wf]]) (use not_ready in \<open>auto simp: router_ops\<close>)
  then show ?thesis using not_ready by simp
next
  case (placed need i tm)
  then show ?thesis using wf_deliver_placed [OF wf] by simp
qed

section \<open>Everything else\<close>

lemma wf_drop:
  assumes wf: "wf_router s" and V: "V \<subseteq> ran (loaded s)"
  shows "wf_router (drop_victims V s)" (is "wf_router ?t")
proof (rule wfI)
  fix j assume "i_alive (insts ?t j)"
  then have "i_alive (insts s j)" by (simp add: router_ops)
  from wf_alive [OF wf this] have "j < next_id s" and acc: "accounted s j" by auto
  moreover have "accounted ?t j"
    by (rule accounted_cong [OF acc]) (auto simp: router_ops)
  ultimately show "j < next_id ?t \<and> accounted ?t j" by (simp add: router_ops)
next
  fix r l assume "flight ?t r = Some l" "l \<noteq> Checking"
  then show "loaded ?t r = None" using wf_flying [OF wf, of r] by (auto simp: router_ops)
next
  fix r j assume "loaded ?t r = Some j"
  then show "j < next_id ?t \<and> i_ref (insts ?t j) = r"
    using wf_loaded [OF wf, of r j] by (auto simp: router_ops split: option.splits if_splits)
qed (use wf_booting [OF wf] wf_active [OF wf] wf_fresh [OF wf] in \<open>auto simp: router_ops\<close>)

lemma wf_reap:
  assumes wf: "wf_router s" and l: "loaded s ref = Some i" and dead: "\<not> i_alive (insts s i)"
  shows "wf_router (unload i s)" (is "wf_router ?t")
proof (rule wfI)
  fix j assume a: "i_alive (insts ?t j)"
  then have "i_alive (insts s j)" and "j \<noteq> i" using dead by (auto simp: router_ops)
  from wf_alive [OF wf this(1)] have "j < next_id s" and acc: "accounted s j" by auto
  moreover have "accounted ?t j"
    by (rule accounted_cong [OF acc])
       (use \<open>j \<noteq> i\<close> l wf_loaded [OF wf l] in \<open>auto simp: router_ops\<close>)
  ultimately show "j < next_id ?t \<and> accounted ?t j" by (simp add: router_ops)
next
  fix r l assume "flight ?t r = Some l" "l \<noteq> Checking"
  then show "loaded ?t r = None" using wf_flying [OF wf, of r] by (auto simp: router_ops)
next
  fix r j assume "loaded ?t r = Some j"
  then show "j < next_id ?t \<and> i_ref (insts ?t j) = r"
    using wf_loaded [OF wf, of r j] by (auto simp: router_ops split: if_splits)
qed (use wf_booting [OF wf] wf_active [OF wf] wf_fresh [OF wf] in \<open>auto simp: router_ops\<close>)

lemma wf_stop_doomed:
  assumes wf: "wf_router s"
  shows "wf_router ((kill i s)\<lparr>doomed := doomed s - {i}\<rparr>)" (is "wf_router ?t")
proof (rule wfI)
  fix j assume a: "i_alive (insts ?t j)"
  then have "i_alive (insts s j)" and "j \<noteq> i" by (auto simp: router_ops split: if_splits)
  from wf_alive [OF wf this(1)] have "j < next_id s" and acc: "accounted s j" by auto
  moreover have "accounted ?t j"
    by (rule accounted_cong [OF acc]) (use \<open>j \<noteq> i\<close> in \<open>auto simp: router_ops\<close>)
  ultimately show "j < next_id ?t \<and> accounted ?t j" by (simp add: router_ops)
next
  fix r n j assume "flight ?t r = Some (Booting n j)"
  then show "j < next_id ?t \<and> i_ref (insts ?t j) = r"
    using wf_booting [OF wf, of r n j] by (auto simp: router_ops)
next
  fix r j assume "loaded ?t r = Some j"
  then show "j < next_id ?t \<and> i_ref (insts ?t j) = r"
    using wf_loaded [OF wf, of r j] by (auto simp: router_ops)
next
  fix r l assume "flight ?t r = Some l" "l \<noteq> Checking"
  then show "loaded ?t r = None" using wf_flying [OF wf, of r] by (auto simp: router_ops)
qed (use wf_active [OF wf] wf_fresh [OF wf] in \<open>auto simp: router_ops\<close>)

lemma sweep_loaded: "sweep_victims c s \<subseteq> ran (loaded s)"
  by (auto simp: sweep_victims_def ran_def)

lemma other_step_wf:
  assumes "other_step s t" and wf: "wf_router s"
  shows "wf_router t"
  using assms(1)
proof cases
  case (exits i)
  then show ?thesis using wf_kill [OF wf] by simp
next
  case (reap ref i)
  then show ?thesis using wf_reap [OF wf] by simp
next
  case (sweep cutoff)
  then show ?thesis using wf_drop [OF wf sweep_loaded] by simp
next
  case (stop_doomed i)
  then show ?thesis using wf_stop_doomed [OF wf] by simp
next
  case shutdown
  then show ?thesis using wf_drop [OF wf] by simp
qed

lemma step_wf: "step s t \<Longrightarrow> wf_router s \<Longrightarrow> wf_router t"
  by (erule step.cases) (auto intro: request_step_wf load_step_wf other_step_wf)

lemma reachable_wf: "reachable b keep s \<Longrightarrow> wf_router s"
  by (induction rule: reachable.induct) (auto intro: wf_start step_wf)

end
