(* ===== verification/RouterSpec.thy ===== *)
theory RouterSpec
  imports RouterSafety
begin

text \<open>
  The properties of the router: the sequential meaning of making room, the children and the
  instances under any interleaving, and the memory budget.
\<close>

section \<open>Making room, alone\<close>

abbreviation evictable :: "(string \<Rightarrow> bool) \<Rightarrow> nat \<times> inst \<Rightarrow> bool" where
  "evictable keep ix \<equiv> \<not> keep (i_ref (snd ix)) \<and> \<not> busy (snd ix)"

definition memory_of :: "(nat \<times> inst) list \<Rightarrow> int" where
  "memory_of xs = (\<Sum>x\<leftarrow>xs. i_memory (snd x))"

text \<open>Footprints whose sum stays in the range of \<^verbatim>\<open>int64\<close>.\<close>

definition small :: "(nat \<times> inst) list \<Rightarrow> int \<Rightarrow> bool" where
  "small xs bound \<longleftrightarrow> (\<forall>x \<in> set xs. 0 \<le> i_memory (snd x)) \<and> memory_of xs < bound"

lemma wrap64_id: "0 \<le> n \<Longrightarrow> n < 2 ^ 63 \<Longrightarrow> wrap64 n = n"
  by (simp add: wrap64_def sint_sbintrunc' signed_take_bit_int_eq_self)

lemma memory_nonneg: "\<forall>x \<in> set xs. 0 \<le> i_memory (snd x) \<Longrightarrow> 0 \<le> memory_of xs"
  by (induction xs) (auto simp: memory_of_def)

lemma scan_used:
  "0 \<le> u \<Longrightarrow> small xs (2 ^ 63 - u) \<Longrightarrow> fst (room_scan keep xs u lru) = u + memory_of xs"
proof (induction keep xs u lru rule: room_scan.induct)
  case (1 keep used lru)
  then show ?case by (simp add: memory_of_def)
next
  case (2 keep i x xs used lru)
  have nn: "0 \<le> i_memory x" "0 \<le> memory_of xs"
    using "2.prems"(2) by (auto simp: small_def intro: memory_nonneg)
  with "2.prems" have w: "wrap64 (used + i_memory x) = used + i_memory x"
    by (intro wrap64_id) (auto simp: small_def memory_of_def)
  have "fst (room_scan keep ((i, x) # xs) used lru) = used + i_memory x + memory_of xs"
    using "2.IH" nn "2.prems" w by (auto simp: small_def memory_of_def)
  then show ?case by (simp add: memory_of_def)
qed

lemma scan_least:
  "\<forall>j y. lru = Some (j, y) \<longrightarrow> evictable keep (j, y) \<Longrightarrow>
   (case snd (room_scan keep xs u lru) of
      None \<Rightarrow> lru = None \<and> (\<forall>x \<in> set xs. \<not> evictable keep x)
    | Some (i, x) \<Rightarrow> (lru = Some (i, x) \<or> (i, x) \<in> set xs) \<and> evictable keep (i, x) \<and>
        (\<forall>y \<in> set xs. evictable keep y \<longrightarrow> i_lastUsed x \<le> i_lastUsed (snd y)) \<and>
        (\<forall>j y. lru = Some (j, y) \<longrightarrow> i_lastUsed x \<le> i_lastUsed y))"
proof (induction keep xs u lru rule: room_scan.induct)
  case (1 keep used lru)
  then show ?case by (cases lru) auto
next
  case (2 keep i x xs used lru)
  define lru' where "lru' = (if keep (i_ref x) \<or> busy x then lru
        else case lru of None \<Rightarrow> Some (i, x)
        | Some (j, y) \<Rightarrow> if i_lastUsed x < i_lastUsed y then Some (i, x) else lru)"
  have pre: "\<forall>j y. lru' = Some (j, y) \<longrightarrow> evictable keep (j, y)"
    using "2.prems" by (auto simp: lru'_def split: option.splits)
  have none: "lru' = None \<longleftrightarrow> lru = None \<and> \<not> evictable keep (i, x)"
    by (auto simp: lru'_def split: option.splits)
  have some: "(evictable keep (i, x) \<longrightarrow> i_lastUsed y \<le> i_lastUsed x) \<and>
      (\<forall>k z. lru = Some (k, z) \<longrightarrow> i_lastUsed y \<le> i_lastUsed z) \<and>
      (lru = Some (j, y) \<or> (j, y) = (i, x))" if "lru' = Some (j, y)" for j y
    using that by (auto simp: lru'_def split: option.splits if_splits)
  note IH = "2.IH" [folded lru'_def, OF pre]
  have eq: "room_scan keep ((i, x) # xs) used lru = room_scan keep xs (wrap64 (used + i_memory x)) lru'"
    by (simp add: lru'_def)
  show ?case
  proof (cases "snd (room_scan keep xs (wrap64 (used + i_memory x)) lru')")
    case None
    with IH none show ?thesis unfolding eq by auto
  next
    case (Some kz)
    obtain k z where kz: "kz = (k, z)" by (cases kz)
    from IH Some kz have l: "lru' = Some (k, z) \<or> (k, z) \<in> set xs" and ev: "evictable keep (k, z)"
      and min: "\<forall>y \<in> set xs. evictable keep y \<longrightarrow> i_lastUsed z \<le> i_lastUsed (snd y)"
      and min': "\<forall>j y. lru' = Some (j, y) \<longrightarrow> i_lastUsed z \<le> i_lastUsed y" by auto
    have a: "lru = Some (k, z) \<or> (k, z) \<in> set ((i, x) # xs)" using l some by auto
    have b: "evictable keep (i, x) \<longrightarrow> i_lastUsed z \<le> i_lastUsed x"
      and c: "\<forall>j y. lru = Some (j, y) \<longrightarrow> i_lastUsed z \<le> i_lastUsed y"
      using none min' some by (cases lru'; fastforce)+
    from a b c ev min Some kz show ?thesis unfolding eq by auto
  qed
qed

lemma pass_meaning:
  assumes "small xs (2 ^ 62)" and "0 \<le> need" and "need < 2 ^ 62"
  shows "case room_pass b keep need xs of
      Fits \<Rightarrow> memory_of xs + need \<le> b
    | Full used \<Rightarrow> b < memory_of xs + need \<and> used = memory_of xs \<and> (\<forall>x \<in> set xs. \<not> evictable keep x)
    | Evict i \<Rightarrow> b < memory_of xs + need \<and> (\<exists>x. (i, x) \<in> set xs \<and> evictable keep (i, x) \<and>
        (\<forall>y \<in> set xs. evictable keep y \<longrightarrow> i_lastUsed x \<le> i_lastUsed (snd y)))"
proof -
  have m: "0 \<le> memory_of xs" using assms(1) by (auto simp: small_def intro: memory_nonneg)
  have u: "fst (room_scan keep xs 0 None) = memory_of xs"
    using scan_used [of 0 xs keep None] assms(1) by (simp add: small_def)
  have w: "wrap64 (memory_of xs + need) = memory_of xs + need"
    by (rule wrap64_id) (use m assms in \<open>auto simp: small_def\<close>)
  show ?thesis
    using scan_least [of None keep xs 0] u w
    by (cases "room_scan keep xs 0 None") (auto simp: room_pass_def split: option.splits)
qed

lemma memory_filter:
  assumes "small xs b"
  shows "small (filter P xs) b"
proof -
  have "memory_of (filter P xs) \<le> memory_of xs"
    using assms by (induction xs) (auto simp: memory_of_def small_def sum_list_nonneg)
  with assms show ?thesis by (auto simp: small_def)
qed

text \<open>What an eviction run did: the instances left, and the verdict on them.\<close>

abbreviation without :: "nat list \<Rightarrow> (nat \<times> inst) list \<Rightarrow> (nat \<times> inst) list" where
  "without gone xs \<equiv> filter (\<lambda>x. fst x \<notin> set gone) xs"

definition judged :: "int \<Rightarrow> (string \<Rightarrow> bool) \<Rightarrow> int \<Rightarrow> verdict \<Rightarrow> (nat \<times> inst) list \<Rightarrow> bool" where
  "judged b keep need v ys \<longleftrightarrow>
     (case v of
        Room \<Rightarrow> memory_of ys + need \<le> b
      | Exhausted used \<Rightarrow> b < memory_of ys + need \<and> used = memory_of ys \<and> (\<forall>x \<in> set ys. \<not> evictable keep x)
      | TooBig \<Rightarrow> False)"

definition evicted_well :: "int \<Rightarrow> (string \<Rightarrow> bool) \<Rightarrow> int \<Rightarrow> (nat \<times> inst) list \<Rightarrow> nat list \<Rightarrow> bool" where
  "evicted_well b keep need xs gone \<longleftrightarrow>
     (\<forall>x \<in> set xs. fst x \<in> set gone \<longrightarrow> evictable keep x \<and>
        (\<forall>y \<in> set (without gone xs). evictable keep y \<longrightarrow> i_lastUsed (snd x) \<le> i_lastUsed (snd y))) \<and>
     (gone \<noteq> [] \<longrightarrow> b < memory_of (without (butlast gone) xs) + need)"

lemma evict_loop_meaning:
  "evict_loop b keep need xs gone0 = (v, ys, gone) \<Longrightarrow> small xs (2 ^ 62) \<Longrightarrow> distinct (map fst xs) \<Longrightarrow>
    0 \<le> need \<Longrightarrow> need < 2 ^ 62 \<Longrightarrow>
    \<exists>new. gone = gone0 @ new \<and> ys = without new xs \<and> judged b keep need v ys \<and> evicted_well b keep need xs new"
proof (induction b keep need xs gone0 rule: evict_loop.induct)
  case (1 b keep need xs gone0)
  note m = pass_meaning [OF "1.prems"(2,4,5), of b keep]
  show ?case
  proof (cases "room_pass b keep need xs")
    case Fits
    have "memory_of xs + need \<le> b" using m unfolding Fits room.case .
    with Fits "1.prems"(1) show ?thesis
      by (intro exI [of _ "[]"]) (simp add: judged_def evicted_well_def)
  next
    case (Full used)
    have "b < memory_of xs + need \<and> used = memory_of xs \<and> (\<forall>x \<in> set xs. \<not> evictable keep x)"
      using m unfolding Full room.case .
    with Full "1.prems"(1) show ?thesis
      by (intro exI [of _ "[]"]) (auto simp: judged_def evicted_well_def)
  next
    case (Evict i)
    from m [unfolded Evict room.case] obtain x where no: "b < memory_of xs + need" and x: "(i, x) \<in> set xs" "evictable keep (i, x)"
      and least: "\<forall>y \<in> set xs. evictable keep y \<longrightarrow> i_lastUsed x \<le> i_lastUsed (snd y)" by auto
    define zs where "zs = filter (\<lambda>(j, _). j \<noteq> i) xs"
    have zs: "zs = without [i] xs" unfolding zs_def by (rule filter_cong) auto
    have mem: "i \<in> set (map fst xs)" using x(1) by force
    with "1.prems"(1) Evict have run: "evict_loop b keep need zs (gone0 @ [i]) = (v, ys, gone)"
      by (simp add: zs_def)
    have "small zs (2 ^ 62)" "distinct (map fst zs)"
      using "1.prems"(2,3) memory_filter unfolding zs by (auto intro: distinct_map_filter)
    from "1.IH" [OF Evict mem run [unfolded zs_def] this [unfolded zs_def] "1.prems"(4,5), folded zs_def] obtain new where
      new: "gone = (gone0 @ [i]) @ new" "ys = without new zs" "judged b keep need v ys"
        "evicted_well b keep need zs new" by blast
    have w: "without l zs = without (i # l) xs" for l unfolding zs by (simp add: conj_commute)
    have ux: "y = x" if "(i, y) \<in> set xs" for y
      using "1.prems"(3) x(1) that by (metis eq_key_imp_eq_value)
    have "evicted_well b keep need xs (i # new)"
      unfolding evicted_well_def
    proof (intro conjI ballI impI)
      fix y assume y: "y \<in> set xs" "fst y \<in> set (i # new)"
      show "\<not> keep (i_ref (snd y))" and "\<not> busy (snd y)"
        using y ux x(2) new(4) by (cases "fst y = i"; force simp: evicted_well_def zs)+
      fix z assume z: "z \<in> set (without (i # new) xs)" "evictable keep z"
      show "i_lastUsed (snd y) \<le> i_lastUsed (snd z)"
      proof (cases "fst y = i")
        case True
        with y ux have "snd y = x" by (metis prod.collapse)
        with least z show ?thesis by auto
      next
        case False
        with y have "y \<in> set zs" "fst y \<in> set new" by (auto simp: zs)
        with new(4) z show ?thesis unfolding evicted_well_def w by blast
      qed
    next
      show "b < memory_of (without (butlast (i # new)) xs) + need"
        using new(4) no by (cases "new = []") (auto simp: evicted_well_def w)
    qed
    with new show ?thesis by (intro exI [of _ "i # new"]) (simp add: w)
  qed
qed

text \<open>
  C30. Making room. With a budget and a footprint below 2^62 and instances whose footprints add up to
  less, \<open>makeRoom\<close> returns, and: a footprint over the budget is refused with nothing
  unloaded; success means the instances left and the new one fit the budget; failure means they do
  not and every instance left is pinned or busy. It unloads only instances neither pinned nor busy,
  never one used later than another it could have taken instead, and no more than needed: before
  the last eviction the new model did not fit.
\<close>

theorem makeRoom_spec:
  assumes "0 < b" and "b < 2 ^ 62" and "0 \<le> need" and "small xs (2 ^ 62)" and "distinct (map fst xs)"
  shows "\<exists>v gone. makeRoom b keep need xs = (v, without gone xs, gone) \<and>
    (if b < need then v = TooBig \<and> gone = []
     else judged b keep need v (without gone xs) \<and> evicted_well b keep need xs gone)"
proof (cases "b < need")
  case True
  with assms(1) show ?thesis by (simp add: makeRoom_def)
next
  case False
  obtain v ys gone where r: "evict_loop b keep need xs [] = (v, ys, gone)" by (cases "evict_loop b keep need xs []")
  from False assms(2) have "need < 2 ^ 62" by simp
  from evict_loop_meaning [OF r assms(4,5,3) this] r False assms(1)
  show ?thesis by (auto simp: makeRoom_def)
qed

definition sample_insts :: "(nat \<times> inst) list" where
  "sample_insts =
     [(0, \<lparr>i_ref = ''a'', i_memory = 6, i_lastUsed = 1, i_active = 0, i_alive = True\<rparr>),
      (1, \<lparr>i_ref = ''b'', i_memory = 3, i_lastUsed = 2, i_active = 0, i_alive = True\<rparr>)]"

lemma makeRoom_spec_witness:
  "\<exists>v gone. makeRoom 10 (\<lambda>_. False) 6 sample_insts = (v, without gone sample_insts, gone) \<and>
     judged 10 (\<lambda>_. False) 6 v (without gone sample_insts)"
proof -
  have "small sample_insts (2 ^ 62)" and "distinct (map fst sample_insts)"
    by (simp_all add: sample_insts_def small_def memory_of_def)
  from makeRoom_spec [OF _ _ _ this, of 10 6 "\<lambda>_. False"]
  have "\<exists>v gone. makeRoom 10 (\<lambda>_. False) 6 sample_insts = (v, without gone sample_insts, gone) \<and>
    (if 10 < (6 :: int) then v = TooBig \<and> gone = []
     else judged 10 (\<lambda>_. False) 6 v (without gone sample_insts) \<and>
       evicted_well 10 (\<lambda>_. False) 6 sample_insts gone)" by simp
  then show ?thesis by auto
qed

section \<open>Under any interleaving\<close>

text \<open>
  C26. No child is lost. In every reachable state a live \<^verbatim>\<open>llama-server\<close> is the loaded instance
  of its model, the one its load waits for, one a load is stopping, or one the sweeper or the
  shutdown ordered to stop; the loaded map holds each instance under its own reference; and no
  model has one instance loaded and another starting.
\<close>

theorem children_accounted:
  assumes "reachable b keep s"
  shows "(\<forall>i. i_alive (insts s i) \<longrightarrow> accounted s i) \<and>
    (\<forall>ref i. loaded s ref = Some i \<longrightarrow> i_ref (insts s i) = ref \<and> (\<forall>n j. flight s ref \<noteq> Some (Booting n j)))"
  using reachable_wf [OF assms] wf_alive wf_loaded wf_flying by fastforce

text \<open>A first model asked for, missed and loaded.\<close>

lemmas step_intros = request_step.intros load_step.intros other_step.intros
lemmas request = reachable.more [OF _ step.intros(1)]
lemmas loading = reachable.more [OF _ step.intros(2)]

definition idle_inst :: inst where
  "idle_inst = \<lparr>i_ref = [], i_memory = 0, i_lastUsed = 0, i_active = 0, i_alive = False\<rparr>"

text \<open>What the example run keeps track of.\<close>

definition at_stage :: "router \<Rightarrow> (string \<Rightarrow> nat option) \<Rightarrow> (nat \<Rightarrow> inst) \<Rightarrow> nat \<Rightarrow> (string \<Rightarrow> load option) \<Rightarrow> bool" where
  "at_stage s l x n f \<longleftrightarrow> reachable 10 (\<lambda>_. False) s \<and> r_budget s = 10 \<and> loaded s = l \<and> insts s = x \<and>
     next_id s = n \<and> flight s = f"

lemma stage_asks:
  assumes "at_stage s l x n f" and "l ref = None" and "f ref = None"
  shows "\<exists>t. at_stage t l x n (f(ref \<mapsto> Making 6))"
proof -
  let ?s1 = "s\<lparr>missed := (missed s)(ref := missed s ref + 1)\<rparr>"
  let ?s2 = "?s1\<lparr>missed := (missed ?s1)(ref := missed ?s1 ref - 1),
      waiting := (waiting ?s1)(ref := waiting ?s1 ref + 1), flight := (flight ?s1)(ref \<mapsto> Checking)\<rparr>"
  let ?s3 = "set_load ref (Some Asking) ?s2"
  have a: "reachable 10 (\<lambda>_. False) s" "loaded s ref = None" "flight s ref = None" "r_budget s = 10"
    using assms by (auto simp: at_stage_def)
  have r1: "reachable 10 (\<lambda>_. False) ?s1" by (rule request [OF a(1) request_step.miss [OF a(2)]])
  have r2: "reachable 10 (\<lambda>_. False) ?s2" by (rule request [OF r1 request_step.take_off]) (simp_all add: a(3))
  have r3: "reachable 10 (\<lambda>_. False) ?s3" by (rule loading [OF r2 load_step.absent]) (simp_all add: a(2))
  have "reachable 10 (\<lambda>_. False) (set_load ref (Some (Making 6)) ?s3)"
    by (rule loading [OF r3 load_step.guarded]) (simp_all add: a(4) set_load_def)
  then have "at_stage (set_load ref (Some (Making 6)) ?s3) l x n (f(ref \<mapsto> Making 6))"
    using assms(1) by (simp add: at_stage_def set_load_def)
  then show ?thesis by blast
qed

lemma stage_fits:
  assumes "at_stage s l x n f" and "l = Map.empty" and "f ref = Some (Making 6)"
  shows "\<exists>t. at_stage t l x n (f(ref \<mapsto> Starting 6))"
proof -
  have a: "reachable 10 (\<lambda>_. False) s" "flight s ref = Some (Making 6)" "iterates [] s" "r_budget s = 10"
    using assms by (auto simp: at_stage_def iterates_def)
  have "room_pass (r_budget s) (r_keep s) 6 [] = Fits" by (simp add: room_pass_def a(4) wrap64_id)
  from loading [OF a(1) load_step.fits [OF a(2,3) this]]
  have "at_stage (set_load ref (Some (Starting 6)) s) l x n (f(ref \<mapsto> Starting 6))"
    using assms(1) by (simp add: at_stage_def set_load_def)
  then show ?thesis by blast
qed

definition fresh_inst :: "string \<Rightarrow> inst" where
  "fresh_inst ref = \<lparr>i_ref = ref, i_memory = 6, i_lastUsed = 1, i_active = 0, i_alive = True\<rparr>"

lemma stage_loads:
  assumes "at_stage s l x n f" and "f ref = Some (Starting 6)"
  shows "\<exists>t. at_stage t (l(ref \<mapsto> n)) (x(n := fresh_inst ref)) (Suc n) (f(ref := None))"
proof -
  have a: "reachable 10 (\<lambda>_. False) s" "flight s ref = Some (Starting 6)" "next_id s = n"
    using assms by (auto simp: at_stage_def)
  let ?s1 = "(set_load ref (Some (Booting 6 (next_id s)))
      (set_inst (next_id s) \<lparr>i_ref = ref, i_memory = 6, i_lastUsed = 1, i_active = 0, i_alive = True\<rparr> s))
        \<lparr>next_id := Suc (next_id s)\<rparr>"
  have r1: "reachable 10 (\<lambda>_. False) ?s1" by (rule loading [OF a(1) load_step.spawn [OF a(2)]])
  have "flight ?s1 ref = Some (Booting 6 n)" by (simp add: router_ops a(3))
  from loading [OF r1 load_step.placed [OF this, of 1]]
  have "at_stage (deliver ref n 1 (?s1\<lparr>loaded := (loaded ?s1)(ref \<mapsto> n)\<rparr>))
      (l(ref \<mapsto> n)) (x(n := fresh_inst ref)) (Suc n) (f(ref := None))"
    using assms(1) by (auto simp: at_stage_def router_ops fresh_inst_def)
  then show ?thesis by blast
qed

lemma stage_start: "at_stage (start_router 10 (\<lambda>_. False)) Map.empty (\<lambda>_. idle_inst) 0 Map.empty"
  by (simp add: at_stage_def reachable.start) (simp add: start_router_def idle_inst_def)

lemma children_accounted_witness:
  "\<exists>s. loaded s ''a'' = Some 0 \<and> i_alive (insts s 0) \<and> accounted s 0 \<and> (\<forall>n j. flight s ''a'' \<noteq> Some (Booting n j))"
proof -
  from stage_asks [OF stage_start, of "''a''"] obtain s1 where
    s1: "at_stage s1 Map.empty (\<lambda>_. idle_inst) 0 [''a'' \<mapsto> Making 6]" by auto
  from stage_fits [OF s1, of "''a''"] obtain s2 where
    "at_stage s2 Map.empty (\<lambda>_. idle_inst) 0 [''a'' \<mapsto> Starting 6]" by auto
  from stage_loads [OF this, of "''a''"] obtain s where
    s: "at_stage s [''a'' \<mapsto> 0] ((\<lambda>_. idle_inst)(0 := fresh_inst ''a'')) 1 Map.empty" by auto
  then have r: "reachable 10 (\<lambda>_. False) s" by (simp add: at_stage_def)
  from s have "loaded s ''a'' = Some 0" "i_alive (insts s 0)" by (auto simp: at_stage_def fresh_inst_def)
  with children_accounted [OF r] show ?thesis by blast
qed

definition loaded_memory :: "router \<Rightarrow> int" where
  "loaded_memory s = (\<Sum>i \<in> ran (loaded s). i_memory (insts s i))"

text \<open>
  C38. Two loads at once overcommit the budget. Each flight checks the loaded instances before its
  own is added, and flights of different models run side by side: a router with a budget of 10
  reaches a state with two live models of 6 each.
\<close>

theorem concurrent_loads_overcommit:
  "\<exists>s. reachable 10 (\<lambda>_. False) s \<and> loaded_memory s = 12 \<and> ran (loaded s) \<subseteq> {i. i_alive (insts s i)}"
proof -
  from stage_asks [OF stage_start, of "''a''"] obtain s1 where
    s1: "at_stage s1 Map.empty (\<lambda>_. idle_inst) 0 [''a'' \<mapsto> Making 6]" by auto
  from stage_asks [OF s1, of "''b''"] obtain s2 where
    s2: "at_stage s2 Map.empty (\<lambda>_. idle_inst) 0 [''a'' \<mapsto> Making 6, ''b'' \<mapsto> Making 6]" by auto
  from stage_fits [OF s2, of "''a''"] obtain s3 where
    s3: "at_stage s3 Map.empty (\<lambda>_. idle_inst) 0 [''b'' \<mapsto> Making 6, ''a'' \<mapsto> Starting 6]"
    by (auto simp: fun_upd_twist)
  from stage_fits [OF s3, of "''b''"] obtain s4 where
    s4: "at_stage s4 Map.empty (\<lambda>_. idle_inst) 0 [''a'' \<mapsto> Starting 6, ''b'' \<mapsto> Starting 6]"
    by (auto simp: fun_upd_twist)
  from stage_loads [OF s4, of "''a''"] obtain s5 where
    s5: "at_stage s5 [''a'' \<mapsto> 0] ((\<lambda>_. idle_inst)(0 := fresh_inst ''a'')) 1 [''b'' \<mapsto> Starting 6]"
    by (auto simp: fun_upd_twist)
  from stage_loads [OF s5, of "''b''"] obtain s where
    s: "at_stage s [''a'' \<mapsto> 0, ''b'' \<mapsto> 1] ((\<lambda>_. idle_inst)(0 := fresh_inst ''a'', 1 := fresh_inst ''b'')) 2 Map.empty"
    by (auto simp: numeral_2_eq_2)
  have ran: "ran [''a'' \<mapsto> 0 :: nat, ''b'' \<mapsto> 1] = {0, 1}" by (simp add: insert_commute)
  from s have l: "loaded s = [''a'' \<mapsto> 0, ''b'' \<mapsto> 1]"
    and x: "insts s = (\<lambda>_. idle_inst)(0 := fresh_inst ''a'', 1 := fresh_inst ''b'')"
    and r: "reachable 10 (\<lambda>_. False) s" by (simp_all add: at_stage_def)
  have "loaded_memory s = 12" unfolding loaded_memory_def l x ran by (simp add: fresh_inst_def)
  moreover have "ran (loaded s) \<subseteq> {i. i_alive (insts s i)}" unfolding l x ran by (simp add: fresh_inst_def)
  ultimately show ?thesis using r by blast
qed

section \<open>What unloading spares\<close>

lemma step_options: "step s t \<Longrightarrow> r_budget t = r_budget s \<and> r_keep t = r_keep s"
  by (auto elim!: stepE request_stepE load_stepE other_stepE simp: router_ops)

lemma reachable_options: "reachable b keep s \<Longrightarrow> r_budget s = b \<and> r_keep s = keep"
  by (induction rule: reachable.induct) (auto simp: start_router_def dest: step_options)

lemma load_step_unloads:
  assumes "load_step r s t" and wf: "wf_router s" and "loaded s ref = Some i" and "loaded t ref \<noteq> Some i"
  shows "\<not> r_keep s ref \<and> \<not> busy (insts s i)"
  using assms(1)
proof cases
  case (evict need xs j)
  from evict_loaded [OF wf evict(3,4)] have j: "loaded s (i_ref (insts s j)) = Some j"
    "\<not> r_keep s (i_ref (insts s j))" "\<not> busy (insts s j)" by auto
  from evict(1) assms(3,4) have "i_ref (insts s j) = ref" by (auto simp: router_ops split: if_splits)
  with j assms(3) show ?thesis by auto
next
  case (placed need j tm)
  from wf_flying [OF wf placed(2)] placed(1) assms(3,4) show ?thesis
    by (auto simp: router_ops split: if_splits)
qed (use assms(3,4) in \<open>auto simp: router_ops\<close>)

text \<open>
  What an eviction or a sweep takes. Whatever ran before, a load that makes room and a pass of
  the idle sweeper unload no pinned model and no model with a proxied request in progress.
\<close>

theorem unloading_spares:
  assumes "reachable b keep s" and "load_step r s t \<or> t = drop_victims (sweep_victims cutoff s) s"
    and "loaded s ref = Some i" and "loaded t ref \<noteq> Some i"
  shows "\<not> keep ref \<and> serving s i = 0"
proof -
  note wf = reachable_wf [OF assms(1)]
  have "\<not> r_keep s ref \<and> \<not> busy (insts s i)"
    using assms(2)
  proof
    assume "load_step r s t"
    from load_step_unloads [OF this wf assms(3,4)] show ?thesis .
  next
    assume "t = drop_victims (sweep_victims cutoff s) s"
    with assms(3,4) wf_loaded [OF wf] show ?thesis
      by (auto simp: drop_victims_def sweep_victims_def split: if_splits)
  qed
  then show ?thesis using reachable_options [OF assms(1)] wf_active [OF wf] by (auto simp: busy_def)
qed

lemma one_loaded:
  "\<exists>s. reachable 10 (\<lambda>_. False) s \<and> loaded s = [''a'' \<mapsto> 0] \<and> insts s 0 = fresh_inst ''a''"
proof -
  from stage_asks [OF stage_start, of "''a''"] obtain s1 where
    s1: "at_stage s1 Map.empty (\<lambda>_. idle_inst) 0 [''a'' \<mapsto> Making 6]" by auto
  from stage_fits [OF s1, of "''a''"] obtain s2 where
    "at_stage s2 Map.empty (\<lambda>_. idle_inst) 0 [''a'' \<mapsto> Starting 6]" by auto
  from stage_loads [OF this, of "''a''"] obtain s where
    "at_stage s [''a'' \<mapsto> 0] ((\<lambda>_. idle_inst)(0 := fresh_inst ''a'')) 1 Map.empty" by auto
  then show ?thesis by (auto simp: at_stage_def)
qed

lemma unloading_spares_witness: "\<exists>s :: router. loaded s ''a'' = Some 0 \<and> serving s 0 = 0"
proof -
  from one_loaded obtain s where r: "reachable 10 (\<lambda>_. False) s" and l: "loaded s = [''a'' \<mapsto> 0]"
    and x: "insts s 0 = fresh_inst ''a''" by blast
  define t where "t = drop_victims (sweep_victims 2 s) s"
  have "0 \<in> sweep_victims 2 s"
    using l x reachable_options [OF r] by (auto simp: sweep_victims_def fresh_inst_def busy_def)
  then have "loaded t ''a'' \<noteq> Some 0" by (simp add: t_def drop_victims_def l)
  from unloading_spares [OF r disjI2 [OF t_def] _ this] l have "serving s 0 = 0" by simp
  with l show ?thesis by (intro exI [of _ s]) simp
qed

section \<open>The budget\<close>

text \<open>Runs in which loads do not overlap.\<close>

definition one_flight :: "router \<Rightarrow> bool" where
  "one_flight s \<longleftrightarrow> (\<forall>r r'. flight s r \<noteq> None \<longrightarrow> flight s r' \<noteq> None \<longrightarrow> r = r')"

inductive serially :: "int \<Rightarrow> (string \<Rightarrow> bool) \<Rightarrow> router \<Rightarrow> bool" for b keep where
  serial_start: "serially b keep (start_router b keep)"
| serial_more: "serially b keep s \<Longrightarrow> step s t \<Longrightarrow> one_flight t \<Longrightarrow> serially b keep t"

lemma serially_reachable: "serially b keep s \<Longrightarrow> reachable b keep s \<and> one_flight s"
  by (induction rule: serially.induct) (auto intro: reachable.intros, simp add: one_flight_def start_router_def)

text \<open>What a load has been promised at each point.\<close>

fun promised :: "int \<Rightarrow> int \<Rightarrow> (nat \<Rightarrow> inst) \<Rightarrow> load \<Rightarrow> bool" where
  "promised b m x (Making n) \<longleftrightarrow> 0 \<le> n \<and> n \<le> b"
| "promised b m x (Stopping n i) \<longleftrightarrow> 0 \<le> n \<and> n \<le> b"
| "promised b m x (Starting n) \<longleftrightarrow> 0 \<le> n \<and> m + n \<le> b"
| "promised b m x (Booting n i) \<longleftrightarrow> 0 \<le> n \<and> m + n \<le> b \<and> i_memory (x i) = n"
| "promised b m x _ \<longleftrightarrow> True"

definition in_budget :: "int \<Rightarrow> router \<Rightarrow> bool" where
  "in_budget b s \<longleftrightarrow> finite (ran (loaded s)) \<and> (\<forall>i. 0 \<le> i_memory (insts s i)) \<and> loaded_memory s \<le> b \<and>
     (\<forall>ref l. flight s ref = Some l \<longrightarrow> promised b (loaded_memory s) (insts s) l)"

lemma in_budget_promised: "in_budget b s \<Longrightarrow> flight s ref = Some l \<Longrightarrow> promised b (loaded_memory s) (insts s) l"
  by (simp add: in_budget_def)

lemma promised_mono: "promised b m x l \<Longrightarrow> m' \<le> m \<Longrightarrow> (\<And>i. i_memory (y i) = i_memory (x i)) \<Longrightarrow> promised b m' y l"
  by (cases l) auto

lemma in_budget_shrinks:
  assumes B: "in_budget b s" and sub: "ran (loaded t) \<subseteq> ran (loaded s)"
    and mem: "\<And>i. i_memory (insts t i) = i_memory (insts s i)"
    and fl: "\<And>ref l. flight t ref = Some l \<Longrightarrow> flight s ref = Some l \<or> promised b (loaded_memory s) (insts s) l"
  shows "in_budget b t"
proof -
  have fin: "finite (ran (loaded s))" and nn: "\<And>i. 0 \<le> i_memory (insts s i)" using B by (auto simp: in_budget_def)
  have le: "loaded_memory t \<le> loaded_memory s"
    unfolding loaded_memory_def mem by (rule sum_mono2 [OF fin sub]) (simp add: nn)
  have "promised b (loaded_memory t) (insts t) l" if "flight t ref = Some l" for ref l
    by (rule promised_mono [OF _ le mem]) (use fl [OF that] B in \<open>auto simp: in_budget_def\<close>)
  with le B show ?thesis using finite_subset [OF sub fin] by (auto simp: in_budget_def mem)
qed

lemma iterates_memory:
  assumes "iterates xs s"
  shows "memory_of xs = loaded_memory s"
proof -
  have img: "set xs = (\<lambda>i. (i, insts s i)) ` ran (loaded s)" and dist: "distinct (map fst xs)"
    using assms by (auto simp: iterates_def)
  then have "fst ` set xs = ran (loaded s)" by force
  moreover have "memory_of xs = (\<Sum>x \<in> set xs. i_memory (snd x))"
    unfolding memory_of_def by (rule sum_list_distinct_conv_sum_set) (rule dist [unfolded distinct_map, THEN conjunct1])
  moreover have "(\<Sum>x \<in> set xs. i_memory (snd x)) = (\<Sum>i \<in> ran (loaded s). i_memory (insts s i))"
    unfolding img by (subst sum.reindex) (auto simp: inj_on_def)
  ultimately show ?thesis by (simp add: loaded_memory_def)
qed

lemma fits_in_budget:
  assumes B: "in_budget b s" and b: "b < 2 ^ 62" and it: "iterates xs s"
    and n: "0 \<le> need" "need \<le> b" and pass: "room_pass b keep need xs = Fits"
  shows "loaded_memory s + need \<le> b"
proof -
  note m = iterates_memory [OF it]
  have "small xs (2 ^ 62)"
    using it B b by (auto simp: small_def m in_budget_def iterates_def)
  from pass_meaning [OF this n(1), of b keep] n b pass m show ?thesis by simp
qed

lemma placed_in_budget:
  assumes wf: "wf_router s" and B: "in_budget b s" and f: "flight s ref = Some (Booting need i)"
    and one: "one_flight s"
  shows "in_budget b (deliver ref i tm (s\<lparr>loaded := (loaded s)(ref \<mapsto> i)\<rparr>))" (is "in_budget b ?t")
proof -
  have none: "loaded s ref = None" using wf_flying [OF wf f] by simp
  have p: "loaded_memory s + need \<le> b" "i_memory (insts s i) = need" and fin: "finite (ran (loaded s))"
    using in_budget_promised [OF B f] B by (auto simp: in_budget_def)
  have ran: "ran (loaded ?t) = insert i (ran (loaded s))"
    using none by (simp add: router_ops)
  have mem: "i_memory (insts ?t j) = i_memory (insts s j)" for j by (simp add: router_ops)
  have fl: "flight ?t r = None" for r
    using one f by (auto simp: one_flight_def router_ops)
  have "loaded_memory ?t \<le> loaded_memory s + need"
    unfolding loaded_memory_def ran mem using p(2) fin B
    by (cases "i \<in> ran (loaded s)") (auto simp: insert_absorb in_budget_def)
  with p B show ?thesis by (simp add: in_budget_def ran mem fl)
qed

lemma load_step_budget:
  assumes "load_step ref s t" and wf: "wf_router s" and B: "in_budget b s" and one: "one_flight s"
    and b: "0 < b" "b < 2 ^ 62" "r_budget s = b"
  shows "in_budget b t"
  using assms(1)
proof cases
  case (fits need xs)
  from in_budget_promised [OF B fits(2)] have "0 \<le> need" "need \<le> b" by auto
  with fits_in_budget [OF B b(2) fits(3)] fits(4) b(3) have "loaded_memory s + need \<le> b" by simp
  with \<open>0 \<le> need\<close> fits(1) show ?thesis
    by (intro in_budget_shrinks [OF B]) (auto simp: router_ops split: if_splits)
next
  case (evict need xs i)
  from in_budget_promised [OF B evict(2)] have "0 \<le> need" "need \<le> b" by auto
  moreover have "ran ((loaded s)(k := None)) \<subseteq> ran (loaded s)" for k by (auto simp: ran_def)
  ultimately show ?thesis using evict(1)
    by (intro in_budget_shrinks [OF B]) (auto simp: router_ops split: if_splits)
next
  case (stopped need i)
  from in_budget_promised [OF B stopped(2)] have "0 \<le> need" "need \<le> b" by auto
  with stopped(1) show ?thesis
    by (intro in_budget_shrinks [OF B]) (auto simp: router_ops split: if_splits)
next
  case (spawn need tm)
  from in_budget_promised [OF B spawn(2)] have n: "0 \<le> need" "loaded_memory s + need \<le> b" by auto
  have old: "i \<noteq> next_id s" if "i \<in> ran (loaded s)" for i
    using that wf_loaded [OF wf] by (auto simp: ran_def)
  have ld: "loaded t = loaded s" by (simp add: spawn(1) router_ops)
  have m: "loaded_memory t = loaded_memory s"
    unfolding loaded_memory_def ld by (rule sum.cong) (use old in \<open>auto simp: spawn(1) router_ops\<close>)
  have "flight t r = None \<or> r = ref \<and> flight t r = Some (Booting need (next_id s))" for r
    using one spawn(2) by (auto simp: one_flight_def spawn(1) router_ops)
  then have fl: "l = Booting need (next_id s)" if "flight t r = Some l" for r l
    using that by (metis option.distinct(1) option.inject)
  have new: "i_memory (insts t (next_id s)) = need" by (simp add: spawn(1) router_ops)
  have nn: "0 \<le> i_memory (insts t i)" for i
    using B n by (auto simp: in_budget_def spawn(1) router_ops)
  have "promised b (loaded_memory t) (insts t) l" if "flight t r = Some l" for r l
    unfolding fl [OF that] m by (simp add: n new)
  with B m ld nn show ?thesis unfolding in_budget_def by simp
next
  case (placed need i tm)
  then show ?thesis using placed_in_budget [OF wf B _ one] by simp
qed (use b(1) in \<open>auto intro!: in_budget_shrinks [OF B] simp: router_ops b(3) split: if_splits\<close>)

lemma quiet_step_budget:
  assumes "request_step s t \<or> other_step s t" and B: "in_budget b s"
  shows "in_budget b t"
proof -
  have drop: "ran (\<lambda>ref. case m ref of Some i \<Rightarrow> if i \<in> V then None else Some i | None \<Rightarrow> None) \<subseteq> ran m"
    for m :: "string \<Rightarrow> nat option" and V by (auto simp: ran_def split: option.splits if_splits)
  have del: "ran ((loaded s)(k := None)) \<subseteq> ran (loaded s)" for k by (auto simp: ran_def)
  show ?thesis
    using assms(1)
    by (auto elim!: request_stepE other_stepE intro!: in_budget_shrinks [OF B]
        simp: router_ops subsetD [OF drop] subsetD [OF del] split: if_splits)
qed

text \<open>
  The budget holds while loads do not overlap: with a positive budget below 2^62, in every state
  reached with at most one load in flight at a time, the footprints of the loaded models add up to
  no more than the budget, and so they do with that of the model being started.
\<close>

theorem serial_budget:
  assumes "serially b keep s" and "0 < b" and "b < 2 ^ 62"
  shows "loaded_memory s \<le> b \<and>
    (\<forall>ref need i. flight s ref = Some (Booting need i) \<longrightarrow> loaded_memory s + need \<le> b)"
proof -
  have "in_budget b s"
    using assms(1)
  proof induction
    case serial_start
    show ?case using assms(2) by (simp add: in_budget_def start_router_def loaded_memory_def)
  next
    case (serial_more s t)
    from serially_reachable [OF serial_more.hyps(1)] have r: "reachable b keep s" and one: "one_flight s" by auto
    note wf = reachable_wf [OF r]
    from serial_more.hyps(2) show ?case
    proof cases
      case (2 ref)
      from load_step_budget [OF this wf serial_more.IH one assms(2,3)] reachable_options [OF r]
      show ?thesis by simp
    qed (use quiet_step_budget [OF _ serial_more.IH] in blast)+
  qed
  then show ?thesis using in_budget_promised by (fastforce simp: in_budget_def)
qed

lemma serial_budget_witness: "loaded_memory (start_router 10 (\<lambda>_. False)) \<le> 10"
  using serial_budget [OF serial_start, of 10 "\<lambda>_. False"] by simp

section \<open>Who is let in\<close>

text \<open>
  Authorization. With a bearer token configured, a request is served, or even told that its path
  is unknown, only if its Authorization header is the token itself or the token after
  \<^verbatim>\<open>Bearer\<close>; with none configured every request is let in.
\<close>

theorem only_authorized:
  "ServeHTTP token header meth path \<noteq> Unauthorized \<longleftrightarrow>
     token = [] \<or> header = ''Bearer '' @ token \<or> header = token \<and> \<not> prefix ''Bearer '' token"
  by (auto simp: ServeHTTP_def authorized_def trim_prefix_def prefix_def)

end
