(* ===== verification/Attest.thy ===== *)
theory Attest
  imports Digests JsonText
begin

text \<open>
  \<^verbatim>\<open>internal/attest\<close>: the statement of where an artifact's layers came from, in a signed
  DSSE envelope. Signing and verifying are parameters over keys: \<open>sign\<close> may fail, \<open>verifies\<close> takes
  the signature and the message.
\<close>

section \<open>Statements\<close>

definition PredicateType :: string where
  "PredicateType = ''https://palan.dev/source/v1''"

definition PayloadType :: string where
  "PayloadType = ''application/vnd.in-toto+json''"

definition StatementType :: string where
  "StatementType = ''https://in-toto.io/Statement/v1''"

record layer =
  l_Digest :: string
  l_Repo :: string
  l_Revision :: string
  l_Path :: string
  l_Published :: string

record statement =
  s_Subject :: "(string \<times> (string \<times> string) list) list"
  s_PredicateType :: string
  s_Layers :: "layer list"

record envelope =
  e_Payload :: string
  e_PayloadType :: string
  e_Signatures :: "string list"

datatype attest_error =
    EmptyDigest | DigestForm string | DigestMalformed string
  | NoLayers | SourceUnknown string | BadLayer string attest_error | BadPublished string attest_error
  | BadSubject attest_error | CannotSign
  | EnvelopeDecode | WrongPayload string | NoSignatures | PayloadEncoding | NotVerified
  | BadStatement | WrongPredicate string | SubjectCount nat | OtherArtifact

text \<open>The bytes the signature covers.\<close>

definition attest_pae :: "string \<Rightarrow> string" where
  "attest_pae payload =
     ''DSSEv1 '' @ itoa (int (length PayloadType)) @ '' '' @ PayloadType @ '' '' @
     itoa (int (length payload)) @ '' '' @ payload"

definition validDigest :: "digest_lib \<Rightarrow> string \<Rightarrow> attest_error + unit" where
  "validDigest L s =
     (if s = [] then Inl EmptyDigest
      else if \<not> prefix ''sha256:'' s then Inl (DigestForm s)
      else if \<not> Validate_ok L s then Inl (DigestMalformed s)
      else Inr ())"

definition valid_layer :: "digest_lib \<Rightarrow> layer \<Rightarrow> attest_error + unit" where
  "valid_layer L l =
     (if l_Repo l = [] \<or> l_Path l = [] then Inl (SourceUnknown (l_Digest l))
      else bind_res (map_error (BadLayer (l_Path l)) (validDigest L (l_Digest l))) (\<lambda>_.
        if l_Published l \<noteq> [] then map_error (BadPublished (l_Path l)) (validDigest L (l_Published l))
        else Inr ()))"

fun valid_all :: "digest_lib \<Rightarrow> layer list \<Rightarrow> attest_error + unit" where
  "valid_all L [] = Inr ()"
| "valid_all L (l # ls) = bind_res (valid_layer L l) (\<lambda>_. valid_all L ls)"

definition validateLayers :: "digest_lib \<Rightarrow> layer list \<Rightarrow> attest_error + unit" where
  "validateLayers L ls = (if ls = [] then Inl NoLayers else valid_all L ls)"

section \<open>Their documents\<close>

definition omitempty :: "string \<Rightarrow> string \<Rightarrow> (string \<times> json) list" where
  "omitempty k v = (if v = [] then [] else [(k, JStr v)])"

definition layer_json :: "layer \<Rightarrow> json" where
  "layer_json l = JObj
     ([(''digest'', JStr (l_Digest l)), (''repo'', JStr (l_Repo l))] @
      omitempty ''revision'' (l_Revision l) @ [(''path'', JStr (l_Path l))] @
      omitempty ''published'' (l_Published l))"

definition subject_json :: "string \<times> (string \<times> string) list \<Rightarrow> json" where
  "subject_json sub = JObj
     [(''name'', JStr (fst sub)), (''digest'', JObj (map (\<lambda>(a, h). (a, JStr h)) (snd sub)))]"

definition statement_json :: "statement \<Rightarrow> json" where
  "statement_json s = JObj
     [(''_type'', JStr StatementType),
      (''subject'', JArr (map subject_json (s_Subject s))),
      (''predicateType'', JStr (s_PredicateType s)),
      (''predicate'', JObj [(''layers'', JArr (map layer_json (s_Layers s)))])]"

definition envelope_json :: "envelope \<Rightarrow> json" where
  "envelope_json e = JObj
     [(''payload'', JStr (e_Payload e)), (''payloadType'', JStr (e_PayloadType e)),
      (''signatures'', JArr (map (\<lambda>s. JObj [(''sig'', JStr s)]) (e_Signatures e)))]"

definition members_of :: "json \<Rightarrow> (string \<times> json) list option" where
  "members_of j = (case j of JObj ms \<Rightarrow> Some ms | JNull \<Rightarrow> Some [] | _ \<Rightarrow> None)"

definition decode_layer :: "json \<Rightarrow> layer option" where
  "decode_layer j = Option.bind (members_of j) (\<lambda>ms.
     case (str_field ''digest'' ms, str_field ''repo'' ms, str_field ''revision'' ms,
           str_field ''path'' ms, str_field ''published'' ms) of
       (Some d, Some r, Some v, Some p, Some q) \<Rightarrow>
         Some \<lparr>l_Digest = d, l_Repo = r, l_Revision = v, l_Path = p, l_Published = q\<rparr>
     | _ \<Rightarrow> None)"

definition decode_subject :: "json \<Rightarrow> (string \<times> (string \<times> string) list) option" where
  "decode_subject j = Option.bind (members_of j) (\<lambda>ms.
     case (str_field ''name'' ms, map_field decode_str ''digest'' ms) of
       (Some n, Some d) \<Rightarrow> Some (n, d) | _ \<Rightarrow> None)"

definition decode_predicate :: "json \<Rightarrow> layer list option" where
  "decode_predicate j = Option.bind (members_of j) (list_field decode_layer ''layers'')"

definition decode_statement :: "json \<Rightarrow> statement option" where
  "decode_statement j = Option.bind (members_of j) (\<lambda>ms.
     case (str_field ''_type'' ms, list_field decode_subject ''subject'' ms,
           str_field ''predicateType'' ms, sub_field decode_predicate ''predicate'' ms) of
       (Some _, Some sub, Some pt, Some pr) \<Rightarrow>
         Some \<lparr>s_Subject = sub, s_PredicateType = pt,
               s_Layers = (case pr of Some ls \<Rightarrow> ls | None \<Rightarrow> [])\<rparr>
     | _ \<Rightarrow> None)"

definition decode_sig :: "json \<Rightarrow> string option" where
  "decode_sig j = Option.bind (members_of j) (str_field ''sig'')"

definition decode_envelope :: "json \<Rightarrow> envelope option" where
  "decode_envelope j = Option.bind (members_of j) (\<lambda>ms.
     case (str_field ''payload'' ms, str_field ''payloadType'' ms, list_field decode_sig ''signatures'' ms) of
       (Some p, Some t, Some ss) \<Rightarrow> Some \<lparr>e_Payload = p, e_PayloadType = t, e_Signatures = ss\<rparr>
     | _ \<Rightarrow> None)"

section \<open>Build and Verify\<close>

text \<open>\<^verbatim>\<open>strings.Cut\<close> at a one-byte separator, and \<^verbatim>\<open>strings.EqualFold\<close> on ASCII.\<close>

definition cut_at :: "char \<Rightarrow> string \<Rightarrow> string \<times> string" where
  "cut_at c s = (case index_of s [c] of Some i \<Rightarrow> (take i s, drop (Suc i) s) | None \<Rightarrow> (s, []))"

definition equal_fold :: "string \<Rightarrow> string \<Rightarrow> bool" where
  "equal_fold a b \<longleftrightarrow> to_lower a = to_lower b"

definition statement_of :: "string \<Rightarrow> layer list \<Rightarrow> statement" where
  "statement_of dg layers =
     \<lparr>s_Subject = [(dg, [cut_at CHR '':'' dg])], s_PredicateType = PredicateType, s_Layers = layers\<rparr>"

definition Build ::
    "digest_lib \<Rightarrow> (string \<Rightarrow> string option) \<Rightarrow> string \<Rightarrow> layer list \<Rightarrow> attest_error + string" where
  "Build L sign dg layers =
     bind_res (validateLayers L layers) (\<lambda>_.
     bind_res (map_error BadSubject (validDigest L dg)) (\<lambda>_.
       let payload = show_json (statement_json (statement_of dg layers)) in
       bind_res (from_option CannotSign (sign (attest_pae payload))) (\<lambda>sg.
         Inr (show_json (envelope_json
           \<lparr>e_Payload = b64_encode payload, e_PayloadType = PayloadType,
             e_Signatures = [b64_encode sg]\<rparr>)))))"

text \<open>Some signature of the envelope decodes and verifies over the message.\<close>

definition any_verifies :: "(string \<Rightarrow> string \<Rightarrow> bool) \<Rightarrow> string \<Rightarrow> string list \<Rightarrow> bool" where
  "any_verifies verifies message sigs \<longleftrightarrow>
     list_ex (\<lambda>s. case b64_decode s of Some raw \<Rightarrow> verifies raw message | None \<Rightarrow> False) sigs"

definition about :: "statement \<Rightarrow> string \<Rightarrow> bool" where
  "about stmt dg \<longleftrightarrow>
     (case map_of (snd (hd (s_Subject stmt))) (fst (cut_at CHR '':'' dg)) of
        Some got \<Rightarrow> equal_fold got (snd (cut_at CHR '':'' dg))
      | None \<Rightarrow> False)"

definition Verify ::
    "digest_lib \<Rightarrow> (string \<Rightarrow> string \<Rightarrow> bool) \<Rightarrow> string \<Rightarrow> string \<Rightarrow> attest_error + layer list" where
  "Verify L verifies data dg =
     bind_res (map_error BadSubject (validDigest L dg)) (\<lambda>_.
     bind_res (from_option EnvelopeDecode (Option.bind (parse_json data) decode_envelope)) (\<lambda>env.
     bind_res (require (e_PayloadType env = PayloadType) (WrongPayload (e_PayloadType env))) (\<lambda>_.
     bind_res (require (e_Signatures env \<noteq> []) NoSignatures) (\<lambda>_.
     bind_res (from_option PayloadEncoding (b64_decode (e_Payload env))) (\<lambda>payload.
     bind_res (require (any_verifies verifies (attest_pae payload) (e_Signatures env)) NotVerified) (\<lambda>_.
     bind_res (from_option BadStatement (Option.bind (parse_json payload) decode_statement)) (\<lambda>stmt.
     bind_res (require (s_PredicateType stmt = PredicateType) (WrongPredicate (s_PredicateType stmt))) (\<lambda>_.
     bind_res (require (length (s_Subject stmt) = 1) (SubjectCount (length (s_Subject stmt)))) (\<lambda>_.
     bind_res (require (about stmt dg) OtherArtifact) (\<lambda>_.
     bind_res (validateLayers L (s_Layers stmt)) (\<lambda>_.
       Inr (s_Layers stmt))))))))))))"

end
