(* ===== verification/Signing.thy ===== *)
theory Signing
  imports Attest
begin

text \<open>
  \<^verbatim>\<open>internal/signing\<close>: cosign signatures, source attestations and keyless bundles beside an
  artifact. A source of manifests and blobs (a registry, the local layout, a bundle) is the record
  \<open>target\<close>; its \<open>t_Fetch\<close> is the library's \<^verbatim>\<open>content.FetchAll\<close>, which checks what it read.
\<close>

section \<open>Sources\<close>

datatype lookup_error = NotFoundErr | HiddenErr | UnsupportedErr | LookupFailed

record referrer = descriptor +
  ArtifactType :: string

abbreviation referrer_node :: "referrer \<Rightarrow> node" where
  "referrer_node r \<equiv> node.truncate r"

record target =
  t_Resolve :: "string \<Rightarrow> lookup_error + node"
  t_Fetch :: "node \<Rightarrow> string option"
  t_graph :: bool
  t_Referrers :: "node \<Rightarrow> string \<Rightarrow> lookup_error + referrer list"

definition hiddenAsAbsent :: "lookup_error \<Rightarrow> bool" where
  "hiddenAsAbsent e \<longleftrightarrow> e = NotFoundErr \<or> e = HiddenErr"

section \<open>Names\<close>

text \<open>\<^verbatim>\<open>strings.Replace\<close> of the first colon, and the part after the last one.\<close>

definition dash_digest :: "string \<Rightarrow> string" where
  "dash_digest d = (case index_of d '':'' of Some i \<Rightarrow> take i d @ ''-'' @ drop (Suc i) d | None \<Rightarrow> d)"

definition after_colon :: "string \<Rightarrow> string" where
  "after_colon ref = (case last_index ref (CHR '':'') of Some i \<Rightarrow> drop (Suc i) ref | None \<Rightarrow> ref)"

definition suffix_of :: "string \<Rightarrow> string \<Rightarrow> bool" where
  "suffix_of p s \<longleftrightarrow> prefix (rev p) (rev s)"

definition SigTag :: "string \<Rightarrow> string" where "SigTag d = dash_digest d @ ''.sig''"
definition AttTag :: "string \<Rightarrow> string" where "AttTag d = dash_digest d @ ''.att''"
definition BundleTag :: "string \<Rightarrow> string" where "BundleTag d = dash_digest d @ ''.sigstore''"

definition IsSigTag :: "string \<Rightarrow> bool" where
  "IsSigTag ref \<longleftrightarrow> prefix ''sha256-'' (after_colon ref) \<and> suffix_of ''.sig'' (after_colon ref)"

definition IsAttTag :: "string \<Rightarrow> bool" where
  "IsAttTag ref \<longleftrightarrow> prefix ''sha256-'' (after_colon ref) \<and> suffix_of ''.att'' (after_colon ref)"

definition IsBundleTag :: "string \<Rightarrow> bool" where
  "IsBundleTag ref \<longleftrightarrow> prefix ''sha256-'' (after_colon ref) \<and> suffix_of ''.sigstore'' (after_colon ref)"

text \<open>A reference; its text is the registry library's \<^verbatim>\<open>String\<close>, a parameter.\<close>

record reference =
  rf_Registry :: string
  rf_Repository :: string
  rf_Reference :: string

definition SigRef :: "(reference \<Rightarrow> string) \<Rightarrow> reference \<Rightarrow> string \<Rightarrow> string" where
  "SigRef str ref d = str (ref\<lparr>rf_Reference := SigTag d\<rparr>)"

definition AttRef :: "(reference \<Rightarrow> string) \<Rightarrow> reference \<Rightarrow> string \<Rightarrow> string" where
  "AttRef str ref d = str (ref\<lparr>rf_Reference := AttTag d\<rparr>)"

definition BundleRef :: "(reference \<Rightarrow> string) \<Rightarrow> reference \<Rightarrow> string \<Rightarrow> string" where
  "BundleRef str ref d = str (ref\<lparr>rf_Reference := BundleTag d\<rparr>)"

section \<open>The claim\<close>

definition MediaTypeSimpleSigning :: string where
  "MediaTypeSimpleSigning = ''application/vnd.dev.cosign.simplesigning.v1+json''"

definition AnnotationSignature :: string where
  "AnnotationSignature = ''dev.cosignproject.cosign/signature''"

definition ArtifactTypeSignature :: string where
  "ArtifactTypeSignature = ''application/vnd.dev.cosign.artifact.sig.v1+json''"

definition claim_type :: string where
  "claim_type = ''cosign container image signature''"

definition claim_json :: "string \<Rightarrow> string \<Rightarrow> json" where
  "claim_json repo dg = JObj
     [(''critical'', JObj
        [(''identity'', JObj [(''docker-reference'', JStr repo)]),
         (''image'', JObj [(''docker-manifest-digest'', JStr dg)]),
         (''type'', JStr claim_type)]),
      (''optional'', JNull)]"

definition buildPayload :: "string \<Rightarrow> string \<Rightarrow> string" where
  "buildPayload repo dg = show_json (claim_json repo dg)"

text \<open>The claim read: the repository and the digest it names.\<close>

definition obj_or_empty :: "string \<Rightarrow> (string \<times> json) list \<Rightarrow> (string \<times> json) list option" where
  "obj_or_empty k ms = (case sub_field members_of k ms of
     None \<Rightarrow> None | Some None \<Rightarrow> Some [] | Some (Some os) \<Rightarrow> Some os)"

definition decode_claim :: "json \<Rightarrow> (string \<times> string) option" where
  "decode_claim j =
     Option.bind (members_of j) (\<lambda>ms.
     Option.bind (obj_or_empty ''critical'' ms) (\<lambda>cs.
     Option.bind (Option.bind (obj_or_empty ''identity'' cs) (str_field ''docker-reference'')) (\<lambda>repo.
     Option.bind (Option.bind (obj_or_empty ''image'' cs) (str_field ''docker-manifest-digest'')) (\<lambda>dg.
     Option.bind (str_field ''type'' cs) (\<lambda>_.
     Option.bind (obj_or_empty ''optional'' ms) (\<lambda>_. Some (repo, dg)))))))"

section \<open>Verifying\<close>

datatype sig_error =
    NoSignature | NoSignatureFor string | SigResolve lookup_error | SigReferrers lookup_error
  | ManifestFetch | ManifestDecode | MalformedSignature | PayloadFetch | BadSig | MalformedPayload
  | OtherDigest string | OtherIdentity string

text \<open>One layer of a signature manifest: passed over, accepted, or wrong in some way.\<close>

datatype layer_verdict = Skipped | Accepted | Wrong sig_error

definition check_sig_layer :: "target \<Rightarrow> string \<Rightarrow> string \<Rightarrow> (string \<Rightarrow> string \<Rightarrow> bool) \<Rightarrow> descriptor \<Rightarrow> layer_verdict" where
  "check_sig_layer src repo dg verifies layer =
     (if MediaType layer \<noteq> MediaTypeSimpleSigning then Skipped
      else let b64 = lookup_str (Annotations layer) AnnotationSignature in
        if b64 = [] then Skipped
        else case b64_decode b64 of
          None \<Rightarrow> Wrong MalformedSignature
        | Some sg \<Rightarrow>
            (case t_Fetch src (node_of layer) of
               None \<Rightarrow> Wrong PayloadFetch
             | Some pl \<Rightarrow>
                 if \<not> verifies sg pl then Wrong BadSig
                 else case Option.bind (parse_json pl) decode_claim of
                   None \<Rightarrow> Wrong MalformedPayload
                 | Some (claimed_repo, claimed_dg) \<Rightarrow>
                     if claimed_dg \<noteq> dg then Wrong (OtherDigest claimed_dg)
                     else if claimed_repo \<noteq> repo then Wrong (OtherIdentity claimed_repo)
                     else Accepted))"

fun check_sig_layers :: "target \<Rightarrow> string \<Rightarrow> string \<Rightarrow> (string \<Rightarrow> string \<Rightarrow> bool) \<Rightarrow> descriptor list \<Rightarrow>
    sig_error \<Rightarrow> sig_error + unit" where
  "check_sig_layers src repo dg verifies [] last_err = Inl last_err"
| "check_sig_layers src repo dg verifies (l # ls) last_err =
     (case check_sig_layer src repo dg verifies l of
        Accepted \<Rightarrow> Inr ()
      | Skipped \<Rightarrow> check_sig_layers src repo dg verifies ls last_err
      | Wrong e \<Rightarrow> check_sig_layers src repo dg verifies ls e)"

definition verifyManifest :: "target \<Rightarrow> node \<Rightarrow> string \<Rightarrow> string \<Rightarrow> (string \<Rightarrow> string \<Rightarrow> bool) \<Rightarrow> sig_error + unit" where
  "verifyManifest src desc repo dg verifies =
     bind_res (from_option ManifestFetch (t_Fetch src desc)) (\<lambda>raw.
     bind_res (from_option ManifestDecode (unmarshal_manifest raw)) (\<lambda>m.
       check_sig_layers src repo dg verifies (Layers m) NoSignature))"

definition sig_referrers :: "target \<Rightarrow> node \<Rightarrow> sig_error + referrer list" where
  "sig_referrers src subject =
     (if \<not> t_graph src then Inr []
      else case t_Referrers src subject ArtifactTypeSignature of
        Inr rs \<Rightarrow> Inr rs
      | Inl e \<Rightarrow> if e = NotFoundErr \<or> e = UnsupportedErr then Inr [] else Inl (SigReferrers e))"

fun try_manifests :: "target \<Rightarrow> string \<Rightarrow> string \<Rightarrow> (string \<Rightarrow> string \<Rightarrow> bool) \<Rightarrow> node list \<Rightarrow> sig_error \<Rightarrow>
    sig_error + unit" where
  "try_manifests src repo dg verifies [] last_err = Inl last_err"
| "try_manifests src repo dg verifies (n # ns) last_err =
     (case verifyManifest src n repo dg verifies of
        Inr _ \<Rightarrow> Inr ()
      | Inl e \<Rightarrow> try_manifests src repo dg verifies ns e)"

definition Verify_sig :: "target \<Rightarrow> string \<Rightarrow> string \<Rightarrow> node \<Rightarrow> (string \<Rightarrow> string \<Rightarrow> bool) \<Rightarrow> sig_error + unit" where
  "Verify_sig src sig_ref repo subject verifies =
     (case t_Resolve src sig_ref of
        Inr desc \<Rightarrow> verifyManifest src desc repo (Digest subject) verifies
      | Inl e \<Rightarrow>
          if e \<noteq> NotFoundErr then Inl (SigResolve e)
          else bind_res (sig_referrers src subject) (\<lambda>sigs.
            try_manifests src repo (Digest subject) verifies (map referrer_node sigs)
              (NoSignatureFor (Digest subject))))"

section \<open>Attestations\<close>

definition ArtifactTypeAttestation :: string where
  "ArtifactTypeAttestation = ''application/vnd.dsse.envelope.v1+json''"

definition AnnotationPredicateType :: string where
  "AnnotationPredicateType = ''predicateType''"

datatype att_error =
    NoAttestation string | AttResolve lookup_error | AttReferrers lookup_error
  | AttFetch | AttDecode | NoEnvelopeLayer string

definition attestationReferrers :: "target \<Rightarrow> node \<Rightarrow> att_error + referrer list" where
  "attestationReferrers src subject =
     (if \<not> t_graph src then Inr []
      else case t_Referrers src subject ArtifactTypeAttestation of
        Inr rs \<Rightarrow> Inr rs
      | Inl e \<Rightarrow> if hiddenAsAbsent e \<or> e = UnsupportedErr then Inr [] else Inl (AttReferrers e))"

definition fetchEnvelope :: "target \<Rightarrow> node \<Rightarrow> att_error + string" where
  "fetchEnvelope src desc =
     bind_res (from_option AttFetch (t_Fetch src desc)) (\<lambda>raw.
     bind_res (from_option AttDecode (unmarshal_manifest raw)) (\<lambda>m.
       case filter (\<lambda>l. MediaType l = ArtifactTypeAttestation) (Layers m) of
         [] \<Rightarrow> Inl (NoEnvelopeLayer (Digest desc))
       | l # _ \<Rightarrow> from_option AttFetch (t_Fetch src (node_of l))))"

definition FetchAttestation :: "target \<Rightarrow> string \<Rightarrow> node \<Rightarrow> att_error + string" where
  "FetchAttestation src att_ref subject =
     (case t_Resolve src att_ref of
        Inr desc \<Rightarrow> fetchEnvelope src desc
      | Inl e \<Rightarrow>
          if \<not> hiddenAsAbsent e then Inl (AttResolve e)
          else bind_res (attestationReferrers src subject) (\<lambda>atts.
            case atts of
              [] \<Rightarrow> Inl (NoAttestation (Digest subject))
            | a # _ \<Rightarrow> fetchEnvelope src (referrer_node a)))"

definition AnnotationSourceRepo :: string where "AnnotationSourceRepo = ''io.palan.source.repo''"
definition AnnotationSourcePath :: string where "AnnotationSourcePath = ''io.palan.source.path''"
definition AnnotationSourceRevision :: string where "AnnotationSourceRevision = ''io.palan.source.revision''"
definition AnnotationOriginSHA256 :: string where "AnnotationOriginSHA256 = ''io.palan.origin.sha256''"

definition source_layer :: "descriptor \<Rightarrow> layer option" where
  "source_layer d =
     (let repo = lookup_str (Annotations d) AnnotationSourceRepo;
          path = lookup_str (Annotations d) AnnotationSourcePath;
          origin = lookup_str (Annotations d) AnnotationOriginSHA256 in
      if repo = [] \<or> path = [] then None
      else Some \<lparr>l_Digest = Digest d, l_Repo = repo,
                 l_Revision = lookup_str (Annotations d) AnnotationSourceRevision, l_Path = path,
                 l_Published = (if origin \<noteq> [] then ''sha256:'' @ origin else [])\<rparr>)"

definition LayersFromManifest :: "manifest \<Rightarrow> layer list" where
  "LayersFromManifest m = List.map_filter source_layer (Layers m)"

section \<open>Keyless bundles\<close>

definition MediaTypeBundlePrefix :: string where
  "MediaTypeBundlePrefix = ''application/vnd.dev.sigstore.bundle''"

datatype bundle_error =
    NoBundle string | NoReadableBundle string | ReferrersUnavailable | BundleReferrersFailed lookup_error
  | BundleFetch | BundleDecode | NoBundleLayer string

definition BundleReferrers :: "target \<Rightarrow> node \<Rightarrow> bundle_error + referrer list" where
  "BundleReferrers src subject =
     (if \<not> t_graph src then Inl ReferrersUnavailable
      else case t_Referrers src subject [] of
        Inl e \<Rightarrow>
          if hiddenAsAbsent e \<or> e = UnsupportedErr then Inl ReferrersUnavailable
          else Inl (BundleReferrersFailed e)
      | Inr rs \<Rightarrow> Inr (filter (\<lambda>r. prefix MediaTypeBundlePrefix (ArtifactType r)) rs))"

definition fetchBundleBlob :: "target \<Rightarrow> node \<Rightarrow> bundle_error + string" where
  "fetchBundleBlob src desc =
     bind_res (from_option BundleFetch (t_Fetch src desc)) (\<lambda>raw.
     bind_res (from_option BundleDecode (unmarshal_manifest raw)) (\<lambda>m.
       case filter (\<lambda>l. prefix MediaTypeBundlePrefix (MediaType l)) (Layers m) of
         [] \<Rightarrow> Inl (NoBundleLayer (Digest desc))
       | l # _ \<Rightarrow> from_option BundleFetch (t_Fetch src (node_of l))))"

fun readable_bundles :: "target \<Rightarrow> referrer list \<Rightarrow> string list" where
  "readable_bundles src [] = []"
| "readable_bundles src (r # rs) =
     (case fetchBundleBlob src (referrer_node r) of
        Inr b \<Rightarrow> b # readable_bundles src rs
      | Inl _ \<Rightarrow> readable_bundles src rs)"

definition FetchBundles :: "target \<Rightarrow> node \<Rightarrow> bundle_error + string list" where
  "FetchBundles src subject =
     bind_res (BundleReferrers src subject) (\<lambda>rs.
       if rs = [] then Inl (NoBundle (Digest subject))
       else let bs = readable_bundles src rs in
         if bs = [] then Inl (NoReadableBundle (Digest subject)) else Inr bs)"

section \<open>Writing\<close>

text \<open>
  A repository to write to: blobs, and manifests under a name. The library answers a blob it holds
  already with an error of its own kind. \<open>new_desc\<close> is its \<^verbatim>\<open>NewDescriptorFromBytes\<close>.
\<close>

datatype pushed = Stored | AlreadyThere | PushRefused

record 's repository =
  push_blob :: "node \<Rightarrow> string \<Rightarrow> 's \<Rightarrow> pushed \<times> 's"
  push_reference :: "node \<Rightarrow> string \<Rightarrow> string \<Rightarrow> 's \<Rightarrow> bool \<times> 's"

datatype write_error = CannotSignPayload | CannotPush string | CannotPushManifest

definition push :: "'s repository \<Rightarrow> node \<Rightarrow> string \<Rightarrow> 's \<Rightarrow> (write_error + unit) \<times> 's" where
  "push R nd data s =
     (case push_blob R nd data s of (r, s') \<Rightarrow>
        (if r = PushRefused then Inl (CannotPush (MediaType nd)) else Inr (), s'))"

definition MediaTypeImageConfig :: string where
  "MediaTypeImageConfig = ''application/vnd.oci.image.config.v1+json''"

text \<open>Descriptors and manifests as the library marshals them; annotations are in key order.\<close>

definition annotations_json :: "(string \<times> string) list \<Rightarrow> (string \<times> json) list" where
  "annotations_json an = (if an = [] then [] else [(''annotations'', JObj (map (\<lambda>(k, v). (k, JStr v)) an))])"

definition descriptor_json :: "descriptor \<Rightarrow> json" where
  "descriptor_json d = JObj
     ([(''mediaType'', JStr (MediaType d)), (''digest'', JStr (Digest d)), (''size'', JNum (itoa (Size d)))] @
      annotations_json (Annotations d))"

definition attached_json :: "string \<Rightarrow> descriptor \<Rightarrow> descriptor \<Rightarrow> descriptor \<Rightarrow> json" where
  "attached_json arty cfg layer target = JObj
     [(''schemaVersion'', JNum ''2''), (''mediaType'', JStr MediaTypeImageManifest),
      (''artifactType'', JStr arty), (''config'', descriptor_json cfg),
      (''layers'', JArr [descriptor_json layer]), (''subject'', descriptor_json target)]"

definition annotated :: "node \<Rightarrow> (string \<times> string) list \<Rightarrow> descriptor" where
  "annotated n an = node.extend n (descriptor.fields an)"

text \<open>
  One layer, an empty configuration, and the manifest that names both and its subject, pushed in
  that order; the manifest under a tag.
\<close>

definition attach ::
    "(string \<Rightarrow> string \<Rightarrow> node) \<Rightarrow> 's repository \<Rightarrow> string \<Rightarrow> descriptor \<Rightarrow> string \<Rightarrow> descriptor \<Rightarrow> string \<Rightarrow>
     's \<Rightarrow> (write_error + referrer) \<times> 's" where
  "attach new_desc R arty layer data target tag s =
     (case push R (node_of layer) data s of
        (Inl e, s1) \<Rightarrow> (Inl e, s1)
      | (Inr _, s1) \<Rightarrow>
          (let cfgDesc = new_desc MediaTypeImageConfig ''{}'' in
           case push R cfgDesc ''{}'' s1 of
             (Inl e, s2) \<Rightarrow> (Inl e, s2)
           | (Inr _, s2) \<Rightarrow>
               (let raw = show_json (attached_json arty (annotated cfgDesc []) layer target);
                    mDesc = new_desc MediaTypeImageManifest raw in
                case push_reference R mDesc raw tag s2 of (pushed_ok, s3) \<Rightarrow>
                  (if pushed_ok then Inr (descriptor.extend (annotated mDesc []) (referrer.fields arty))
                   else Inl CannotPushManifest, s3))))"

definition Sign ::
    "(string \<Rightarrow> string \<Rightarrow> node) \<Rightarrow> 's repository \<Rightarrow> string \<Rightarrow> descriptor \<Rightarrow> (string \<Rightarrow> string option) \<Rightarrow>
     's \<Rightarrow> (write_error + referrer) \<times> 's" where
  "Sign new_desc R repoRef target sign s =
     (let pl = buildPayload repoRef (Digest target) in
      case sign pl of
        None \<Rightarrow> (Inl CannotSignPayload, s)
      | Some sg \<Rightarrow>
          attach new_desc R ArtifactTypeSignature
            (annotated (new_desc MediaTypeSimpleSigning pl) [(AnnotationSignature, b64_encode sg)])
            pl target (SigTag (Digest target)) s)"

definition PushAttestation ::
    "(string \<Rightarrow> string \<Rightarrow> node) \<Rightarrow> 's repository \<Rightarrow> descriptor \<Rightarrow> string \<Rightarrow> 's \<Rightarrow> (write_error + referrer) \<times> 's" where
  "PushAttestation new_desc R target env s =
     attach new_desc R ArtifactTypeAttestation
       (annotated (new_desc ArtifactTypeAttestation env)
          [(AnnotationSignature, []), (AnnotationPredicateType, PredicateType)])
       env target (AttTag (Digest target)) s"

end
