(* ===== verification/AttestSpec.thy ===== *)
theory AttestSpec
  imports Attest
begin

text \<open>What a source attestation establishes, and that what is built verifies.\<close>

lemmas decoding = field_def str_field_def list_field_def map_field_def sub_field_def members_of_def
  to_lower_def to_lower_char_def Let_def char_of_def bit_0

lemma decode_all_map: "(\<And>x. x \<in> set xs \<Longrightarrow> dec (f x) = Some x) \<Longrightarrow> decode_all dec (map f xs) = Some xs"
  by (induction xs) auto

lemma decode_layer_json: "decode_layer (layer_json l) = Some l"
  by (cases "l_Revision l = []"; cases "l_Published l = []")
     (simp_all add: decode_layer_def layer_json_def omitempty_def decoding)

lemma decode_pairs_map: "decode_pairs decode_str (map (\<lambda>(a, h). (a, JStr h)) ps) = Some ps"
  by (induction ps) auto

lemma decode_subject_json: "decode_subject (subject_json (n, [p])) = Some (n, [p])"
  by (cases p) (simp add: decode_subject_def subject_json_def decoding)

lemma decode_statement_of: "decode_statement (statement_json (statement_of dg ls)) = Some (statement_of dg ls)"
proof -
  have "decode_all decode_layer (map layer_json ls) = Some ls"
    by (rule decode_all_map) (rule decode_layer_json)
  then show ?thesis
    by (simp add: decode_statement_def statement_json_def statement_of_def decode_predicate_def
        decode_subject_json decoding)
qed

lemma decode_envelope_json: "decode_envelope (envelope_json e) = Some e"
proof -
  have "decode_all decode_sig (map (\<lambda>s. JObj [(''sig'', JStr s)]) ss) = Some ss" for ss
    by (rule decode_all_map) (simp add: decode_sig_def decoding)
  then show ?thesis
    by (simp add: decode_envelope_def envelope_json_def decoding)
qed

lemma written_members_strs: "written_members (map (\<lambda>(a, h). (a, JStr h)) ps)"
  by (induction ps) auto

lemma written_elements_map: "(\<And>x. written (f x)) \<Longrightarrow> written_elements (map f xs)"
  by (induction xs) auto

lemma written_layer: "written (layer_json l)"
  by (simp add: layer_json_def omitempty_def)

lemma written_statement: "written (statement_json s)"
  by (simp add: statement_json_def subject_json_def written_members_strs written_elements_map written_layer)

lemma written_envelope: "written (envelope_json e)"
  by (simp add: envelope_json_def written_elements_map)

text \<open>
  What is built verifies: when \<open>Build\<close> succeeds with a signer whose signatures the verifier
  accepts, \<open>Verify\<close> accepts the envelope for the same artifact and returns exactly the layers
  the statement was built from, whatever quotes, controls and HTML characters their fields hold.
\<close>

theorem Verify_Build:
  assumes "Build L sign dg layers = Inr data" and "\<forall>m sg. sign m = Some sg \<longrightarrow> verifies sg m"
  shows "Verify L verifies data dg = Inr layers"
proof -
  let ?payload = "show_json (statement_json (statement_of dg layers))"
  from assms(1) obtain sg where v: "validateLayers L layers = Inr ()" "validDigest L dg = Inr ()"
    and sg: "sign (attest_pae ?payload) = Some sg"
    and data: "data = show_json (envelope_json
      \<lparr>e_Payload = b64_encode ?payload, e_PayloadType = PayloadType, e_Signatures = [b64_encode sg]\<rparr>)"
    by (auto simp: Build_def Let_def)
  have env: "Option.bind (parse_json data) decode_envelope =
      Some \<lparr>e_Payload = b64_encode ?payload, e_PayloadType = PayloadType, e_Signatures = [b64_encode sg]\<rparr>"
    unfolding data by (simp add: parse_show [OF written_envelope] decode_envelope_json)
  have stmt: "Option.bind (parse_json ?payload) decode_statement = Some (statement_of dg layers)"
    by (simp add: parse_show [OF written_statement] decode_statement_of)
  have "any_verifies verifies (attest_pae ?payload) [b64_encode sg]"
    using assms(2) sg by (simp add: any_verifies_def)
  moreover have "about (statement_of dg layers) dg"
    by (cases "cut_at CHR '':'' dg") (simp add: about_def statement_of_def equal_fold_def)
  ultimately show ?thesis
    unfolding Verify_def env
    by (simp add: v stmt from_option_def require_def map_error_def) (simp add: statement_of_def v)
qed

text \<open>A layer whose source is stated in full, under digests of the form the OCI specification has.\<close>

definition sourced :: "digest_lib \<Rightarrow> layer \<Rightarrow> bool" where
  "sourced L l \<longleftrightarrow> l_Repo l \<noteq> [] \<and> l_Path l \<noteq> [] \<and>
     prefix ''sha256:'' (l_Digest l) \<and> Validate_ok L (l_Digest l) \<and>
     (l_Published l \<noteq> [] \<longrightarrow> prefix ''sha256:'' (l_Published l) \<and> Validate_ok L (l_Published l))"

lemma validDigest_ok: "validDigest L d = Inr u \<longleftrightarrow> prefix ''sha256:'' d \<and> Validate_ok L d"
  by (auto simp: validDigest_def)

lemma valid_all_ok: "valid_all L ls = Inr u \<longleftrightarrow> (\<forall>l \<in> set ls. sourced L l)"
  by (induction ls) (auto simp: valid_layer_def sourced_def validDigest_ok)

lemma validateLayers_ok: "validateLayers L ls = Inr u \<longleftrightarrow> ls \<noteq> [] \<and> (\<forall>l \<in> set ls. sourced L l)"
  by (simp add: validateLayers_def valid_all_ok)

lemma attest_pae_injective: "attest_pae p = attest_pae q \<Longrightarrow> p = q"
proof -
  assume e: "attest_pae p = attest_pae q"
  have sp: "CHR '' '' \<notin> set (itoa (int n))" for n by (simp add: itoa_def itoa_nat_plain)
  from e have "itoa (int (length p)) @ CHR '' '' # p = itoa (int (length q)) @ CHR '' '' # q"
    by (simp add: attest_pae_def)
  from first_char_split [OF sp sp this] show "p = q" by simp
qed

text \<open>
  What an accepted attestation establishes: the layers it returns are those of a statement whose
  framed bytes the verifier accepted a signature over; that statement is a source statement with a
  single subject, whose digest is the artifact's; it covers at least one layer, and every layer in
  it states a repository, a path and well-formed SHA-256 digests.
\<close>

theorem Verify_attests:
  assumes "Verify L verifies data dg = Inr layers"
  shows "\<exists>payload sg stmt. verifies sg (attest_pae payload) \<and>
    Option.bind (parse_json payload) decode_statement = Some stmt \<and> s_Layers stmt = layers \<and>
    s_PredicateType stmt = PredicateType \<and> (\<exists>sub. s_Subject stmt = [sub]) \<and> about stmt dg \<and>
    layers \<noteq> [] \<and> (\<forall>l \<in> set layers. sourced L l)"
proof -
  from assms obtain env :: envelope and payload and stmt :: statement where
    sigs: "any_verifies verifies (attest_pae payload) (e_Signatures env)" and
    stmt: "Option.bind (parse_json payload) decode_statement = Some stmt"
      "s_PredicateType stmt = PredicateType" "length (s_Subject stmt) = 1" "about stmt dg"
      "validateLayers L (s_Layers stmt) = Inr ()" and layers: "layers = s_Layers stmt"
    unfolding Verify_def bind_res_eq_Inr from_option_eq require_eq by auto
  from sigs obtain sg where "verifies sg (attest_pae payload)"
    by (auto simp: any_verifies_def list_ex_iff split: option.splits)
  moreover from stmt(3) have "\<exists>sub. s_Subject stmt = [sub]" by (cases "s_Subject stmt") auto
  ultimately show ?thesis using stmt layers by (auto simp: validateLayers_ok)
qed

definition sample_layer :: layer where
  "sample_layer = \<lparr>l_Digest = sha256_digest ''w'', l_Repo = ''hf.co/a/b'', l_Revision = [],
     l_Path = ''m.gguf'', l_Published = []\<rparr>"

lemma sample_sourced: "sourced sha256_digests sample_layer"
  by (simp add: sourced_def sample_layer_def) (simp add: sha256_digest_def)

lemma sample_built:
  "Build sha256_digests (\<lambda>m. Some ''sig'') (sha256_digest ''m'') [sample_layer] =
     Inr (show_json (envelope_json
       \<lparr>e_Payload = b64_encode (show_json (statement_json (statement_of (sha256_digest ''m'') [sample_layer]))),
         e_PayloadType = PayloadType, e_Signatures = [b64_encode ''sig'']\<rparr>))"
proof -
  have "validateLayers sha256_digests [sample_layer] = Inr ()"
    using sample_sourced by (simp add: validateLayers_ok)
  moreover have "validDigest sha256_digests (sha256_digest ''m'') = Inr ()"
    by (simp add: validDigest_ok) (simp add: sha256_digest_def)
  ultimately show ?thesis by (simp add: Build_def Let_def from_option_def map_error_def del: b64_encode.simps)
qed

lemma Verify_Build_witness:
  "\<exists>data. Build sha256_digests (\<lambda>m. Some ''sig'') (sha256_digest ''m'') [sample_layer] = Inr data \<and>
     Verify sha256_digests (\<lambda>s m. s = ''sig'') data (sha256_digest ''m'') = Inr [sample_layer]"
  using sample_built Verify_Build [OF sample_built] by auto

lemma Verify_attests_witness:
  "\<exists>payload stmt. Option.bind (parse_json payload) decode_statement = Some stmt \<and> about stmt (sha256_digest ''m'')"
proof -
  let ?st = "statement_of (sha256_digest ''m'') [sample_layer]"
  let ?e = "\<lparr>e_Payload = b64_encode (show_json (statement_json ?st)), e_PayloadType = PayloadType,
      e_Signatures = [b64_encode ''sig'']\<rparr>"
  have v: "validateLayers sha256_digests [sample_layer] = Inr ()" "validDigest sha256_digests (sha256_digest ''m'') = Inr ()"
    using sample_built by (auto simp: Build_def)
  have ab: "about ?st (sha256_digest ''m'')"
    by (cases "cut_at CHR '':'' (sha256_digest ''m'')") (simp add: about_def statement_of_def equal_fold_def)
  have env: "Option.bind (parse_json (show_json (envelope_json ?e))) decode_envelope = Some ?e"
    by (simp add: parse_show [OF written_envelope] decode_envelope_json del: b64_encode.simps)
  have st: "Option.bind (parse_json (show_json (statement_json ?st))) decode_statement = Some ?st"
    by (simp add: parse_show [OF written_statement] decode_statement_of)
  have "Verify sha256_digests (\<lambda>s m. s = ''sig'') (show_json (envelope_json ?e)) (sha256_digest ''m'') = Inr [sample_layer]"
    unfolding Verify_def env
    by (simp add: v st ab from_option_def require_def map_error_def any_verifies_def del: b64_encode.simps)
       (simp add: statement_of_def v)
  from Verify_attests [OF this] show ?thesis by blast
qed

end
