(* ===== verification/SigningSpec.thy ===== *)
theory SigningSpec
  imports Signing AttestSpec
begin

text \<open>
  What a signature check accepts, exactly; what a list of bundles holds; and that what is signed or
  attested in a repository verifies there. The repository is a locale: the laws a store of
  attachments keeps.
\<close>

section \<open>What is accepted\<close>

definition good_layer :: "target \<Rightarrow> string \<Rightarrow> string \<Rightarrow> (string \<Rightarrow> string \<Rightarrow> bool) \<Rightarrow> descriptor \<Rightarrow> bool" where
  "good_layer src repo dg verifies l \<longleftrightarrow>
     MediaType l = MediaTypeSimpleSigning \<and> lookup_str (Annotations l) AnnotationSignature \<noteq> [] \<and>
     (\<exists>sg pl. b64_decode (lookup_str (Annotations l) AnnotationSignature) = Some sg \<and>
       t_Fetch src (node_of l) = Some pl \<and> verifies sg pl \<and>
       Option.bind (parse_json pl) decode_claim = Some (repo, dg))"

lemma check_sig_layer_good:
  "check_sig_layer src repo dg verifies l = Accepted \<longleftrightarrow> good_layer src repo dg verifies l"
  unfolding check_sig_layer_def good_layer_def Let_def
  by (auto split: option.splits if_splits prod.splits)

lemma check_sig_layers_ok:
  "check_sig_layers src repo dg verifies ls e = Inr u \<longleftrightarrow> (\<exists>l \<in> set ls. good_layer src repo dg verifies l)"
  by (induction ls arbitrary: e) (auto simp: check_sig_layer_good [symmetric] split: layer_verdict.splits)

definition good_manifest :: "target \<Rightarrow> string \<Rightarrow> string \<Rightarrow> (string \<Rightarrow> string \<Rightarrow> bool) \<Rightarrow> node \<Rightarrow> bool" where
  "good_manifest src repo dg verifies n \<longleftrightarrow>
     (\<exists>raw m. t_Fetch src n = Some raw \<and> unmarshal_manifest raw = Some m \<and>
       (\<exists>l \<in> set (Layers m). good_layer src repo dg verifies l))"

lemma verifyManifest_ok:
  "verifyManifest src n repo dg verifies = Inr u \<longleftrightarrow> good_manifest src repo dg verifies n"
  by (auto simp: verifyManifest_def good_manifest_def check_sig_layers_ok)

lemma try_manifests_ok:
  "try_manifests src repo dg verifies ns e = Inr u \<longleftrightarrow> (\<exists>n \<in> set ns. good_manifest src repo dg verifies n)"
  by (induction ns arbitrary: e) (auto simp: verifyManifest_ok [of _ _ _ _ _ "()", symmetric] split: sum.splits)

text \<open>Where a signature is looked for: under the tag, and among the referrers when the tag is absent.\<close>

definition candidates :: "target \<Rightarrow> string \<Rightarrow> node \<Rightarrow> node set" where
  "candidates src sig_ref subject =
     (case t_Resolve src sig_ref of
        Inr n \<Rightarrow> {n}
      | Inl e \<Rightarrow>
          if e = NotFoundErr then
            (case sig_referrers src subject of Inr rs \<Rightarrow> referrer_node ` set rs | Inl _ \<Rightarrow> {})
          else {})"

lemma Verify_sig_candidates:
  "Verify_sig src sig_ref repo subject verifies = Inr () \<longleftrightarrow>
     (\<exists>n \<in> candidates src sig_ref subject. good_manifest src repo (Digest subject) verifies n)"
  by (auto simp: Verify_sig_def candidates_def verifyManifest_ok try_manifests_ok split: sum.splits)

text \<open>
  C28. Exactly what a signature check accepts: some candidate manifest (the tagged one, or any
  referrer when nothing is tagged) has a signing layer whose annotation decodes to a signature that
  the key accepts over the layer's content, and that content is a claim naming exactly this
  repository and this digest. So a bad signature beside a good one never hides it, and no
  signature over another artifact or another repository is enough.
\<close>

theorem Verify_sig_exact:
  "Verify_sig src sig_ref repo subject verifies = Inr () \<longleftrightarrow>
     (\<exists>n \<in> candidates src sig_ref subject. good_manifest src repo (Digest subject) verifies n)"
  by (rule Verify_sig_candidates)

section \<open>Claims and tags\<close>

lemma decode_buildPayload: "Option.bind (parse_json (buildPayload repo dg)) decode_claim = Some (repo, dg)"
proof -
  have "written (claim_json repo dg)" by (simp add: claim_json_def)
  then show ?thesis
    unfolding buildPayload_def
    by (simp add: parse_show) (simp add: decode_claim_def claim_json_def obj_or_empty_def decoding)
qed

text \<open>
  The bytes that are signed say what they are about: two claims with the same bytes name the
  same repository and the same digest.
\<close>

theorem buildPayload_injective:
  "buildPayload repo dg = buildPayload repo' dg' \<longleftrightarrow> repo = repo' \<and> dg = dg'"
  by (metis decode_buildPayload option.inject prod.inject)

section \<open>Bundles\<close>

definition unavailable :: "bundle_error + string \<Rightarrow> bool" where
  "unavailable r \<longleftrightarrow> (case r of Inl _ \<Rightarrow> True | Inr _ \<Rightarrow> False)"

lemma readable_bundles_filter:
  "map Inr (readable_bundles src rs) =
     filter (\<lambda>r. \<not> unavailable r) (map (\<lambda>r. fetchBundleBlob src (referrer_node r)) rs)"
  by (induction rs) (auto simp: unavailable_def split: sum.splits)

lemma readable_bundles_eq:
  "readable_bundles src rs = bs \<longleftrightarrow>
     map Inr bs = filter (\<lambda>r. \<not> unavailable r) (map (\<lambda>r. fetchBundleBlob src (referrer_node r)) rs)"
  unfolding readable_bundles_filter [symmetric] by (metis list.inj_map_strong sum.inject(2))

text \<open>
  No attachment hides another: the bundles found for an artifact are exactly those that can be
  read among its referrers of a bundle type, all of them and in order, whatever else is attached;
  and an artifact is reported to carry none only when its referrers were listed and none is of a
  bundle type, never because the source could not tell.
\<close>

theorem FetchBundles_exact:
  "(FetchBundles src subject = Inr bs \<longleftrightarrow>
      bs \<noteq> [] \<and> t_graph src \<and> (\<exists>rs. t_Referrers src subject [] = Inr rs \<and>
        map Inr bs = filter (\<lambda>r. \<not> unavailable r)
          (map (\<lambda>r. fetchBundleBlob src (referrer_node r))
             (filter (\<lambda>r. prefix MediaTypeBundlePrefix (ArtifactType r)) rs)))) \<and>
   (FetchBundles src subject = Inl (NoBundle d) \<longleftrightarrow>
      d = Digest subject \<and> t_graph src \<and> (\<exists>rs. t_Referrers src subject [] = Inr rs \<and>
        list_all (\<lambda>r. \<not> prefix MediaTypeBundlePrefix (ArtifactType r)) rs))"
proof -
  have e: "FetchBundles src subject =
      (if \<not> t_graph src then Inl ReferrersUnavailable
       else case t_Referrers src subject [] of
         Inl e \<Rightarrow> if hiddenAsAbsent e \<or> e = UnsupportedErr then Inl ReferrersUnavailable
           else Inl (BundleReferrersFailed e)
       | Inr rs \<Rightarrow>
           (let bundles = filter (\<lambda>r. prefix MediaTypeBundlePrefix (ArtifactType r)) rs;
                found = readable_bundles src bundles in
            if bundles = [] then Inl (NoBundle (Digest subject))
            else if found = [] then Inl (NoReadableBundle (Digest subject)) else Inr found))"
    by (auto simp: FetchBundles_def BundleReferrers_def Let_def split: sum.splits)
  show ?thesis
    unfolding e readable_bundles_eq [symmetric]
    by (cases "t_Referrers src subject []")
       (auto simp: Let_def filter_empty_conv list_all_iff split: if_splits)
qed

section \<open>What is attached is found\<close>

lemma decode_str_pairs: "decode_pairs decode_str (map (\<lambda>(k, v). (k, JStr v)) an) = Some an"
  by (induction an) auto

lemma int64_itoa: "0 \<le> n \<Longrightarrow> n < 2 ^ 63 \<Longrightarrow> int64_of (itoa n) = Some n"
proof -
  assume n: "0 \<le> n" "n < 2 ^ 63"
  obtain c cs where c: "itoa_nat (nat n) = c # cs" using itoa_nat_digits [of "nat n"] by (cases "itoa_nat (nat n)") auto
  with itoa_nat_digits [of "nat n"] have "is_digit c" "list_all is_digit (c # cs)" by auto
  moreover have "nat_of_digits 0 (c # cs) = nat n" using nat_of_digits_itoa [of "nat n"] c by simp
  ultimately show ?thesis using n c by (auto simp: int64_of_def itoa_def Let_def is_digit_def)
qed

lemma decode_descriptor_json:
  assumes "0 \<le> Size d" and "Size d < 2 ^ 63"
  shows "decode_descriptor (descriptor_json d) = Some (d\<lparr>Annotations := rev (Annotations d)\<rparr>)"
  using int64_itoa [OF assms]
  by (cases d)
     (simp add: decode_descriptor_def decode_node_def descriptor_json_def annotations_json_def decode_str_pairs
      decoding int_field_def node.defs descriptor.defs)

lemma written_descriptor: "0 \<le> Size d \<Longrightarrow> written (descriptor_json d)"
proof -
  assume "0 \<le> Size d"
  then have "written (JNum (itoa (Size d)))"
    using itoa_nat_digits [of "nat (Size d)"] itoa_nat_nonzero [of "nat (Size d)"] by (simp add: itoa_def)
  then show ?thesis
    by (simp add: descriptor_json_def annotations_json_def written_members_strs)
qed

definition attached_manifest :: "string \<Rightarrow> descriptor \<Rightarrow> descriptor \<Rightarrow> manifest" where
  "attached_manifest arty cfg layer = \<lparr>m_artifactType = arty, Config = cfg,
     Layers = [layer\<lparr>Annotations := rev (Annotations layer)\<rparr>], m_annotations = []\<rparr>"

lemma unmarshal_attached:
  assumes "0 \<le> Size cfg" "Size cfg < 2 ^ 63" "0 \<le> Size layer" "Size layer < 2 ^ 63" "0 \<le> Size target"
    and "Annotations cfg = []"
  shows "unmarshal_manifest (show_json (attached_json arty cfg layer target)) =
    Some (attached_manifest arty cfg layer)"
proof -
  have "written (attached_json arty cfg layer target)"
    using assms by (simp add: attached_json_def written_descriptor is_digit_def)
  moreover have "cfg\<lparr>Annotations := []\<rparr> = cfg" using assms(6) by (cases cfg) simp
  moreover have "descriptor_json x \<noteq> JNull" for x by (simp add: descriptor_json_def)
  ultimately show ?thesis
    using decode_descriptor_json [OF assms(1,2)] decode_descriptor_json [OF assms(3,4)] assms(6)
    by (simp add: unmarshal_manifest_def parse_show)
       (simp add: decode_manifest_def attached_json_def attached_manifest_def decoding)
qed

text \<open>
  The laws a repository keeps for what is attached in it: a blob pushed is found under its
  descriptor and disturbs no other; a manifest pushed is found under its tag, and disturbs no blob.
  \<open>view\<close> is the repository as a source to read.
\<close>

locale attachment_store =
  fixes new_desc :: "string \<Rightarrow> string \<Rightarrow> node"
    and R :: "'s repository"
    and view :: "'s \<Rightarrow> target"
    and well :: "'s \<Rightarrow> bool"
  assumes desc_type: "MediaType (new_desc mt b) = mt"
    and desc_size: "Size (new_desc mt b) = int (length b)"
    and blob_well: "well s \<Longrightarrow> push_blob R n b s = (r, s') \<Longrightarrow> well s'"
    and blob_found: "well s \<Longrightarrow> push_blob R (new_desc mt b) b s = (r, s') \<Longrightarrow> r \<noteq> PushRefused \<Longrightarrow>
      mt \<noteq> MediaTypeImageManifest \<Longrightarrow> t_Fetch (view s') (new_desc mt b) = Some b"
    and blob_keeps: "well s \<Longrightarrow> push_blob R n b s = (r, s') \<Longrightarrow> Digest n \<noteq> Digest k \<Longrightarrow>
      t_Fetch (view s') k = t_Fetch (view s) k"
    and name_found: "well s \<Longrightarrow> push_reference R (new_desc MediaTypeImageManifest b) b tag s = (True, s') \<Longrightarrow>
      t_Resolve (view s') tag = Inr (new_desc MediaTypeImageManifest b) \<and>
      t_Fetch (view s') (new_desc MediaTypeImageManifest b) = Some b"
    and name_keeps: "well s \<Longrightarrow> push_reference R n b tag s = (ok, s') \<Longrightarrow>
      MediaType k \<noteq> MediaTypeImageManifest \<Longrightarrow> t_Fetch (view s') k = t_Fetch (view s) k"
begin

lemma push_found:
  assumes "push R (new_desc mt b) b s = (Inr u, s')" and "well s" and "mt \<noteq> MediaTypeImageManifest"
  shows "t_Fetch (view s') (new_desc mt b) = Some b" and "well s'"
  using assms blob_found blob_well by (auto simp: push_def split: prod.splits if_splits)

lemma push_keeps:
  assumes "push R n b s = (r, s')" and "well s" and "Digest n \<noteq> Digest k"
  shows "t_Fetch (view s') k = t_Fetch (view s) k"
  using assms blob_keeps by (auto simp: push_def split: prod.splits)

lemma attached_found:
  assumes att: "attach new_desc R arty layer data target tag s = (Inr r, s')"
    and s: "well s" and layer: "node_of layer = new_desc mt data" "mt \<noteq> MediaTypeImageManifest"
    and len: "int (length data) < 2 ^ 63" and target: "0 \<le> Size target"
    and apart: "Digest (new_desc mt data) \<noteq> Digest (new_desc MediaTypeImageConfig ''{}'')"
  shows "\<exists>n raw cfg. t_Resolve (view s') tag = Inr n \<and> t_Fetch (view s') n = Some raw \<and>
    unmarshal_manifest raw = Some (attached_manifest arty cfg layer) \<and>
    t_Fetch (view s') (node_of layer) = Some data"
proof -
  let ?cfg = "new_desc MediaTypeImageConfig ''{}''"
  let ?raw = "show_json (attached_json arty (annotated ?cfg []) layer target)"
  let ?m = "new_desc MediaTypeImageManifest ?raw"
  from att obtain s1 s2 where s1: "push R (new_desc mt data) data s = (Inr (), s1)"
    and s2: "push R ?cfg ''{}'' s1 = (Inr (), s2)" and s3: "push_reference R ?m ?raw tag s2 = (True, s')"
    unfolding attach_def layer by (auto simp: Let_def split: prod.splits sum.splits if_splits)
  note w1 = push_found [OF s1 s layer(2)]
  have cfg_type: "MediaTypeImageConfig \<noteq> MediaTypeImageManifest"
    by (simp add: MediaTypeImageConfig_def MediaTypeImageManifest_def)
  note w2 = push_found [OF s2 w1(2) cfg_type]
  have "t_Fetch (view s2) (new_desc mt data) = Some data"
    using push_keeps [OF s2 w1(2) apart [symmetric]] w1(1) by simp
  then have data: "t_Fetch (view s') (node_of layer) = Some data"
    using name_keeps [OF w2(2) s3, of "new_desc mt data"] layer by (simp add: desc_type)
  have sz: "Size layer = int (length data)"
    using arg_cong [OF layer(1), of Size] by (cases layer) (simp add: desc_size node.defs)
  have "unmarshal_manifest ?raw = Some (attached_manifest arty (annotated ?cfg []) layer)"
    using desc_size [of MediaTypeImageConfig "''{}''"] len target sz
    by (intro unmarshal_attached) (simp_all add: annotated_def node.defs descriptor.defs)
  with name_found [OF w2(2) s3] data show ?thesis by blast
qed

lemma signed_verifies:
  assumes "Sign new_desc R repo target sign s = (Inr r, s')" and "well s" and "0 \<le> Size target"
    and "int (length (buildPayload repo (Digest target))) < 2 ^ 63"
    and "Digest (new_desc MediaTypeSimpleSigning (buildPayload repo (Digest target))) \<noteq>
      Digest (new_desc MediaTypeImageConfig ''{}'')"
    and ok: "\<And>m sg. sign m = Some sg \<Longrightarrow> sg \<noteq> [] \<and> verifies sg m"
  shows "Verify_sig (view s') (SigTag (Digest target)) repo (node_of target) verifies = Inr ()"
proof -
  let ?pl = "buildPayload repo (Digest target)"
  from assms(1) obtain sg where sg: "sign ?pl = Some sg"
    and att: "attach new_desc R ArtifactTypeSignature
      (annotated (new_desc MediaTypeSimpleSigning ?pl) [(AnnotationSignature, b64_encode sg)])
      ?pl target (SigTag (Digest target)) s = (Inr r, s')"
    by (auto simp: Sign_def Let_def split: option.splits)
  let ?l = "annotated (new_desc MediaTypeSimpleSigning ?pl) [(AnnotationSignature, b64_encode sg)]"
  have l: "node_of ?l = new_desc MediaTypeSimpleSigning ?pl" "MediaType ?l = MediaTypeSimpleSigning"
    "Annotations ?l = [(AnnotationSignature, b64_encode sg)]"
    by (simp_all add: annotated_def node.defs descriptor.defs desc_type)
  have mt: "MediaTypeSimpleSigning \<noteq> MediaTypeImageManifest"
    by (simp add: MediaTypeSimpleSigning_def MediaTypeImageManifest_def)
  from attached_found [OF att assms(2) l(1) mt assms(4,3,5)]
  obtain n raw cfg where found: "t_Resolve (view s') (SigTag (Digest target)) = Inr n" "t_Fetch (view s') n = Some raw"
    "unmarshal_manifest raw = Some (attached_manifest ArtifactTypeSignature cfg ?l)"
    "t_Fetch (view s') (node_of ?l) = Some ?pl"
    by blast
  have "b64_encode sg \<noteq> []" using ok [OF sg] b64_injective [of sg "[]"] by auto
  then have "good_layer (view s') repo (Digest target) verifies (?l\<lparr>Annotations := rev (Annotations ?l)\<rparr>)"
    using found(4) ok [OF sg] l decode_buildPayload
    by (simp add: good_layer_def lookup_str_def node.defs)
  then have "good_manifest (view s') repo (Digest target) verifies n"
    using found(2,3) by (auto simp: good_manifest_def attached_manifest_def)
  then show ?thesis
    using found(1) by (simp add: Verify_sig_candidates candidates_def node.defs)
qed

lemma pushed_attestation_found:
  assumes att: "PushAttestation new_desc R target env s = (Inr r, s')" and "well s" and "0 \<le> Size target"
    and "int (length env) < 2 ^ 63"
    and "Digest (new_desc ArtifactTypeAttestation env) \<noteq> Digest (new_desc MediaTypeImageConfig ''{}'')"
  shows "FetchAttestation (view s') (AttTag (Digest target)) (node_of target) = Inr env"
proof -
  let ?l = "annotated (new_desc ArtifactTypeAttestation env)
    [(AnnotationSignature, []), (AnnotationPredicateType, PredicateType)]"
  have l: "node_of ?l = new_desc ArtifactTypeAttestation env" "MediaType ?l = ArtifactTypeAttestation"
    by (simp_all add: annotated_def node.defs descriptor.defs desc_type)
  have mt: "ArtifactTypeAttestation \<noteq> MediaTypeImageManifest"
    by (simp add: ArtifactTypeAttestation_def MediaTypeImageManifest_def)
  from attached_found [OF att [unfolded PushAttestation_def] assms(2) l(1) mt assms(4,3,5)]
  obtain n raw cfg where found: "t_Resolve (view s') (AttTag (Digest target)) = Inr n" "t_Fetch (view s') n = Some raw"
    "unmarshal_manifest raw = Some (attached_manifest ArtifactTypeAttestation cfg ?l)"
    "t_Fetch (view s') (node_of ?l) = Some env"
    by blast
  then show ?thesis
    using l by (simp add: FetchAttestation_def fetchEnvelope_def attached_manifest_def from_option_def node.defs)
qed

end

end
