(* ===== verification/Remote.thy ===== *)
theory Remote
  imports Registry SigningSpec
begin

text \<open>
  A repository of the test registry as what the signing code writes to and reads from: the requests
  the client library makes, over the registry's handlers. It keeps the laws of
  \<open>attachment_store\<close>, so what is signed in it verifies.
\<close>

definition describe_bytes :: "digest_lib \<Rightarrow> string \<Rightarrow> string \<Rightarrow> node" where
  "describe_bytes L mt b = \<lparr>MediaType = mt, Digest = FromBytes L b, Size = int (length b)\<rparr>"

definition reply_header :: "string \<Rightarrow> reply \<Rightarrow> string" where
  "reply_header k r = lookup_str (headers r) k"

text \<open>A blob goes up in two requests; a manifest in one.\<close>

definition upload_blob :: "digest_lib \<Rightarrow> string \<Rightarrow> node \<Rightarrow> string \<Rightarrow> registry \<Rightarrow> pushed \<times> registry" where
  "upload_blob L repo n b r =
     (case handleUploadStart L repo [] [] r of (rep1, r1) \<Rightarrow>
        if status rep1 \<noteq> 202 then (PushRefused, r1)
        else case handleUploadPut L repo (Digest n) (Some b) r1 of (rep2, r2) \<Rightarrow>
          (if status rep2 = 201 then Stored else PushRefused, r2))"

definition upload_manifest :: "digest_lib \<Rightarrow> string \<Rightarrow> node \<Rightarrow> string \<Rightarrow> string \<Rightarrow> registry \<Rightarrow> bool \<times> registry" where
  "upload_manifest L repo n b tag r =
     (case handleManifest L PUT (MediaType n) (Some b) repo tag r of (rep, r') \<Rightarrow> (status rep = 201, r'))"

definition remote_repository :: "digest_lib \<Rightarrow> string \<Rightarrow> registry repository" where
  "remote_repository L repo = \<lparr>push_blob = upload_blob L repo, push_reference = upload_manifest L repo\<rparr>"

text \<open>What was read is held against the descriptor it was read for.\<close>

definition checked_reply :: "digest_lib \<Rightarrow> node \<Rightarrow> reply \<Rightarrow> string option" where
  "checked_reply L n rep =
     (if status rep = 200 \<and> \<not> breaks rep \<and> int (length (body rep)) = Size n \<and> FromBytes L (body rep) = Digest n
      then Some (body rep) else None)"

definition remote_fetch :: "digest_lib \<Rightarrow> string \<Rightarrow> registry \<Rightarrow> node \<Rightarrow> string option" where
  "remote_fetch L repo r n =
     checked_reply L n
       (fst (if MediaType n = MediaTypeImageManifest then handleManifest L GET [] None repo (Digest n) r
             else handleBlob L GET None repo (Digest n) r))"

definition remote_resolve :: "digest_lib \<Rightarrow> string \<Rightarrow> registry \<Rightarrow> string \<Rightarrow> lookup_error + node" where
  "remote_resolve L repo r tag =
     (let rep = fst (handleManifest L HEAD [] None repo tag r) in
      if status rep = 200 then
        Inr \<lparr>MediaType = reply_header ''Content-Type'' rep, Digest = reply_header ''Docker-Content-Digest'' rep,
             Size = int (nat_of_digits 0 (reply_header ''Content-Length'' rep))\<rparr>
      else if status rep = 404 then Inl NotFoundErr
      else if status rep = 401 \<or> status rep = 403 then Inl HiddenErr
      else Inl LookupFailed)"

definition remote_target :: "digest_lib \<Rightarrow> string \<Rightarrow> registry \<Rightarrow> target" where
  "remote_target L repo r = \<lparr>t_Resolve = remote_resolve L repo r, t_Fetch = remote_fetch L repo r,
     t_graph = True, t_Referrers = (\<lambda>_ _. Inl UnsupportedErr)\<rparr>"

text \<open>A registry with no failure switched on.\<close>

definition well_behaved :: "registry \<Rightarrow> bool" where
  "well_behaved r \<longleftrightarrow> failBlobReads r = (\<lambda>_. 0) \<and> corruptBlob r = [] \<and> missingManifestStatus r \<noteq> 200"

lemma well_behaved_blob:
  "well_behaved r \<Longrightarrow> dg \<noteq> [] \<Longrightarrow> Validate_ok L dg \<Longrightarrow>
     remote_fetch L repo r \<lparr>MediaType = mt, Digest = dg, Size = sz\<rparr> =
     (if mt = MediaTypeImageManifest then
        (case rg_manifests r repo dg of None \<Rightarrow> None
         | Some (_, b) \<Rightarrow> if int (length b) = sz \<and> FromBytes L b = dg then Some b else None)
      else case rg_blobs r repo dg of None \<Rightarrow> None
         | Some b \<Rightarrow> if int (length b) = sz \<and> FromBytes L b = dg then Some b else None)"
  by (auto simp: remote_fetch_def checked_reply_def handleBlob_def handleManifest_def well_behaved_def
      serve_content_def reply_of_def http_error_def Let_def split: option.splits)

lemma upload_blob_effect:
  assumes "upload_blob sha256_digests repo n b r = (res, r')"
  shows "\<exists>i u. r' = r\<lparr>nextID := i, uploads := u\<rparr> \<and> res = PushRefused \<or>
    r' = r\<lparr>nextID := i, uploads := u, rg_blobs := put_in repo (Digest n) b (rg_blobs r)\<rparr> \<and>
    sha256_digest b = Digest n"
  using assms
  by (auto simp: upload_blob_def handleUploadStart_def handleUploadPut_def reply_of_def http_error_def Let_def
      split: if_splits)

lemma upload_manifest_effect:
  assumes "upload_manifest sha256_digests repo n b tag r = (res, r')"
  shows "res \<and> r' = r\<lparr>rg_manifests := put_in repo (sha256_digest b) (MediaType n, b)
    (put_in repo tag (MediaType n, b) (rg_manifests r))\<rparr>"
  using assms by (simp add: upload_manifest_def handleManifest_def PutManifest_def Let_def reply_of_def)

lemma sha256_digest_ne [simp]: "sha256_digest b \<noteq> []"
  by (simp add: sha256_digest_def)

text \<open>What a fetch finds is what the two maps hold under the digest, and nothing else.\<close>

lemma remote_fetch_cong:
  assumes "rg_blobs r repo (Digest k) = rg_blobs r' repo (Digest k)" and
    "MediaType k = MediaTypeImageManifest \<Longrightarrow> rg_manifests r repo (Digest k) = rg_manifests r' repo (Digest k)"
    and "failBlobReads r = failBlobReads r'" "corruptBlob r = corruptBlob r'" "ignoreRange r = ignoreRange r'"
    "failAfterBytes r = failAfterBytes r'" "missingManifestStatus r = missingManifestStatus r'"
  shows "remote_fetch L repo r k = remote_fetch L repo r' k"
  using assms
  by (auto simp: remote_fetch_def handleBlob_def handleManifest_def Let_def split: option.splits)

interpretation remote: attachment_store
  "describe_bytes sha256_digests" "remote_repository sha256_digests repo" "remote_target sha256_digests repo"
  well_behaved for repo
proof (unfold_locales, goal_cases)
  case (3 s n b r s')
  then show ?case
    using upload_blob_effect [of repo n b s r s'] by (auto simp: remote_repository_def well_behaved_def)
next
  case (4 s mt b r s')
  let ?n = "describe_bytes sha256_digests mt b"
  have "upload_blob sha256_digests repo ?n b s = (r, s')" using 4 by (simp add: remote_repository_def)
  from upload_blob_effect [OF this] obtain i u
    where s': "s' = s\<lparr>nextID := i, uploads := u, rg_blobs := put_in repo (sha256_digest b) b (rg_blobs s)\<rparr>"
    using 4(3) by (auto simp: describe_bytes_def)
  then have b: "well_behaved s'" "rg_blobs s' repo (sha256_digest b) = Some b"
    using 4(1) by (simp_all add: well_behaved_def put_in_def)
  with 4 show ?case
    using well_behaved_blob [OF b(1), of "sha256_digest b" sha256_digests]
    by (simp add: remote_target_def describe_bytes_def)
next
  case (5 s n b r s' k)
  then show ?case
    using upload_blob_effect [of repo n b s r s']
    by (auto simp: remote_repository_def remote_target_def put_in_def intro!: remote_fetch_cong)
next
  case (6 s b tag s')
  let ?n = "describe_bytes sha256_digests MediaTypeImageManifest b"
  from 6 have s': "s' = s\<lparr>rg_manifests := put_in repo (sha256_digest b) (MediaTypeImageManifest, b)
      (put_in repo tag (MediaTypeImageManifest, b) (rg_manifests s))\<rparr>"
    using upload_manifest_effect [of repo ?n b tag s True s'] by (simp add: remote_repository_def describe_bytes_def)
  with 6(1) have "well_behaved s'" by (simp add: well_behaved_def)
  from well_behaved_blob [OF this, of "sha256_digest b" sha256_digests] s' show ?case
    by (simp add: remote_target_def describe_bytes_def remote_resolve_def handleManifest_def reply_of_def
        reply_header_def lookup_str_def put_in_def)
next
  case (7 s n b tag ok s' k)
  then show ?case
    using upload_manifest_effect [of repo n b tag s ok s']
    by (auto simp: remote_repository_def remote_target_def intro!: remote_fetch_cong)
qed (simp_all add: describe_bytes_def)

lemma payload_apart:
  assumes "Digest (describe_bytes sha256_digests mt pl) = Digest (describe_bytes sha256_digests mt' ''{}'')"
    and "pl \<noteq> ''{}''"
  shows "collision sha256"
  using sha256_digest_eq assms by (auto simp: describe_bytes_def)


text \<open>
  An attestation pushed beside an artifact is the one a verifier fetches for it, byte for byte,
  unless SHA-256 collides.
\<close>

theorem pushed_attestation_fetched:
  assumes "PushAttestation (describe_bytes sha256_digests) (remote_repository sha256_digests repo) target env r = (Inr d, r')"
    and "well_behaved r" and "0 \<le> Size target" and "int (length env) < 2 ^ 63" and "env \<noteq> ''{}''"
  shows "FetchAttestation (remote_target sha256_digests repo r') (AttTag (Digest target)) (node_of target) = Inr env \<or>
    collision sha256"
  using remote.pushed_attestation_found [OF assms(1-4)] payload_apart [OF _ assms(5)] by blast

lemma upload_accepted:
  "Digest n = sha256_digest b \<Longrightarrow> \<exists>r'. upload_blob sha256_digests repo n b r = (Stored, r')"
  by (simp add: upload_blob_def handleUploadStart_def handleUploadPut_def reply_of_def Let_def)

lemma attach_succeeds:
  assumes "Digest layer = sha256_digest data"
  shows "\<exists>d r'. attach (describe_bytes sha256_digests) (remote_repository sha256_digests repo) arty layer data target tag r =
    (Inr d, r')"
proof -
  obtain r1 where "upload_blob sha256_digests repo (node_of layer) data r = (Stored, r1)"
    using upload_accepted [of "node_of layer" data] assms by (auto simp: node.defs)
  moreover obtain r2 where "upload_blob sha256_digests repo
      (describe_bytes sha256_digests MediaTypeImageConfig ''{}'') ''{}'' r1 = (Stored, r2)"
    using upload_accepted [of "describe_bytes sha256_digests MediaTypeImageConfig ''{}''" "''{}''"]
    by (auto simp: describe_bytes_def)
  ultimately show ?thesis
    by (simp add: attach_def push_def remote_repository_def upload_manifest_def handleManifest_def
        PutManifest_def Let_def reply_of_def)
qed

definition sample_target :: descriptor where
  "sample_target = \<lparr>MediaType = MediaTypeImageManifest, Digest = ''sha256:ab'', Size = 5, Annotations = []\<rparr>"

lemma New_well_behaved: "well_behaved New"
  by (simp add: well_behaved_def New_def)


lemma pushed_attestation_fetched_witness:
  "\<exists>d r'. PushAttestation (describe_bytes sha256_digests) (remote_repository sha256_digests ''m'') sample_target
      ''env'' New = (Inr d, r') \<and>
    (FetchAttestation (remote_target sha256_digests ''m'' r') (AttTag (Digest sample_target)) (node_of sample_target) =
       Inr ''env'' \<or> collision sha256)"
proof -
  let ?l = "annotated (describe_bytes sha256_digests ArtifactTypeAttestation ''env'')
    [(AnnotationSignature, []), (AnnotationPredicateType, PredicateType)]"
  have dg: "Digest ?l = sha256_digest ''env''" by (simp add: annotated_def describe_bytes_def node.defs)
  obtain d r' where s: "PushAttestation (describe_bytes sha256_digests) (remote_repository sha256_digests ''m'')
      sample_target ''env'' New = (Inr d, r')"
    using attach_succeeds [OF dg, of "''m''" ArtifactTypeAttestation sample_target "AttTag (Digest sample_target)" New]
    unfolding PushAttestation_def by blast
  have sz: "0 \<le> Size sample_target" by (simp add: sample_target_def)
  from s pushed_attestation_fetched [OF s New_well_behaved sz] show ?thesis by simp
qed

end
