(* ===== verification/Provenance.thy ===== *)
theory Provenance
  imports Signing "HOL-Library.Multiset"
begin

text \<open>
  \<^verbatim>\<open>internal/cli/sign.go\<close>, the provenance half: an attestation's records held against the
  layers of the artifact's own manifest, and the lines printed about them.
\<close>

section \<open>Text that cannot forge the output\<close>

text \<open>
  Ranging over a Go string: the code points of its UTF-8 sequences, and the replacement character
  for each byte that starts none.
\<close>

definition continuation :: "char \<Rightarrow> bool" where
  "continuation c \<longleftrightarrow> 128 \<le> (of_char c :: nat) \<and> (of_char c :: nat) < 192"

definition low6 :: "char \<Rightarrow> nat" where
  "low6 c = of_char c mod 64"

definition first_rune :: "string \<Rightarrow> nat \<times> nat" where
  "first_rune s =
     (let b = of_char (hd s) :: nat; t = tl s in
      if b < 128 then (b, 1)
      else if 194 \<le> b \<and> b < 224 \<and> t \<noteq> [] \<and> continuation (hd t) then (64 * (b mod 32) + low6 (hd t), 2)
      else if 224 \<le> b \<and> b < 240 \<and> 2 \<le> length t \<and> continuation (t ! 0) \<and> continuation (t ! 1) then
        (let r = 4096 * (b mod 16) + 64 * low6 (t ! 0) + low6 (t ! 1) in
         if 2048 \<le> r \<and> \<not> surrogate r then (r, 3) else (65533, 1))
      else if 240 \<le> b \<and> b < 245 \<and> 3 \<le> length t \<and> continuation (t ! 0) \<and> continuation (t ! 1) \<and> continuation (t ! 2) then
        (let r = 262144 * (b mod 8) + 4096 * low6 (t ! 0) + 64 * low6 (t ! 1) + low6 (t ! 2) in
         if 65536 \<le> r \<and> r < 1114112 then (r, 4) else (65533, 1))
      else (65533, 1))"

lemma first_rune_width: "1 \<le> snd (first_rune s)"
  by (simp add: first_rune_def Let_def)

function runes :: "string \<Rightarrow> nat list" where
  "runes [] = []"
| "runes (c # s) = fst (first_rune (c # s)) # runes (drop (snd (first_rune (c # s))) (c # s))"
  by pat_completeness auto

termination
proof (relation "measure length")
  fix c s
  show "(drop (snd (first_rune (c # s))) (c # s), c # s) \<in> measure length"
    using first_rune_width [of "c # s"] by simp
qed simp

text \<open>\<^verbatim>\<open>unicode.IsControl\<close>, and the category of format characters.\<close>

definition is_control :: "nat \<Rightarrow> bool" where
  "is_control r \<longleftrightarrow> r < 32 \<or> 127 \<le> r \<and> r < 160"

definition format_ranges :: "(nat \<times> nat) list" where
  "format_ranges =
     [(0xAD, 0xAD), (0x600, 0x605), (0x61C, 0x61C), (0x6DD, 0x6DD), (0x70F, 0x70F), (0x890, 0x891),
      (0x8E2, 0x8E2), (0x180E, 0x180E), (0x200B, 0x200F), (0x202A, 0x202E), (0x2060, 0x2064),
      (0x2066, 0x206F), (0xFEFF, 0xFEFF), (0xFFF9, 0xFFFB), (0x110BD, 0x110BD), (0x110CD, 0x110CD),
      (0x13430, 0x1343F), (0x1BCA0, 0x1BCA3), (0x1D173, 0x1D17A), (0xE0001, 0xE0001), (0xE0020, 0xE007F)]"

definition is_format :: "nat \<Rightarrow> bool" where
  "is_format r \<longleftrightarrow> list_ex (\<lambda>(a, b). a \<le> r \<and> r \<le> b) format_ranges"

definition forging :: "string \<Rightarrow> bool" where
  "forging s \<longleftrightarrow> list_ex (\<lambda>r. is_control r \<or> is_format r) (runes s)"

text \<open>\<open>go_quote\<close> is \<^verbatim>\<open>strconv.Quote\<close>.\<close>

definition displaySafe :: "(string \<Rightarrow> string) \<Rightarrow> string \<Rightarrow> string" where
  "displaySafe go_quote s = (if forging s then go_quote s else s)"

section \<open>Records against layers\<close>

record layerKey =
  k_digest :: string
  k_repo :: string
  k_path :: string
  k_revision :: string
  k_published :: string

definition layerOf :: "layer \<Rightarrow> layerKey" where
  "layerOf l = \<lparr>k_digest = l_Digest l, k_repo = l_Repo l, k_path = l_Path l,
     k_revision = l_Revision l, k_published = l_Published l\<rparr>"

datatype mismatch =
    AbsentLayer string | NoSourceFor string | RecordedTooOften string
  | SourceDiffers layer layer | PublishedDiffers layer layer | NoRecord string string

text \<open>The first layer of the record's digest that differs says how.\<close>

fun first_difference :: "layer \<Rightarrow> layer list \<Rightarrow> mismatch" where
  "first_difference a [] = RecordedTooOften (l_Digest a)"
| "first_difference a (w # ws) =
     (if l_Digest w \<noteq> l_Digest a then first_difference a ws
      else if l_Repo a \<noteq> l_Repo w \<or> l_Path a \<noteq> l_Path w \<or> l_Revision a \<noteq> l_Revision w then SourceDiffers a w
      else if l_Published a \<noteq> l_Published w then PublishedDiffers a w
      else first_difference a ws)"

definition unmatchedRecord :: "layer \<Rightarrow> layer list \<Rightarrow> mismatch" where
  "unmatchedRecord a want =
     (if list_ex (\<lambda>w. layerOf w = layerOf a) want then RecordedTooOften (l_Digest a)
      else first_difference a want)"

text \<open>A Go map of counts: zero for a key that is not there.\<close>

definition count_layers :: "layer list \<Rightarrow> layerKey \<Rightarrow> nat" where
  "count_layers want = foldl (\<lambda>m l. m(layerOf l := Suc (m (layerOf l)))) (\<lambda>_. 0) want"

fun match_records ::
    "string set \<Rightarrow> string set \<Rightarrow> layer list \<Rightarrow> layer list \<Rightarrow> (layerKey \<Rightarrow> nat) \<Rightarrow> mismatch + (layerKey \<Rightarrow> nat)" where
  "match_records haveDigest sourced want [] remaining = Inr remaining"
| "match_records haveDigest sourced want (a # attested) remaining =
     (if 0 < remaining (layerOf a) then
        match_records haveDigest sourced want attested
          (remaining(layerOf a := remaining (layerOf a) - 1))
      else if l_Digest a \<notin> haveDigest then Inl (AbsentLayer (l_Digest a))
      else if l_Digest a \<notin> sourced then Inl (NoSourceFor (l_Digest a))
      else Inl (unmatchedRecord a want))"

fun first_unrecorded :: "layer list \<Rightarrow> (layerKey \<Rightarrow> nat) \<Rightarrow> mismatch + unit" where
  "first_unrecorded [] remaining = Inr ()"
| "first_unrecorded (w # ws) remaining =
     (if 0 < remaining (layerOf w) then Inl (NoRecord (l_Digest w) (l_Path w))
      else first_unrecorded ws remaining)"

definition attestationMatchesManifest :: "layer list \<Rightarrow> manifest \<Rightarrow> mismatch + unit" where
  "attestationMatchesManifest attested man =
     (let want = LayersFromManifest man in
      bind_res
        (match_records (Digest ` set (Layers man)) (l_Digest ` set want) want attested (count_layers want))
        (first_unrecorded want))"

section \<open>The lines printed\<close>

fun provenance_from :: "(string \<Rightarrow> string) \<Rightarrow> layer list \<Rightarrow> string list \<Rightarrow> string list" where
  "provenance_from q [] seen = []"
| "provenance_from q (l # ls) seen =
     (let key = l_Repo l @ ''@'' @ l_Revision l in
      if key \<in> set seen then provenance_from q ls seen
      else (if l_Revision l = [] then displaySafe q (l_Repo l)
            else displaySafe q (l_Repo l) @ ''@'' @ displaySafe q (l_Revision l))
           # provenance_from q ls (key # seen))"

definition provenanceLines :: "(string \<Rightarrow> string) \<Rightarrow> layer list \<Rightarrow> string list" where
  "provenanceLines q layers = provenance_from q layers []"

section \<open>What they establish\<close>

lemma layerOf_inj: "layerOf l = layerOf l' \<longleftrightarrow> l = l'"
  by (cases l; cases l') (auto simp: layerOf_def)

lemma count_layers_from:
  "foldl (\<lambda>m l. m(layerOf l := Suc (m (layerOf l)))) m0 want (layerOf x) = m0 (layerOf x) + count (mset want) x"
  by (induction want arbitrary: m0) (auto simp: layerOf_inj)

lemma count_layers_mset: "count_layers want (layerOf x) = count (mset want) x"
  by (simp add: count_layers_def count_layers_from)

definition layer_at :: "layerKey \<Rightarrow> layer" where
  "layer_at k = \<lparr>l_Digest = k_digest k, l_Repo = k_repo k, l_Revision = k_revision k, l_Path = k_path k,
     l_Published = k_published k\<rparr>"

lemma layer_at_layerOf [simp]: "layer_at (layerOf l) = l" "layerOf (layer_at k) = k"
  by (simp_all add: layer_at_def layerOf_def)

lemma layerOf_eq: "k = layerOf l \<longleftrightarrow> layer_at k = l"
  by auto

text \<open>What the scan of the records ends with: every record taken off, or one that cannot be.\<close>

lemma match_records_Inr:
  "match_records H S want as m = Inr m' \<longleftrightarrow>
     (\<forall>x. count (mset as) x \<le> m (layerOf x)) \<and> m' = (\<lambda>k. m k - count (mset as) (layer_at k))"
proof (induction as arbitrary: m)
  case Nil
  show ?case by auto
next
  case (Cons a as)
  show ?case
  proof (cases "0 < m (layerOf a)")
    case True
    let ?m = "m(layerOf a := m (layerOf a) - 1)"
    have "count (mset as) x \<le> ?m (layerOf x) \<longleftrightarrow> count (mset (a # as)) x \<le> m (layerOf x)" for x
      using True by (cases "x = a") (auto simp: layerOf_inj)
    then have le: "(\<forall>x. count (mset as) x \<le> ?m (layerOf x)) \<longleftrightarrow> (\<forall>x. count (mset (a # as)) x \<le> m (layerOf x))"
      by blast
    have eq: "(\<lambda>k. ?m k - count (mset as) (layer_at k)) = (\<lambda>k. m k - count (mset (a # as)) (layer_at k))"
      using True by (auto simp: fun_eq_iff layerOf_eq)
    show ?thesis using True Cons [of ?m] by (simp only: match_records.simps if_True le eq)
  next
    case False
    then have "\<not> (\<forall>x. count (mset (a # as)) x \<le> m (layerOf x))" by (auto intro: exI [of _ a])
    with False show ?thesis by auto
  qed
qed

lemma first_unrecorded_ok: "first_unrecorded ws m = Inr u \<longleftrightarrow> (\<forall>w \<in> set ws. m (layerOf w) = 0)"
  by (induction ws) auto

lemma attestationMatches_iff:
  "attestationMatchesManifest attested man = Inr () \<longleftrightarrow> mset attested = mset (LayersFromManifest man)"
proof -
  let ?w = "LayersFromManifest man"
  let ?A = "mset attested" and ?W = "mset ?w"
  have "attestationMatchesManifest attested man = Inr () \<longleftrightarrow>
      (\<exists>m'. match_records (Digest ` set (Layers man)) (l_Digest ` set ?w) ?w attested (count_layers ?w) = Inr m' \<and>
        (\<forall>w \<in> set ?w. m' (layerOf w) = 0))"
    by (simp add: attestationMatchesManifest_def Let_def first_unrecorded_ok)
  also have "\<dots> \<longleftrightarrow> (\<forall>x. count ?A x \<le> count ?W x) \<and> (\<forall>w \<in> set ?w. count ?W w - count ?A w = 0)"
    by (simp add: match_records_Inr count_layers_mset)
  also have "\<dots> \<longleftrightarrow> ?A = ?W"
  proof
    assume a: "(\<forall>x. count ?A x \<le> count ?W x) \<and> (\<forall>w \<in> set ?w. count ?W w - count ?A w = 0)"
    have "count ?A x = count ?W x" for x
    proof (cases "x \<in> set ?w")
      case True
      with a have "count ?W x \<le> count ?A x" by auto
      with a show ?thesis by (meson le_antisym)
    next
      case False
      then have "count ?W x = 0" by (simp add: count_mset_0_iff)
      moreover from a have "count ?A x \<le> count ?W x" by blast
      ultimately show ?thesis by linarith
    qed
    then show "?A = ?W" by (rule multiset_eqI)
  qed auto
  finally show ?thesis .
qed

text \<open>
  C31. An attestation is accepted for an artifact exactly when its records are the layers of the
  artifact's manifest that state a source: the same records, each as many times, in any order. A
  record too many, one too few, and one with any field changed are all refused.
\<close>

theorem attestationMatchesManifest_exact:
  "attestationMatchesManifest attested man = Inr () \<longleftrightarrow> mset attested = mset (LayersFromManifest man)"
  by (rule attestationMatches_iff)

text \<open>A refusal is true when what it says of the records and the layers is so.\<close>

fun mismatch_true :: "mismatch \<Rightarrow> layer list \<Rightarrow> manifest \<Rightarrow> bool" where
  "mismatch_true (AbsentLayer d) as man \<longleftrightarrow>
     d \<in> l_Digest ` set as \<and> d \<notin> Digest ` set (Layers man)"
| "mismatch_true (NoSourceFor d) as man \<longleftrightarrow>
     d \<in> l_Digest ` set as \<and> d \<in> Digest ` set (Layers man) \<and> d \<notin> l_Digest ` set (LayersFromManifest man)"
| "mismatch_true (RecordedTooOften d) as man \<longleftrightarrow>
     (\<exists>a \<in> set as. l_Digest a = d \<and> a \<in> set (LayersFromManifest man) \<and>
       count (mset (LayersFromManifest man)) a < count (mset as) a)"
| "mismatch_true (SourceDiffers a w) as man \<longleftrightarrow>
     a \<in> set as - set (LayersFromManifest man) \<and> w \<in> set (LayersFromManifest man) \<and> l_Digest w = l_Digest a \<and>
     (l_Repo a \<noteq> l_Repo w \<or> l_Path a \<noteq> l_Path w \<or> l_Revision a \<noteq> l_Revision w)"
| "mismatch_true (PublishedDiffers a w) as man \<longleftrightarrow>
     a \<in> set as - set (LayersFromManifest man) \<and> w \<in> set (LayersFromManifest man) \<and> l_Digest w = l_Digest a \<and>
     l_Repo a = l_Repo w \<and> l_Path a = l_Path w \<and> l_Revision a = l_Revision w \<and> l_Published a \<noteq> l_Published w"
| "mismatch_true (NoRecord d p) as man \<longleftrightarrow>
     (\<exists>w \<in> set (LayersFromManifest man). l_Digest w = d \<and> l_Path w = p \<and>
       count (mset as) w < count (mset (LayersFromManifest man)) w)"

lemma match_records_Inl:
  "match_records H S want as m = Inl e \<Longrightarrow>
     \<exists>pre a post. as = pre @ a # post \<and> m (layerOf a) \<le> count (mset pre) a \<and>
       e = (if l_Digest a \<notin> H then AbsentLayer (l_Digest a)
            else if l_Digest a \<notin> S then NoSourceFor (l_Digest a) else unmatchedRecord a want)"
proof (induction as arbitrary: m)
  case (Cons b as)
  show ?case
  proof (cases "0 < m (layerOf b)")
    case True
    with Cons.prems have "match_records H S want as (m(layerOf b := m (layerOf b) - 1)) = Inl e" by simp
    from Cons.IH [OF this] obtain pre a post where as: "as = pre @ a # post"
      and le: "(m(layerOf b := m (layerOf b) - 1)) (layerOf a) \<le> count (mset pre) a"
      and e: "e = (if l_Digest a \<notin> H then AbsentLayer (l_Digest a)
        else if l_Digest a \<notin> S then NoSourceFor (l_Digest a) else unmatchedRecord a want)"
      by blast
    have "m (layerOf a) \<le> count (mset (b # pre)) a"
      using le True by (cases "a = b") (auto simp: layerOf_inj)
    with as e show ?thesis by (intro exI [of _ "b # pre"] exI [of _ a] exI [of _ post]) simp
  next
    case False
    with Cons.prems show ?thesis
      by (intro exI [of _ "[]"] exI [of _ b] exI [of _ as]) (auto split: if_splits)
  qed
qed simp

lemma first_difference_true:
  "\<exists>w \<in> set want. l_Digest w = l_Digest a \<Longrightarrow> a \<notin> set want \<Longrightarrow>
     \<exists>w \<in> set want. l_Digest w = l_Digest a \<and>
       (first_difference a want = SourceDiffers a w \<and>
          (l_Repo a \<noteq> l_Repo w \<or> l_Path a \<noteq> l_Path w \<or> l_Revision a \<noteq> l_Revision w) \<or>
        first_difference a want = PublishedDiffers a w \<and> l_Repo a = l_Repo w \<and> l_Path a = l_Path w \<and>
          l_Revision a = l_Revision w \<and> l_Published a \<noteq> l_Published w)"
proof (induction want)
  case (Cons w ws)
  show ?case
  proof (cases "l_Digest w = l_Digest a")
    case True
    have "\<not> (l_Repo a = l_Repo w \<and> l_Path a = l_Path w \<and> l_Revision a = l_Revision w \<and> l_Published a = l_Published w)"
      using True Cons.prems(2) by (cases a; cases w) auto
    with True show ?thesis by auto
  next
    case False
    with Cons show ?thesis by auto
  qed
qed simp

lemma first_unrecorded_Inl:
  "first_unrecorded ws m = Inl e \<Longrightarrow> \<exists>w \<in> set ws. 0 < m (layerOf w) \<and> e = NoRecord (l_Digest w) (l_Path w)"
  by (induction ws) (auto split: if_splits)

lemma unmatched_true:
  assumes "a \<in> set as" and "count (mset (LayersFromManifest man)) a < count (mset as) a"
    and "l_Digest a \<in> l_Digest ` set (LayersFromManifest man)"
  shows "mismatch_true (unmatchedRecord a (LayersFromManifest man)) as man"
proof (cases "a \<in> set (LayersFromManifest man)")
  case True
  with assms show ?thesis by (auto simp: unmatchedRecord_def list_ex_iff layerOf_inj)
next
  case False
  from assms(3) have "\<exists>w \<in> set (LayersFromManifest man). l_Digest w = l_Digest a" by force
  from first_difference_true [OF this False] have "mismatch_true (first_difference a (LayersFromManifest man)) as man"
    using False assms(1) by (elim bexE conjE disjE) simp_all
  with False show ?thesis by (auto simp: unmatchedRecord_def list_ex_iff layerOf_inj)
qed

text \<open>
  A refused attestation is refused for the reason it is told: a record of a layer the artifact
  does not have, of a layer that states no source, of a layer more often than the artifact has it,
  a record whose source or published digest differs from the layer's own, or a layer with a source
  that too few records name.
\<close>

theorem refusal_is_true:
  assumes "attestationMatchesManifest attested man = Inl e"
  shows "mismatch_true e attested man"
proof -
  let ?w = "LayersFromManifest man"
  let ?r = "match_records (Digest ` set (Layers man)) (l_Digest ` set ?w) ?w attested (count_layers ?w)"
  consider "?r = Inl e" | m' where "?r = Inr m'" "first_unrecorded ?w m' = Inl e"
    using assms by (auto simp: attestationMatchesManifest_def Let_def)
  then show ?thesis
  proof cases
    case 1
    from match_records_Inl [OF this] obtain pre a post where a: "attested = pre @ a # post"
      and le: "count (mset ?w) a \<le> count (mset pre) a"
      and e: "e = (if l_Digest a \<notin> Digest ` set (Layers man) then AbsentLayer (l_Digest a)
        else if l_Digest a \<notin> l_Digest ` set ?w then NoSourceFor (l_Digest a) else unmatchedRecord a ?w)"
      by (auto simp: count_layers_mset)
    have in_as: "a \<in> set attested" using a by simp
    have "count (mset attested) a = Suc (count (mset pre) a + count (mset post) a)"
      unfolding a mset_append count_union by simp
    with le have lt: "count (mset ?w) a < count (mset attested) a" by linarith
    show ?thesis
      using e in_as unmatched_true [OF in_as lt] by (cases "l_Digest a \<in> Digest ` set (Layers man)") auto
  next
    case 2
    from first_unrecorded_Inl [OF 2(2)] obtain w where w: "w \<in> set ?w" "0 < m' (layerOf w)"
      "e = NoRecord (l_Digest w) (l_Path w)" by blast
    from 2(1) have "m' (layerOf w) = count (mset ?w) w - count (mset attested) w"
      by (simp add: match_records_Inr count_layers_mset del: count_mset)
    with w(2) have "count (mset attested) w < count (mset ?w) w" by linarith
    with w show ?thesis by (auto simp del: count_mset)
  qed
qed

lemma refusal_is_true_witness:
  "mismatch_true (AbsentLayer ''d'')
     [\<lparr>l_Digest = ''d'', l_Repo = ''r'', l_Revision = [], l_Path = ''p'', l_Published = []\<rparr>]
     \<lparr>m_artifactType = [], Config = no_descriptor, Layers = [], m_annotations = []\<rparr>"
  by (rule refusal_is_true)
     (simp add: attestationMatchesManifest_def LayersFromManifest_def count_layers_def map_filter_def)

text \<open>Two different sources can share the text by which a source already printed is recognised.\<close>

lemma provenance_key_collides:
  "provenanceLines id
     [\<lparr>l_Digest = ''d'', l_Repo = ''a@b'', l_Revision = ''c'', l_Path = ''p'', l_Published = []\<rparr>,
      \<lparr>l_Digest = ''e'', l_Repo = ''a'', l_Revision = ''b@c'', l_Path = ''p'', l_Published = []\<rparr>] = [''a@b@c'']"
  by (simp add: provenanceLines_def displaySafe_def)

end
