(* ===== verification/Rehash.thy ===== *)
theory Rehash
  imports Digests
begin

text \<open>
  \<^verbatim>\<open>internal/store/rehash.go\<close>: every blob of an artifact read back and held to the digest its
  manifest records. A fetcher has a whole read that the library checks, and a stream: the bytes it
  delivers, and whether it breaks off after them.
\<close>

record fetcher =
  fetch_all :: "node \<Rightarrow> string option"
  open_blob :: "node \<Rightarrow> (string \<times> bool) option"

definition int64 :: "int \<Rightarrow> int" where
  "int64 i = sint (word_of_int i :: 64 word)"

definition maxJSONBlobSize :: int where
  "maxJSONBlobSize = 4 * 2 ^ 20"

datatype fetch_error = JSONSize string int | JSONFetch string | JSONDecode string string

definition FetchJSON :: "(string \<Rightarrow> 'a option) \<Rightarrow> fetcher \<Rightarrow> node \<Rightarrow> fetch_error + 'a" where
  "FetchJSON unmarshal F d =
     (if Size d \<le> 0 \<or> maxJSONBlobSize < Size d then Inl (JSONSize (MediaType d) (Size d))
      else bind_res (from_option (JSONFetch (Digest d)) (fetch_all F d)) (\<lambda>b.
        from_option (JSONDecode (MediaType d) (Digest d)) (unmarshal b)))"

definition FetchManifest :: "fetcher \<Rightarrow> node \<Rightarrow> fetch_error + manifest" where
  "FetchManifest = FetchJSON unmarshal_manifest"

datatype rehash_error =
    NotAManifest string | ManifestSize int | ManifestUnread string | ManifestGarbled string | NoConfig string
  | BadDigest string | BlobUnread string | BlobLength string int int | BlobChanged string

record report =
  Blobs :: int
  Bytes :: int

text \<open>
  What is read through a reader limited to one byte past the recorded size, in 64 bits: nothing
  when that is not positive. A break is seen only before the limit.
\<close>

definition rehashBlob :: "digest_lib \<Rightarrow> fetcher \<Rightarrow> node \<Rightarrow> rehash_error + unit" where
  "rehashBlob L F d =
     (if \<not> Validate_ok L (Digest d) then Inl (BadDigest (MediaType d))
      else case open_blob F d of
        None \<Rightarrow> Inl (BlobUnread (Digest d))
      | Some (c, breaks_off) \<Rightarrow>
          (let limit = nat (int64 (Size d + 1)); got = take limit c in
           if breaks_off \<and> length c < limit then Inl (BlobUnread (Digest d))
           else if int (length got) \<noteq> Size d then Inl (BlobLength (Digest d) (int (length got)) (Size d))
           else if \<not> Verified L (Digest d) got then Inl (BlobChanged (Digest d))
           else Inr ()))"

fun rehash_blobs :: "digest_lib \<Rightarrow> fetcher \<Rightarrow> node list \<Rightarrow> report \<Rightarrow> rehash_error + report" where
  "rehash_blobs L F [] r = Inr r"
| "rehash_blobs L F (b # bs) r =
     bind_res (rehashBlob L F b) (\<lambda>_.
       rehash_blobs L F bs (r\<lparr>Blobs := Blobs r + 1, Bytes := int64 (Bytes r + Size b)\<rparr>))"

definition Rehash :: "digest_lib \<Rightarrow> fetcher \<Rightarrow> node \<Rightarrow> rehash_error + report" where
  "Rehash L F d =
     (if MediaType d \<noteq> MediaTypeImageManifest then Inl (NotAManifest (MediaType d))
      else if Size d \<le> 0 \<or> maxJSONBlobSize < Size d then Inl (ManifestSize (Size d))
      else bind_res (from_option (ManifestUnread (Digest d)) (fetch_all F d)) (\<lambda>raw.
        bind_res (from_option (ManifestGarbled (Digest d)) (unmarshal_manifest raw)) (\<lambda>man.
          if Digest (Config man) = [] then Inl (NoConfig (Digest d))
          else rehash_blobs L F (map node_of (Config man # Layers man)) \<lparr>Blobs = 1, Bytes = Size d\<rparr>)))"

section \<open>What a clean report means\<close>

text \<open>A blob on this host is the one the manifest records: it is read whole and hashes to its digest.\<close>

definition intact :: "digest_lib \<Rightarrow> fetcher \<Rightarrow> node \<Rightarrow> bool" where
  "intact L F b \<longleftrightarrow> Validate_ok L (Digest b) \<and> Size b < 2 ^ 63 - 1 \<and>
     (\<exists>c. open_blob F b = Some (c, False) \<and> int (length c) = Size b \<and> Verified L (Digest b) c)"

lemma int64_small: "- (2 ^ 63) \<le> i \<Longrightarrow> i < 2 ^ 63 \<Longrightarrow> int64 i = i"
  by (simp add: int64_def signed_take_bit_int_eq_self sint_sbintrunc')

lemma int64_top: "int64 (2 ^ 63) < 0"
  by (simp add: int64_def)

lemma rehashBlob_ok:
  assumes "- (2 ^ 63) \<le> Size b" and "Size b < 2 ^ 63"
  shows "rehashBlob L F b = Inr u \<longleftrightarrow> intact L F b"
proof (cases "Size b = 2 ^ 63 - 1")
  case True
  then have "nat (int64 (Size b + 1)) = 0" using int64_top by simp
  with True show ?thesis by (auto simp: rehashBlob_def intact_def Let_def split: option.splits)
next
  case False
  then have lim: "int64 (Size b + 1) = Size b + 1" using assms by (intro int64_small) auto
  have whole: "int (length (take (nat (Size b + 1)) c)) = Size b \<longleftrightarrow> int (length c) = Size b" for c :: string
    by auto
  have all: "int (length c) = Size b \<Longrightarrow> take (nat (Size b + 1)) c = c" for c :: string by auto
  show ?thesis
    using False assms(2) unfolding rehashBlob_def intact_def Let_def lim
    by (auto simp: whole all split: option.splits if_splits)
qed

text \<open>The sizes a decoded descriptor holds fit in 64 bits.\<close>

lemma int64_of_range: "int64_of s = Some v \<Longrightarrow> - (2 ^ 63) \<le> v \<and> v < 2 ^ 63"
  by (auto simp: int64_of_def Let_def split: if_splits)

definition sized :: "node \<Rightarrow> bool" where
  "sized b \<longleftrightarrow> - (2 ^ 63) \<le> Size b \<and> Size b < 2 ^ 63"

lemma decode_descriptor_sized: "decode_descriptor j = Some d \<Longrightarrow> sized (node_of d)"
proof -
  assume d: "decode_descriptor j = Some d"
  then obtain n where n: "decode_node j = Some n" "Size d = Size n"
    by (auto simp: decode_descriptor_def node.defs split: option.splits)
  have "sized n"
    using n(1) int64_of_range
    by (auto simp: decode_node_def int_field_def sized_def split: json.splits option.splits)
  with n(2) show ?thesis by (simp add: sized_def node.defs)
qed

lemma decode_all_sized: "decode_all decode_descriptor js = Some ds \<Longrightarrow> d \<in> set ds \<Longrightarrow> sized (node_of d)"
  by (induction js arbitrary: ds) (auto split: option.splits dest: decode_descriptor_sized)

lemma manifest_sized:
  assumes "unmarshal_manifest raw = Some m" and "d \<in> set (Config m # Layers m)"
  shows "sized (node_of d)"
proof -
  have "sized (node_of no_descriptor)" by (simp add: sized_def no_descriptor_def node.defs)
  with assms show ?thesis
    by (auto simp: unmarshal_manifest_def decode_manifest_def list_field_def sub_field_def
        dest: decode_descriptor_sized decode_all_sized split: json.splits option.splits Option.bind_splits)
qed

lemma rehash_blobs_ok:
  "(\<And>b. b \<in> set bs \<Longrightarrow> sized b) \<Longrightarrow>
     rehash_blobs L F bs r = Inr rep \<longleftrightarrow> (\<forall>b \<in> set bs. intact L F b) \<and>
       rep = foldl (\<lambda>r b. r\<lparr>Blobs := Blobs r + 1, Bytes := int64 (Bytes r + Size b)\<rparr>) r bs"
proof (induction bs arbitrary: r)
  case (Cons b bs)
  have "rehashBlob L F b = Inr u \<longleftrightarrow> intact L F b" for u
    using Cons.prems [of b] by (intro rehashBlob_ok) (simp_all add: sized_def)
  with Cons show ?case by auto
qed auto

lemma int64_add: "int64 (int64 x + y) = int64 (x + y)"
proof -
  have "(word_of_int (int64 x + y) :: 64 word) = word_of_int (x + y)"
    by (simp add: int64_def wi_hom_syms)
  then show ?thesis by (simp only: int64_def)
qed

lemma report_total:
  "foldl (\<lambda>r b. r\<lparr>Blobs := Blobs r + 1, Bytes := int64 (Bytes r + Size b)\<rparr>) \<lparr>Blobs = n, Bytes = int64 x\<rparr> bs =
     \<lparr>Blobs = n + int (length bs), Bytes = int64 (x + (\<Sum>b\<leftarrow>bs. Size b))\<rparr>"
  by (induction bs arbitrary: n x) (simp_all add: int64_add add.assoc)

lemma Rehash_spec:
  "Rehash L F d = Inr rep \<longleftrightarrow>
     MediaType d = MediaTypeImageManifest \<and> 0 < Size d \<and> Size d \<le> maxJSONBlobSize \<and>
     (\<exists>raw man. fetch_all F d = Some raw \<and> unmarshal_manifest raw = Some man \<and> Digest (Config man) \<noteq> [] \<and>
       (\<forall>b \<in> set (Config man # Layers man). intact L F (node_of b)) \<and>
       rep = \<lparr>Blobs = 2 + int (length (Layers man)),
              Bytes = int64 (Size d + Size (Config man) + (\<Sum>b\<leftarrow>Layers man. Size b))\<rparr>)"
proof -
  have blobs: "rehash_blobs L F (map node_of (Config man # Layers man)) \<lparr>Blobs = 1, Bytes = Size d\<rparr> = Inr rep \<longleftrightarrow>
      (\<forall>b \<in> set (Config man # Layers man). intact L F (node_of b)) \<and>
      rep = \<lparr>Blobs = 2 + int (length (Layers man)),
             Bytes = int64 (Size d + Size (Config man) + (\<Sum>b\<leftarrow>Layers man. Size b))\<rparr>"
    if m: "unmarshal_manifest raw = Some man" and d: "0 < Size d" "Size d \<le> maxJSONBlobSize" for raw man
  proof -
    have sz: "sized b" if "b \<in> set (map node_of (Config man # Layers man))" for b
      using that manifest_sized [OF m] by auto
    have scan: "rehash_blobs L F (map node_of (Config man # Layers man)) \<lparr>Blobs = 1, Bytes = Size d\<rparr> = Inr rep \<longleftrightarrow>
        (\<forall>b \<in> set (map node_of (Config man # Layers man)). intact L F b) \<and>
        rep = foldl (\<lambda>r b. r\<lparr>Blobs := Blobs r + 1, Bytes := int64 (Bytes r + Size b)\<rparr>)
          \<lparr>Blobs = 1, Bytes = Size d\<rparr> (map node_of (Config man # Layers man))"
      by (rule rehash_blobs_ok) (rule sz)
    have "int64 (Size d) = Size d" using d by (intro int64_small) (simp_all add: maxJSONBlobSize_def)
    then have "foldl (\<lambda>r b. r\<lparr>Blobs := Blobs r + 1, Bytes := int64 (Bytes r + Size b)\<rparr>)
        \<lparr>Blobs = 1, Bytes = Size d\<rparr> (map node_of (Config man # Layers man)) =
      \<lparr>Blobs = 2 + int (length (Layers man)),
       Bytes = int64 (Size d + Size (Config man) + (\<Sum>b\<leftarrow>Layers man. Size b))\<rparr>"
      using report_total [of 1 "Size d" "map node_of (Config man # Layers man)"]
      by (simp add: comp_def node.defs add.assoc)
    then show ?thesis unfolding scan by (simp del: foldl.simps foldl_Cons)
  qed
  show ?thesis
  proof (cases "MediaType d = MediaTypeImageManifest \<and> 0 < Size d \<and> Size d \<le> maxJSONBlobSize")
    case True
    show ?thesis
    proof (cases "fetch_all F d")
      case (Some raw)
      show ?thesis
      proof (cases "unmarshal_manifest raw")
        case (Some man)
        with True \<open>fetch_all F d = Some raw\<close> blobs [OF Some] show ?thesis
          by (simp add: Rehash_def del: rehash_blobs.simps list.map)
      qed (use True \<open>fetch_all F d = Some raw\<close> in \<open>simp add: Rehash_def\<close>)
    qed (use True in \<open>simp add: Rehash_def\<close>)
  qed (auto simp: Rehash_def)
qed

text \<open>
  C35. A clean re-read means exactly this: the descriptor is of an image manifest of a size that is
  parsed, its content decodes to a manifest with a configuration, and every blob it names, the
  configuration and each layer, is held at its full recorded size and hashes to its recorded digest.
  The report then counts the manifest and every one of them, with their sizes added up in 64 bits.
\<close>

theorem Rehash_exact:
  "Rehash L F d = Inr rep \<longleftrightarrow>
     MediaType d = MediaTypeImageManifest \<and> 0 < Size d \<and> Size d \<le> maxJSONBlobSize \<and>
     (\<exists>raw man. fetch_all F d = Some raw \<and> unmarshal_manifest raw = Some man \<and> Digest (Config man) \<noteq> [] \<and>
       (\<forall>b \<in> set (Config man # Layers man). intact L F (node_of b)) \<and>
       rep = \<lparr>Blobs = 2 + int (length (Layers man)),
              Bytes = int64 (Size d + Size (Config man) + (\<Sum>b\<leftarrow>Layers man. Size b))\<rparr>)"
  by (rule Rehash_spec)

end
