(* ===== verification/VerifyCmd.thy ===== *)
theory VerifyCmd
  imports Provenance Rehash Keyless TrustPolicy
begin

text \<open>
  \<^verbatim>\<open>internal/cli/sign.go\<close>, \<^verbatim>\<open>internal/cli/explain.go\<close> and
  \<^verbatim>\<open>internal/refname\<close>: where an artifact and its signature are read from, who may sign it, the
  checks of a verification, the gate in front of a model about to be loaded, and the chain the
  \<^verbatim>\<open>verify\<close> command prints. A host is the record of what these read: key files, the local
  store, a registry for a reference, and the libraries' parsers. Text composed for a person is a
  constructor with the values it shows.
\<close>

section \<open>References\<close>

datatype ref_error = EmptyReference | NoRegistryHost | InvalidReference bool

definition DefaultTag :: string where "DefaultTag = ''latest''"

definition hasRegistryHost :: "string \<Rightarrow> bool" where
  "hasRegistryHost raw =
     (case index_of raw ''/'' of
        None \<Rightarrow> False
      | Some i \<Rightarrow> 0 < i \<and>
          (CHR ''.'' \<in> set (take i raw) \<or> CHR '':'' \<in> set (take i raw) \<or> take i raw = ''localhost''))"

text \<open>\<open>parse_ref\<close> is the registry library's \<^verbatim>\<open>ParseReference\<close>.\<close>

definition Parse :: "(string \<Rightarrow> reference option) \<Rightarrow> string \<Rightarrow> string \<Rightarrow> ref_error + reference" where
  "Parse parse_ref raw defaultRegistry =
     (if raw = [] then Inl EmptyReference
      else if \<not> hasRegistryHost raw \<and> defaultRegistry = [] then Inl NoRegistryHost
      else let name = (if hasRegistryHost raw then raw else defaultRegistry @ ''/'' @ raw) in
        case parse_ref name of
          None \<Rightarrow> Inl (InvalidReference (parse_ref (to_lower name) \<noteq> None))
        | Some r \<Rightarrow> Inr (if rf_Reference r = [] then r\<lparr>rf_Reference := DefaultTag\<rparr> else r))"

section \<open>The host\<close>

record config =
  c_default_registry :: string
  c_required :: bool
  c_rehash :: bool
  c_key :: string
  c_policy :: "rule list option"

type_synonym key = "string \<Rightarrow> string \<Rightarrow> bool"

record 'k host =
  parse_ref :: "string \<Rightarrow> reference option"
  ref_text :: "reference \<Rightarrow> string"
  read_file :: "string \<Rightarrow> string option"
  load_key :: "string \<Rightarrow> key option"
  crypto :: "'k crypto"
  root_message :: "string \<Rightarrow> (pb_authority list \<times> pb_log list) option"
  bundle_message :: "string \<Rightarrow> sig_bundle option"
  store :: target
  store_open :: "node \<Rightarrow> (string \<times> bool) option"
  remote :: "reference \<Rightarrow> target option"
  digests :: digest_lib
  go_quote :: "string \<Rightarrow> string"

abbreviation store_blobs :: "'k host \<Rightarrow> fetcher" where
  "store_blobs h \<equiv> \<lparr>fetch_all = t_Fetch (store h), open_blob = store_open h\<rparr>"

datatype keyless_failure =
    RootUnread string | RootBad string keyless_error | BundlesNotFound bundle_error
  | KeylessRefused keyless_error | NoneOf nat keyless_error

datatype last_failure = NoneTried | SigFailure sig_error | KeylessFailure keyless_failure

datatype verify_error =
    BadReference ref_error | StoreRead lookup_error | NoClient | ResolveFailed lookup_error
  | UnsignedHereAndUnreachable reference lookup_error
  | KeyUnread string | KeyUnparsed string | NoKeyConfigured | BadPolicy policy_error
  | NobodyMaySign string "string list"
  | SignatureFailed reference string "string list" last_failure
  | OtherCopy reference string string | NotHeld reference
  | AttestationFetch att_error | AttestationFailed attest_error | SubjectUnread | SubjectGarbled
  | AttestationMismatch mismatch | BlobsFailed rehash_error

section \<open>Sources\<close>

record verifySource =
  vs_target :: target
  vs_sigRef :: string
  vs_attRef :: string
  vs_subject :: node
  vs_name :: string

definition remoteSource :: "target \<Rightarrow> node \<Rightarrow> string \<Rightarrow> verifySource" where
  "remoteSource t d name = \<lparr>vs_target = t, vs_sigRef = SigTag (Digest d), vs_attRef = AttTag (Digest d),
     vs_subject = d, vs_name = name\<rparr>"

definition layoutSource :: "(reference \<Rightarrow> string) \<Rightarrow> target \<Rightarrow> reference \<Rightarrow> node \<Rightarrow> string \<Rightarrow> verifySource" where
  "layoutSource str t ref d name = \<lparr>vs_target = t, vs_sigRef = SigRef str ref (Digest d),
     vs_attRef = AttRef str ref (Digest d), vs_subject = d, vs_name = name\<rparr>"

definition storeHoldsSignature :: "target \<Rightarrow> string \<Rightarrow> node \<Rightarrow> lookup_error + bool" where
  "storeHoldsSignature st sigRef subject =
     (case t_Resolve st sigRef of
        Inr _ \<Rightarrow> Inr True
      | Inl e \<Rightarrow>
          if e \<noteq> NotFoundErr then Inl e
          else case BundleReferrers st subject of
            Inr (b # bs) \<Rightarrow> Inr True
          | _ \<Rightarrow>
              (case t_Referrers st subject ArtifactTypeSignature of
                 Inl _ \<Rightarrow> Inr False
               | Inr refs \<Rightarrow> Inr (refs \<noteq> [])))"

definition registrySource :: "'k host \<Rightarrow> reference \<Rightarrow> bool \<Rightarrow> verify_error + verifySource" where
  "registrySource h ref held_locally =
     bind_res (from_option NoClient (remote h ref)) (\<lambda>repo.
       case t_Resolve repo (rf_Reference ref) of
         Inr desc \<Rightarrow> Inr (remoteSource repo desc ''registry'')
       | Inl e \<Rightarrow> Inl (if held_locally then UnsignedHereAndUnreachable ref e else ResolveFailed e))"

definition resolveVerifySource :: "'k host \<Rightarrow> reference \<Rightarrow> verify_error + verifySource" where
  "resolveVerifySource h ref =
     (case t_Resolve (store h) (ref_text h ref) of
        Inr local \<Rightarrow>
          (case storeHoldsSignature (store h) (SigRef (ref_text h) ref (Digest local)) local of
             Inl e \<Rightarrow> Inl (StoreRead e)
           | Inr True \<Rightarrow> Inr (layoutSource (ref_text h) (store h) ref local ''local store'')
           | Inr False \<Rightarrow> registrySource h ref True)
      | Inl e \<Rightarrow> if e \<noteq> NotFoundErr then Inl (StoreRead e) else registrySource h ref False)"

section \<open>Who may sign\<close>

record namedVerifier =
  nv_name :: string
  nv_verifier :: key

record allowedSigners =
  verifiers :: "namedVerifier list"
  identities :: "identity list"
  as_trustRoot :: string
  as_admitted :: string

record verifiedBy =
  vb_key :: "key option"
  vb_keyless :: "keyless_result option"
  vb_admitted :: string
  vb_trustRoot :: string

definition loadNamedVerifier :: "'k host \<Rightarrow> string \<Rightarrow> verify_error + namedVerifier" where
  "loadNamedVerifier h file =
     bind_res (from_option (KeyUnread file) (read_file h file)) (\<lambda>pem.
     bind_res (from_option (KeyUnparsed file) (load_key h pem)) (\<lambda>v.
       Inr \<lparr>nv_name = file, nv_verifier = v\<rparr>))"

fun load_verifiers :: "'k host \<Rightarrow> string list \<Rightarrow> verify_error + namedVerifier list" where
  "load_verifiers h [] = Inr []"
| "load_verifiers h (f # fs) =
     bind_res (loadNamedVerifier h f) (\<lambda>nv. bind_res (load_verifiers h fs) (\<lambda>nvs. Inr (nv # nvs)))"

definition single_signer :: "'k host \<Rightarrow> string \<Rightarrow> string \<Rightarrow> verify_error + allowedSigners" where
  "single_signer h file admitted =
     bind_res (loadNamedVerifier h file) (\<lambda>nv.
       Inr \<lparr>verifiers = [nv], identities = [], as_trustRoot = [], as_admitted = admitted\<rparr>)"

definition repo_of :: "reference \<Rightarrow> string" where
  "repo_of ref = rf_Registry ref @ ''/'' @ rf_Repository ref"

definition keyVerifyKey :: string where "keyVerifyKey = ''verify.key''"
definition keyVerifyPolicy :: string where "keyVerifyPolicy = ''verify.policy''"

definition rule_signers :: "'k host \<Rightarrow> rule \<Rightarrow> verify_error + allowedSigners" where
  "rule_signers h r =
     bind_res (load_verifiers h (KeyFiles r)) (\<lambda>nvs.
       Inr \<lparr>verifiers = nvs, identities = Identities r, as_trustRoot = TrustRoot r,
            as_admitted = keyVerifyPolicy @ '' rule '' @ Pattern r\<rparr>)"

definition resolveVerifiers :: "'k host \<Rightarrow> config \<Rightarrow> string \<Rightarrow> reference \<Rightarrow> verify_error + allowedSigners" where
  "resolveVerifiers h cfg keyPath ref =
     (if keyPath \<noteq> [] then single_signer h keyPath (''--key '' @ keyPath)
      else bind_res (map_error BadPolicy (loadPolicy (c_policy cfg))) (\<lambda>policy.
        case policy of
          None \<Rightarrow>
            (if c_key cfg = [] then Inl NoKeyConfigured
             else single_signer h (c_key cfg) (keyVerifyKey @ '' '' @ c_key cfg))
        | Some p \<Rightarrow>
            (case RuleFor p (repo_of ref) of
               None \<Rightarrow> Inl (NobodyMaySign (repo_of ref) (Patterns p))
             | Some r \<Rightarrow> rule_signers h r)))"

section \<open>The signature\<close>

fun try_bundles :: "'k host \<Rightarrow> string \<Rightarrow> 'k trusted_root \<Rightarrow> identity list \<Rightarrow> string list \<Rightarrow> keyless_error \<Rightarrow>
    keyless_error + keyless_result" where
  "try_bundles h dg root ids [] last_err = Inl last_err"
| "try_bundles h dg root ids (b # bs) last_err =
     (case Keyless.Verify (crypto h) (bundle_message h b) dg (Some root) ids of
        Inr res \<Rightarrow> Inr res
      | Inl e \<Rightarrow> try_bundles h dg root ids bs e)"

definition verifyKeyless :: "'k host \<Rightarrow> verifySource \<Rightarrow> allowedSigners \<Rightarrow> keyless_failure + keyless_result" where
  "verifyKeyless h src allowed =
     bind_res (from_option (RootUnread (as_trustRoot allowed)) (read_file h (as_trustRoot allowed))) (\<lambda>raw.
     bind_res (map_error (RootBad (as_trustRoot allowed)) (LoadTrustedRoot (crypto h) (root_message h raw))) (\<lambda>root.
     bind_res (map_error BundlesNotFound (FetchBundles (vs_target src) (vs_subject src))) (\<lambda>bundles.
       map_error (\<lambda>e. if 1 < length bundles then NoneOf (length bundles) e else KeylessRefused e)
         (try_bundles h (Digest (vs_subject src)) root (identities allowed) bundles BundleParse))))"

fun try_keys :: "verifySource \<Rightarrow> string \<Rightarrow> namedVerifier list \<Rightarrow> string list \<Rightarrow> last_failure \<Rightarrow>
    (string list \<times> last_failure) + namedVerifier" where
  "try_keys src repo [] tried last_err = Inl (tried, last_err)"
| "try_keys src repo (nv # nvs) tried last_err =
     (case Verify_sig (vs_target src) (vs_sigRef src) repo (vs_subject src) (nv_verifier nv) of
        Inr _ \<Rightarrow> Inr nv
      | Inl e \<Rightarrow> try_keys src repo nvs (tried @ [nv_name nv]) (SigFailure e))"

definition describeIdentities :: "identity list \<Rightarrow> string" where
  "describeIdentities ids =
     (case map (\<lambda>i. Subject i @ '' (via '' @ Issuer i @ '')'') ids of
        [] \<Rightarrow> [] | s # ss \<Rightarrow> s @ concat (map (\<lambda>x. '', '' @ x) ss))"

definition verifyDigest :: "'k host \<Rightarrow> config \<Rightarrow> string \<Rightarrow> verifySource \<Rightarrow> reference \<Rightarrow> verify_error + verifiedBy" where
  "verifyDigest h cfg keyPath src ref =
     bind_res (resolveVerifiers h cfg keyPath ref) (\<lambda>allowed.
       case try_keys src (repo_of ref) (verifiers allowed) [] NoneTried of
         Inr nv \<Rightarrow> Inr \<lparr>vb_key = Some (nv_verifier nv), vb_keyless = None,
                       vb_admitted = as_admitted allowed, vb_trustRoot = []\<rparr>
       | Inl (tried, last_err) \<Rightarrow>
           (if identities allowed = [] then Inl (SignatureFailed ref (Digest (vs_subject src)) tried last_err)
            else case verifyKeyless h src allowed of
              Inr res \<Rightarrow> Inr \<lparr>vb_key = None, vb_keyless = Some res, vb_admitted = as_admitted allowed,
                             vb_trustRoot = as_trustRoot allowed\<rparr>
            | Inl e \<Rightarrow> Inl (SignatureFailed ref (Digest (vs_subject src))
                        (tried @ [describeIdentities (identities allowed)]) (KeylessFailure e))))"

section \<open>The gate and the copy about to be loaded\<close>

definition run_gate :: "'k host \<Rightarrow> config \<Rightarrow> string \<Rightarrow> string \<Rightarrow> verify_error + node" where
  "run_gate h cfg keyPath raw =
     bind_res (map_error BadReference (Parse (parse_ref h) raw (c_default_registry cfg))) (\<lambda>ref.
     bind_res (resolveVerifySource h ref) (\<lambda>src.
     bind_res (verifyDigest h cfg keyPath src ref) (\<lambda>_. Inr (vs_subject src))))"

definition verifyGate :: "'k host \<Rightarrow> config \<Rightarrow> bool \<Rightarrow> string \<Rightarrow> (string \<Rightarrow> verify_error + node) option" where
  "verifyGate h cfg doVerify keyPath =
     (if \<not> doVerify \<and> \<not> c_required cfg then None else Some (run_gate h cfg keyPath))"

definition checkLoadedContent ::
    "'k host \<Rightarrow> reference \<Rightarrow> node \<Rightarrow> node \<Rightarrow> bool \<Rightarrow> verify_error + unit" where
  "checkLoadedContent h ref local verified doRehash =
     (if Digest verified \<noteq> [] \<and> Digest local \<noteq> Digest verified then Inl (OtherCopy ref (Digest local) (Digest verified))
      else if \<not> doRehash then Inr ()
      else bind_res (map_error BlobsFailed (Rehash (digests h) (store_blobs h) local)) (\<lambda>_. Inr ()))"

definition rehashRequested :: "config \<Rightarrow> bool \<Rightarrow> bool" where
  "rehashRequested cfg doRehash \<longleftrightarrow> doRehash \<or> c_rehash cfg"

text \<open>What this host holds under the reference; \<open>None\<close> when nothing.\<close>

definition checkResidentCopy :: "'k host \<Rightarrow> reference \<Rightarrow> node \<Rightarrow> verify_error + node option" where
  "checkResidentCopy h ref subject =
     (case t_Resolve (store h) (ref_text h ref) of
        Inl e \<Rightarrow> if e = NotFoundErr then Inr None else Inl (StoreRead e)
      | Inr local \<Rightarrow>
          if Digest local \<noteq> Digest subject then Inl (OtherCopy ref (Digest local) (Digest subject))
          else Inr (Some local))"

definition rehashStore :: "'k host \<Rightarrow> reference \<Rightarrow> node option \<Rightarrow> verify_error + report" where
  "rehashStore h ref rc =
     (case rc of
        None \<Rightarrow> Inl (NotHeld ref)
      | Some d \<Rightarrow> map_error BlobsFailed (Rehash (digests h) (store_blobs h) d))"

end
