(* ===== verification/Paths.thy ===== *)
theory Paths
  imports Prelude Encoding
begin

text \<open>
  Go's \<^verbatim>\<open>path\<close> package, and \<^verbatim>\<open>path/filepath\<close> where the separator is a slash: the
  functions the sources use on names that other parties wrote, and when such a name stays a single
  component.
\<close>

text \<open>The parts of a path with dots taken out; \<open>out\<close> holds, last first, what is kept so far.\<close>

fun resolve_dots :: "bool \<Rightarrow> string list \<Rightarrow> string list \<Rightarrow> string list" where
  "resolve_dots rooted out [] = rev out"
| "resolve_dots rooted out (p # ps) =
     (if p = '''' \<or> p = ''.'' then resolve_dots rooted out ps
      else if p = ''..'' then
        (if out \<noteq> [] \<and> hd out \<noteq> ''..'' then resolve_dots rooted (tl out) ps
         else if rooted then resolve_dots rooted out ps
         else resolve_dots rooted (''..'' # out) ps)
      else resolve_dots rooted (p # out) ps)"

definition IsAbs :: "string \<Rightarrow> bool" where
  "IsAbs s \<longleftrightarrow> prefix ''/'' s"

definition Clean :: "string \<Rightarrow> string" where
  "Clean s =
     (let ps = resolve_dots (IsAbs s) [] (split_on CHR ''/'' s) in
      if IsAbs s then CHR ''/'' # join_on CHR ''/'' ps
      else if ps = [] then ''.'' else join_on CHR ''/'' ps)"

definition Base :: "string \<Rightarrow> string" where
  "Base s =
     (if s = [] then ''.''
      else let t = trim_right CHR ''/'' s in
        if t = [] then ''/'' else last (split_on CHR ''/'' t))"

definition Dir :: "string \<Rightarrow> string" where
  "Dir s = Clean (case last_index s CHR ''/'' of None \<Rightarrow> [] | Some i \<Rightarrow> take (Suc i) s)"

definition Join :: "string list \<Rightarrow> string" where
  "Join es = (case dropWhile (\<lambda>e. e = []) es of [] \<Rightarrow> [] | fs \<Rightarrow> Clean (join_on CHR ''/'' fs))"

section \<open>Plain components\<close>

definition plain :: "string \<Rightarrow> bool" where
  "plain s \<longleftrightarrow> s \<noteq> '''' \<and> s \<noteq> ''.'' \<and> s \<noteq> ''..'' \<and> CHR ''/'' \<notin> set s"

lemma resolve_plain: "list_all plain ps \<Longrightarrow> resolve_dots r out ps = rev out @ ps"
  by (induction ps arbitrary: out) (auto simp: plain_def)

lemma resolve_rooted: "list_all plain out \<Longrightarrow> list_all (\<lambda>p. CHR ''/'' \<notin> set p) ps \<Longrightarrow>
    list_all plain (resolve_dots True out ps)"
proof (induction ps arbitrary: out)
  case Nil
  then show ?case by (simp add: list.pred_set)
next
  case (Cons p ps)
  have "list_all plain (tl out)" using Cons.prems(1) by (cases out) simp_all
  moreover have "p = '''' \<or> p = ''.'' \<or> p = ''..'' \<or> plain p" using Cons.prems(2) by (auto simp: plain_def)
  ultimately show ?case using Cons.IH [of "tl out"] Cons.IH [of out] Cons.IH [of "p # out"] Cons.prems
    by auto
qed

text \<open>Without a root, what is left climbs first and then descends.\<close>

lemma resolve_relative:
  assumes "out = rev (replicate k ''..'' @ qs)" and "list_all plain qs" and "list_all (\<lambda>p. CHR ''/'' \<notin> set p) ps"
  shows "\<exists>j qs'. resolve_dots False out ps = replicate j ''..'' @ qs' \<and> list_all plain qs'"
  using assms
proof (induction ps arbitrary: out k qs)
  case Nil
  then show ?case by auto
next
  case (Cons p ps)
  show ?case
  proof (cases "p = '''' \<or> p = ''.''")
    case True
    with Cons.IH [OF Cons.prems(1,2)] Cons.prems(3) show ?thesis by simp
  next
    case real: False
    show ?thesis
    proof (cases "p = ''..''")
      case True
      show ?thesis
      proof (cases qs rule: rev_cases)
        case Nil
        have grown: "''..'' # out = rev (replicate (Suc k) ''..'' @ [])"
          using Cons.prems(1) Nil by (simp add: replicate_append_same flip: replicate_Suc)
        have top: "out = [] \<or> hd out = ''..''" using Cons.prems(1) Nil by (cases k) (auto simp: replicate_append_same)
        with Cons.IH [OF grown] Cons.prems(3) True show ?thesis by auto
      next
        case (snoc qs' q)
        then have "out = q # rev (replicate k ''..'' @ qs')" and "q \<noteq> ''..''"
          using Cons.prems(1,2) by (auto simp: plain_def)
        with Cons.IH [of "rev (replicate k ''..'' @ qs')" k qs'] Cons.prems(2,3) snoc True
        show ?thesis by auto
      qed
    next
      case False
      have "plain p" using real False Cons.prems(3) by (simp add: plain_def)
      then have "p # out = rev (replicate k ''..'' @ qs @ [p])" and "list_all plain (qs @ [p])"
        using Cons.prems(1,2) by auto
      with Cons.IH [OF this] Cons.prems(3) real False show ?thesis by auto
    qed
  qed
qed

lemma split_slash_free: "list_all (\<lambda>p. CHR ''/'' \<notin> set p) (split_on CHR ''/'' s)"
  using split_on_parts by (auto simp: list.pred_set)

text \<open>A cleaned name that is not absolute and does not go up stays below.\<close>

lemma Clean_below:
  assumes "\<not> IsAbs (Clean s)" and "Clean s \<noteq> ''..''" and "\<not> prefix ''../'' (Clean s)"
  shows "Clean s = ''.'' \<or> (\<exists>ps. ps \<noteq> [] \<and> list_all plain ps \<and> Clean s = join_on CHR ''/'' ps)"
proof -
  have rel: "\<not> IsAbs s" using assms(1) by (auto simp: Clean_def IsAbs_def Let_def split: if_splits)
  obtain j qs where r: "resolve_dots False [] (split_on CHR ''/'' s) = replicate j ''..'' @ qs" "list_all plain qs"
    using resolve_relative [of "[]" 0 "[]" "split_on CHR ''/'' s"] split_slash_free [of s] by auto
  have c: "Clean s = (if replicate j ''..'' @ qs = [] then ''.'' else join_on CHR ''/'' (replicate j ''..'' @ qs))"
    using rel r(1) by (simp add: Clean_def)
  have "j = 0"
  proof (rule ccontr)
    assume "j \<noteq> 0"
    then obtain i where "j = Suc i" using not0_implies_Suc by blast
    then have "Clean s = join_on CHR ''/'' (''..'' # (replicate i ''..'' @ qs))" using c by simp
    then have "Clean s = ''..'' \<or> prefix ''../'' (Clean s)" by (cases "replicate i ''..'' @ qs") auto
    with assms(2,3) show False by blast
  qed
  with c r(2) show ?thesis by (auto split: if_splits)
qed

lemma split_join_plain: "ps \<noteq> [] \<Longrightarrow> list_all plain ps \<Longrightarrow> split_on CHR ''/'' (join_on CHR ''/'' ps) = ps"
  by (rule split_join) (auto simp: list.pred_set plain_def)

lemma join_plain_ne: "ps \<noteq> [] \<Longrightarrow> list_all plain ps \<Longrightarrow> join_on CHR ''/'' ps \<noteq> [] \<and> \<not> IsAbs (join_on CHR ''/'' ps)"
proof -
  assume "ps \<noteq> []" "list_all plain ps"
  then obtain p qs where ps: "ps = p # qs" "plain p" by (cases ps) auto
  then obtain c r where p: "p = c # r" "c \<noteq> CHR ''/''" by (cases p) (auto simp: plain_def)
  have "\<exists>t. join_on CHR ''/'' (p # qs) = p @ t" by (cases qs) auto
  then obtain t where "join_on CHR ''/'' (p # qs) = p @ t" by blast
  then have "join_on CHR ''/'' ps = c # r @ t" using ps(1) p(1) by (metis append_Cons)
  with p(2) show ?thesis by (simp add: IsAbs_def)
qed

text \<open>Where a path leads, as the components the system looks up from the root directory.\<close>

definition parts :: "string \<Rightarrow> string list" where
  "parts s = filter (\<lambda>p. p \<noteq> '''') (split_on CHR ''/'' s)"

lemma parts_append: "parts (s @ CHR ''/'' # t) = parts s @ parts t"
  by (simp add: parts_def split_on_append_sep)

lemma parts_plain [simp]: "plain s \<Longrightarrow> parts s = [s]"
  by (simp add: parts_def plain_def split_on_no_sep)

lemma parts_join: "list_all plain ps \<Longrightarrow> parts (join_on CHR ''/'' ps) = ps"
proof (cases "ps = []")
  case False
  assume "list_all plain ps"
  with False split_join_plain have "parts (join_on CHR ''/'' ps) = filter (\<lambda>p. p \<noteq> '''') ps" by (simp add: parts_def)
  with \<open>list_all plain ps\<close> show ?thesis by (auto simp: plain_def list.pred_set filter_id_conv)
qed (simp add: parts_def)

lemma resolve_empties: "resolve_dots r out (filter (\<lambda>p. p \<noteq> '''') ps) = resolve_dots r out ps"
  by (induction ps arbitrary: out) auto

lemma parts_Clean_abs:
  assumes "IsAbs s" shows "parts (Clean s) = resolve_dots True [] (parts s)"
proof -
  have "list_all plain (resolve_dots True [] (split_on CHR ''/'' s))"
    using split_slash_free by (intro resolve_rooted) auto
  with assms show ?thesis
    by (simp add: Clean_def resolve_empties parts_def [of s] parts_join
        parts_append [of "[]", simplified] del: filter.simps) (simp add: parts_def)
qed

lemma resolve_append: "list_all plain qs \<Longrightarrow> resolve_dots r out (ps @ qs) = resolve_dots r out ps @ qs"
  by (induction ps arbitrary: out) (auto simp: resolve_plain)

lemma resolve_rooted_clean: "resolve_dots True [] (resolve_dots True [] (parts s)) = resolve_dots True [] (parts s)"
proof -
  have "list_all plain (resolve_dots True [] (parts s))"
    using split_slash_free [of s] by (intro resolve_rooted) (auto simp: parts_def list.pred_set)
  then show ?thesis by (simp add: resolve_plain)
qed

section \<open>Absolute names\<close>

definition abs_of :: "string list \<Rightarrow> string" where
  "abs_of ps = CHR ''/'' # join_on CHR ''/'' ps"

lemma IsAbs_abs_of [simp]: "IsAbs (abs_of ps)"
  by (simp add: abs_of_def IsAbs_def)

lemma parts_abs_of [simp]: "list_all plain ps \<Longrightarrow> parts (abs_of ps) = ps"
  using parts_append [of "[]"] by (simp add: abs_of_def parts_join) (simp add: parts_def)

lemma parts_no_slash: "list_all (\<lambda>p. CHR ''/'' \<notin> set p) (parts s)"
  using split_slash_free [of s] by (auto simp: parts_def list.pred_set)

lemma resolved_plain: "list_all plain (resolve_dots True [] (parts s))"
  using parts_no_slash by (intro resolve_rooted) auto

lemma Clean_abs: "IsAbs s \<Longrightarrow> Clean s = abs_of (resolve_dots True [] (parts s))"
  by (simp add: Clean_def abs_of_def parts_def resolve_empties)

definition rooted_parts :: "string \<Rightarrow> string list" where
  "rooted_parts s = resolve_dots True [] (parts s)"

lemma rooted_parts_plain [simp]: "list_all plain (rooted_parts s)"
  by (simp add: rooted_parts_def resolved_plain)

lemma rooted_parts_abs_of [simp]: "list_all plain ps \<Longrightarrow> rooted_parts (abs_of ps) = ps"
  by (simp add: rooted_parts_def resolve_plain)

lemma join_parts: "parts (join_on CHR ''/'' es) = concat (map parts es)"
proof (induction "CHR ''/''" es rule: join_on.induct)
  case 1
  then show ?case by (simp add: parts_def)
qed (simp_all add: parts_append)

lemma Join_abs:
  assumes "IsAbs s" and "list_all plain ps"
  shows "Join (s # ps) = abs_of (rooted_parts s @ ps)"
proof -
  have "concat (map parts ps) = ps" using assms(2) by (induction ps) auto
  then have p: "parts (join_on CHR ''/'' (s # ps)) = parts s @ ps" by (simp add: join_parts)
  obtain r where s: "s = CHR ''/'' # r" using assms(1) by (auto simp: IsAbs_def prefix_def)
  then have "IsAbs (join_on CHR ''/'' (s # ps))" by (cases ps) (simp_all add: IsAbs_def)
  from Clean_abs [OF this] have "Clean (join_on CHR ''/'' (s # ps)) = abs_of (rooted_parts s @ ps)"
    using assms(2) by (simp add: p resolve_append rooted_parts_def)
  then show ?thesis by (simp add: Join_def s)
qed

lemma Join_slash: "IsAbs s \<Longrightarrow> Join [s, ''/''] = abs_of (rooted_parts s)"
proof -
  assume s: "IsAbs s"
  then have "IsAbs (s @ CHR ''/'' # ''/'')" by (auto simp: IsAbs_def prefix_def)
  moreover have "parts ''/'' = []" by (simp add: parts_def)
  ultimately show ?thesis using s
    by (auto simp: Join_def Clean_abs parts_append rooted_parts_def IsAbs_def)
qed

lemma last_index_snoc: "c \<notin> set t \<Longrightarrow> last_index (s @ c # t) c = Some (length s)"
proof (induction s)
  case Nil
  then have "last_index t c = None" by simp
  then have "last_index (c # t) c = Some 0" by (simp only: last_index.simps option.case if_True simp_thms)
  then show ?case by simp
next
  case (Cons x s)
  then show ?case by simp
qed

lemma join_snoc: "ps \<noteq> [] \<Longrightarrow> join_on c (ps @ [p]) = join_on c ps @ c # p"
  by (induction c ps rule: join_on.induct) auto

lemma Dir_abs_of:
  assumes "list_all plain ps" and "plain p"
  shows "Dir (abs_of (ps @ [p])) = abs_of ps"
proof -
  have no: "CHR ''/'' \<notin> set p" using assms(2) by (simp add: plain_def)
  have trail: "parts (abs_of ps @ ''/'') = ps" if "ps \<noteq> []"
    using assms(1) by (simp add: parts_append) (simp add: parts_def)
  show ?thesis
  proof (cases "ps = []")
    case True
    have "last_index (abs_of (ps @ [p])) CHR ''/'' = Some 0"
      using last_index_snoc [OF no, of "[]"] True by (simp add: abs_of_def)
    moreover have "Clean ''/'' = abs_of []" by (simp add: Clean_abs IsAbs_def parts_def)
    ultimately show ?thesis using True by (simp add: Dir_def abs_of_def)
  next
    case False
    then have e: "abs_of (ps @ [p]) = abs_of ps @ CHR ''/'' # p" by (simp add: abs_of_def join_snoc)
    have "IsAbs (abs_of ps @ ''/'')" by (simp add: abs_of_def IsAbs_def)
    then have "Clean (abs_of ps @ ''/'') = abs_of ps"
      using trail [OF False] assms(1) by (simp add: Clean_abs resolve_plain)
    then show ?thesis using last_index_snoc [OF no, of "abs_of ps"] by (simp add: Dir_def e)
  qed
qed

lemma Base_no_slash: "s \<noteq> [] \<Longrightarrow> Base s = s \<Longrightarrow> s = ''/'' \<or> CHR ''/'' \<notin> set s"
proof -
  assume s: "s \<noteq> []" "Base s = s"
  show ?thesis
  proof (cases "trim_right CHR ''/'' s = []")
    case True
    with s show ?thesis by (simp add: Base_def)
  next
    case False
    with s have "s = last (split_on CHR ''/'' (trim_right CHR ''/'' s))" by (simp add: Base_def)
    then show ?thesis by (metis last_in_set split_on_ne split_on_parts)
  qed
qed

lemma Base_plain: "plain s \<Longrightarrow> Base s = s"
proof -
  assume s: "plain s"
  then have "\<exists>c r. rev s = c # r \<and> c \<noteq> CHR ''/''"
    by (cases "rev s") (auto simp: plain_def dest: arg_cong [where f = set])
  then have "trim_right CHR ''/'' s = s" by (auto simp: trim_right_def rev_swap)
  with s show ?thesis by (simp add: Base_def plain_def split_on_no_sep)
qed

end
