(* ===== verification/Files.thy ===== *)
theory Files
  imports Paths "HOL-Library.Char_ord" "HOL-Library.List_Lexorder"
begin

text \<open>
  The files of a host as Go's \<^verbatim>\<open>os\<close> package shows them: a tree by the full names of its
  nodes, symbolic links and their resolution included. The root directory is the empty name. Every
  call can fail where \<open>fault\<close> says so.
\<close>

type_synonym name = "string list"

datatype inode = is_Regular: Regular (executable: bool) (bytes: string) | Folder | Symlink bool name

type_synonym fs = "(name \<times> inode) list"

datatype errno = ENOENT | ENOTDIR | ELOOP | EEXIST | EISDIR | ENOTEMPTY | EXDEV | EIO

datatype call = CLstat | CStat | CMkdir | CReadDir | COpen | CRead | CCreate | CWrite | CRemove | CRename | CLock

text \<open>
  What the system decides: which calls fail and when, what a removal that fails half way has taken, the
  names it tries for a temporary directory, and what other processes do while a lock is waited for.
\<close>

record os =
  fault :: "call \<Rightarrow> name \<Rightarrow> fs \<Rightarrow> bool"
  taken :: "name \<Rightarrow> bool"
  suffixes :: "string list"
  meanwhile :: "fs \<Rightarrow> fs"

definition at :: "fs \<Rightarrow> name \<Rightarrow> inode option" where
  "at fs p = (if p = [] then Some Folder else map_of fs p)"

definition put :: "fs \<Rightarrow> name \<Rightarrow> inode \<Rightarrow> fs" where
  "put fs p f = (p, f) # filter (\<lambda>(q, _). q \<noteq> p) fs"

definition take_out :: "(name \<Rightarrow> bool) \<Rightarrow> fs \<Rightarrow> name \<Rightarrow> fs" where
  "take_out t fs p = filter (\<lambda>(q, _). \<not> (prefix p q \<and> t q)) fs"

definition move :: "fs \<Rightarrow> name \<Rightarrow> name \<Rightarrow> fs" where
  "move fs p q = map (\<lambda>(r, f). (if prefix p r then q @ drop (length p) r else r, f)) fs"

definition children :: "fs \<Rightarrow> name \<Rightarrow> string list" where
  "children fs d = remdups (map (\<lambda>(p, _). last p) (filter (\<lambda>(p, _). p \<noteq> [] \<and> butlast p = d) fs))"

text \<open>
  The directory a name leads to: every component has to be a directory, links are followed, and at
  most \<open>n\<close> of them.
\<close>

fun walk :: "nat \<Rightarrow> fs \<Rightarrow> name \<Rightarrow> name \<Rightarrow> errno + name" where
  "walk n fs cur [] = Inr cur"
| "walk n fs cur (p # ps) =
     (if p = ''.'' then walk n fs cur ps
      else if p = ''..'' then walk n fs (butlast cur) ps
      else case at fs (cur @ [p]) of
        None \<Rightarrow> Inl ENOENT
      | Some (Regular _ _) \<Rightarrow> Inl ENOTDIR
      | Some Folder \<Rightarrow> walk n fs (cur @ [p]) ps
      | Some (Symlink absolute target) \<Rightarrow>
          (if n = 0 then Inl ELOOP else walk (n - 1) fs (if absolute then [] else cur) (target @ ps)))"

definition max_links :: nat where
  "max_links = 40"

definition directory :: "fs \<Rightarrow> name \<Rightarrow> errno + name" where
  "directory fs p = walk max_links fs [] p"

text \<open>Where the last component of a name is, without following a link there.\<close>

definition place :: "fs \<Rightarrow> name \<Rightarrow> errno + name" where
  "place fs p = (if p = [] then Inr [] else bind_res (directory fs (butlast p)) (\<lambda>d. Inr (d @ [last p])))"

definition lstat :: "os \<Rightarrow> fs \<Rightarrow> name \<Rightarrow> errno + inode" where
  "lstat os fs p = (if fault os CLstat p fs then Inl EIO else bind_res (place fs p) (\<lambda>q. from_option ENOENT (at fs q)))"

definition read_dir :: "os \<Rightarrow> fs \<Rightarrow> name \<Rightarrow> errno + string list" where
  "read_dir os fs p = (if fault os CReadDir p fs then Inl EIO else bind_res (directory fs p) (\<lambda>d. Inr (sort (children fs d))))"

text \<open>A file opened without following a link at its name, and what reading it delivers.\<close>

definition read_no_follow :: "os \<Rightarrow> fs \<Rightarrow> name \<Rightarrow> errno + string \<times> bool" where
  "read_no_follow os fs p =
     (if fault os COpen p fs then Inl EIO
      else bind_res (place fs p) (\<lambda>q.
        case at fs q of
          Some (Regular _ c) \<Rightarrow> Inr (c, fault os CRead p fs)
        | Some Folder \<Rightarrow> Inl EISDIR
        | Some (Symlink _ _) \<Rightarrow> Inl ELOOP
        | None \<Rightarrow> Inl ENOENT))"

text \<open>\<^verbatim>\<open>os.MkdirAll\<close>: the components in turn, those that are directories already passed over.\<close>

fun mkdir_from :: "os \<Rightarrow> fs \<Rightarrow> name \<Rightarrow> name \<Rightarrow> fs \<times> (errno + unit)" where
  "mkdir_from os fs over [] = (fs, Inr ())"
| "mkdir_from os fs over (p # ps) =
     (let q = over @ [p] in
      case directory fs q of
        Inr _ \<Rightarrow> mkdir_from os fs q ps
      | Inl ENOENT \<Rightarrow>
          (if fault os CMkdir q fs then (fs, Inl EIO)
           else case place fs q of
             Inl e \<Rightarrow> (fs, Inl e)
           | Inr r \<Rightarrow> if at fs r = None then mkdir_from os (put fs r Folder) q ps else (fs, Inl EEXIST))
      | Inl e \<Rightarrow> (fs, Inl e))"

definition MkdirAll :: "os \<Rightarrow> fs \<Rightarrow> name \<Rightarrow> fs \<times> (errno + unit)" where
  "MkdirAll os fs p = mkdir_from os fs [] p"

text \<open>\<^verbatim>\<open>os.MkdirTemp\<close>: the first of the names tried that nothing has yet.\<close>

definition MkdirTemp :: "os \<Rightarrow> fs \<Rightarrow> name \<Rightarrow> string \<Rightarrow> fs \<times> (errno + name)" where
  "MkdirTemp os fs p stem =
     (if fault os CMkdir p fs then (fs, Inl EIO)
      else case directory fs p of
        Inl e \<Rightarrow> (fs, Inl e)
      | Inr d \<Rightarrow>
          (case find (\<lambda>s. at fs (d @ [stem @ s]) = None) (suffixes os) of
             None \<Rightarrow> (fs, Inl EEXIST)
           | Some s \<Rightarrow> (put fs (d @ [stem @ s]) Folder, Inr (p @ [stem @ s]))))"

text \<open>\<^verbatim>\<open>os.OpenFile\<close> with \<^verbatim>\<open>O_CREATE|O_EXCL\<close>: nothing may have the name, not even a link.\<close>

definition create_excl :: "os \<Rightarrow> fs \<Rightarrow> name \<Rightarrow> bool \<Rightarrow> fs \<times> (errno + name)" where
  "create_excl os fs p x =
     (if fault os CCreate p fs then (fs, Inl EIO)
      else case place fs p of
        Inl e \<Rightarrow> (fs, Inl e)
      | Inr q \<Rightarrow> if at fs q = None then (put fs q (Regular x []), Inr q) else (fs, Inl EEXIST))"

text \<open>
  \<^verbatim>\<open>os.RemoveAll\<close> of what has the name, a link and not what it points at; what is missing is no error.
\<close>

definition RemoveAll :: "os \<Rightarrow> fs \<Rightarrow> name \<Rightarrow> fs \<times> (errno + unit)" where
  "RemoveAll os fs p =
     (case place fs p of
        Inl ENOENT \<Rightarrow> (fs, Inr ())
      | Inl e \<Rightarrow> (fs, Inl e)
      | Inr q \<Rightarrow>
          (if fault os CRemove p fs then (take_out (taken os) fs q, Inl EIO)
           else (take_out (\<lambda>_. True) fs q, Inr ())))"

text \<open>\<^verbatim>\<open>os.Rename\<close> of a directory, onto a free name or an empty directory.\<close>

definition Rename :: "os \<Rightarrow> fs \<Rightarrow> name \<Rightarrow> name \<Rightarrow> fs \<times> (errno + unit)" where
  "Rename os fs p q =
     (if fault os CRename p fs then (fs, Inl EIO)
      else case (place fs p, place fs q) of
        (Inl e, _) \<Rightarrow> (fs, Inl e)
      | (_, Inl e) \<Rightarrow> (fs, Inl e)
      | (Inr a, Inr b) \<Rightarrow>
          (if at fs a = None then (fs, Inl ENOENT)
           else if at fs b = None \<or> at fs b = Some Folder \<and> children fs b = []
             then (move (take_out (\<lambda>_. True) fs b) a b, Inr ())
           else (fs, Inl EEXIST)))"

section \<open>Facts about the tree\<close>

named_theorems tree \<open>what is at a name after a change\<close>

lemma map_of_filter_key: "map_of (filter (\<lambda>(k, v). P k) xs) k = (if P k then map_of xs k else None)"
  by (induction xs) auto

lemma at_root [simp]: "at fs [] = Some Folder"
  by (simp add: at_def)

lemma at_put [tree]: "p \<noteq> [] \<Longrightarrow> at (put fs p f) q = (if q = p then Some f else at fs q)"
  by (auto simp: at_def put_def map_of_filter_key)

lemma at_take_out [tree]: "at (take_out t fs p) q = (if q \<noteq> [] \<and> prefix p q \<and> t q then None else at fs q)"
  using map_of_filter_key [of "\<lambda>q. \<not> (prefix p q \<and> t q)" fs q] by (simp add: at_def take_out_def)

lemma map_of_moved:
  assumes "\<forall>k \<in> set (map fst xs). \<not> prefix q k"
  shows "map_of (map (\<lambda>(r, f). (if prefix p r then q @ drop (length p) r else r, f)) xs) r =
         (if prefix q r then map_of xs (p @ drop (length q) r) else if prefix p r then None else map_of xs r)"
  using assms
proof (induction xs)
  case Nil
  then show ?case by simp
next
  case (Cons x xs)
  obtain k f where x: "x = (k, f)" by fastforce
  have "\<not> prefix q k" using Cons.prems x by simp
  then show ?case using Cons x
    by (cases "prefix p k") (auto simp: prefix_def)
qed

lemma at_move [tree]:
  assumes "\<And>k. prefix q k \<Longrightarrow> at fs k = None" and "p \<noteq> []"
  shows "at (move fs p q) r =
    (if prefix q r then at fs (p @ drop (length q) r) else if r \<noteq> [] \<and> prefix p r then None else at fs r)"
proof -
  have "q \<noteq> []" using assms(1) [of "[]"] by auto
  have "\<forall>k \<in> set (map fst fs). \<not> prefix q k"
  proof
    fix k assume k: "k \<in> set (map fst fs)"
    show "\<not> prefix q k"
    proof
      assume "prefix q k"
      with \<open>q \<noteq> []\<close> have "k \<noteq> []" by auto
      with assms(1) [OF \<open>prefix q k\<close>] have "map_of fs k = None" by (simp add: at_def)
      with k show False by (simp add: map_of_eq_None_iff)
    qed
  qed
  from map_of_moved [OF this, of p r] show ?thesis
    using \<open>q \<noteq> []\<close> \<open>p \<noteq> []\<close> by (auto simp: at_def move_def)
qed

lemma children_at: "c \<in> set (children fs d) \<longleftrightarrow> (\<exists>p. p \<noteq> [] \<and> butlast p = d \<and> last p = c \<and> at fs p \<noteq> None)"
proof
  assume "c \<in> set (children fs d)"
  then obtain p f where "(p, f) \<in> set fs" "p \<noteq> []" "butlast p = d" "last p = c" by (auto simp: children_def)
  then show "\<exists>p. p \<noteq> [] \<and> butlast p = d \<and> last p = c \<and> at fs p \<noteq> None"
    by (intro exI [of _ p]) (force simp: at_def map_of_eq_None_iff)
next
  assume "\<exists>p. p \<noteq> [] \<and> butlast p = d \<and> last p = c \<and> at fs p \<noteq> None"
  then obtain p f where "p \<noteq> []" "butlast p = d" "last p = c" "map_of fs p = Some f" by (auto simp: at_def)
  moreover from this have "(p, f) \<in> set fs" by (simp add: map_of_SomeD)
  ultimately have "p \<noteq> []" "butlast p = d" "last p = c" "(p, f) \<in> set fs" by simp_all
  then show "c \<in> set (children fs d)" by (force simp: children_def)
qed

lemma in_children [simp]: "c \<in> set (children fs d) \<longleftrightarrow> at fs (d @ [c]) \<noteq> None"
  unfolding children_at by (metis append_butlast_last_id snoc_eq_iff_butlast)

lemma distinct_children [simp]: "distinct (children fs d)"
  by (simp add: children_def)

section \<open>Resolution\<close>

text \<open>What is found stays found where the tree only grows.\<close>

lemma walk_mono:
  "walk n fs cur ps = Inr d \<Longrightarrow> (\<And>p f. at fs p = Some f \<Longrightarrow> at fs' p = Some f) \<Longrightarrow> walk n fs' cur ps = Inr d"
  by (induction n fs cur ps rule: walk.induct) (auto split: if_splits option.splits inode.splits)

lemma walk_prefix: "walk n fs cur (ps @ qs) = Inr d \<Longrightarrow> \<exists>d'. walk n fs cur ps = Inr d'"
proof (induction n fs cur ps arbitrary: d rule: walk.induct)
  case (1 n fs cur)
  then show ?case by simp
next
  case (2 n fs cur p ps)
  then show ?case by (auto split: if_splits option.splits inode.splits)
qed

lemma walk_snoc:
  assumes "walk n fs cur ps = Inr d" and "plain x"
  shows "at fs (d @ [x]) = Some Folder \<Longrightarrow> walk n fs cur (ps @ [x]) = Inr (d @ [x])"
    and "at fs (d @ [x]) = None \<Longrightarrow> walk n fs cur (ps @ [x]) = Inl ENOENT"
    and "at fs (d @ [x]) = Some (Regular b c) \<Longrightarrow> walk n fs cur (ps @ [x]) = Inl ENOTDIR"
  using assms
  by (induction n fs cur ps rule: walk.induct)
     (auto simp: plain_def split: if_splits option.splits inode.splits)

text \<open>A well-formed tree: plain names, each below a directory.\<close>

definition wf_fs :: "fs \<Rightarrow> bool" where
  "wf_fs fs \<longleftrightarrow> (\<forall>p f. p \<noteq> [] \<longrightarrow> at fs p = Some f \<longrightarrow> list_all plain p \<and> at fs (butlast p) = Some Folder)"

lemma wf_below:
  assumes "wf_fs fs" and "at fs p \<noteq> Some Folder" and "strict_prefix p q"
  shows "at fs q = None"
proof (rule ccontr)
  from assms(3) obtain r where r: "q = p @ r" "r \<noteq> []" by (auto simp: strict_prefix_def prefix_def)
  assume "at fs q \<noteq> None"
  then have "r = [] \<or> at fs p = Some Folder" unfolding r(1)
  proof (induction r rule: rev_induct)
    case (snoc x r)
    then obtain f where "at fs (p @ r @ [x]) = Some f" by auto
    with assms(1) have "at fs (butlast (p @ r @ [x])) = Some Folder" unfolding wf_fs_def by (metis snoc_eq_iff_butlast append_assoc)
    then have "at fs (p @ r) = Some Folder" by (simp add: butlast_append)
    with snoc.IH show ?case by auto
  qed simp
  with r(2) assms(2) show False by simp
qed

lemma wf_put:
  assumes "wf_fs fs" and "p \<noteq> []" and "list_all plain p" and "at fs (butlast p) = Some Folder"
    and "f = Folder \<or> (\<forall>q. strict_prefix p q \<longrightarrow> at fs q = None)"
  shows "wf_fs (put fs p f)"
  unfolding wf_fs_def
proof (intro allI impI)
  fix q g assume q: "q \<noteq> []" and g: "at (put fs p f) q = Some g"
  show "list_all plain q \<and> at (put fs p f) (butlast q) = Some Folder"
  proof (cases "q = p")
    case True
    have "butlast p \<noteq> p" using assms(2) by (metis append_butlast_last_id append_self_conv list.discI)
    with True assms(2,3,4) show ?thesis by (simp add: tree)
  next
    case False
    with g assms(2) have old: "at fs q = Some g" by (simp add: tree)
    with assms(1) q have above: "list_all plain q" "at fs (butlast q) = Some Folder" by (auto simp: wf_fs_def)
    have "butlast q = p \<Longrightarrow> strict_prefix p q"
      using q by (metis append_butlast_last_id prefix_def strict_prefix_def False)
    with assms(5) old have "butlast q = p \<Longrightarrow> f = Folder" by auto
    with above assms(2) show ?thesis by (simp add: tree)
  qed
qed

lemma wf_take_out: "wf_fs fs \<Longrightarrow> wf_fs (take_out (\<lambda>_. True) fs p)"
  unfolding wf_fs_def
  by (auto simp: tree split: if_splits) (metis prefix_order.trans prefixeq_butlast)+

end
