(* ===== verification/Runtime.thy ===== *)
theory Runtime
  imports Files Rehash
begin

text \<open>
  \<^verbatim>\<open>internal/runtime/artifact.go\<close>: the inference engines that travel as artifacts, and how one
  is unpacked from the store into the directory it runs from.
\<close>

section \<open>The config of a runtime\<close>

definition ArtifactTypeRuntime :: string where
  "ArtifactTypeRuntime = ''application/vnd.palan.runtime.v1+json''"

definition MediaTypeRuntimeConfig :: string where
  "MediaTypeRuntimeConfig = ''application/vnd.palan.runtime.config.v1+json''"

definition MediaTypeRuntimeFile :: string where
  "MediaTypeRuntimeFile = ''application/vnd.palan.runtime.file.v1.raw''"

record rt_config =
  c_Name :: string
  c_Build :: string
  c_OS :: string
  c_Arch :: string
  c_Flavor :: string
  c_Entrypoint :: string

definition decode_rt_config :: "json \<Rightarrow> rt_config option" where
  "decode_rt_config j =
     (case j of
        JObj ms \<Rightarrow>
          (case (str_field ''name'' ms, str_field ''build'' ms, str_field ''os'' ms, str_field ''arch'' ms,
                 str_field ''flavor'' ms, str_field ''entrypoint'' ms) of
             (Some n, Some b, Some os, Some ar, Some fl, Some en) \<Rightarrow>
               Some \<lparr>c_Name = n, c_Build = b, c_OS = os, c_Arch = ar, c_Flavor = fl, c_Entrypoint = en\<rparr>
           | _ \<Rightarrow> None)
      | JNull \<Rightarrow>
          Some \<lparr>c_Name = [], c_Build = [], c_OS = [], c_Arch = [], c_Flavor = [], c_Entrypoint = []\<rparr>
      | _ \<Rightarrow> None)"

definition unmarshal_rt_config :: "string \<Rightarrow> rt_config option" where
  "unmarshal_rt_config raw = Option.bind (parse_json raw) decode_rt_config"

definition dirName :: "rt_config \<Rightarrow> string" where
  "dirName c = c_Build c @ ''-'' @ c_Flavor c"

datatype rt_error =
    EmptyField string | NotComponent string string | DotName string
  | NotFetched fetch_error | NotRuntime string string | WrongHost string string | NoSuchFile string
  | BadLayerName string string | NameTwice string | BadLayerDigest string string
  | IsLink string | NotDir string | FileError errno
  | NotUnpackedDir string | Unexpected string string | FileCount string nat nat
  | NotRegular string | WrongLength string nat int | WrongBytes string | BlobMissing string
  | NoFiles | NoEntrypoint string

definition safe_field :: "string \<times> string \<Rightarrow> rt_error + unit" where
  "safe_field kv =
     (case kv of (kind, v) \<Rightarrow>
        if v = [] then Inl (EmptyField kind)
        else if v \<noteq> Base v \<or> v = ''.'' \<or> v = ''..'' \<or> CHR ''/'' \<in> set v then Inl (NotComponent kind v)
        else Inr ())"

fun each :: "('a \<Rightarrow> 'e + unit) \<Rightarrow> 'a list \<Rightarrow> 'e + unit" where
  "each f [] = Inr ()"
| "each f (x # xs) = bind_res (f x) (\<lambda>_. each f xs)"

definition safePathFields :: "rt_config \<Rightarrow> rt_error + unit" where
  "safePathFields c =
     bind_res (each safe_field
       [(''name'', c_Name c), (''build'', c_Build c), (''flavor'', c_Flavor c), (''entrypoint'', c_Entrypoint c)])
       (\<lambda>_. require (\<not> prefix ''.'' (c_Name c)) (DotName (c_Name c)))"

section \<open>The manifest of a runtime\<close>

definition AnnotationTitle :: string where
  "AnnotationTitle = ''org.opencontainers.image.title''"

definition title :: "descriptor \<Rightarrow> string" where
  "title l = lookup_str (Annotations l) AnnotationTitle"

fun check_layers :: "digest_lib \<Rightarrow> string list \<Rightarrow> descriptor list \<Rightarrow> rt_error + unit" where
  "check_layers L seen [] = Inr ()"
| "check_layers L seen (l # ls) =
     (let t = title l in
      if t = [] \<or> t = ''.'' \<or> t = ''..'' \<or> t \<noteq> Base t then Inl (BadLayerName (Digest l) t)
      else if t \<in> set seen then Inl (NameTwice t)
      else if \<not> Validate_ok L (Digest l) then Inl (BadLayerDigest t (Algorithm L (Digest l)))
      else check_layers L (t # seen) ls)"

definition validateLayers :: "digest_lib \<Rightarrow> manifest \<Rightarrow> rt_error + unit" where
  "validateLayers L man = check_layers L [] (Layers man)"

definition namesLayer :: "manifest \<Rightarrow> string \<Rightarrow> bool" where
  "namesLayer man t \<longleftrightarrow> (\<exists>l \<in> set (Layers man). title l = t)"

section \<open>The tree on disk\<close>

text \<open>
  \<^verbatim>\<open>plainDirs\<close>. A missing component ends the walk: nothing below it exists either.
\<close>

fun plainDirs :: "os \<Rightarrow> fs \<Rightarrow> string \<Rightarrow> string list \<Rightarrow> rt_error + unit" where
  "plainDirs os fs cur [] = Inr ()"
| "plainDirs os fs cur (p # ps) =
     (let q = Join [cur, p] in
      case lstat os fs (parts q) of
        Inl ENOENT \<Rightarrow> Inr ()
      | Inl e \<Rightarrow> Inl (FileError e)
      | Inr (Symlink _ _) \<Rightarrow> Inl (IsLink q)
      | Inr (Regular _ _) \<Rightarrow> Inl (NotDir q)
      | Inr Folder \<Rightarrow> plainDirs os fs q ps)"

text \<open>
  What is read of a file or blob is limited to one byte past the length the descriptor records.
\<close>

definition limited :: "descriptor \<Rightarrow> string \<Rightarrow> string" where
  "limited d c = take (nat (int64 (Size d + 1))) c"

definition cut_short :: "descriptor \<Rightarrow> string \<times> bool \<Rightarrow> bool" where
  "cut_short d r \<longleftrightarrow> snd r \<and> length (fst r) < nat (int64 (Size d + 1))"

definition fileMatches :: "digest_lib \<Rightarrow> os \<Rightarrow> fs \<Rightarrow> string \<Rightarrow> descriptor \<Rightarrow> rt_error + unit" where
  "fileMatches L os fs p d =
     bind_res (map_error FileError (lstat os fs (parts p))) (\<lambda>f.
     bind_res (require (is_Regular f) (NotRegular p)) (\<lambda>_.
     bind_res (map_error FileError (read_no_follow os fs (parts p))) (\<lambda>r.
       let got = limited d (fst r) in
       if cut_short d r then Inl (FileError EIO)
       else if int (length got) \<noteq> Size d then Inl (WrongLength p (length got) (Size d))
       else if \<not> Verified L (Digest d) got then Inl (WrongBytes p)
       else Inr ())))"

text \<open>The layer a file name stands for: the last one that has it.\<close>

definition wanted :: "manifest \<Rightarrow> string \<Rightarrow> descriptor option" where
  "wanted man = map_of (rev (map (\<lambda>l. (title l, l)) (Layers man)))"

definition materializedMatches :: "digest_lib \<Rightarrow> os \<Rightarrow> fs \<Rightarrow> manifest \<Rightarrow> string \<Rightarrow> rt_error + unit" where
  "materializedMatches L os fs man dir =
     bind_res (map_error FileError (lstat os fs (parts dir))) (\<lambda>f.
     if f \<noteq> Folder then Inl (NotUnpackedDir dir)
     else bind_res (map_error FileError (read_dir os fs (parts dir))) (\<lambda>es.
       let n = length (remdups (map title (Layers man))) in
       if length es \<noteq> n then Inl (FileCount dir (length es) n)
       else each (\<lambda>e.
         case wanted man e of
           None \<Rightarrow> Inl (Unexpected dir e)
         | Some l \<Rightarrow> fileMatches L os fs (Join [dir, e]) l) es))"

section \<open>Unpacking\<close>

text \<open>
  \<^verbatim>\<open>copyBlob\<close>: the store's bytes under a name nothing has, and only then held to the digest.
  What a failed write leaves is not told apart; it is removed with the directory it is in.
\<close>

definition copyBlob ::
    "digest_lib \<Rightarrow> fetcher \<Rightarrow> os \<Rightarrow> fs \<Rightarrow> descriptor \<Rightarrow> string \<Rightarrow> bool \<Rightarrow> fs \<times> (rt_error + unit)" where
  "copyBlob L F os fs d dest x =
     (case open_blob F (node_of d) of
        None \<Rightarrow> (fs, Inl (BlobMissing (Digest d)))
      | Some r \<Rightarrow>
          (case create_excl os fs (parts dest) x of
             (fs1, Inl e) \<Rightarrow> (fs1, Inl (FileError e))
           | (fs1, Inr q) \<Rightarrow>
               (let got = limited d (fst r); fs2 = put fs1 q (Regular x got) in
                if fault os CWrite (parts dest) fs1 \<or> cut_short d r then (fs2, Inl (FileError EIO))
                else if int (length got) \<noteq> Size d then (fs2, Inl (WrongLength (Digest d) (length got) (Size d)))
                else if \<not> Verified L (Digest d) got then (fs2, Inl (WrongBytes (Digest d)))
                else (fs2, Inr ()))))"

fun copy_layers ::
    "digest_lib \<Rightarrow> fetcher \<Rightarrow> os \<Rightarrow> string \<Rightarrow> string \<Rightarrow> descriptor list \<Rightarrow> fs \<Rightarrow> fs \<times> (rt_error + unit)" where
  "copy_layers L F os entrypoint tmp [] fs = (fs, Inr ())"
| "copy_layers L F os entrypoint tmp (l # ls) fs =
     (case copyBlob L F os fs l (Join [tmp, title l]) (title l = entrypoint) of
        (fs1, Inl e) \<Rightarrow> (fs1, Inl e)
      | (fs1, Inr _) \<Rightarrow> copy_layers L F os entrypoint tmp ls fs1)"

text \<open>The replacement is built whole beside the tree, and put in its place.\<close>

definition replace_tree ::
    "digest_lib \<Rightarrow> fetcher \<Rightarrow> os \<Rightarrow> manifest \<Rightarrow> string \<Rightarrow> string \<Rightarrow> string \<Rightarrow> fs \<Rightarrow> fs \<times> (rt_error + unit)" where
  "replace_tree L F os man entrypoint tmp destDir fs =
     (case copy_layers L F os entrypoint tmp (Layers man) fs of
        (fs1, Inl e) \<Rightarrow> (fs1, Inl e)
      | (fs1, Inr _) \<Rightarrow>
          (case RemoveAll os fs1 (parts destDir) of
             (fs2, Inl e) \<Rightarrow> (fs2, Inl (FileError e))
           | (fs2, Inr _) \<Rightarrow>
               (case Rename os fs2 (parts tmp) (parts destDir) of
                  (fs3, Inl e) \<Rightarrow> (fs3, Inl (FileError e))
                | (fs3, Inr _) \<Rightarrow> (fs3, Inr ()))))"

definition unpack ::
    "digest_lib \<Rightarrow> fetcher \<Rightarrow> os \<Rightarrow> manifest \<Rightarrow> string \<Rightarrow> string \<Rightarrow> fs \<Rightarrow> fs \<times> (rt_error + unit)" where
  "unpack L F os man entrypoint destDir fs =
     (case MkdirTemp os fs (parts (Dir destDir)) ''.unpack-'' of
        (fs1, Inl e) \<Rightarrow> (fs1, Inl (FileError e))
      | (fs1, Inr t) \<Rightarrow>
          (let tmp = abs_of t;
               (fs2, r) = replace_tree L F os man entrypoint tmp destDir fs1 in
           (fst (RemoveAll os fs2 t), r)))"

text \<open>
  \<^verbatim>\<open>lockUnpacking\<close>: the lock file is made if it is missing and never reached through a link;
  while the lock is waited for, its holder goes on.
\<close>

definition unpackLockName :: string where
  "unpackLockName = ''.unpack.lock''"

definition lockUnpacking :: "os \<Rightarrow> fs \<Rightarrow> string \<Rightarrow> fs \<times> (rt_error + unit)" where
  "lockUnpacking os fs dir =
     (let p = parts (Join [dir, unpackLockName]);
          grant = (\<lambda>fs1. if fault os CLock p fs1 then (fs1, Inl (FileError EIO)) else (meanwhile os fs1, Inr ())) in
      if fault os COpen p fs then (fs, Inl (FileError EIO))
      else case place fs p of
        Inl e \<Rightarrow> (fs, Inl (FileError e))
      | Inr q \<Rightarrow>
          (case at fs q of
             None \<Rightarrow> grant (put fs q (Regular False []))
           | Some (Regular _ _) \<Rightarrow> grant fs
           | Some Folder \<Rightarrow> (fs, Inl (FileError EISDIR))
           | Some (Symlink _ _) \<Rightarrow> (fs, Inl (FileError ELOOP))))"

text \<open>Everything \<^verbatim>\<open>Ensure\<close> decides before it touches a file: the manifest and config it acts on.\<close>

definition admitted ::
    "digest_lib \<Rightarrow> fetcher \<Rightarrow> string \<Rightarrow> string \<Rightarrow> string \<Rightarrow> node \<Rightarrow> rt_error + manifest \<times> rt_config" where
  "admitted L F goos goarch ref d =
     bind_res (map_error NotFetched (FetchManifest F d)) (\<lambda>man.
     if m_artifactType man \<noteq> ArtifactTypeRuntime then Inl (NotRuntime ref (m_artifactType man))
     else bind_res (map_error NotFetched (FetchJSON unmarshal_rt_config F (node_of (Config man)))) (\<lambda>cfg.
     if c_OS cfg \<noteq> goos \<or> c_Arch cfg \<noteq> goarch then Inl (WrongHost (c_OS cfg) (c_Arch cfg))
     else bind_res (safePathFields cfg) (\<lambda>_.
     if \<not> namesLayer man (c_Entrypoint cfg) then Inl (NoSuchFile (c_Entrypoint cfg))
     else bind_res (validateLayers L man) (\<lambda>_. Inr (man, cfg)))))"

definition destination :: "digest_lib \<Rightarrow> string \<Rightarrow> rt_config \<Rightarrow> node \<Rightarrow> string" where
  "destination L root cfg d =
     Join [root, ''runtimes'', c_Name cfg, dirName cfg @ ''-'' @ Encoded L (Digest d)]"

text \<open>With the lock held: the tree that is there if it matches, a fresh one otherwise.\<close>

definition ensure_locked ::
    "digest_lib \<Rightarrow> fetcher \<Rightarrow> os \<Rightarrow> string \<Rightarrow> node \<Rightarrow> manifest \<Rightarrow> rt_config \<Rightarrow> fs \<Rightarrow> fs \<times> (rt_error + string)" where
  "ensure_locked L F os root d man cfg fs =
     (let destDir = destination L root cfg d; entry = Join [destDir, c_Entrypoint cfg] in
      case plainDirs os fs root [''runtimes'', c_Name cfg] of
        Inl e \<Rightarrow> (fs, Inl e)
      | Inr _ \<Rightarrow>
          (case materializedMatches L os fs man destDir of
             Inr _ \<Rightarrow> (fs, Inr entry)
           | Inl _ \<Rightarrow>
               (case unpack L F os man (c_Entrypoint cfg) destDir fs of
                  (fs1, Inl e) \<Rightarrow> (fs1, Inl e)
                | (fs1, Inr _) \<Rightarrow> (fs1, Inr entry))))"

definition Ensure ::
    "digest_lib \<Rightarrow> fetcher \<Rightarrow> os \<Rightarrow> string \<Rightarrow> string \<Rightarrow> string \<Rightarrow> string \<Rightarrow> node \<Rightarrow> fs \<Rightarrow> fs \<times> (rt_error + string)" where
  "Ensure L F os goos goarch root ref d fs =
     (case admitted L F goos goarch ref d of
        Inl e \<Rightarrow> (fs, Inl e)
      | Inr (man, cfg) \<Rightarrow>
          (case plainDirs os fs root [''runtimes'', c_Name cfg] of
             Inl e \<Rightarrow> (fs, Inl e)
           | Inr _ \<Rightarrow>
               (case MkdirAll os fs (parts (Dir (destination L root cfg d))) of
                  (fs1, Inl e) \<Rightarrow> (fs1, Inl (FileError e))
                | (fs1, Inr _) \<Rightarrow>
                    (case lockUnpacking os fs1 (Join [root, ''runtimes'']) of
                       (fs2, Inl e) \<Rightarrow> (fs2, Inl e)
                     | (fs2, Inr _) \<Rightarrow> ensure_locked L F os root d man cfg fs2))))"

end
