(* ===== verification/Serving.thy ===== *)
theory Serving
  imports VerifyCmd Runtime
begin

text \<open>
  What is loaded and started: the layers of a model (\<^verbatim>\<open>pkg/modelspec\<close>), the checks before a
  model or an engine is used (\<^verbatim>\<open>internal/cli/run.go\<close>, \<^verbatim>\<open>serve.go\<close>, \<^verbatim>\<open>runtime.go\<close>) and
  the process that is started (\<^verbatim>\<open>internal/runtime/resolve.go\<close>, \<^verbatim>\<open>supervisor.go\<close>).
\<close>

section \<open>Layers\<close>

datatype LayerKind =
    LayerKindUnknown | LayerKindWeight | LayerKindWeightConfig | LayerKindDoc | LayerKindCode | LayerKindDataset

datatype role = Weight | WeightConfig | Doc | Code | Dataset
datatype form = Raw | Tar | Gzip | Zstd

text \<open>
  The ModelPack specification is a library the sources import: its media types, and the format a
  config blob of its declares.
\<close>

record model_spec =
  layer_type :: "role \<Rightarrow> form \<Rightarrow> string"
  model_manifest_type :: string
  model_config_type :: string
  config_format :: "string \<Rightarrow> string option"

fun kind_of_role :: "role \<Rightarrow> LayerKind" where
  "kind_of_role Weight = LayerKindWeight"
| "kind_of_role WeightConfig = LayerKindWeightConfig"
| "kind_of_role Doc = LayerKindDoc"
| "kind_of_role Code = LayerKindCode"
| "kind_of_role Dataset = LayerKindDataset"

definition kindByMediaType :: "model_spec \<Rightarrow> (string \<times> LayerKind) list" where
  "kindByMediaType S =
     concat (map (\<lambda>r. map (\<lambda>f. (layer_type S r f, kind_of_role r)) [Raw, Tar, Gzip, Zstd])
       [Weight, WeightConfig, Doc, Code, Dataset])"

definition KindOf :: "model_spec \<Rightarrow> string \<Rightarrow> LayerKind" where
  "KindOf S mt = (case map_of (kindByMediaType S) mt of Some k \<Rightarrow> k | None \<Rightarrow> LayerKindUnknown)"

definition IsRaw :: "model_spec \<Rightarrow> string \<Rightarrow> bool" where
  "IsRaw S mt \<longleftrightarrow> KindOf S mt \<noteq> LayerKindUnknown \<and> suffix ''.raw'' mt"

section \<open>The defaults a model carries\<close>

record serve_defaults =
  d_Ctx :: int
  d_NGL :: int
  d_Flags :: "string list"

definition no_defaults :: serve_defaults where
  "no_defaults = \<lparr>d_Ctx = 0, d_NGL = 0, d_Flags = []\<rparr>"

definition AnnotationServeDefaults :: string where
  "AnnotationServeDefaults = ''io.palan.serve.defaults''"

text \<open>A key that names no field is an error; what follows the first value is not looked at.\<close>

definition decode_defaults :: "json \<Rightarrow> serve_defaults option" where
  "decode_defaults j =
     (case j of
        JObj ms \<Rightarrow>
          (if \<not> list_all (\<lambda>(k, _). to_lower k \<in> {''ctx'', ''ngl'', ''flags''}) ms then None
           else case (int_field ''ctx'' ms, int_field ''ngl'' ms, list_field decode_str ''flags'' ms) of
             (Some c, Some n, Some fl) \<Rightarrow> Some \<lparr>d_Ctx = c, d_NGL = n, d_Flags = fl\<rparr>
           | _ \<Rightarrow> None)
      | JNull \<Rightarrow> Some no_defaults
      | _ \<Rightarrow> None)"

definition ParseServeDefaults :: "string \<Rightarrow> serve_defaults option" where
  "ParseServeDefaults s =
     (case value_at (Suc (length s)) s of Some (v, _) \<Rightarrow> decode_defaults v | None \<Rightarrow> None)"

section \<open>The model on this host\<close>

datatype serve_error =
    BadName ref_error | NotServed | StoreClosed bool | Unverified verify_error | Refused verify_error
  | NotResolved string lookup_error | NotPulled string
  | NoManifest fetch_error | NoWeight string | NotServable string string
  | ConfigUnread fetch_error | NotGGUF string string | BadMagic string string
  | BadBlob string | BlobAbsent string | HeaderUnread string
  | EngineFailed rt_error | NoEngine

definition BlobPath :: "'k host \<Rightarrow> string \<Rightarrow> node \<Rightarrow> serve_error + string" where
  "BlobPath h root d =
     (if \<not> Validate_ok (digests h) (Digest d) then Inl (BadBlob (Digest d))
      else if store_open h d = None then Inl (BlobAbsent (Digest d))
      else Inr (Join [root, ''blobs'', Algorithm (digests h) (Digest d), Encoded (digests h) (Digest d)]))"

definition FormatGGUF :: string where
  "FormatGGUF = ''gguf''"

definition gguf_magic :: string where
  "gguf_magic = ''GGUF''"

text \<open>The declared format decides when there is one, and the first bytes of the weights always.\<close>

definition requireGGUF :: "model_spec \<Rightarrow> 'k host \<Rightarrow> string \<Rightarrow> string \<Rightarrow> manifest \<Rightarrow> descriptor \<Rightarrow> serve_error + unit" where
  "requireGGUF S h root ref man weight =
     bind_res (if MediaType (Config man) = model_config_type S
               then map_error ConfigUnread (FetchJSON (config_format S) (store_blobs h) (node_of (Config man)))
               else Inr []) (\<lambda>declared.
     if declared \<noteq> [] \<and> declared \<noteq> FormatGGUF then Inl (NotGGUF ref declared)
     else bind_res (BlobPath h root (node_of weight)) (\<lambda>_.
       case store_open h (node_of weight) of
         None \<Rightarrow> Inl (BlobAbsent (Digest weight))
       | Some (c, _) \<Rightarrow>
           (if length c < 4 then Inl (HeaderUnread ref)
            else if take 4 c \<noteq> gguf_magic then Inl (BadMagic ref (take 4 c))
            else Inr ())))"

record model_info =
  blobPath :: string
  defaults :: serve_defaults

definition loadModelInfo :: "model_spec \<Rightarrow> 'k host \<Rightarrow> string \<Rightarrow> string \<Rightarrow> node \<Rightarrow> serve_error + model_info" where
  "loadModelInfo S h root ref d =
     bind_res (map_error NoManifest (FetchManifest (store_blobs h) d)) (\<lambda>man.
     case find (\<lambda>l. KindOf S (MediaType l) = LayerKindWeight) (Layers man) of
       None \<Rightarrow> Inl (NoWeight ref)
     | Some weight \<Rightarrow>
         (if \<not> IsRaw S (MediaType weight) then Inl (NotServable ref (MediaType weight))
          else bind_res (requireGGUF S h root ref man weight) (\<lambda>_.
            bind_res (BlobPath h root (node_of weight)) (\<lambda>p.
              Inr \<lparr>blobPath = p,
                   defaults = (case map_of (m_annotations man) AnnotationServeDefaults of
                     Some raw \<Rightarrow> (case ParseServeDefaults raw of Some df \<Rightarrow> df | None \<Rightarrow> no_defaults)
                   | None \<Rightarrow> no_defaults)\<rparr>))))"

section \<open>The engine\<close>

type_synonym gate = "(string \<Rightarrow> verify_error + node) option"

definition no_node :: node where
  "no_node = \<lparr>MediaType = [], Digest = [], Size = 0\<rparr>"

text \<open>\<^verbatim>\<open>checkRuntime\<close>: the name and artifact to unpack, nothing when none is configured.\<close>

definition checkRuntime :: "'k host \<Rightarrow> config \<Rightarrow> gate \<Rightarrow> string \<Rightarrow> bool \<Rightarrow> serve_error + string \<times> node" where
  "checkRuntime h cfg gate raw rehash =
     (if raw = [] then Inr (raw, no_node)
      else bind_res (map_error BadName (Parse (parse_ref h) raw (c_default_registry cfg))) (\<lambda>ref.
        let name = ref_text h ref in
        bind_res (map_error (NotResolved name) (t_Resolve (store h) name)) (\<lambda>local.
          if gate = None \<and> \<not> rehash then Inr (name, local)
          else bind_res (map_error Refused (case gate of Some g \<Rightarrow> g name | None \<Rightarrow> Inr no_node)) (\<lambda>verified.
            bind_res (map_error Refused (checkLoadedContent h ref local verified rehash)) (\<lambda>_.
              Inr (name, local))))))"

text \<open>\<^verbatim>\<open>Resolve\<close>: the engine of the artifact, or the one on the search path.\<close>

definition resolve_engine ::
    "'k host \<Rightarrow> os \<Rightarrow> string \<Rightarrow> string \<Rightarrow> string \<Rightarrow> string option \<Rightarrow> string \<Rightarrow> node \<Rightarrow> fs \<Rightarrow> fs \<times> (serve_error + string)" where
  "resolve_engine h os goos goarch root onPath ref d fs =
     (if ref \<noteq> [] then
        (case Ensure (digests h) (store_blobs h) os goos goarch root ref d fs of
           (fs', r) \<Rightarrow> (fs', map_error EngineFailed r))
      else (fs, from_option NoEngine onPath))"

section \<open>One load\<close>

record proc =
  p_Bin :: string
  p_ModelPath :: string
  p_Alias :: string
  p_CtxSize :: int
  p_NGL :: int
  p_ExtraArgs :: "string list"

text \<open>What \<^verbatim>\<open>run\<close> prepares once the store is held: the copy here, its layers, the engine.\<close>

definition held_copy ::
    "'k host \<Rightarrow> gate \<Rightarrow> bool \<Rightarrow> reference \<Rightarrow> node \<Rightarrow> serve_error + node" where
  "held_copy h gate rehash ref verified =
     bind_res (map_error (NotResolved (ref_text h ref)) (t_Resolve (store h) (ref_text h ref))) (\<lambda>d.
       if gate \<noteq> None \<or> rehash
       then bind_res (map_error Refused (checkLoadedContent h ref d verified rehash)) (\<lambda>_. Inr d)
       else Inr d)"

definition prepare ::
    "model_spec \<Rightarrow> 'k host \<Rightarrow> config \<Rightarrow> os \<Rightarrow> string \<Rightarrow> string \<Rightarrow> string \<Rightarrow> string option \<Rightarrow> gate \<Rightarrow> bool \<Rightarrow> reference \<Rightarrow> node
      \<Rightarrow> string \<Rightarrow> int \<Rightarrow> int \<Rightarrow> fs \<Rightarrow> fs \<times> (serve_error + proc)" where
  "prepare S h cfg os goos goarch root onPath gate rehash ref verified runtimeRef ctx ngl fs =
     (case bind_res (held_copy h gate rehash ref verified) (\<lambda>d.
           bind_res (loadModelInfo S h root (ref_text h ref) d) (\<lambda>info.
             bind_res (checkRuntime h cfg gate runtimeRef rehash) (\<lambda>engine. Inr (info, engine)))) of
        Inl e \<Rightarrow> (fs, Inl e)
      | Inr (info, name, d) \<Rightarrow>
          (case resolve_engine h os goos goarch root onPath name d fs of
             (fs', Inl e) \<Rightarrow> (fs', Inl e)
           | (fs', Inr bin) \<Rightarrow>
               (fs', Inr \<lparr>p_Bin = bin, p_ModelPath = blobPath info, p_Alias = ref_text h ref,
                  p_CtxSize = (if ctx > 0 then ctx else d_Ctx (defaults info)),
                  p_NGL = (if ngl > 0 then ngl else d_NGL (defaults info)),
                  p_ExtraArgs = d_Flags (defaults info)\<rparr>)))"

text \<open>
  \<^verbatim>\<open>run\<close>: the gate first, then what is here, or else what a pull bounded by the verified digest
  brings. A pull leaves another view of the store; the gate answers from the view it is asked about.
\<close>

definition run_cmd ::
    "model_spec \<Rightarrow> 'k host \<Rightarrow> (string \<Rightarrow> string \<Rightarrow> serve_error + 'k host) \<Rightarrow> config \<Rightarrow> os \<Rightarrow> string \<Rightarrow> string \<Rightarrow> string
      \<Rightarrow> string option \<Rightarrow> bool \<Rightarrow> string \<Rightarrow> bool \<Rightarrow> reference \<Rightarrow> string \<Rightarrow> int \<Rightarrow> int \<Rightarrow> fs \<Rightarrow> fs \<times> (serve_error + proc)" where
  "run_cmd S h pull cfg os goos goarch root onPath doVerify keyPath doRehash ref runtimeRef ctx ngl fs =
     (let rehash = rehashRequested cfg doRehash; name = ref_text h ref;
          go = (\<lambda>hh verified. prepare S hh cfg os goos goarch root onPath (verifyGate hh cfg doVerify keyPath) rehash ref
                  verified runtimeRef ctx ngl fs) in
      case (case verifyGate h cfg doVerify keyPath of Some g \<Rightarrow> map_error Refused (g name) | None \<Rightarrow> Inr no_node) of
        Inl e \<Rightarrow> (fs, Inl e)
      | Inr verified \<Rightarrow>
          (case t_Resolve (store h) name of
             Inr _ \<Rightarrow> go h verified
           | Inl _ \<Rightarrow>
               (case pull name (Digest verified) of
                  Inl e \<Rightarrow> (fs, Inl e)
                | Inr h2 \<Rightarrow> go h2 verified)))"

section \<open>The models serve offers\<close>

text \<open>
  A double rounds to 53 significant bits, to the even one of two equally near; \<open>6/5\<close> itself is
  the double \<open>5404319552844595 / 2 ^ 52\<close>.
\<close>

fun bit_length :: "nat \<Rightarrow> nat" where
  "bit_length n = (if n = 0 then 0 else Suc (bit_length (n div 2)))"

declare bit_length.simps [simp del]

definition significant :: "nat \<Rightarrow> nat" where
  "significant p =
     (let s = bit_length p - 53; q = p div 2 ^ s; r = p mod 2 ^ s in
      if s = 0 then p
      else (if 2 ^ s < 2 * r \<or> (2 ^ s = 2 * r \<and> odd q) then q + 1 else q) * 2 ^ s)"

definition memoryOverhead :: int where
  "memoryOverhead = 512 * 2 ^ 20"

definition memory_estimate :: "nat \<Rightarrow> int" where
  "memory_estimate sz = int64 (int (significant (significant sz * 5404319552844595) div 2 ^ 52) + memoryOverhead)"

text \<open>
  \<^verbatim>\<open>storeBackend.Spec\<close>: the store opened for this load, or why it could not be; \<open>size_of\<close> is the
  length of a file of the store.
\<close>

definition backend_Spec ::
    "model_spec \<Rightarrow> serve_error + 'k host \<Rightarrow> ('k host \<Rightarrow> gate) \<Rightarrow> bool \<Rightarrow> string \<Rightarrow> string \<Rightarrow> string list
      \<Rightarrow> (string \<Rightarrow> nat option) \<Rightarrow> (string \<Rightarrow> reference) \<Rightarrow> string \<Rightarrow> serve_error + proc \<times> int" where
  "backend_Spec S opened gateFor rehash root bin refs size_of named ref =
     (if refs \<noteq> [] \<and> ref \<notin> set refs then Inl NotServed
      else bind_res opened (\<lambda>h.
        let gate = gateFor h in
        bind_res (map_error Unverified (case gate of Some g \<Rightarrow> g ref | None \<Rightarrow> Inr no_node)) (\<lambda>verified.
        bind_res (map_error (NotResolved ref) (t_Resolve (store h) ref)) (\<lambda>d.
        bind_res (if gate \<noteq> None \<or> rehash
                  then map_error Unverified (checkLoadedContent h (named ref) d verified rehash) else Inr ()) (\<lambda>_.
        bind_res (loadModelInfo S h root ref d) (\<lambda>info.
        bind_res (from_option (BlobAbsent (Digest d)) (size_of (blobPath info))) (\<lambda>sz.
          Inr (\<lparr>p_Bin = bin, p_ModelPath = blobPath info, p_Alias = ref, p_CtxSize = d_Ctx (defaults info),
                p_NGL = d_NGL (defaults info), p_ExtraArgs = d_Flags (defaults info)\<rparr>, memory_estimate sz))))))))"

text \<open>\<^verbatim>\<open>storeBackend.List\<close>, over the names the store lists.\<close>

definition is_model :: "model_spec \<Rightarrow> fetcher \<Rightarrow> node \<Rightarrow> bool" where
  "is_model S F d =
     (case FetchManifest F d of
        Inl _ \<Rightarrow> False
      | Inr man \<Rightarrow> m_artifactType man = model_manifest_type S \<or> MediaType (Config man) = model_config_type S)"

definition backend_List :: "model_spec \<Rightarrow> fetcher \<Rightarrow> string list \<Rightarrow> serve_error + (string \<times> node) list \<Rightarrow> serve_error + string list" where
  "backend_List S F refs entries =
     (if refs \<noteq> [] then Inr refs
      else bind_res entries (\<lambda>es. Inr (map fst (filter (\<lambda>(_, d). is_model S F d) es))))"

section \<open>The process\<close>

definition server_args :: "proc \<Rightarrow> string \<Rightarrow> int \<Rightarrow> string list" where
  "server_args p host port =
     [''-m'', p_ModelPath p, ''--host'', host, ''--port'', itoa port] @
     (if p_CtxSize p > 0 then [''--ctx-size'', itoa (p_CtxSize p)] else []) @
     (if p_NGL p > 0 then [''--n-gpu-layers'', itoa (p_NGL p)] else []) @ p_ExtraArgs p"

definition sanitizeAlias :: "string \<Rightarrow> string" where
  "sanitizeAlias s =
     (if s = [] then ''model''
      else map (\<lambda>c. if c \<in> {CHR ''/'', CHR '':'', CHR ''@''} then CHR ''_'' else c) s)"

definition libraryPathVar :: "string \<Rightarrow> string" where
  "libraryPathVar goos = (if goos = ''darwin'' then ''DYLD_LIBRARY_PATH'' else ''LD_LIBRARY_PATH'')"

definition isSharedLibrary :: "string \<Rightarrow> bool" where
  "isSharedLibrary s \<longleftrightarrow> suffix ''.dylib'' s \<or> suffix ''.so'' s \<or> contains_sub s ''.so.''"

definition shipsLibraries :: "os \<Rightarrow> fs \<Rightarrow> string \<Rightarrow> bool" where
  "shipsLibraries os fs dir =
     (case read_dir os fs (parts dir) of
        Inl _ \<Rightarrow> False
      | Inr es \<Rightarrow>
          (case directory fs (parts dir) of
             Inl _ \<Rightarrow> False
           | Inr d \<Rightarrow> list_ex (\<lambda>e. at fs (d @ [e]) \<noteq> Some Folder \<and> isSharedLibrary e) es))"

text \<open>The environment of the child: the bindings but that of the search path, which comes last.\<close>

fun search_path :: "string \<Rightarrow> string \<Rightarrow> string list \<Rightarrow> string \<Rightarrow> string list \<Rightarrow> string \<times> string list" where
  "search_path pre dir [] v out = (v, out)"
| "search_path pre dir (kv # kvs) v out =
     (if prefix pre kv then
        (let rest = drop (length pre) kv in
         search_path pre dir kvs (if rest \<noteq> [] then dir @ '':'' @ rest else v) out)
      else search_path pre dir kvs v (out @ [kv]))"

definition runtimeEnv :: "string \<Rightarrow> os \<Rightarrow> fs \<Rightarrow> string list \<Rightarrow> string \<Rightarrow> string list" where
  "runtimeEnv goos os fs base binDir =
     (if binDir = [] \<or> binDir = ''.'' \<or> \<not> shipsLibraries os fs binDir then base
      else let pre = libraryPathVar goos @ ''=''; (v, out) = search_path pre binDir base binDir [] in
        out @ [pre @ v])"

text \<open>What is started for a prepared load: the command, its arguments and its environment.\<close>

definition launch :: "string \<Rightarrow> os \<Rightarrow> fs \<Rightarrow> string list \<Rightarrow> proc \<Rightarrow> int \<Rightarrow> string \<times> string list \<times> string list" where
  "launch goos os fs base p port =
     (p_Bin p, server_args p ''127.0.0.1'' port, runtimeEnv goos os fs base (Dir (p_Bin p)))"

end
