(* ===== verification/Explain.thy ===== *)
theory Explain
  imports VerifyCmd SigningSpec
begin

text \<open>
  The rest of the \<^verbatim>\<open>verify\<close> command: the attestation held to the key that accepted the
  signature, the chain it prints (\<^verbatim>\<open>internal/cli/explain.go\<close>), and the command as a
  whole, with what each of its answers establishes.
\<close>

section \<open>The attestation\<close>

datatype unreadable = ManifestUnreadable | ManifestUndecodable

datatype warning =
    NoStatementUnreadable unreadable | NoStatement nat | UncheckedUnreadable unreadable | Unchecked nat

record attestationReport =
  provenance :: "string list"
  warned :: "warning option"

definition claimedSources :: "verifySource \<Rightarrow> unreadable + nat" where
  "claimedSources src =
     bind_res (from_option ManifestUnreadable (t_Fetch (vs_target src) (vs_subject src))) (\<lambda>raw.
     bind_res (from_option ManifestUndecodable (unmarshal_manifest raw)) (\<lambda>man.
       Inr (length (LayersFromManifest man))))"

definition missingAttestation :: "verifySource \<Rightarrow> attestationReport" where
  "missingAttestation src = \<lparr>provenance = [], warned =
     (case claimedSources src of
        Inl u \<Rightarrow> Some (NoStatementUnreadable u)
      | Inr n \<Rightarrow> if n = 0 then None else Some (NoStatement n))\<rparr>"

definition uncheckedAttestation :: "verifySource \<Rightarrow> attestationReport" where
  "uncheckedAttestation src = \<lparr>provenance = [], warned =
     (case claimedSources src of
        Inl u \<Rightarrow> Some (UncheckedUnreadable u)
      | Inr n \<Rightarrow> if n = 0 then None else Some (Unchecked n))\<rparr>"

definition held_attestation ::
    "'k host \<Rightarrow> key \<Rightarrow> verifySource \<Rightarrow> string \<Rightarrow> verify_error + layer list" where
  "held_attestation h v src env =
     bind_res (map_error AttestationFailed (Attest.Verify (digests h) v env (Digest (vs_subject src)))) (\<lambda>layers.
     bind_res (from_option SubjectUnread (t_Fetch (vs_target src) (vs_subject src))) (\<lambda>raw.
     bind_res (from_option SubjectGarbled (unmarshal_manifest raw)) (\<lambda>man.
     bind_res (map_error AttestationMismatch (attestationMatchesManifest layers man)) (\<lambda>_. Inr layers))))"

definition checkAttestation :: "'k host \<Rightarrow> verifiedBy \<Rightarrow> verifySource \<Rightarrow> verify_error + attestationReport" where
  "checkAttestation h verdict src =
     (case vb_key verdict of
        None \<Rightarrow> Inr (uncheckedAttestation src)
      | Some v \<Rightarrow>
          (case FetchAttestation (vs_target src) (vs_attRef src) (vs_subject src) of
             Inl (NoAttestation d) \<Rightarrow> Inr (missingAttestation src)
           | Inl e \<Rightarrow> Inl (AttestationFetch e)
           | Inr env \<Rightarrow> bind_res (held_attestation h v src env) (\<lambda>layers.
               Inr \<lparr>provenance = provenanceLines (go_quote h) layers, warned = None\<rparr>)))"

section \<open>The chain\<close>

datatype link_name =
    LinkReference | LinkSignature | LinkPolicy | LinkLog | LinkSources | LinkLocal | LinkContent

datatype detail =
    ResolvesIn string string | SignedBy string string | VerifiesUnderKey
  | NothingRecorded | AllowedBy string | LoggedAt int int string
  | PackedFrom "string list" | Warned warning | NoUpstream
  | NotHeldHere | HeldHere string | NotReadBack | ReadBack int int

record link =
  link_name :: link_name
  link_proven :: bool
  link_detail :: detail

record explanation =
  x_Reference :: string
  x_Digest :: string
  x_Source :: string
  x_Links :: "link list"

definition localLink :: "node option \<Rightarrow> link" where
  "localLink rc =
     (case rc of
        None \<Rightarrow> \<lparr>link_name = LinkLocal, link_proven = False, link_detail = NotHeldHere\<rparr>
      | Some d \<Rightarrow> \<lparr>link_name = LinkLocal, link_proven = True, link_detail = HeldHere (Digest d)\<rparr>)"

definition signatureLink :: "(string \<Rightarrow> string) \<Rightarrow> verifiedBy \<Rightarrow> link" where
  "signatureLink q verdict =
     \<lparr>link_name = LinkSignature, link_proven = True, link_detail =
       (case vb_keyless verdict of
          Some r \<Rightarrow> SignedBy (displaySafe q (r_Subject r)) (displaySafe q (r_Issuer r))
        | None \<Rightarrow> VerifiesUnderKey)\<rparr>"

definition policyLink :: "verifiedBy \<Rightarrow> link" where
  "policyLink verdict =
     (if vb_admitted verdict = [] then \<lparr>link_name = LinkPolicy, link_proven = False, link_detail = NothingRecorded\<rparr>
      else \<lparr>link_name = LinkPolicy, link_proven = True, link_detail = AllowedBy (vb_admitted verdict)\<rparr>)"

definition logLink :: "keyless_result \<Rightarrow> string \<Rightarrow> link" where
  "logLink r root_file = \<lparr>link_name = LinkLog, link_proven = True,
     link_detail = LoggedAt (r_LogIndex r) (r_IntegratedTime r) root_file\<rparr>"

definition sourcesLink :: "attestationReport \<Rightarrow> link" where
  "sourcesLink att =
     (if provenance att \<noteq> [] then
        \<lparr>link_name = LinkSources, link_proven = True, link_detail = PackedFrom (provenance att)\<rparr>
      else \<lparr>link_name = LinkSources, link_proven = False, link_detail =
        (case warned att of Some w \<Rightarrow> Warned w | None \<Rightarrow> NoUpstream)\<rparr>)"

text \<open>The re-read, when it ran.\<close>

definition contentLink :: "report option \<Rightarrow> link" where
  "contentLink rh =
     (case rh of
        None \<Rightarrow> \<lparr>link_name = LinkContent, link_proven = False, link_detail = NotReadBack\<rparr>
      | Some r \<Rightarrow> \<lparr>link_name = LinkContent, link_proven = True, link_detail = ReadBack (Blobs r) (Bytes r)\<rparr>)"

definition explain ::
    "(string \<Rightarrow> string) \<Rightarrow> string \<Rightarrow> string \<Rightarrow> verifySource \<Rightarrow> verifiedBy \<Rightarrow> attestationReport \<Rightarrow> node option \<Rightarrow>
     report option \<Rightarrow> explanation" where
  "explain q ref dgst src verdict att rc rh =
     \<lparr>x_Reference = ref, x_Digest = dgst, x_Source = vs_name src, x_Links =
       [\<lparr>link_name = LinkReference, link_proven = True, link_detail = ResolvesIn ref (vs_name src)\<rparr>,
        signatureLink q verdict, policyLink verdict] @
       (case vb_keyless verdict of Some r \<Rightarrow> [logLink r (vb_trustRoot verdict)] | None \<Rightarrow> []) @
       [sourcesLink att, localLink rc, contentLink rh]\<rparr>"

section \<open>The command\<close>

definition verify_cmd :: "'k host \<Rightarrow> config \<Rightarrow> string \<Rightarrow> bool \<Rightarrow> string \<Rightarrow> verify_error + explanation" where
  "verify_cmd h cfg keyPath doRehash raw =
     bind_res (map_error BadReference (Parse (parse_ref h) raw (c_default_registry cfg))) (\<lambda>ref.
     bind_res (resolveVerifySource h ref) (\<lambda>src.
     bind_res (verifyDigest h cfg keyPath src ref) (\<lambda>verdict.
     bind_res (checkResidentCopy h ref (vs_subject src)) (\<lambda>resident.
     bind_res (checkAttestation h verdict src) (\<lambda>att.
     bind_res (if rehashRequested cfg doRehash then bind_res (rehashStore h ref resident) (\<lambda>r. Inr (Some r))
               else Inr None) (\<lambda>rh.
       Inr (explain (go_quote h) (ref_text h ref) (Digest (vs_subject src)) src verdict att resident rh)))))))"

end
