(* ===== verification/VerifySpec.thy ===== *)
theory VerifySpec
  imports Explain
begin

text \<open>
  What a verification establishes: who signed and who allowed it, what the gate in front of a load
  guarantees about the bytes loaded, what every proven link of a chain rests on, and that none of
  it needs a network when the store holds the signature.
\<close>

section \<open>Who signed\<close>

definition keyless_signed :: "'k host \<Rightarrow> verifySource \<Rightarrow> string \<Rightarrow> identity list \<Rightarrow> keyless_result \<Rightarrow> bool" where
  "keyless_signed h src root_file ids res \<longleftrightarrow>
     (\<exists>raw root bundles. read_file h root_file = Some raw \<and>
       LoadTrustedRoot (crypto h) (root_message h raw) = Inr root \<and>
       FetchBundles (vs_target src) (vs_subject src) = Inr bundles \<and>
       (\<exists>b \<in> set bundles.
         Keyless.Verify (crypto h) (bundle_message h b) (Digest (vs_subject src)) (Some root) ids = Inr res))"

definition key_signed :: "verifySource \<Rightarrow> string \<Rightarrow> key \<Rightarrow> bool" where
  "key_signed src repo v \<longleftrightarrow>
     (\<exists>n \<in> candidates (vs_target src) (vs_sigRef src) (vs_subject src).
        good_manifest (vs_target src) repo (Digest (vs_subject src)) v n)"

lemma Verify_sig_key_signed:
  "Verify_sig (vs_target src) (vs_sigRef src) repo (vs_subject src) v = Inr u \<longleftrightarrow> key_signed src repo v"
  using Verify_sig_candidates [of "vs_target src" "vs_sigRef src" repo "vs_subject src" v] by (simp add: key_signed_def)

lemma try_keys_Inr:
  "try_keys src repo nvs tried e = Inr nv \<Longrightarrow> nv \<in> set nvs \<and> key_signed src repo (nv_verifier nv)"
  by (induction nvs arbitrary: tried e)
     (auto simp: Verify_sig_key_signed [of _ _ _ "()", symmetric] split: sum.splits)

lemma try_keys_Inl:
  "try_keys src repo nvs tried e = Inl x \<Longrightarrow> nv \<in> set nvs \<Longrightarrow> \<not> key_signed src repo (nv_verifier nv)"
  by (induction nvs arbitrary: tried e)
     (auto simp: Verify_sig_key_signed [of _ _ _ "()", symmetric] split: sum.splits)

lemma try_bundles_Inr:
  "try_bundles h dg root ids bs e = Inr res \<Longrightarrow>
     \<exists>b \<in> set bs. Keyless.Verify (crypto h) (bundle_message h b) dg (Some root) ids = Inr res"
  by (induction bs arbitrary: e) (auto split: sum.splits)

lemma try_bundles_Inl:
  "try_bundles h dg root ids bs e = Inl x \<Longrightarrow> b \<in> set bs \<Longrightarrow>
     \<exists>y. Keyless.Verify (crypto h) (bundle_message h b) dg (Some root) ids = Inl y"
  by (induction bs arbitrary: e) (auto split: sum.splits)

lemma verifyKeyless_signed:
  "verifyKeyless h src allowed = Inr res \<Longrightarrow>
     keyless_signed h src (as_trustRoot allowed) (identities allowed) res"
  by (auto simp: verifyKeyless_def keyless_signed_def dest!: try_bundles_Inr)

lemma verifyKeyless_unsigned:
  assumes "verifyKeyless h src allowed = Inl e"
  shows "\<not> keyless_signed h src (as_trustRoot allowed) (identities allowed) res"
proof
  assume "keyless_signed h src (as_trustRoot allowed) (identities allowed) res"
  then obtain raw root bundles b where found: "read_file h (as_trustRoot allowed) = Some raw"
    "LoadTrustedRoot (crypto h) (root_message h raw) = Inr root"
    "FetchBundles (vs_target src) (vs_subject src) = Inr bundles" and b: "b \<in> set bundles"
    "Keyless.Verify (crypto h) (bundle_message h b) (Digest (vs_subject src)) (Some root) (identities allowed) = Inr res"
    by (auto simp: keyless_signed_def)
  from assms found obtain x where
    "try_bundles h (Digest (vs_subject src)) root (identities allowed) bundles BundleParse = Inl x"
    by (auto simp: verifyKeyless_def map_error_def from_option_def split: sum.splits)
  from try_bundles_Inl [OF this b(1)] b(2) show False by auto
qed

text \<open>Some signer of the list signed the artifact of the source.\<close>

definition signed_by :: "'k host \<Rightarrow> verifySource \<Rightarrow> string \<Rightarrow> allowedSigners \<Rightarrow> bool" where
  "signed_by h src repo allowed \<longleftrightarrow>
     (\<exists>nv \<in> set (verifiers allowed). key_signed src repo (nv_verifier nv)) \<or>
     identities allowed \<noteq> [] \<and> (\<exists>res. keyless_signed h src (as_trustRoot allowed) (identities allowed) res)"

text \<open>What a verdict says is so: the key it names, or the keyless result it carries.\<close>

definition verdict_true :: "'k host \<Rightarrow> verifySource \<Rightarrow> string \<Rightarrow> allowedSigners \<Rightarrow> verifiedBy \<Rightarrow> bool" where
  "verdict_true h src repo allowed v \<longleftrightarrow> vb_admitted v = as_admitted allowed \<and>
     ((\<exists>nv \<in> set (verifiers allowed). vb_key v = Some (nv_verifier nv) \<and> vb_keyless v = None \<and>
         key_signed src repo (nv_verifier nv)) \<or>
      (\<exists>res. vb_key v = None \<and> vb_keyless v = Some res \<and> identities allowed \<noteq> [] \<and>
         vb_trustRoot v = as_trustRoot allowed \<and>
         keyless_signed h src (as_trustRoot allowed) (identities allowed) res))"

lemma verifyDigest_true:
  assumes "verifyDigest h cfg keyPath src ref = Inr v"
  shows "\<exists>allowed. resolveVerifiers h cfg keyPath ref = Inr allowed \<and> verdict_true h src (repo_of ref) allowed v"
proof -
  from assms obtain allowed where r: "resolveVerifiers h cfg keyPath ref = Inr allowed"
    by (auto simp: verifyDigest_def)
  have "verdict_true h src (repo_of ref) allowed v"
  proof (cases "try_keys src (repo_of ref) (verifiers allowed) [] NoneTried")
    case (Inr nv)
    with assms r try_keys_Inr [OF Inr] show ?thesis by (auto simp: verifyDigest_def verdict_true_def)
  next
    case (Inl x)
    with assms r obtain res where ids: "identities allowed \<noteq> []" and k: "verifyKeyless h src allowed = Inr res"
      and v: "v = \<lparr>vb_key = None, vb_keyless = Some res, vb_admitted = as_admitted allowed,
        vb_trustRoot = as_trustRoot allowed\<rparr>"
      by (cases x) (auto simp: verifyDigest_def split: if_splits sum.splits)
    from verifyKeyless_signed [OF k] ids show ?thesis by (simp add: verdict_true_def v)
  qed
  with r show ?thesis by blast
qed

lemma verdict_signed: "verdict_true h src repo allowed v \<Longrightarrow> signed_by h src repo allowed"
  by (auto simp: verdict_true_def signed_by_def)

lemma verifyDigest_complete:
  assumes "resolveVerifiers h cfg keyPath ref = Inr allowed" and "signed_by h src (repo_of ref) allowed"
  shows "\<exists>v. verifyDigest h cfg keyPath src ref = Inr v"
proof (cases "try_keys src (repo_of ref) (verifiers allowed) [] NoneTried")
  case (Inr nv)
  with assms(1) show ?thesis by (simp add: verifyDigest_def)
next
  case (Inl x)
  from assms(2) try_keys_Inl [OF Inl] obtain res where ids: "identities allowed \<noteq> []"
    and res: "keyless_signed h src (as_trustRoot allowed) (identities allowed) res"
    by (auto simp: signed_by_def)
  from verifyKeyless_unsigned res obtain r where "verifyKeyless h src allowed = Inr r"
    by (cases "verifyKeyless h src allowed") blast+
  with assms(1) Inl ids show ?thesis by (cases x) (simp add: verifyDigest_def)
qed

text \<open>
  C30. An artifact verifies exactly when one of those allowed to sign its repository did: some key of
  theirs accepts a signature over a claim for this repository and digest, or some bundle attached
  to it verifies for one of their identities. The order in which keys, bundles and kinds of
  signature are tried decides nothing.
\<close>

theorem verifyDigest_exact:
  "(\<exists>v. verifyDigest h cfg keyPath src ref = Inr v) \<longleftrightarrow>
     (\<exists>allowed. resolveVerifiers h cfg keyPath ref = Inr allowed \<and> signed_by h src (repo_of ref) allowed)"
  using verifyDigest_true verdict_signed verifyDigest_complete by metis

lemma load_verifiers_files:
  "load_verifiers h fs = Inr nvs \<Longrightarrow> nv \<in> set nvs \<Longrightarrow>
     nv_name nv \<in> set fs \<and> (\<exists>pem. read_file h (nv_name nv) = Some pem \<and> load_key h pem = Some (nv_verifier nv))"
  by (induction fs arbitrary: nvs) (auto simp: loadNamedVerifier_def)

lemma resolveVerifiers_policy:
  assumes "resolveVerifiers h cfg [] ref = Inr allowed" and "c_policy cfg = Some rs"
  shows "\<exists>r. first_rule rs (repo_of ref) = Some r \<and> validateRule r = None \<and> rule_signers h r = Inr allowed"
proof -
  from assms obtain p where p: "New rs = Inr p" and r: "RuleFor p (repo_of ref) \<noteq> None"
    by (auto simp: resolveVerifiers_def loadPolicy_def split: if_splits sum.splits option.splits)
  from p have rs: "rules p = rs" "validate_rules rs 0 = None"
    by (auto simp: New_def split: option.splits)
  from r rs obtain q where q: "first_rule rs (repo_of ref) = Some q" by (auto simp: RuleFor_def)
  then have "q \<in> set rs" using signing_rules.look_first by fastforce
  with rs(2) have "validateRule q = None" by (simp add: validate_rules_None)
  moreover have "rule_signers h q = Inr allowed"
    using assms p rs q
    by (auto simp: resolveVerifiers_def loadPolicy_def RuleFor_def map_error_def split: if_splits)
  ultimately show ?thesis using q by blast
qed

text \<open>
  C22. Under a policy only its first matching rule decides. A verification that succeeds with no key
  named on the command line was made by a key file of that rule, or names an identity of that rule
  under the trusted root of that rule, and the rule is one the policy's own validation accepts; a
  later rule that also matches, and the configured key, admit nobody.
\<close>

theorem policy_governs:
  assumes "verifyDigest h cfg [] src ref = Inr v" and "c_policy cfg = Some rs"
  shows "\<exists>above r below. rs = above @ r # below \<and> Match (Pattern r) (repo_of ref) \<and>
    (\<forall>q \<in> set above. \<not> Match (Pattern q) (repo_of ref)) \<and> validateRule r = None \<and>
    ((\<exists>f \<in> set (KeyFiles r). \<exists>pem k. read_file h f = Some pem \<and> load_key h pem = Some k \<and>
        vb_key v = Some k \<and> key_signed src (repo_of ref) k) \<or>
     (\<exists>res. vb_keyless v = Some res \<and> Identities r \<noteq> [] \<and>
        keyless_signed h src (TrustRoot r) (Identities r) res))"
proof -
  from verifyDigest_true [OF assms(1)] obtain allowed where
    al: "resolveVerifiers h cfg [] ref = Inr allowed" and v: "verdict_true h src (repo_of ref) allowed v" by blast
  from resolveVerifiers_policy [OF al assms(2)] obtain r where r: "first_rule rs (repo_of ref) = Some r"
    "validateRule r = None" "rule_signers h r = Inr allowed" by blast
  from r(3) obtain nvs where nvs: "load_verifiers h (KeyFiles r) = Inr nvs" and
    al': "verifiers allowed = nvs" "identities allowed = Identities r" "as_trustRoot allowed = TrustRoot r"
    by (auto simp: rule_signers_def)
  have by_rule: "(\<exists>f \<in> set (KeyFiles r). \<exists>pem k. read_file h f = Some pem \<and> load_key h pem = Some k \<and>
        vb_key v = Some k \<and> key_signed src (repo_of ref) k) \<or>
     (\<exists>res. vb_keyless v = Some res \<and> Identities r \<noteq> [] \<and> keyless_signed h src (TrustRoot r) (Identities r) res)"
    using v load_verifiers_files [OF nvs] unfolding verdict_true_def al' by blast
  from r(1) obtain above below where "rs = above @ r # below" "Match (Pattern r) (repo_of ref)"
    "\<forall>q \<in> set above. \<not> Match (Pattern q) (repo_of ref)"
    unfolding signing_rules.look_first by blast
  with r(2) by_rule show ?thesis by blast
qed

section \<open>What is loaded\<close>

text \<open>Every blob of the artifact is on this host as its manifest records it.\<close>

definition blobs_intact :: "'k host \<Rightarrow> node \<Rightarrow> bool" where
  "blobs_intact h d \<longleftrightarrow>
     (\<exists>raw man. t_Fetch (store h) d = Some raw \<and> unmarshal_manifest raw = Some man \<and>
       (\<forall>b \<in> set (Config man # Layers man). intact (digests h) (store_blobs h) (node_of b)))"

lemma Rehash_blobs_intact: "Rehash (digests h) (store_blobs h) d = Inr rep \<Longrightarrow> blobs_intact h d"
  using Rehash_spec [of "digests h" "store_blobs h" d rep] by (auto simp: blobs_intact_def)

text \<open>
  C5. What the gate lets a host load is what was signed. When a gate is asked for, it accepts a
  reference, and the check of the local copy passes with the re-read, then one of those allowed to
  sign the repository signed the very artifact this host holds, by its digest, and every blob of
  that artifact is on this host with its recorded size and digest.
\<close>

theorem gate_admits_signed_content:
  assumes "verifyGate h cfg doVerify keyPath = Some gate" and "gate raw = Inr verified"
    and "checkLoadedContent h ref' local verified True = Inr ()" and "Digest verified \<noteq> []"
  shows "\<exists>ref src allowed. Parse (parse_ref h) raw (c_default_registry cfg) = Inr ref \<and>
    resolveVerifiers h cfg keyPath ref = Inr allowed \<and> signed_by h src (repo_of ref) allowed \<and>
    Digest (vs_subject src) = Digest local \<and> blobs_intact h local"
proof -
  from assms(1,2) have "run_gate h cfg keyPath raw = Inr verified"
    by (auto simp: verifyGate_def split: if_splits)
  then obtain ref src v where ref: "Parse (parse_ref h) raw (c_default_registry cfg) = Inr ref"
    and v: "verifyDigest h cfg keyPath src ref = Inr v" and sub: "vs_subject src = verified"
    by (auto simp: run_gate_def)
  from verifyDigest_true [OF v] obtain allowed where al: "resolveVerifiers h cfg keyPath ref = Inr allowed"
    "signed_by h src (repo_of ref) allowed" using verdict_signed by blast
  from assms(3,4) obtain rep where dg: "Digest local = Digest verified" and
    re: "Rehash (digests h) (store_blobs h) local = Inr rep"
    by (auto simp: checkLoadedContent_def split: if_splits)
  show ?thesis using ref al dg sub Rehash_blobs_intact [OF re] by metis
qed

section \<open>The chain that is printed\<close>

definition proven :: "link_name \<Rightarrow> explanation \<Rightarrow> bool" where
  "proven n e \<longleftrightarrow> (\<exists>l \<in> set (x_Links e). link_name l = n \<and> link_proven l)"

lemma explain_proven:
  "proven LinkLog (explain q ref dg src v att rc rh) \<longleftrightarrow> vb_keyless v \<noteq> None"
  "proven LinkSources (explain q ref dg src v att rc rh) \<longleftrightarrow> provenance att \<noteq> []"
  "proven LinkLocal (explain q ref dg src v att rc rh) \<longleftrightarrow> rc \<noteq> None"
  "proven LinkContent (explain q ref dg src v att rc rh) \<longleftrightarrow> rh \<noteq> None"
  by (cases "vb_keyless v"; cases rc; cases rh;
      simp add: proven_def explain_def signatureLink_def policyLink_def logLink_def sourcesLink_def localLink_def
        contentLink_def)+

text \<open>The sources of an artifact are established by the key that signed it.\<close>

definition sources_established :: "'k host \<Rightarrow> verifySource \<Rightarrow> verifiedBy \<Rightarrow> bool" where
  "sources_established h src v \<longleftrightarrow>
     (\<exists>k env layers raw man. vb_key v = Some k \<and>
       FetchAttestation (vs_target src) (vs_attRef src) (vs_subject src) = Inr env \<and>
       Attest.Verify (digests h) k env (Digest (vs_subject src)) = Inr layers \<and>
       t_Fetch (vs_target src) (vs_subject src) = Some raw \<and> unmarshal_manifest raw = Some man \<and>
       mset layers = mset (LayersFromManifest man))"

lemma checkAttestation_established:
  assumes "checkAttestation h v src = Inr att" and "provenance att \<noteq> []"
  shows "sources_established h src v"
proof -
  from assms obtain k where k: "vb_key v = Some k"
    by (auto simp: checkAttestation_def uncheckedAttestation_def split: option.splits)
  with assms obtain env where env: "FetchAttestation (vs_target src) (vs_attRef src) (vs_subject src) = Inr env"
    by (auto simp: checkAttestation_def missingAttestation_def split: sum.splits att_error.splits)
  with k assms(1) obtain layers where "held_attestation h k src env = Inr layers"
    by (auto simp: checkAttestation_def)
  then show ?thesis
    using k env by (auto simp: held_attestation_def sources_established_def attestationMatches_iff)
qed

text \<open>
  C7. A chain that is printed says only what was established. When the command returns one, those
  allowed to sign the repository are the ones the configuration names and one of them signed this
  digest; the local copy is proven only if the store holds this very digest under the reference;
  the sources only if an attestation verifies under the same key that accepted the signature and
  records exactly the sourced layers of this artifact's manifest; the log only for a keyless
  signature; and the content exactly when a re-read was asked for, and then every blob the store
  holds for the artifact is intact.
\<close>

theorem verify_command_sound:
  assumes "verify_cmd h cfg keyPath doRehash raw = Inr e"
  shows "\<exists>ref src allowed v. Parse (parse_ref h) raw (c_default_registry cfg) = Inr ref \<and>
    resolveVerifySource h ref = Inr src \<and> resolveVerifiers h cfg keyPath ref = Inr allowed \<and>
    verdict_true h src (repo_of ref) allowed v \<and>
    x_Digest e = Digest (vs_subject src) \<and> x_Source e = vs_name src \<and>
    (proven LinkLog e \<longleftrightarrow> vb_keyless v \<noteq> None) \<and>
    (proven LinkLocal e \<longrightarrow>
      (\<exists>local. t_Resolve (store h) (ref_text h ref) = Inr local \<and> Digest local = x_Digest e)) \<and>
    (proven LinkSources e \<longrightarrow> sources_established h src v) \<and>
    (proven LinkContent e \<longleftrightarrow> rehashRequested cfg doRehash) \<and>
    (proven LinkContent e \<longrightarrow>
      (\<exists>local. t_Resolve (store h) (ref_text h ref) = Inr local \<and> Digest local = x_Digest e \<and> blobs_intact h local))"
proof -
  from assms obtain ref src v rc att rh where
    ref: "Parse (parse_ref h) raw (c_default_registry cfg) = Inr ref" and src: "resolveVerifySource h ref = Inr src" and
    v: "verifyDigest h cfg keyPath src ref = Inr v" and rc: "checkResidentCopy h ref (vs_subject src) = Inr rc" and
    att: "checkAttestation h v src = Inr att" and
    rh: "(if rehashRequested cfg doRehash then bind_res (rehashStore h ref rc) (\<lambda>r. Inr (Some r)) else Inr None) = Inr rh" and
    e: "e = explain (go_quote h) (ref_text h ref) (Digest (vs_subject src)) src v att rc rh"
    unfolding verify_cmd_def bind_res_eq_Inr map_error_eq by auto
  from verifyDigest_true [OF v] obtain allowed where al: "resolveVerifiers h cfg keyPath ref = Inr allowed"
    "verdict_true h src (repo_of ref) allowed v" by blast
  have x: "x_Digest e = Digest (vs_subject src)" "x_Source e = vs_name src" by (simp_all add: e explain_def)
  have local: "t_Resolve (store h) (ref_text h ref) = Inr local \<and> Digest local = Digest (vs_subject src)"
    if "rc = Some local" for local
    using rc that by (auto simp: checkResidentCopy_def split: sum.splits if_splits)
  have content: "rh \<noteq> None \<longleftrightarrow> rehashRequested cfg doRehash" using rh by (auto split: if_splits)
  have intact: "\<exists>local. rc = Some local \<and> blobs_intact h local" if "rh \<noteq> None"
    using rh that Rehash_blobs_intact by (auto simp: rehashStore_def split: if_splits option.splits)
  have p: "proven LinkLog e \<longleftrightarrow> vb_keyless v \<noteq> None" "proven LinkSources e \<longleftrightarrow> provenance att \<noteq> []"
    "proven LinkLocal e \<longleftrightarrow> rc \<noteq> None" "proven LinkContent e \<longleftrightarrow> rh \<noteq> None"
    unfolding e explain_proven by simp_all
  show ?thesis
  proof (rule exI [of _ ref], rule exI [of _ src], rule exI [of _ allowed], rule exI [of _ v], intro conjI impI)
    show "sources_established h src v" if "proven LinkSources e"
      using that p(2) checkAttestation_established [OF att] by blast
    show "\<exists>local. t_Resolve (store h) (ref_text h ref) = Inr local \<and> Digest local = x_Digest e" if "proven LinkLocal e"
      using that p(3) local x(1) by auto
    show "\<exists>local. t_Resolve (store h) (ref_text h ref) = Inr local \<and> Digest local = x_Digest e \<and> blobs_intact h local"
      if "proven LinkContent e"
    proof -
      from that p(4) intact obtain local' where "rc = Some local'" "blobs_intact h local'" by blast
      with local [of local'] x(1) show ?thesis by auto
    qed
  qed (use ref src al x p content in simp_all)
qed

section \<open>Without a network\<close>

text \<open>The host with every registry replaced.\<close>

abbreviation elsewhere :: "'k host \<Rightarrow> (reference \<Rightarrow> target option) \<Rightarrow> 'k host" where
  "elsewhere h net \<equiv> h\<lparr>remote := net\<rparr>"

lemma loadNamedVerifier_elsewhere: "loadNamedVerifier (elsewhere h net) = loadNamedVerifier h"
  by (simp add: loadNamedVerifier_def fun_eq_iff)

lemma load_verifiers_elsewhere: "load_verifiers (elsewhere h net) = load_verifiers h"
proof
  show "load_verifiers (elsewhere h net) fs = load_verifiers h fs" for fs
    by (induction fs) (simp_all add: loadNamedVerifier_elsewhere)
qed

lemma resolveVerifiers_elsewhere: "resolveVerifiers (elsewhere h net) = resolveVerifiers h"
  unfolding resolveVerifiers_def fun_eq_iff rule_signers_def single_signer_def loadNamedVerifier_elsewhere
    load_verifiers_elsewhere
  by simp

lemma try_bundles_elsewhere: "try_bundles (elsewhere h net) = try_bundles h"
proof (intro ext)
  show "try_bundles (elsewhere h net) dg root ids bs e = try_bundles h dg root ids bs e" for dg root ids bs e
    by (induction bs arbitrary: e) (simp_all split: sum.splits)
qed

lemma verifyKeyless_elsewhere: "verifyKeyless (elsewhere h net) = verifyKeyless h"
  unfolding verifyKeyless_def fun_eq_iff try_bundles_elsewhere by simp

lemma verifyDigest_elsewhere: "verifyDigest (elsewhere h net) = verifyDigest h"
  unfolding verifyDigest_def fun_eq_iff resolveVerifiers_elsewhere verifyKeyless_elsewhere by simp

lemma resolveVerifySource_elsewhere:
  assumes "t_Resolve (store h) (ref_text h ref) = Inr local"
    and "storeHoldsSignature (store h) (SigRef (ref_text h) ref (Digest local)) local = Inr True"
  shows "resolveVerifySource (elsewhere h net) ref = resolveVerifySource h ref"
  using assms by (simp add: resolveVerifySource_def)

lemma held_attestation_elsewhere: "held_attestation (elsewhere h net) = held_attestation h"
  by (simp add: held_attestation_def fun_eq_iff)

lemma elsewhere_fields:
  "go_quote (elsewhere h net) = go_quote h" "store (elsewhere h net) = store h"
  "store_open (elsewhere h net) = store_open h" "digests (elsewhere h net) = digests h"
  "ref_text (elsewhere h net) = ref_text h" "parse_ref (elsewhere h net) = parse_ref h"
  by simp_all

lemma rest_elsewhere:
  "checkResidentCopy (elsewhere h net) = checkResidentCopy h"
  "checkAttestation (elsewhere h net) = checkAttestation h"
  "rehashStore (elsewhere h net) = rehashStore h"
  unfolding checkResidentCopy_def checkAttestation_def rehashStore_def held_attestation_elsewhere elsewhere_fields
  by (rule refl)+

text \<open>
  A host that holds an artifact and its signature needs no network to verify it: whatever any
  registry would answer, and if none can be reached at all, the verify command and the gate
  return exactly what they return otherwise.
\<close>

theorem verification_is_offline:
  assumes "Parse (parse_ref h) raw (c_default_registry cfg) = Inr ref"
    and "t_Resolve (store h) (ref_text h ref) = Inr local"
    and "storeHoldsSignature (store h) (SigRef (ref_text h) ref (Digest local)) local = Inr True"
  shows "verify_cmd (elsewhere h net) cfg keyPath doRehash raw = verify_cmd h cfg keyPath doRehash raw \<and>
    run_gate (elsewhere h net) cfg keyPath raw = run_gate h cfg keyPath raw"
  unfolding verify_cmd_def run_gate_def verifyDigest_elsewhere rest_elsewhere
  using assms(1) resolveVerifySource_elsewhere [OF assms(2,3), of net] by (simp add: map_error_def)

end
