(* ===== verification/RuntimeSpec.thy ===== *)
theory RuntimeSpec
  imports Runtime
begin

text \<open>
  What unpacking an engine establishes: the tree it runs from holds the files of the checked
  manifest and nothing else, it is reached through no link, and no file elsewhere is touched.
\<close>

section \<open>Names below the store\<close>

lemma directory_snoc:
  "directory fs ps = Inr d \<Longrightarrow> plain x \<Longrightarrow> at fs (d @ [x]) = Some Folder \<Longrightarrow> directory fs (ps @ [x]) = Inr (d @ [x])"
  "directory fs ps = Inr d \<Longrightarrow> plain x \<Longrightarrow> at fs (d @ [x]) = None \<Longrightarrow> directory fs (ps @ [x]) = Inl ENOENT"
  by (simp_all add: directory_def walk_snoc)

lemma directory_mono:
  "directory fs ps = Inr d \<Longrightarrow> (\<And>p f. at fs p = Some f \<Longrightarrow> at fs' p = Some f) \<Longrightarrow> directory fs' ps = Inr d"
  unfolding directory_def by (rule walk_mono)

lemma place_snoc [simp]: "directory fs ps = Inr d \<Longrightarrow> place fs (ps @ [x]) = Inr (d @ [x])"
  by (simp add: place_def)

lemma directory_butlast: "directory fs (ps @ [x]) = Inr d \<Longrightarrow> \<exists>d'. directory fs ps = Inr d'"
  unfolding directory_def by (rule walk_prefix)

lemma place_taken:
  assumes "directory fs ps = Inr d" and "list_all plain ps" and "place fs ps = Inr q"
  shows "at fs q \<noteq> None"
proof (cases ps rule: rev_cases)
  case Nil
  with assms(3) show ?thesis by (simp add: place_def)
next
  case (snoc qs x)
  with assms(1) obtain d' where d': "directory fs qs = Inr d'" using directory_butlast by blast
  have "plain x" using snoc assms(2) by simp
  with directory_snoc(2) [OF d'] assms(1) snoc have "at fs (d' @ [x]) \<noteq> None" by fastforce
  with assms(3) snoc d' show ?thesis by simp
qed

text \<open>The root of the store is found without passing through what palan unpacks below it.\<close>

definition found_apart :: "string \<Rightarrow> name \<Rightarrow> fs \<Rightarrow> bool" where
  "found_apart root R fs \<longleftrightarrow>
     directory (take_out (\<lambda>_. True) fs (R @ [''runtimes''])) (rooted_parts root) = Inr R"

lemma found_apart_directory: "found_apart root R fs \<Longrightarrow> directory fs (rooted_parts root) = Inr R"
  unfolding found_apart_def by (erule directory_mono) (auto simp: tree split: if_splits)

lemma found_apart_cong:
  assumes "found_apart root R fs" and "\<And>q. \<not> prefix (R @ [''runtimes'']) q \<Longrightarrow> at fs' q = at fs q"
  shows "found_apart root R fs'"
  using assms(1) unfolding found_apart_def
  by (rule directory_mono) (use assms(2) in \<open>auto simp: tree split: if_splits\<close>)

lemma plain_runtimes [simp]: "plain ''runtimes''"
  by (simp add: plain_def)

section \<open>The checks before anything is written\<close>

lemma each_ok: "each f xs = Inr u \<longleftrightarrow> (\<forall>x \<in> set xs. f x = Inr ())"
proof (induction xs)
  case Nil
  then show ?case by simp
next
  case (Cons x xs)
  then show ?case by (cases "f x") simp_all
qed

lemma safe_field_plain: "safe_field (k, v) = Inr () \<longleftrightarrow> plain v"
  using Base_plain [of v] by (cases "plain v") (auto simp: safe_field_def plain_def)

lemma safePathFields_ok:
  "safePathFields c = Inr () \<longleftrightarrow>
     plain (c_Name c) \<and> plain (c_Build c) \<and> plain (c_Flavor c) \<and> plain (c_Entrypoint c) \<and> \<not> prefix ''.'' (c_Name c)"
  by (auto simp: safePathFields_def each_ok safe_field_plain)

lemma check_layers_ok:
  "check_layers L seen ls = Inr () \<Longrightarrow>
     distinct (map title ls) \<and> set (map title ls) \<inter> set seen = {} \<and>
     (\<forall>l \<in> set ls. (plain (title l) \<or> title l = ''/'') \<and> Validate_ok L (Digest l))"
proof (induction ls arbitrary: seen)
  case Nil
  then show ?case by simp
next
  case (Cons l ls)
  from Cons.prems have l: "title l \<noteq> []" "title l \<noteq> ''.''" "title l \<noteq> ''..''" "title l = Base (title l)"
    "title l \<notin> set seen" "Validate_ok L (Digest l)" "check_layers L (title l # seen) ls = Inr ()"
    by (auto simp: Let_def split: if_splits)
  then have "plain (title l) \<or> title l = ''/''" using Base_no_slash [of "title l"] by (auto simp: plain_def)
  with Cons.IH [OF l(7)] l show ?case by auto
qed

lemma admitted_ok:
  assumes "admitted L F goos goarch ref d = Inr (man, cfg)"
  shows "FetchManifest F d = Inr man" and "m_artifactType man = ArtifactTypeRuntime"
    and "FetchJSON unmarshal_rt_config F (node_of (Config man)) = Inr cfg"
    and "c_OS cfg = goos \<and> c_Arch cfg = goarch"
    and "plain (c_Name cfg) \<and> plain (dirName cfg) \<and> plain (c_Entrypoint cfg) \<and> \<not> prefix ''.'' (c_Name cfg)"
    and "c_Entrypoint cfg \<in> title ` set (Layers man)" and "distinct (map title (Layers man))"
    and "\<And>l. l \<in> set (Layers man) \<Longrightarrow> (plain (title l) \<or> title l = ''/'') \<and> Validate_ok L (Digest l)"
proof -
  from assms have a: "FetchManifest F d = Inr man" "m_artifactType man = ArtifactTypeRuntime"
      "FetchJSON unmarshal_rt_config F (node_of (Config man)) = Inr cfg" "c_OS cfg = goos \<and> c_Arch cfg = goarch"
      "safePathFields cfg = Inr ()" "namesLayer man (c_Entrypoint cfg)" "validateLayers L man = Inr ()"
    by (auto simp: admitted_def split: if_splits)
  then show "FetchManifest F d = Inr man" "m_artifactType man = ArtifactTypeRuntime"
      "FetchJSON unmarshal_rt_config F (node_of (Config man)) = Inr cfg" "c_OS cfg = goos \<and> c_Arch cfg = goarch"
    by simp_all
  have "plain (c_Build cfg)" "plain (c_Flavor cfg)" using a(5) by (simp_all add: safePathFields_ok)
  then have "plain (dirName cfg)" by (auto simp: plain_def dirName_def append_eq_Cons_conv)
  with a(5) show "plain (c_Name cfg) \<and> plain (dirName cfg) \<and> plain (c_Entrypoint cfg) \<and> \<not> prefix ''.'' (c_Name cfg)"
    by (simp add: safePathFields_ok)
  show "c_Entrypoint cfg \<in> title ` set (Layers man)" using a(6) by (force simp: namesLayer_def)
  from check_layers_ok a(7) show "distinct (map title (Layers man))"
      "\<And>l. l \<in> set (Layers man) \<Longrightarrow> (plain (title l) \<or> title l = ''/'') \<and> Validate_ok L (Digest l)"
    by (fastforce simp: validateLayers_def)+
qed

lemma plainDirs_step:
  "plainDirs os fs cur (p # ps) = Inr () \<longleftrightarrow>
     lstat os fs (parts (Join [cur, p])) = Inl ENOENT \<or>
     lstat os fs (parts (Join [cur, p])) = Inr Folder \<and> plainDirs os fs (Join [cur, p]) ps = Inr ()"
  by (auto simp: Let_def split: sum.splits errno.splits inode.splits)

lemma lstat_snoc:
  "directory fs ps = Inr d \<Longrightarrow>
     lstat os fs (ps @ [x]) = (if fault os CLstat (ps @ [x]) fs then Inl EIO else from_option ENOENT (at fs (d @ [x])))"
  by (simp add: lstat_def)

lemma Join_plain: "list_all plain ps \<Longrightarrow> plain x \<Longrightarrow> Join [abs_of ps, x] = abs_of (ps @ [x])"
  using Join_abs [of "abs_of ps" "[x]"] by simp

lemma plainDirs_ok:
  assumes "plainDirs os fs root [''runtimes'', n] = Inr ()" and "IsAbs root" and "plain n"
    and R: "directory fs (rooted_parts root) = Inr R"
  shows "at fs (R @ [''runtimes'']) = None \<or> at fs (R @ [''runtimes'']) = Some Folder \<and>
    (at fs (R @ [''runtimes'', n]) = None \<or> at fs (R @ [''runtimes'', n]) = Some Folder)"
proof (cases "at fs (R @ [''runtimes''])")
  case None
  then show ?thesis by simp
next
  case (Some f)
  have q: "Join [root, ''runtimes''] = abs_of (rooted_parts root @ [''runtimes''])"
    using Join_abs [OF assms(2), of "[''runtimes'']"] by simp
  have q2: "Join [abs_of (rooted_parts root @ [''runtimes'']), n] = abs_of ((rooted_parts root @ [''runtimes'']) @ [n])"
    by (rule Join_plain) (use assms(3) in simp_all)
  have folder: "f = Folder" and rest: "plainDirs os fs (abs_of (rooted_parts root @ [''runtimes''])) [n] = Inr ()"
    using assms(1) lstat_snoc [OF R, of os "''runtimes''"] Some
    by (simp_all add: plainDirs_step q split: if_splits del: plainDirs.simps(2))
  then have d: "directory fs (rooted_parts root @ [''runtimes'']) = Inr (R @ [''runtimes''])"
    using R Some by (simp add: directory_snoc)
  have "at fs (R @ [''runtimes'', n]) = None \<or> at fs (R @ [''runtimes'', n]) = Some Folder"
    using rest lstat_snoc [OF d, of os n] assms(3)
    by (simp add: plainDirs_step q2 split: if_splits del: plainDirs.simps(2))
  with Some folder show ?thesis by simp
qed

section \<open>Unpacking beside the tree\<close>

text \<open>A file holds what its descriptor records: as many bytes, and bytes of that digest.\<close>

definition faithful :: "digest_lib \<Rightarrow> descriptor \<Rightarrow> string \<Rightarrow> bool" where
  "faithful L d c \<longleftrightarrow> int (length c) = Size d \<and> Verified L (Digest d) c \<and> Size d < 2 ^ 63 - 1"

lemma limited_whole: "int (length (limited d c)) = Size d \<Longrightarrow> limited d c = c \<and> Size d < 2 ^ 63 - 1"
proof -
  assume len: "int (length (limited d c)) = Size d"
  have "int64 (Size d + 1) < 2 ^ 63" using sint_lt [where 'a = 64] by (simp add: int64_def)
  with len have small: "0 \<le> Size d" "Size d < 2 ^ 63" by (auto simp: limited_def)
  moreover have "Size d \<noteq> 2 ^ 63 - 1" using len int64_top by (auto simp: limited_def)
  ultimately have "int64 (Size d + 1) = Size d + 1" by (intro int64_small) auto
  with len small \<open>Size d \<noteq> 2 ^ 63 - 1\<close> show ?thesis by (auto simp: limited_def)
qed

lemma faithful_limited: "faithful L d c \<Longrightarrow> limited d c = c \<and> \<not> cut_short d (c, False)"
  by (auto simp: faithful_def limited_def cut_short_def int64_small)

lemma copyBlob_cases:
  assumes "copyBlob L F os fs l (Join [abs_of ps, t]) x = (fs', r)" and "list_all plain ps"
    and T: "directory fs ps = Inr T" and "plain t \<or> t = ''/''"
  shows "(fs' = fs \<and> r \<noteq> Inr ()) \<or>
    (plain t \<and> at fs (T @ [t]) = None \<and>
     (\<exists>c. fs' = put (put fs (T @ [t]) (Regular x [])) (T @ [t]) (Regular x c) \<and> (r = Inr () \<longrightarrow> faithful L l c)))"
proof (cases "plain t")
  case True
  then have j: "parts (Join [abs_of ps, t]) = ps @ [t]" using Join_plain assms(2) by simp
  show ?thesis
  proof (cases "at fs (T @ [t]) = None")
    case free: True
    then show ?thesis
      using assms(1) T True limited_whole [of l]
      by (auto simp: copyBlob_def j create_excl_def Let_def faithful_def split: option.splits if_splits)
  next
    case False
    then show ?thesis
      using assms(1) T by (auto simp: copyBlob_def j create_excl_def split: option.splits if_splits)
  qed
next
  case False
  then have "t = ''/''" using assms(4) by blast
  then have j: "parts (Join [abs_of ps, t]) = ps" using Join_slash [of "abs_of ps"] assms(2) by simp
  have "fs' = fs \<and> r \<noteq> Inr ()"
  proof (cases "place fs ps")
    case (Inl e)
    with assms(1) show ?thesis by (auto simp: copyBlob_def j create_excl_def split: option.splits if_splits)
  next
    case (Inr q)
    with place_taken [OF T assms(2)] have "at fs q \<noteq> None" by blast
    with Inr assms(1) show ?thesis by (auto simp: copyBlob_def j create_excl_def split: option.splits if_splits)
  qed
  then show ?thesis by simp
qed

text \<open>The files copied are new, below the staging directory, and each what its layer records.\<close>

lemma copy_layers_cases:
  assumes "copy_layers L F os en (abs_of ps) ls fs = (fs', r)" and "list_all plain ps"
    and "directory fs ps = Inr T" and "\<And>l. l \<in> set ls \<Longrightarrow> plain (title l) \<or> title l = ''/''"
  shows "(\<forall>q. \<not> strict_prefix T q \<longrightarrow> at fs' q = at fs q) \<and> (\<forall>q f. at fs q = Some f \<longrightarrow> at fs' q = Some f) \<and>
    (r = Inr () \<longrightarrow> (\<forall>l \<in> set ls. plain (title l) \<and>
      (\<exists>x c. at fs' (T @ [title l]) = Some (Regular x c) \<and> faithful L l c))) \<and>
    (\<forall>q. at fs' q \<noteq> None \<longrightarrow> at fs q \<noteq> None \<or> q \<in> (\<lambda>l. T @ [title l]) ` set ls)"
  using assms
proof (induction ls arbitrary: fs)
  case Nil
  then show ?case by simp
next
  case (Cons l ls)
  obtain fs1 r1 where c: "copyBlob L F os fs l (Join [abs_of ps, title l]) (title l = en) = (fs1, r1)" by fastforce
  have t: "plain (title l) \<or> title l = ''/''" using Cons.prems(4) by simp
  from copyBlob_cases [OF c Cons.prems(2,3) t] consider
      "fs1 = fs" "r1 \<noteq> Inr ()"
    | bs where "plain (title l) \<and> at fs (T @ [title l]) = None" "r1 = Inr () \<longrightarrow> faithful L l bs"
        "fs1 = put (put fs (T @ [title l]) (Regular (title l = en) [])) (T @ [title l]) (Regular (title l = en) bs)"
    by blast
  then show ?case
  proof cases
    case 1
    then have "fs' = fs" "r \<noteq> Inr ()" using Cons.prems(1) c by (auto split: sum.splits)
    then show ?thesis by simp
  next
    case (2 bs)
    then have new: "at fs1 q = (if q = T @ [title l] then Some (Regular (title l = en) bs) else at fs q)" for q
      by (simp add: tree)
    have grows: "at fs q = Some f \<Longrightarrow> at fs1 q = Some f" for q f using new 2(1) by auto
    have "strict_prefix T (T @ [title l])" by (simp add: strict_prefix_def)
    then have out: "\<not> strict_prefix T q \<Longrightarrow> at fs1 q = at fs q" for q using new by auto
    show ?thesis
    proof (cases r1)
      case (Inl e)
      then have "fs' = fs1" "r = Inl e" using Cons.prems(1) c by simp_all
      with new grows out show ?thesis by auto
    next
      case (Inr u)
      then have rest: "copy_layers L F os en (abs_of ps) ls fs1 = (fs', r)" using Cons.prems(1) c by simp
      have T1: "directory fs1 ps = Inr T" using Cons.prems(3) grows by (rule directory_mono)
      have ls: "\<And>l. l \<in> set ls \<Longrightarrow> plain (title l) \<or> title l = ''/''" using Cons.prems(4) by simp
      note IH = Cons.IH [OF rest Cons.prems(2) T1 ls]
      have first: "at fs1 (T @ [title l]) = Some (Regular (title l = en) bs)" and ok: "faithful L l bs"
        using new 2(2) Inr by simp_all
      from IH first have "at fs' (T @ [title l]) = Some (Regular (title l = en) bs)" by blast
      with IH ok 2(1) have "r = Inr () \<longrightarrow> (\<forall>l \<in> set (l # ls). plain (title l) \<and>
          (\<exists>x c. at fs' (T @ [title l]) = Some (Regular x c) \<and> faithful L l c))"
        by auto
      moreover have "\<forall>q. at fs' q \<noteq> None \<longrightarrow> at fs q \<noteq> None \<or> q \<in> (\<lambda>l. T @ [title l]) ` set (l # ls)"
      proof (intro allI impI)
        fix q assume "at fs' q \<noteq> None"
        with IH have "at fs1 q \<noteq> None \<or> q \<in> (\<lambda>l. T @ [title l]) ` set ls" by blast
        then show "at fs q \<noteq> None \<or> q \<in> (\<lambda>l. T @ [title l]) ` set (l # ls)"
          using new [of q] by (auto split: if_splits)
      qed
      moreover have "\<forall>q. \<not> strict_prefix T q \<longrightarrow> at fs' q = at fs q" using IH out by simp
      moreover have "\<forall>q f. at fs q = Some f \<longrightarrow> at fs' q = Some f" using IH grows by blast
      ultimately show ?thesis by blast
    qed
  qed
qed

section \<open>The directory of a runtime\<close>

definition home_of :: "name \<Rightarrow> string \<Rightarrow> name" where
  "home_of R n = R @ [''runtimes'', n]"

text \<open>The directories above an unpacked tree are directories, and the name that leads there does.\<close>

definition based :: "string \<Rightarrow> name \<Rightarrow> string \<Rightarrow> fs \<Rightarrow> bool" where
  "based root R n fs \<longleftrightarrow> found_apart root R fs \<and> at fs (R @ [''runtimes'']) = Some Folder \<and> at fs (home_of R n) = Some Folder"

lemma based_directory:
  assumes "based root R n fs" and "plain n"
  shows "directory fs (rooted_parts root @ [''runtimes'', n]) = Inr (home_of R n)"
proof -
  have "directory fs (rooted_parts root @ [''runtimes'']) = Inr (R @ [''runtimes''])"
    using assms(1) found_apart_directory by (auto simp: based_def intro: directory_snoc(1))
  from directory_snoc(1) [OF this assms(2)] show ?thesis using assms(1) by (simp add: based_def home_of_def)
qed

lemma based_place:
  "based root R n fs \<Longrightarrow> plain n \<Longrightarrow> place fs (rooted_parts root @ [''runtimes'', n, x]) = Inr (home_of R n @ [x])"
  using place_snoc [OF based_directory] by fastforce

lemma based_cong:
  assumes "based root R n fs" and "\<And>q. \<not> strict_prefix (home_of R n) q \<Longrightarrow> at fs' q = at fs q"
  shows "based root R n fs'"
proof -
  have "strict_prefix (home_of R n) q \<Longrightarrow> prefix (R @ [''runtimes'']) q" for q
    by (auto simp: home_of_def prefix_def strict_prefix_def)
  then have "found_apart root R fs'"
    using assms found_apart_cong [of root R fs fs'] unfolding based_def by metis
  moreover have "\<not> strict_prefix (home_of R n) (R @ [''runtimes''])" "\<not> strict_prefix (home_of R n) (home_of R n)"
    by (auto simp: home_of_def prefix_def strict_prefix_def)
  ultimately show ?thesis using assms by (simp add: based_def)
qed

lemma RemoveAll_below:
  assumes "place fs p = Inr q"
  shows "RemoveAll os fs p = (fs', r) \<Longrightarrow> \<not> prefix q k \<Longrightarrow> at fs' k = at fs k"
    and "RemoveAll os fs p = (fs', Inr ()) \<Longrightarrow> q \<noteq> [] \<Longrightarrow> prefix q k \<Longrightarrow> at fs' k = None"
  using assms by (auto simp: RemoveAll_def tree split: if_splits)

text \<open>What is at \<open>D\<close> is the files of the manifest, whole, and nothing else.\<close>

definition stands :: "digest_lib \<Rightarrow> fs \<Rightarrow> name \<Rightarrow> manifest \<Rightarrow> bool" where
  "stands L fs D man \<longleftrightarrow> at fs D = Some Folder \<and>
     (\<forall>c. at fs (D @ [c]) \<noteq> None \<longleftrightarrow> c \<in> title ` set (Layers man)) \<and>
     (\<forall>l \<in> set (Layers man). plain (title l) \<and> (\<exists>x c. at fs (D @ [title l]) = Some (Regular x c) \<and> faithful L l c))"

lemma replace_tree_cases:
  assumes step: "replace_tree L F os man en (abs_of (rooted_parts root @ [''runtimes'', n, tn]))
      (abs_of (rooted_parts root @ [''runtimes'', n, dn])) fs = (fs', r)"
    and base: "based root R n fs" and plain: "plain n" "plain tn" "plain dn" and differ: "tn \<noteq> dn"
    and T: "at fs (home_of R n @ [tn]) = Some Folder"
    and empty: "\<And>q. strict_prefix (home_of R n @ [tn]) q \<Longrightarrow> at fs q = None"
    and titles: "\<And>l. l \<in> set (Layers man) \<Longrightarrow> plain (title l) \<or> title l = ''/''"
  shows "\<forall>q. \<not> prefix (home_of R n @ [tn]) q \<and> \<not> prefix (home_of R n @ [dn]) q \<longrightarrow> at fs' q = at fs q"
    and "r = Inr () \<Longrightarrow> stands L fs' (home_of R n @ [dn]) man"
proof -
  let ?N = "home_of R n" and ?np = "rooted_parts root @ [''runtimes'', n]"
  let ?T = "home_of R n @ [tn]" and ?D = "home_of R n @ [dn]"
  obtain fs1 r1 where c: "copy_layers L F os en (abs_of (?np @ [tn])) (Layers man) fs = (fs1, r1)" by fastforce
  have pl: "list_all plain (?np @ [tn])" using plain by simp
  have dir: "directory fs (?np @ [tn]) = Inr ?T"
    using directory_snoc(1) [OF based_directory [OF base plain(1)] plain(2) T] .
  note copied = copy_layers_cases [OF c pl dir titles]
  have sub: "prefix ?T q \<or> prefix ?D q \<Longrightarrow> strict_prefix ?N q" for q
    by (auto simp: prefix_def strict_prefix_def)
  have out1: "\<not> prefix ?T q \<Longrightarrow> at fs1 q = at fs q" for q using copied by (simp add: strict_prefix_def)
  have base1: "based root R n fs1" by (rule based_cong [OF base]) (use out1 sub in blast)
  have apart: "\<not> (prefix ?T q \<and> prefix ?D q)" for q using differ by (auto simp: prefix_def)
  show outside: "\<forall>q. \<not> prefix ?T q \<and> \<not> prefix ?D q \<longrightarrow> at fs' q = at fs q"
    and "r = Inr () \<Longrightarrow> stands L fs' ?D man"
  proof (atomize (full), cases r1)
    case (Inl e)
    then show "(\<forall>q. \<not> prefix ?T q \<and> \<not> prefix ?D q \<longrightarrow> at fs' q = at fs q) \<and> (r = Inr () \<longrightarrow> stands L fs' ?D man)"
      using step c out1 by (auto simp: replace_tree_def)
  next
    case (Inr u)
    obtain fs2 r2 where rm: "RemoveAll os fs1 (?np @ [dn]) = (fs2, r2)" by fastforce
    have pD: "place fs1 (?np @ [dn]) = Inr ?D" using based_place [OF base1 plain(1)] by simp
    note gone = RemoveAll_below [OF pD]
    have out2: "\<not> prefix ?D q \<Longrightarrow> at fs2 q = at fs1 q" for q using gone(1) [OF rm] .
    have base2: "based root R n fs2" by (rule based_cong [OF base1]) (use out2 sub in blast)
    have pDn: "list_all plain (?np @ [dn])" using plain by simp
    show "(\<forall>q. \<not> prefix ?T q \<and> \<not> prefix ?D q \<longrightarrow> at fs' q = at fs q) \<and> (r = Inr () \<longrightarrow> stands L fs' ?D man)"
    proof (cases r2)
      case (Inl e)
      then have "fs' = fs2" "r \<noteq> Inr ()" using step c \<open>r1 = Inr u\<close> rm pDn by (auto simp: replace_tree_def)
      then show ?thesis using out1 out2 by auto
    next
      case (Inr v)
      then have free: "prefix ?D q \<Longrightarrow> at fs2 q = None" for q using gone(2) rm by simp
      obtain fs3 r3 where mv: "Rename os fs2 (?np @ [tn]) (?np @ [dn]) = (fs3, r3)" by fastforce
      have res: "fs' = fs3" "r = map_error FileError r3"
        using step c \<open>r1 = Inr u\<close> rm pDn pl Inr mv
        by (auto simp: replace_tree_def map_error_def split: prod.splits sum.splits)
      have "place fs2 (?np @ [tn]) = Inr ?T" "place fs2 (?np @ [dn]) = Inr ?D"
        using based_place [OF base2 plain(1)] by simp_all
      moreover have "at fs1 ?T = Some Folder" using copied T by blast
      then have "at fs2 ?T = Some Folder" using out2 [of ?T] apart [of ?T] by simp
      moreover have "at fs2 ?D = None" using free by simp
      ultimately have cases: "fs3 = fs2 \<and> r3 \<noteq> Inr () \<or> fs3 = move (take_out (\<lambda>_. True) fs2 ?D) ?T ?D \<and> r3 = Inr ()"
        using mv by (auto simp: Rename_def split: if_splits)
      then show ?thesis
      proof
        assume "fs3 = fs2 \<and> r3 \<noteq> Inr ()"
        with res out1 out2 show ?thesis by auto
      next
        assume m: "fs3 = move (take_out (\<lambda>_. True) fs2 ?D) ?T ?D \<and> r3 = Inr ()"
        have same: "at (take_out (\<lambda>_. True) fs2 ?D) q = at fs2 q" for q using free by (auto simp: tree)
        have new: "at fs3 q = (if prefix ?D q then at fs2 (?T @ drop (length ?D) q) else if prefix ?T q then None else at fs2 q)" for q
          using m at_move [of ?D "take_out (\<lambda>_. True) fs2 ?D" ?T q] free same by auto
        have moved: "at fs3 (?D @ s) = at fs1 (?T @ s)" for s
          using new [of "?D @ s"] out2 [of "?T @ s"] apart [of "?T @ s"] by simp
        have "at fs3 ?D = Some Folder" using moved [of "[]"] copied T by (simp add: strict_prefix_def)
        moreover have "plain (title l) \<and> (\<exists>x c. at fs3 (?D @ [title l]) = Some (Regular x c) \<and> faithful L l c)" if "l \<in> set (Layers man)" for l
          using moved copied \<open>r1 = Inr u\<close> that by simp
        moreover have "at fs3 (?D @ [e]) \<noteq> None \<Longrightarrow> e \<in> title ` set (Layers man)" for e
        proof -
          assume "at fs3 (?D @ [e]) \<noteq> None"
          then have "at fs1 (?T @ [e]) \<noteq> None" using moved [of "[e]"] by simp
          moreover have "at fs (?T @ [e]) = None" by (rule empty) (simp add: strict_prefix_def)
          ultimately have "?T @ [e] \<in> (\<lambda>l. ?T @ [title l]) ` set (Layers man)" using copied by blast
          then show "e \<in> title ` set (Layers man)" by auto
        qed
        ultimately have "stands L fs3 ?D man" unfolding stands_def by fastforce
        moreover have "\<forall>q. \<not> prefix ?T q \<and> \<not> prefix ?D q \<longrightarrow> at fs3 q = at fs q"
          using new out1 out2 by simp
        ultimately show ?thesis using res by simp
      qed
    qed
  qed
qed

text \<open>A suffix \<^verbatim>\<open>os.MkdirTemp\<close> tries is a number.\<close>

definition numbered :: "os \<Rightarrow> bool" where
  "numbered os \<longleftrightarrow> list_all (list_all is_digit) (suffixes os)"

lemma digits_plain: "list_all is_digit s \<Longrightarrow> plain (''.unpack-'' @ s)"
proof -
  assume "list_all is_digit s"
  then have "CHR ''/'' \<notin> set s" by (auto simp: list.pred_set is_digit_def)
  then show ?thesis by (simp add: plain_def)
qed

text \<open>The name of an unpacked tree has two dashes at least, a staging directory's has one.\<close>

lemma staging_differs: "list_all is_digit s \<Longrightarrow> ''.unpack-'' @ s \<noteq> dirName c @ ''-'' @ e"
proof
  assume s: "list_all is_digit s" "''.unpack-'' @ s = dirName c @ ''-'' @ e"
  then have "count_list s CHR ''-'' = 0" by (auto simp: count_list_0_iff list.pred_set is_digit_def)
  moreover have "count_list (dirName c @ ''-'' @ e) CHR ''-'' \<ge> 2" by (simp add: dirName_def)
  moreover have "count_list (''.unpack-'' @ s) CHR ''-'' = count_list (dirName c @ ''-'' @ e) CHR ''-''"
    by (simp only: s(2))
  ultimately show False by simp
qed

lemma find_found: "find P xs = Some x \<Longrightarrow> x \<in> set xs \<and> P x"
  by (induction xs) (auto split: if_splits)

lemma unpack_cases:
  assumes step: "unpack L F os man en (abs_of (rooted_parts root @ [''runtimes'', n, dn])) fs = (fs', r)"
    and base: "based root R n fs" and wf: "wf_fs fs" and os: "numbered os"
    and plain: "plain n" "plain dn" and dn: "dn = dirName cfg @ ''-'' @ e"
    and titles: "\<And>l. l \<in> set (Layers man) \<Longrightarrow> plain (title l) \<or> title l = ''/''"
  shows "\<forall>q f. at fs q = Some f \<longrightarrow> \<not> prefix (home_of R n @ [dn]) q \<longrightarrow> at fs' q = Some f"
    and "\<forall>q. \<not> strict_prefix (home_of R n) q \<longrightarrow> at fs' q = at fs q"
    and "r = Inr () \<Longrightarrow> stands L fs' (home_of R n @ [dn]) man"
proof -
  let ?N = "home_of R n" and ?np = "rooted_parts root @ [''runtimes'', n]" and ?D = "home_of R n @ [dn]"
  have dir: "Dir (abs_of (?np @ [dn])) = abs_of ?np" by (rule Dir_abs_of) (use plain in simp_all)
  have npd: "directory fs ?np = Inr ?N" using based_directory [OF base plain(1)] .
  have pnp: "list_all plain ?np" using plain by simp
  obtain fs1 r1 where mk: "MkdirTemp os fs ?np ''.unpack-'' = (fs1, r1)" by fastforce
  have "(\<forall>q f. at fs q = Some f \<longrightarrow> \<not> prefix ?D q \<longrightarrow> at fs' q = Some f) \<and>
      (\<forall>q. \<not> strict_prefix ?N q \<longrightarrow> at fs' q = at fs q) \<and> (r = Inr () \<longrightarrow> stands L fs' ?D man)"
  proof (cases r1)
    case (Inl x)
    then have "fs1 = fs" using mk npd by (auto simp: MkdirTemp_def split: if_splits option.splits)
    moreover have "fs' = fs1" "r \<noteq> Inr ()" using step mk Inl dir pnp by (auto simp: unpack_def)
    ultimately show ?thesis by simp
  next
    case (Inr t)
    then obtain s where s: "s \<in> set (suffixes os)" "at fs (?N @ [''.unpack-'' @ s]) = None"
        "fs1 = put fs (?N @ [''.unpack-'' @ s]) Folder" "t = ?np @ [''.unpack-'' @ s]"
      using mk npd by (auto simp: MkdirTemp_def dest!: find_found split: if_splits option.splits)
    let ?tn = "''.unpack-'' @ s" let ?T = "?N @ [?tn]"
    have dig: "list_all is_digit s" using os s(1) by (simp add: numbered_def list.pred_set)
    have ptn: "plain ?tn" using digits_plain [OF dig] .
    have differ: "?tn \<noteq> dn" using staging_differs [OF dig] dn by simp
    have new: "at fs1 q = (if q = ?T then Some Folder else at fs q)" for q using s(3) by (simp add: tree)
    have none: "strict_prefix ?T q \<Longrightarrow> at fs q = None" for q using wf_below [OF wf, of ?T q] s(2) by simp
    have sub: "prefix ?T q \<or> prefix ?D q \<Longrightarrow> strict_prefix ?N q" for q by (auto simp: prefix_def strict_prefix_def)
    have base1: "based root R n fs1" by (rule based_cong [OF base]) (use new sub in \<open>metis prefix_order.order_refl\<close>)
    obtain fs2 where rt: "replace_tree L F os man en (abs_of (?np @ [?tn])) (abs_of (?np @ [dn])) fs1 = (fs2, r)"
      and last: "fs' = fst (RemoveAll os fs2 (?np @ [?tn]))"
      using step mk Inr s(4) dir pnp by (auto simp: unpack_def Let_def split: prod.splits)
    have rt': "replace_tree L F os man en (abs_of (rooted_parts root @ [''runtimes'', n, ?tn]))
        (abs_of (rooted_parts root @ [''runtimes'', n, dn])) fs1 = (fs2, r)" using rt by simp
    have empty: "strict_prefix ?T q \<Longrightarrow> at fs1 q = None" for q using new none by (auto simp: strict_prefix_def)
    note rc = replace_tree_cases [OF rt' base1 plain(1) ptn plain(2) differ _ empty titles]
    have Tf: "at fs1 ?T = Some Folder" using new by simp
    have out2: "\<not> prefix ?T q \<Longrightarrow> \<not> prefix ?D q \<Longrightarrow> at fs2 q = at fs1 q" for q using rc(1) [OF Tf] by simp
    have base2: "based root R n fs2" by (rule based_cong [OF base1]) (use out2 sub in blast)
    have pT: "place fs2 (?np @ [?tn]) = Inr ?T" using based_place [OF base2 plain(1)] by simp
    have out3: "\<not> prefix ?T q \<Longrightarrow> at fs' q = at fs2 q" for q
      using RemoveAll_below(1) [OF pT, of os fs' _ q] last by (metis prod.collapse)
    have apart: "prefix ?D q \<Longrightarrow> \<not> prefix ?T q" for q using differ by (auto simp: prefix_def)
    have "at fs q = Some f \<Longrightarrow> \<not> prefix ?D q \<Longrightarrow> at fs' q = Some f" for q f
    proof -
      assume q: "at fs q = Some f" "\<not> prefix ?D q"
      then have "\<not> prefix ?T q" using none s(2) by (metis option.distinct(1) strict_prefix_def)
      with q out3 out2 new show ?thesis by (metis prefix_order.order_refl)
    qed
    moreover have "\<not> strict_prefix ?N q \<Longrightarrow> at fs' q = at fs q" for q
      using sub [of q] out3 [of q] out2 [of q] new [of q] by (metis prefix_order.order_refl)
    moreover have "r = Inr () \<Longrightarrow> stands L fs' ?D man"
    proof -
      assume "r = Inr ()"
      with rc(2) Tf have st: "stands L fs2 ?D man" by blast
      have "at fs' (?D @ k) = at fs2 (?D @ k)" for k using out3 [of "?D @ k"] apart [of "?D @ k"] by simp
      from this [of "[]"] this st show ?thesis by (simp add: stands_def)
    qed
    ultimately show ?thesis by blast
  qed
  then show "\<forall>q f. at fs q = Some f \<longrightarrow> \<not> prefix ?D q \<longrightarrow> at fs' q = Some f"
    and "\<forall>q. \<not> strict_prefix ?N q \<longrightarrow> at fs' q = at fs q" and "r = Inr () \<Longrightarrow> stands L fs' ?D man"
    by blast+
qed

section \<open>The tree that is already there\<close>

lemma wanted_layer: "wanted man t = Some l \<Longrightarrow> l \<in> set (Layers man) \<and> title l = t"
  by (auto simp: wanted_def dest!: map_of_SomeD)

lemma wanted_distinct:
  assumes "distinct (map title (Layers man))" and "l \<in> set (Layers man)"
  shows "wanted man (title l) = Some l"
proof -
  have "wanted man (title l) \<noteq> None" using assms(2) by (simp add: wanted_def map_of_eq_None_iff image_image)
  then obtain k where "wanted man (title l) = Some k" by blast
  moreover from wanted_layer [OF this] assms have "k = l" by (auto simp: distinct_map inj_on_def)
  ultimately show ?thesis by simp
qed

lemma fileMatches_ok:
  assumes "fileMatches L os fs p l = Inr ()" and "place fs (parts p) = Inr q"
  shows "\<exists>x c. at fs q = Some (Regular x c) \<and> faithful L l c"
proof -
  from assms obtain f where f: "at fs q = Some f" "is_Regular f"
    by (auto simp: fileMatches_def lstat_def split: if_splits)
  then obtain x c where fc: "f = Regular x c" by (cases f) auto
  with assms f have "int (length (limited l c)) = Size l \<and> Verified L (Digest l) (limited l c)"
    by (auto simp: fileMatches_def lstat_def read_no_follow_def Let_def split: if_splits)
  with limited_whole [of l c] have "faithful L l c" by (auto simp: faithful_def)
  with f fc show ?thesis by blast
qed

lemma Join_entry:
  "list_all plain ps \<Longrightarrow> plain e \<or> e = ''/'' \<Longrightarrow> parts (Join [abs_of ps, e]) = (if plain e then ps @ [e] else ps)"
  using Join_plain [of ps e] Join_slash [of "abs_of ps"] by auto

lemma materialized_stands:
  assumes m: "materializedMatches L os fs man (abs_of ps) = Inr ()" and ps: "list_all plain ps"
    and pD: "place fs ps = Inr D" and dir: "at fs D = Some Folder \<Longrightarrow> directory fs ps = Inr D"
    and wf: "wf_fs fs" and distinct: "distinct (map title (Layers man))"
  shows "stands L fs D man"
proof -
  have DF: "at fs D = Some Folder" using m pD ps by (auto simp: materializedMatches_def lstat_def split: if_splits)
  then have d: "directory fs ps = Inr D" using dir by blast
  let ?cs = "sort (children fs D)" and ?ts = "remdups (map title (Layers man))"
  have len: "length ?cs = length ?ts" and ok: "\<And>e. e \<in> set ?cs \<Longrightarrow>
      (case wanted man e of None \<Rightarrow> Inl (Unexpected (abs_of ps) e) | Some l \<Rightarrow> fileMatches L os fs (Join [abs_of ps, e]) l) = Inr ()"
    using m pD ps d DF
    by (auto simp: materializedMatches_def lstat_def read_dir_def Let_def each_ok split: if_splits)
  have each: "plain e \<and> (\<exists>l. wanted man e = Some l \<and> (\<exists>x c. at fs (D @ [e]) = Some (Regular x c) \<and> faithful L l c))"
    if e: "e \<in> set ?cs" for e
  proof -
    obtain l where l: "wanted man e = Some l" "fileMatches L os fs (Join [abs_of ps, e]) l = Inr ()"
      using ok [OF e] by (auto split: option.splits)
    from e obtain f where "at fs (D @ [e]) = Some f" by auto
    with wf have "list_all plain (D @ [e])" unfolding wf_fs_def by blast
    then have e': "plain e" by simp
    then have "parts (Join [abs_of ps, e]) = ps @ [e]" using Join_plain ps by simp
    with fileMatches_ok [OF l(2)] d have "\<exists>x c. at fs (D @ [e]) = Some (Regular x c) \<and> faithful L l c" by simp
    with l(1) e' show ?thesis by blast
  qed
  have "set ?cs \<subseteq> set ?ts" using each wanted_layer by fastforce
  moreover have "card (set ?cs) = card (set ?ts)" using len by (metis distinct_card distinct_children distinct_remdups distinct_sort)
  ultimately have same: "set ?cs = set ?ts" by (simp add: card_subset_eq)
  have "plain (title l) \<and> (\<exists>x c. at fs (D @ [title l]) = Some (Regular x c) \<and> faithful L l c)"
    if l: "l \<in> set (Layers man)" for l
  proof -
    have "title l \<in> set ?cs" using same l by auto
    from each [OF this] wanted_distinct [OF distinct l] show ?thesis by auto
  qed
  moreover have "at fs (D @ [c]) \<noteq> None \<longleftrightarrow> c \<in> title ` set (Layers man)" for c
    using same by (metis in_children list.set_map set_remdups set_sort)
  ultimately show ?thesis using DF by (simp add: stands_def)
qed

section \<open>Making the directories, and the lock\<close>

lemma walk_folder:
  "walk n fs cur ps = Inr d \<Longrightarrow> wf_fs fs \<Longrightarrow> at fs cur = Some Folder \<Longrightarrow> at fs d = Some Folder"
proof (induction n fs cur ps rule: walk.induct)
  case (1 n fs cur)
  then show ?case by simp
next
  case (2 n fs cur p ps)
  have up: "at fs (butlast cur) = Some Folder"
    using "2.prems"(2,3) by (cases "cur = []") (auto simp: wf_fs_def)
  show ?case using 2 up by (auto split: if_splits option.splits inode.splits)
qed

lemma directory_folder: "directory fs ps = Inr d \<Longrightarrow> wf_fs fs \<Longrightarrow> at fs d = Some Folder"
  using walk_folder [of max_links fs "[]" ps d] by (simp add: directory_def)

text \<open>
  The first two levels below the store's engines may grow, and elsewhere the tree stays.
\<close>

definition grown :: "name \<Rightarrow> fs \<Rightarrow> fs \<Rightarrow> bool" where
  "grown R fs fs' \<longleftrightarrow> (\<forall>q f. at fs q = Some f \<longrightarrow> at fs' q = Some f) \<and>
     (\<forall>q. \<not> prefix (R @ [''runtimes'']) q \<or> length R + 2 < length q \<longrightarrow> at fs' q = at fs q)"

lemma grown_refl [simp]: "grown R fs fs"
  by (simp add: grown_def)

lemma grown_trans: "grown R f g \<Longrightarrow> grown R g h \<Longrightarrow> grown R f h"
  by (simp add: grown_def)

lemma grown_found: "grown R fs fs' \<Longrightarrow> found_apart root R fs \<Longrightarrow> found_apart root R fs'"
  by (rule found_apart_cong) (auto simp: grown_def)

lemma grown_put:
  assumes "wf_fs fs" and "at fs p = Some Folder" and "plain x" and "at fs (p @ [x]) = None"
    and "prefix (R @ [''runtimes'']) (p @ [x])" and "length p \<le> length R + 1"
  shows "grown R fs (put fs (p @ [x]) f) \<and> wf_fs (put fs (p @ [x]) f)"
proof -
  have "list_all plain p" using assms(1,2) by (cases "p = []") (auto simp: wf_fs_def)
  then have "wf_fs (put fs (p @ [x]) f)"
    using assms wf_below [OF assms(1), of "p @ [x]"] by (intro wf_put) auto
  with assms(4,5,6) show ?thesis by (auto simp: grown_def tree)
qed

lemma mkdir_over:
  "directory fs (over @ ps) = Inr d \<Longrightarrow> mkdir_from os fs over (ps @ qs) = mkdir_from os fs (over @ ps) qs"
proof (induction ps arbitrary: over)
  case Nil
  then show ?case by simp
next
  case (Cons p ps)
  have "\<exists>d'. directory fs (over @ [p]) = Inr d'"
    using Cons.prems walk_prefix [of max_links fs "[]" "over @ [p]" ps] by (simp add: directory_def)
  with Cons.IH [of "over @ [p]"] Cons.prems show ?case by auto
qed

lemma mkdir_one:
  assumes d: "directory fs ps = Inr d" and x: "plain x" and c: "at fs (d @ [x]) = None \<or> at fs (d @ [x]) = Some Folder"
  shows "mkdir_from os fs ps (x # xs) =
    (if at fs (d @ [x]) = Some Folder then mkdir_from os fs (ps @ [x]) xs
     else if fault os CMkdir (ps @ [x]) fs then (fs, Inl EIO)
     else mkdir_from os (put fs (d @ [x]) Folder) (ps @ [x]) xs)"
  using directory_snoc [OF d x] c place_snoc [OF d] by auto

lemma mkdir_cases:
  assumes m: "MkdirAll os fs (rooted_parts root @ [''runtimes'', n]) = (fs', r)"
    and found: "found_apart root R fs" and wf: "wf_fs fs" and n: "plain n"
    and ok: "at fs (R @ [''runtimes'']) = None \<or> at fs (R @ [''runtimes'']) = Some Folder \<and>
      (at fs (R @ [''runtimes'', n]) = None \<or> at fs (R @ [''runtimes'', n]) = Some Folder)"
  shows "grown R fs fs' \<and> wf_fs fs' \<and> (r = Inr () \<longrightarrow> based root R n fs')"
proof -
  have dR: "directory fs (rooted_parts root) = Inr R" using found found_apart_directory by blast
  have RF: "at fs R = Some Folder" using directory_folder [OF dR wf] .
  have start: "mkdir_from os fs (rooted_parts root) [''runtimes'', n] = (fs', r)"
    using m mkdir_over [of fs "[]" "rooted_parts root" R os "[''runtimes'', n]"] dR by (simp add: MkdirAll_def)
  have second: "grown R g fs' \<and> wf_fs fs' \<and> (r = Inr () \<longrightarrow> based root R n fs')"
    if g: "grown R fs g" "wf_fs g" "at g (R @ [''runtimes'']) = Some Folder"
      "at g (R @ [''runtimes'', n]) = None \<or> at g (R @ [''runtimes'', n]) = Some Folder"
      and rest: "mkdir_from os g (rooted_parts root @ [''runtimes'']) [n] = (fs', r)" for g
  proof -
    have fg: "found_apart root R g" using grown_found [OF g(1) found] .
    have dg: "directory g (rooted_parts root @ [''runtimes'']) = Inr (R @ [''runtimes''])"
      using directory_snoc(1) [OF found_apart_directory [OF fg]] g(3) by simp
    have put: "at g ((R @ [''runtimes'']) @ [n]) = None \<Longrightarrow> grown R g (put g ((R @ [''runtimes'']) @ [n]) Folder) \<and>
        wf_fs (put g ((R @ [''runtimes'']) @ [n]) Folder)"
      by (rule grown_put) (use g n in simp_all)
    have step: "(fs', r) = (if at g (R @ [''runtimes'', n]) = Some Folder then (g, Inr ())
        else if fault os CMkdir (rooted_parts root @ [''runtimes'', n]) g then (g, Inl EIO)
        else (put g (R @ [''runtimes'', n]) Folder, Inr ()))"
      using rest mkdir_one [OF dg n, of os "[]"] g(4) by simp
    show ?thesis
    proof (cases "at g (R @ [''runtimes'', n]) = Some Folder")
      case True
      with step g fg show ?thesis by (simp add: based_def home_of_def)
    next
      case False
      then have none: "at g (R @ [''runtimes'', n]) = None" using g(4) by blast
      show ?thesis
      proof (cases "fault os CMkdir (rooted_parts root @ [''runtimes'', n]) g")
        case True
        with step none g show ?thesis by simp
      next
        case False
        with step none have res: "fs' = put g (R @ [''runtimes'', n]) Folder" by simp
        with put none have gr: "grown R g fs'" "wf_fs fs'" by simp_all
        moreover have "at fs' (R @ [''runtimes'', n]) = Some Folder" by (simp add: res tree)
        moreover have "at fs' (R @ [''runtimes'']) = Some Folder" using gr(1) g(3) by (simp add: grown_def)
        ultimately show ?thesis using grown_found [OF gr(1) fg] by (simp add: based_def home_of_def)
      qed
    qed
  qed
  have rt: "at fs (R @ [''runtimes'']) = None \<or> at fs (R @ [''runtimes'']) = Some Folder" using ok by blast
  note one = mkdir_one [OF dR plain_runtimes rt, of os "[n]"]
  show ?thesis
  proof (cases "at fs (R @ [''runtimes'']) = Some Folder")
    case True
    then show ?thesis using second [of fs] one start ok wf by simp
  next
    case False
    then have none: "at fs (R @ [''runtimes'']) = None" using ok by blast
    let ?g = "put fs (R @ [''runtimes'']) Folder"
    have g: "grown R fs ?g \<and> wf_fs ?g" by (rule grown_put) (use wf RF none in simp_all)
    have "at fs (R @ [''runtimes'', n]) = None"
      by (rule wf_below [OF wf, of "R @ [''runtimes'']"]) (simp_all add: none strict_prefix_def)
    then have "at ?g (R @ [''runtimes'', n]) = None" by (simp add: tree)
    moreover have "at ?g (R @ [''runtimes'']) = Some Folder" by (simp add: tree)
    ultimately show ?thesis
      using second [of ?g] one start g none wf grown_trans [of R fs ?g fs'] by (auto split: if_splits)
  qed
qed

text \<open>Other processes leave a tree, and the root where it is.\<close>

definition neighbours :: "os \<Rightarrow> string \<Rightarrow> name \<Rightarrow> bool" where
  "neighbours os root R \<longleftrightarrow>
     (\<forall>g. wf_fs g \<and> found_apart root R g \<longrightarrow> wf_fs (meanwhile os g) \<and> found_apart root R (meanwhile os g))"

lemma lock_cases:
  assumes l: "lockUnpacking os fs (abs_of (rooted_parts root @ [''runtimes''])) = (fs', r)"
    and base: "based root R n fs" and wf: "wf_fs fs"
  shows "\<exists>g. grown R fs g \<and> wf_fs g \<and> found_apart root R g \<and> (fs' = g \<or> fs' = meanwhile os g)"
proof -
  have lock: "plain unpackLockName" by (simp add: plain_def unpackLockName_def)
  have found: "found_apart root R fs" and F: "at fs (R @ [''runtimes'']) = Some Folder" using base by (simp_all add: based_def)
  have d: "directory fs (rooted_parts root @ [''runtimes'']) = Inr (R @ [''runtimes''])"
    using directory_snoc(1) [OF found_apart_directory [OF found]] F by simp
  have p: "parts (Join [abs_of (rooted_parts root @ [''runtimes'']), unpackLockName]) =
      (rooted_parts root @ [''runtimes'']) @ [unpackLockName]"
    using Join_plain [of "rooted_parts root @ [''runtimes'']"] lock by simp
  let ?q = "(R @ [''runtimes'']) @ [unpackLockName]"
  have put: "at fs ?q = None \<Longrightarrow> grown R fs (put fs ?q (Regular False [])) \<and> wf_fs (put fs ?q (Regular False []))"
    by (rule grown_put) (use wf F lock in simp_all)
  have "fs' = fs \<or> fs' = meanwhile os fs \<or>
      (at fs ?q = None \<and> (fs' = put fs ?q (Regular False []) \<or> fs' = meanwhile os (put fs ?q (Regular False []))))"
    using l place_snoc [OF d, of unpackLockName] unfolding lockUnpacking_def p Let_def
    by (auto split: if_splits option.splits inode.splits)
  moreover have "grown R fs g \<Longrightarrow> wf_fs g \<Longrightarrow> fs' = g \<or> fs' = meanwhile os g \<Longrightarrow> ?thesis" for g
    using grown_found found by blast
  from this [of fs] this [of "put fs ?q (Regular False [])"] put wf grown_refl
  have "fs' = fs \<or> fs' = meanwhile os fs \<Longrightarrow> ?thesis" and "at fs ?q = None \<Longrightarrow>
      fs' = put fs ?q (Regular False []) \<or> fs' = meanwhile os (put fs ?q (Regular False [])) \<Longrightarrow> ?thesis"
    by blast+
  ultimately show ?thesis by blast
qed

section \<open>Ensure\<close>

text \<open>The directory of a runtime's own tree, and the name palan hands back.\<close>

definition tree_name :: "digest_lib \<Rightarrow> rt_config \<Rightarrow> node \<Rightarrow> string" where
  "tree_name L cfg d = dirName cfg @ ''-'' @ Encoded L (Digest d)"

definition tree_of :: "digest_lib \<Rightarrow> name \<Rightarrow> rt_config \<Rightarrow> node \<Rightarrow> name" where
  "tree_of L R cfg d = R @ [''runtimes'', c_Name cfg, tree_name L cfg d]"

lemma plain_append: "plain a \<Longrightarrow> plain b \<Longrightarrow> plain (a @ ''-'' @ b)"
  by (auto simp: plain_def append_eq_Cons_conv)

lemma tree_names:
  assumes "plain (c_Name cfg)" and "plain (dirName cfg)" and "plain (Encoded L (Digest d))" and "IsAbs root"
  shows "plain (tree_name L cfg d)"
    and "destination L root cfg d = abs_of (rooted_parts root @ [''runtimes'', c_Name cfg, tree_name L cfg d])"
    and "Dir (destination L root cfg d) = abs_of (rooted_parts root @ [''runtimes'', c_Name cfg])"
proof -
  show t: "plain (tree_name L cfg d)" unfolding tree_name_def by (rule plain_append) (use assms in simp_all)
  show dest: "destination L root cfg d = abs_of (rooted_parts root @ [''runtimes'', c_Name cfg, tree_name L cfg d])"
    using Join_abs [OF assms(4), of "[''runtimes'', c_Name cfg, tree_name L cfg d]"] t assms(1)
    by (simp add: destination_def tree_name_def)
  show "Dir (destination L root cfg d) = abs_of (rooted_parts root @ [''runtimes'', c_Name cfg])"
    using Dir_abs_of [of "rooted_parts root @ [''runtimes'', c_Name cfg]" "tree_name L cfg d"] t assms(1)
    by (simp add: dest)
qed

lemma unbased_stops:
  assumes "\<not> based root R n fs" and "found_apart root R fs" and "plain n"
    and "at fs (R @ [''runtimes'']) = None \<or> at fs (R @ [''runtimes'']) = Some Folder \<and>
      (at fs (R @ [''runtimes'', n]) = None \<or> at fs (R @ [''runtimes'', n]) = Some Folder)"
  shows "\<exists>e. directory fs (rooted_parts root @ [''runtimes'', n]) = Inl e"
proof (cases "at fs (R @ [''runtimes''])")
  case None
  then have "directory fs (rooted_parts root @ [''runtimes'']) = Inl ENOENT"
    using directory_snoc(2) [OF found_apart_directory [OF assms(2)]] by simp
  then show ?thesis
    using directory_butlast [of fs "rooted_parts root @ [''runtimes'']" n]
    by (cases "directory fs (rooted_parts root @ [''runtimes'', n])") auto
next
  case (Some f)
  then have F: "f = Folder" "at fs (R @ [''runtimes'', n]) = None" using assms by (auto simp: based_def home_of_def)
  with Some have "directory fs (rooted_parts root @ [''runtimes'']) = Inr (R @ [''runtimes''])"
    using directory_snoc(1) [OF found_apart_directory [OF assms(2)]] by simp
  from directory_snoc(2) [OF this assms(3)] F(2) show ?thesis by simp
qed

lemma ensure_locked_cases:
  assumes step: "ensure_locked L F os root d man cfg fs = (fs', r)"
    and adm: "admitted L F goos goarch ref d = Inr (man, cfg)"
    and root: "IsAbs root" and enc: "plain (Encoded L (Digest d))" and os: "numbered os"
    and found: "found_apart root R fs" and wf: "wf_fs fs"
  shows "(\<forall>q f. at fs q = Some f \<longrightarrow> \<not> prefix (tree_of L R cfg d) q \<longrightarrow> at fs' q = Some f) \<and>
    (\<forall>q. \<not> prefix (R @ [''runtimes'']) q \<longrightarrow> at fs' q = at fs q) \<and>
    (\<forall>e. r = Inr e \<longrightarrow> e = Join [destination L root cfg d, c_Entrypoint cfg] \<and>
      based root R (c_Name cfg) fs' \<and> stands L fs' (tree_of L R cfg d) man)"
proof -
  let ?n = "c_Name cfg" and ?dn = "tree_name L cfg d" and ?D = "tree_of L R cfg d"
  let ?np = "rooted_parts root @ [''runtimes'', c_Name cfg]"
  note ad = admitted_ok [OF adm]
  have n: "plain ?n" and dir: "plain (dirName cfg)" using ad(5) by simp_all
  note names = tree_names [OF n dir enc root]
  have D: "?D = home_of R ?n @ [?dn]" by (simp add: tree_of_def home_of_def)
  have np: "list_all plain ?np" using n by simp
  have dest: "destination L root cfg d = abs_of (?np @ [?dn])" using names(2) by simp
  show ?thesis
  proof (cases "plainDirs os fs root [''runtimes'', ?n]")
    case (Inl x)
    then have "fs' = fs" "\<exists>x. r = Inl x" using step by (auto simp: ensure_locked_def)
    then show ?thesis by auto
  next
    case (Inr u)
    then have "plainDirs os fs root [''runtimes'', ?n] = Inr ()" by simp
    note above = plainDirs_ok [OF this root n found_apart_directory [OF found]]
    show ?thesis
    proof (cases "based root R ?n fs")
      case False
      obtain e where e: "directory fs ?np = Inl e" using unbased_stops [OF False found n above] by blast
      have "materializedMatches L os fs man (abs_of (?np @ [?dn])) \<noteq> Inr ()"
        using e names(1) np by (auto simp: materializedMatches_def lstat_def place_def butlast_append)
      moreover have "unpack L F os man (c_Entrypoint cfg) (abs_of (?np @ [?dn])) fs = (fs, Inl (FileError (if fault os CMkdir ?np fs then EIO else e)))"
        using e names np Dir_abs_of [OF np names(1)] by (simp add: unpack_def MkdirTemp_def)
      ultimately have "fs' = fs" "\<exists>x. r = Inl x"
        using step Inr by (auto simp: ensure_locked_def dest Let_def split: sum.splits)
      then show ?thesis by auto
    next
      case base: True
      show ?thesis
      proof (cases "materializedMatches L os fs man (abs_of (?np @ [?dn]))")
        case ok: (Inr v)
        have pD: "place fs (?np @ [?dn]) = Inr ?D" using based_place [OF base n] D by simp
        have dD: "at fs ?D = Some Folder \<Longrightarrow> directory fs (?np @ [?dn]) = Inr ?D"
          using directory_snoc(1) [OF based_directory [OF base n] names(1)] D by simp
        have "materializedMatches L os fs man (abs_of (?np @ [?dn])) = Inr ()" using ok by simp
        from materialized_stands [OF this _ pD dD wf ad(7)] have "stands L fs ?D man" using np names(1) by simp
        moreover have "fs' = fs" "r = Inr (Join [destination L root cfg d, c_Entrypoint cfg])"
          using step Inr ok by (simp_all add: ensure_locked_def dest)
        ultimately show ?thesis using base by simp
      next
        case (Inl x)
        obtain r1 where up: "unpack L F os man (c_Entrypoint cfg) (abs_of (?np @ [?dn])) fs = (fs', r1)"
          and r: "r = (case r1 of Inl e \<Rightarrow> Inl e | Inr _ \<Rightarrow> Inr (Join [destination L root cfg d, c_Entrypoint cfg]))"
          using step Inr Inl by (auto simp: ensure_locked_def dest Let_def split: prod.splits sum.splits)
        have up': "unpack L F os man (c_Entrypoint cfg) (abs_of (rooted_parts root @ [''runtimes'', ?n, ?dn])) fs = (fs', r1)"
          using up by simp
        have titles: "\<And>l. l \<in> set (Layers man) \<Longrightarrow> plain (title l) \<or> title l = ''/''" using ad(8) by blast
        note uc = unpack_cases [OF up' base wf os n names(1) tree_name_def titles]
        have below: "strict_prefix (home_of R ?n) q \<Longrightarrow> prefix (R @ [''runtimes'']) q" for q
          by (auto simp: home_of_def prefix_def strict_prefix_def)
        have "based root R ?n fs'" by (rule based_cong [OF base]) (use uc(2) in blast)
        moreover have "\<forall>q. \<not> prefix (R @ [''runtimes'']) q \<longrightarrow> at fs' q = at fs q" using uc(2) below by blast
        moreover have "\<forall>e. r = Inr e \<longrightarrow> e = Join [destination L root cfg d, c_Entrypoint cfg] \<and> stands L fs' ?D man"
          using r uc(3) D by (cases r1) simp_all
        ultimately show ?thesis using uc(1) D by auto
      qed
    qed
  qed
qed

text \<open>The steps of \<^verbatim>\<open>Ensure\<close> up to the lock leave a tree in which the store still has its root.\<close>

lemma Ensure_steps:
  assumes step: "Ensure L F os goos goarch root ref d fs = (fs', r)"
    and adm: "admitted L F goos goarch ref d = Inr (man, cfg)"
    and root: "IsAbs root" and enc: "plain (Encoded L (Digest d))" and near: "neighbours os root R"
    and found: "found_apart root R fs" and wf: "wf_fs fs"
  shows "(\<exists>x. r = Inl x) \<and> (\<exists>g. grown R fs g \<and> (fs' = g \<or> fs' = meanwhile os g)) \<or>
    (\<exists>g h. grown R fs g \<and> wf_fs h \<and> found_apart root R h \<and> (h = g \<or> h = meanwhile os g) \<and>
       ensure_locked L F os root d man cfg h = (fs', r))"
proof -
  let ?n = "c_Name cfg"
  note ad = admitted_ok [OF adm]
  have n: "plain ?n" and dir: "plain (dirName cfg)" using ad(5) by simp_all
  have names: "parts (Dir (destination L root cfg d)) = rooted_parts root @ [''runtimes'', ?n]"
    using tree_names(3) [OF n dir enc root] n by simp
  have lockdir: "Join [root, ''runtimes''] = abs_of (rooted_parts root @ [''runtimes''])"
    using Join_abs [OF root, of "[''runtimes'']"] by simp
  show ?thesis
  proof (cases "plainDirs os fs root [''runtimes'', ?n]")
    case (Inl x)
    then have "fs' = fs" "\<exists>x. r = Inl x" using step adm by (auto simp: Ensure_def)
    then show ?thesis using grown_refl by blast
  next
    case (Inr u)
    then have "plainDirs os fs root [''runtimes'', ?n] = Inr ()" by simp
    note above = plainDirs_ok [OF this root n found_apart_directory [OF found]]
    obtain fs1 r1 where mk: "MkdirAll os fs (rooted_parts root @ [''runtimes'', ?n]) = (fs1, r1)" by fastforce
    note mc = mkdir_cases [OF mk found wf n above]
    show ?thesis
    proof (cases r1)
      case (Inl x)
      then have "fs' = fs1" "\<exists>x. r = Inl x" using step adm Inr mk names by (auto simp: Ensure_def)
      then show ?thesis using mc by blast
    next
      case ok: (Inr v)
      obtain fs2 r2 where lk: "lockUnpacking os fs1 (abs_of (rooted_parts root @ [''runtimes''])) = (fs2, r2)" by fastforce
      have base: "based root R ?n fs1" and wf1: "wf_fs fs1" and gr: "grown R fs fs1" using mc ok by simp_all
      obtain g where g: "grown R fs1 g" "wf_fs g" "found_apart root R g" "fs2 = g \<or> fs2 = meanwhile os g"
        using lock_cases [OF lk base wf1] by blast
      have h: "wf_fs fs2 \<and> found_apart root R fs2" using g near by (auto simp: neighbours_def)
      have gg: "grown R fs g" using gr g(1) by (rule grown_trans)
      show ?thesis
      proof (cases r2)
        case (Inl x)
        then have "fs' = fs2" "\<exists>x. r = Inl x" using step adm Inr mk names ok lk lockdir by (auto simp: Ensure_def)
        then show ?thesis using gg g(4) by blast
      next
        case locked: (Inr w)
        then have "ensure_locked L F os root d man cfg fs2 = (fs', r)"
          using step adm Inr mk names ok lk lockdir by (simp add: Ensure_def)
        then show ?thesis using gg g(4) h by blast
      qed
    qed
  qed
qed

section \<open>A host that works\<close>

text \<open>No call fails, nothing else runs, and some name for a staging directory is free.\<close>

definition calm :: "os \<Rightarrow> bool" where
  "calm os \<longleftrightarrow> (\<forall>c p g. \<not> fault os c p g) \<and> meanwhile os = (\<lambda>g. g)"

text \<open>A tree that stands is recognised, so nothing is written.\<close>

lemma stands_matches:
  assumes calm: "calm os" and st: "stands L fs D man" and ps: "list_all plain ps"
    and pD: "place fs ps = Inr D" and d: "directory fs ps = Inr D"
    and distinct: "distinct (map title (Layers man))"
  shows "materializedMatches L os fs man (abs_of ps) = Inr ()"
proof -
  let ?cs = "sort (children fs D)" and ?ts = "remdups (map title (Layers man))"
  have no: "\<not> fault os c p g" for c p g using calm by (simp add: calm_def)
  have same: "set ?cs = set ?ts" using st by (auto simp: stands_def)
  have len: "length ?cs = length ?ts"
    using same by (metis distinct_card distinct_children distinct_remdups distinct_sort)
  have "(case wanted man e of None \<Rightarrow> Inl (Unexpected (abs_of ps) e)
      | Some l \<Rightarrow> fileMatches L os fs (Join [abs_of ps, e]) l) = Inr ()" if "e \<in> set ?cs" for e
  proof -
    from that have "e \<in> set ?ts" by (simp only: same)
    then have "e \<in> title ` set (Layers man)" by (simp only: set_remdups set_map)
    then obtain l where l: "l \<in> set (Layers man)" "title l = e" by blast
    then obtain x c where f: "at fs (D @ [e]) = Some (Regular x c)" "faithful L l c" using st by (auto simp: stands_def)
    have "plain e" using st l by (auto simp: stands_def)
    then have "parts (Join [abs_of ps, e]) = ps @ [e]" using Join_plain ps by simp
    then have "fileMatches L os fs (Join [abs_of ps, e]) l = Inr ()"
      using f faithful_limited [OF f(2)] d
      by (simp add: fileMatches_def lstat_def read_no_follow_def no Let_def faithful_def)
    then show ?thesis using wanted_distinct [OF distinct l(1)] l(2) by simp
  qed
  then show ?thesis
    using pD ps d len st by (simp add: materializedMatches_def lstat_def read_dir_def Let_def each_ok no stands_def)
qed

text \<open>The blobs of the layers are in the store as recorded.\<close>

definition stocked :: "digest_lib \<Rightarrow> fetcher \<Rightarrow> manifest \<Rightarrow> bool" where
  "stocked L F man \<longleftrightarrow> (\<forall>l \<in> set (Layers man). \<exists>c. open_blob F (node_of l) = Some (c, False) \<and> faithful L l c)"

lemma copy_layers_calm:
  assumes calm: "calm os" and ps: "list_all plain ps" and dir: "directory fs ps = Inr T"
    and ls: "\<And>l. l \<in> set ls \<Longrightarrow> plain (title l) \<and> (\<exists>c. open_blob F (node_of l) = Some (c, False) \<and> faithful L l c)"
    and "distinct (map title ls)" and "\<And>l. l \<in> set ls \<Longrightarrow> at fs (T @ [title l]) = None"
  shows "\<exists>fs'. copy_layers L F os en (abs_of ps) ls fs = (fs', Inr ())"
  using dir ls assms(5,6)
proof (induction ls arbitrary: fs)
  case Nil
  then show ?case by simp
next
  case (Cons l ls)
  have no: "\<not> fault os c p g" for c p g using calm by (simp add: calm_def)
  obtain c where c: "open_blob F (node_of l) = Some (c, False)" "faithful L l c" "plain (title l)"
    using Cons.prems(2) by auto
  have j: "parts (Join [abs_of ps, title l]) = ps @ [title l]" using Join_plain ps c(3) by simp
  have free: "at fs (T @ [title l]) = None" using Cons.prems(4) by simp
  let ?p = "T @ [title l]" let ?x = "title l = en"
  let ?g = "put (put fs ?p (Regular ?x [])) ?p (Regular ?x c)"
  have one: "copyBlob L F os fs l (Join [abs_of ps, title l]) ?x = (?g, Inr ())"
    using c faithful_limited [OF c(2)] free Cons.prems(1) no
    by (simp add: copyBlob_def j create_excl_def Let_def faithful_def)
  have at: "at ?g q = (if q = ?p then Some (Regular ?x c) else at fs q)" for q by (simp add: tree)
  have "directory ?g ps = Inr T" by (rule directory_mono [OF Cons.prems(1)]) (use at free in auto)
  moreover have "at ?g (T @ [title k]) = None" if "k \<in> set ls" for k
  proof -
    have "title l \<notin> title ` set ls" using Cons.prems(3) by simp
    with that have "title k \<noteq> title l" by (metis imageI)
    with that Cons.prems(4) show ?thesis by (simp add: at)
  qed
  ultimately obtain fs' where "copy_layers L F os en (abs_of ps) ls ?g = (fs', Inr ())"
    using Cons.IH [of ?g] Cons.prems(2,3) by auto
  with one show ?case by simp
qed

lemma plainDirs_calm:
  assumes calm: "calm os" and root: "IsAbs root" and n: "plain n" and found: "found_apart root R fs"
    and "at fs (R @ [''runtimes'']) = None \<or> at fs (R @ [''runtimes'']) = Some Folder"
    and "at fs (home_of R n) = None \<or> at fs (home_of R n) = Some Folder"
  shows "plainDirs os fs root [''runtimes'', n] = Inr ()"
proof -
  have no: "\<not> fault os c p g" for c p g using calm by (simp add: calm_def)
  have q: "Join [root, ''runtimes''] = abs_of (rooted_parts root @ [''runtimes''])"
    using Join_abs [OF root, of "[''runtimes'']"] by simp
  have q2: "Join [abs_of (rooted_parts root @ [''runtimes'']), n] = abs_of ((rooted_parts root @ [''runtimes'']) @ [n])"
    by (rule Join_plain) (use n in simp_all)
  have dR: "directory fs (rooted_parts root) = Inr R" using found_apart_directory [OF found] .
  show ?thesis
  proof (cases "at fs (R @ [''runtimes''])")
    case None
    then show ?thesis using lstat_snoc [OF dR, of os "''runtimes''"] no
      by (simp add: plainDirs_step q from_option_def del: plainDirs.simps(2))
  next
    case (Some f)
    with assms(5) have F: "f = Folder" by simp
    with Some dR have d: "directory fs (rooted_parts root @ [''runtimes'']) = Inr (R @ [''runtimes''])"
      by (simp add: directory_snoc)
    have "plainDirs os fs (abs_of (rooted_parts root @ [''runtimes''])) [n] = Inr ()"
      using lstat_snoc [OF d, of os n] no assms(6) n
      by (auto simp: plainDirs_step q2 home_of_def from_option_def simp del: plainDirs.simps(2))
    then show ?thesis using lstat_snoc [OF dR, of os "''runtimes''"] no Some F
      by (simp add: plainDirs_step [of _ _ root] q del: plainDirs.simps(2))
  qed
qed

lemma mkdir_calm:
  assumes calm: "calm os" and found: "found_apart root R fs" and n: "plain n" and wf: "wf_fs fs"
    and rt: "at fs (R @ [''runtimes'']) = None \<or> at fs (R @ [''runtimes'']) = Some Folder"
    and home: "at fs (home_of R n) = None \<or> at fs (home_of R n) = Some Folder"
  shows "\<exists>g. MkdirAll os fs (rooted_parts root @ [''runtimes'', n]) = (g, Inr ()) \<and>
      (\<forall>q. q \<noteq> R @ [''runtimes''] \<longrightarrow> q \<noteq> home_of R n \<longrightarrow> at g q = at fs q)" (is ?made)
proof -
  have no: "\<not> fault os c p g" for c p g using calm by (simp add: calm_def)
  have dR: "directory fs (rooted_parts root) = Inr R" using found_apart_directory [OF found] .
  have start: "MkdirAll os fs (rooted_parts root @ [''runtimes'', n]) = mkdir_from os fs (rooted_parts root) [''runtimes'', n]"
    using mkdir_over [of fs "[]" "rooted_parts root" R os "[''runtimes'', n]"] dR by (simp add: MkdirAll_def)
  note one = mkdir_one [OF dR plain_runtimes rt, of os "[n]"]
  have two: "mkdir_from os g (rooted_parts root @ [''runtimes'']) [n] =
      (if at g (home_of R n) = Some Folder then (g, Inr ()) else (put g (home_of R n) Folder, Inr ()))"
    if g: "found_apart root R g" "at g (R @ [''runtimes'']) = Some Folder"
      "at g (home_of R n) = None \<or> at g (home_of R n) = Some Folder" for g
  proof -
    have "directory g (rooted_parts root @ [''runtimes'']) = Inr (R @ [''runtimes''])"
      using directory_snoc(1) [OF found_apart_directory [OF g(1)]] g(2) by simp
    from mkdir_one [OF this n, of os "[]"] g(3) show ?thesis by (simp add: home_of_def no)
  qed
  show ?made
  proof (cases "at fs (R @ [''runtimes'']) = Some Folder")
    case True
    have "home_of R n \<noteq> []" by (simp add: home_of_def)
    then show ?thesis using True start one two [of fs] found home
      by (cases "at fs (home_of R n) = Some Folder") (auto simp: tree)
  next
    case False
    then have none: "at fs (R @ [''runtimes'']) = None" using rt by blast
    let ?g = "put fs (R @ [''runtimes'']) Folder"
    have "found_apart root R ?g" by (rule found_apart_cong [OF found]) (auto simp: tree)
    moreover have "at fs (home_of R n) = None"
      by (rule wf_below [OF wf, of "R @ [''runtimes'']"]) (auto simp: none home_of_def strict_prefix_def prefix_def)
    then have "at ?g (home_of R n) = None" by (simp add: tree home_of_def)
    moreover have "at ?g (R @ [''runtimes'']) = Some Folder" by (simp add: tree)
    ultimately have "MkdirAll os fs (rooted_parts root @ [''runtimes'', n]) = (put ?g (home_of R n) Folder, Inr ())"
      using start one two [of ?g] none no by simp
    moreover have "home_of R n \<noteq> []" by (simp add: home_of_def)
    ultimately show ?thesis by (auto simp: tree)
  qed
qed

lemma mkdir_there:
  assumes "based root R n fs" and n: "plain n"
  shows "MkdirAll os fs (rooted_parts root @ [''runtimes'', n]) = (fs, Inr ())"
proof -
  have F: "at fs (R @ [''runtimes'']) = Some Folder" "at fs (R @ [''runtimes'', n]) = Some Folder" and
    dR: "directory fs (rooted_parts root) = Inr R"
    using assms(1) found_apart_directory by (auto simp: based_def home_of_def)
  have "directory fs (rooted_parts root @ [''runtimes'']) = Inr (R @ [''runtimes''])"
    using directory_snoc(1) [OF dR] F(1) by simp
  with mkdir_one [OF this n, of os "[]"] mkdir_one [OF dR plain_runtimes, of os "[n]"] F
    mkdir_over [of fs "[]" "rooted_parts root" R os "[''runtimes'', n]"] dR
  show ?thesis by (simp add: MkdirAll_def)
qed

lemma lock_calm:
  assumes calm: "calm os" and base: "based root R n fs"
    and "at fs (R @ [''runtimes'', unpackLockName]) = None \<or> (\<exists>x c. at fs (R @ [''runtimes'', unpackLockName]) = Some (Regular x c))"
  shows "lockUnpacking os fs (abs_of (rooted_parts root @ [''runtimes''])) =
    (if at fs (R @ [''runtimes'', unpackLockName]) = None
     then put fs (R @ [''runtimes'', unpackLockName]) (Regular False []) else fs, Inr ())"
proof -
  have no: "\<not> fault os c p g" "meanwhile os g = g" for c p g using calm by (simp_all add: calm_def)
  have lock: "plain unpackLockName" by (simp add: plain_def unpackLockName_def)
  have d: "directory fs (rooted_parts root @ [''runtimes'']) = Inr (R @ [''runtimes''])"
    using directory_snoc(1) [OF found_apart_directory] base by (simp add: based_def)
  have p: "parts (Join [abs_of (rooted_parts root @ [''runtimes'']), unpackLockName]) =
      (rooted_parts root @ [''runtimes'']) @ [unpackLockName]"
    using Join_plain [of "rooted_parts root @ [''runtimes'']"] lock by simp
  show ?thesis
    using assms(3) place_snoc [OF d, of unpackLockName] unfolding lockUnpacking_def p Let_def
    by (auto simp: no)
qed

lemma find_some: "x \<in> set xs \<Longrightarrow> P x \<Longrightarrow> \<exists>y. find P xs = Some y"
  by (induction xs) auto

lemma unpack_calm:
  assumes calm: "calm os" and base: "based root R n fs" and wf: "wf_fs fs" and os: "numbered os"
    and plain: "plain n" "plain dn" and dn: "dn = dirName cfg @ ''-'' @ e"
    and s: "s \<in> set (suffixes os)" "at fs (home_of R n @ [''.unpack-'' @ s]) = None"
    and stock: "stocked L F man" and titles: "\<And>l. l \<in> set (Layers man) \<Longrightarrow> plain (title l)"
    and distinct: "distinct (map title (Layers man))"
  shows "\<exists>fs'. unpack L F os man en (abs_of (rooted_parts root @ [''runtimes'', n, dn])) fs = (fs', Inr ())"
proof -
  let ?N = "home_of R n" and ?np = "rooted_parts root @ [''runtimes'', n]" and ?D = "home_of R n @ [dn]"
  have no: "\<not> fault os c p g" for c p g using calm by (simp add: calm_def)
  have dir: "Dir (abs_of (?np @ [dn])) = abs_of ?np" by (rule Dir_abs_of) (use plain in simp_all)
  have npd: "directory fs ?np = Inr ?N" using based_directory [OF base plain(1)] .
  have pnp: "list_all plain ?np" using plain by simp
  obtain t where t: "find (\<lambda>s. at fs (?N @ [''.unpack-'' @ s]) = None) (suffixes os) = Some t"
    using find_some [of s "suffixes os" "\<lambda>s. at fs (?N @ [''.unpack-'' @ s]) = None"] s by blast
  let ?tn = "''.unpack-'' @ t" let ?T = "?N @ [?tn]" let ?g = "put fs ?T Folder"
  have mk: "MkdirTemp os fs ?np ''.unpack-'' = (?g, Inr (?np @ [?tn]))" using npd t no by (simp add: MkdirTemp_def)
  have tf: "t \<in> set (suffixes os)" "at fs ?T = None" using find_found [OF t] by simp_all
  then have dig: "list_all is_digit t" using os by (simp add: numbered_def list.pred_set)
  have ptn: "plain ?tn" using digits_plain [OF dig] .
  have differ: "?tn \<noteq> dn" using staging_differs [OF dig] dn by simp
  have new: "at ?g q = (if q = ?T then Some Folder else at fs q)" for q by (simp add: tree)
  have none: "strict_prefix ?T q \<Longrightarrow> at fs q = None" for q using wf_below [OF wf, of ?T q] tf(2) by simp
  have sub: "prefix ?T q \<or> prefix ?D q \<Longrightarrow> strict_prefix ?N q" for q by (auto simp: prefix_def strict_prefix_def)
  have base1: "based root R n ?g" by (rule based_cong [OF base]) (use new sub in \<open>metis prefix_order.order_refl\<close>)
  have dT: "directory ?g (?np @ [?tn]) = Inr ?T"
    using directory_snoc(1) [OF based_directory [OF base1 plain(1)] ptn] new by simp
  have free: "at ?g (?T @ [title l]) = None" if "l \<in> set (Layers man)" for l
    using new [of "?T @ [title l]"] none [of "?T @ [title l]"] by (simp add: strict_prefix_def)
  obtain fs1 where c: "copy_layers L F os en (abs_of (?np @ [?tn])) (Layers man) ?g = (fs1, Inr ())"
    using copy_layers_calm [OF calm _ dT _ distinct free, of F L en] pnp ptn titles stock by (auto simp: stocked_def)
  have copied: "\<forall>q. \<not> strict_prefix ?T q \<longrightarrow> at fs1 q = at ?g q"
    using copy_layers_cases [OF c _ dT] pnp ptn titles by auto
  then have base2: "based root R n fs1"
    using based_cong [OF base1, of fs1] sub by (metis strict_prefix_def)
  have apart: "\<not> (prefix ?T q \<and> prefix ?D q)" for q using differ by (auto simp: prefix_def)
  have pD: "place fs1 (?np @ [dn]) = Inr ?D" using based_place [OF base2 plain(1)] by simp
  let ?h = "take_out (\<lambda>_. True) fs1 ?D"
  have rm: "RemoveAll os fs1 (?np @ [dn]) = (?h, Inr ())" using pD no by (simp add: RemoveAll_def)
  have base3: "based root R n ?h"
    by (rule based_cong [OF base2]) (use sub in \<open>auto simp: tree\<close>)
  have "at ?h ?T = Some Folder" using apart [of ?T] copied new [of ?T] by (simp add: tree strict_prefix_def)
  moreover have "at ?h ?D = None" by (simp add: tree)
  moreover have "place ?h (?np @ [?tn]) = Inr ?T" "place ?h (?np @ [dn]) = Inr ?D"
    using based_place [OF base3 plain(1)] by simp_all
  ultimately obtain k where mv: "Rename os ?h (?np @ [?tn]) (?np @ [dn]) = (k, Inr ())"
    using no by (simp add: Rename_def)
  have "list_all plain (?np @ [dn])" "list_all plain (?np @ [?tn])" using plain ptn by simp_all
  then have "replace_tree L F os man en (abs_of (?np @ [?tn])) (abs_of (?np @ [dn])) ?g = (k, Inr ())"
    using c rm mv by (simp add: replace_tree_def)
  then show ?thesis using mk dir pnp by (simp add: unpack_def)
qed

lemma Ensure_establishes:
  assumes "Ensure L F os goos goarch root ref d fs = (fs', Inr entry)"
    and "IsAbs root" and "plain (Encoded L (Digest d))" and "numbered os" and "neighbours os root R"
    and "found_apart root R fs" and "wf_fs fs"
  shows "\<exists>man cfg. admitted L F goos goarch ref d = Inr (man, cfg) \<and>
    place fs' (parts entry) = Inr (tree_of L R cfg d @ [c_Entrypoint cfg]) \<and>
    based root R (c_Name cfg) fs' \<and> stands L fs' (tree_of L R cfg d) man \<and>
    c_Entrypoint cfg \<in> title ` set (Layers man)"
proof (cases "admitted L F goos goarch ref d")
  case (Inl e)
  then show ?thesis using assms(1) by (simp add: Ensure_def)
next
  case (Inr mc)
  then obtain man cfg where adm: "admitted L F goos goarch ref d = Inr (man, cfg)" by (cases mc) simp
  note ad = admitted_ok [OF adm]
  have n: "plain (c_Name cfg)" and dir: "plain (dirName cfg)" and en: "plain (c_Entrypoint cfg)" using ad(5) by simp_all
  note names = tree_names [OF n dir assms(3,2)]
  obtain h where h: "wf_fs h" "found_apart root R h" "ensure_locked L F os root d man cfg h = (fs', Inr entry)"
    using Ensure_steps [OF assms(1) adm assms(2,3,5,6,7)] by blast
  have e: "entry = Join [destination L root cfg d, c_Entrypoint cfg]" "based root R (c_Name cfg) fs'"
    and st: "stands L fs' (tree_of L R cfg d) man"
    using ensure_locked_cases [OF h(3) adm assms(2,3,4) h(2,1)] by simp_all
  let ?ps = "rooted_parts root @ [''runtimes'', c_Name cfg, tree_name L cfg d]"
  have pe: "parts entry = ?ps @ [c_Entrypoint cfg]"
    using Join_entry [of ?ps "c_Entrypoint cfg"] n names(1) en by (simp add: e(1) names(2))
  have "directory fs' ?ps = Inr (tree_of L R cfg d)"
    using directory_snoc(1) [OF based_directory [OF e(2) n] names(1)] st
    by (simp add: stands_def tree_of_def home_of_def)
  from place_snoc [OF this, of "c_Entrypoint cfg"]
  have "place fs' (parts entry) = Inr (tree_of L R cfg d @ [c_Entrypoint cfg])" by (simp add: pe)
  with adm e(2) st ad(6) show ?thesis by blast
qed

text \<open>
  C3. Whatever the artifact, the host's files and the failures of its calls: an engine palan hands
  back to be run is a file of the admitted manifest, and the directory it is in holds the files of
  that manifest with the recorded bytes and no other, below directories of the store and no link.
\<close>

theorem Ensure_unpacks:
  assumes "Ensure L F os goos goarch root ref d fs = (fs', Inr entry)"
    and "IsAbs root" and "plain (Encoded L (Digest d))" and "numbered os" and "neighbours os root R"
    and "found_apart root R fs" and "wf_fs fs"
  shows "\<exists>man cfg. admitted L F goos goarch ref d = Inr (man, cfg) \<and>
    place fs' (parts entry) = Inr (tree_of L R cfg d @ [c_Entrypoint cfg]) \<and>
    based root R (c_Name cfg) fs' \<and> stands L fs' (tree_of L R cfg d) man \<and>
    c_Entrypoint cfg \<in> title ` set (Layers man)"
  using assms by (rule Ensure_establishes)

lemma Ensure_frame:
  assumes "Ensure L F os goos goarch root ref d fs = (fs', r)"
    and "IsAbs root" and "plain (Encoded L (Digest d))" and "numbered os" and "meanwhile os = (\<lambda>g. g)"
    and "found_apart root R fs" and "wf_fs fs"
  shows "(at fs q = Some f \<longrightarrow> at fs' q = Some f \<or>
      (\<exists>man cfg. admitted L F goos goarch ref d = Inr (man, cfg) \<and> prefix (tree_of L R cfg d) q)) \<and>
    (\<not> prefix (R @ [''runtimes'']) q \<longrightarrow> at fs' q = at fs q)"
proof (cases "admitted L F goos goarch ref d")
  case (Inl e)
  then show ?thesis using assms(1) by (simp add: Ensure_def)
next
  case (Inr mc)
  then obtain man cfg where adm: "admitted L F goos goarch ref d = Inr (man, cfg)" by (cases mc) simp
  have near: "neighbours os root R" using assms(5) by (simp add: neighbours_def)
  from Ensure_steps [OF assms(1) adm assms(2,3) near assms(6,7)] assms(5)
  consider "grown R fs fs'" | h where "grown R fs h" "wf_fs h" "found_apart root R h"
      "ensure_locked L F os root d man cfg h = (fs', r)" by auto
  then show ?thesis
  proof cases
    case 1
    then show ?thesis by (simp add: grown_def)
  next
    case (2 h)
    note el = ensure_locked_cases [OF 2(4) adm assms(2,3,4) 2(3,2)]
    have "at fs q = Some f \<Longrightarrow> at h q = Some f" and "\<not> prefix (R @ [''runtimes'']) q \<Longrightarrow> at h q = at fs q"
      using 2(1) by (simp_all add: grown_def)
    with el adm show ?thesis by auto
  qed
qed

text \<open>
  C12. Unpacking an engine, whether it succeeds or not and whatever its config says, leaves every file
  there was outside the artifact's own directory as it was, and makes none outside the directory of
  the store's engines.
\<close>

theorem Ensure_spares:
  assumes "Ensure L F os goos goarch root ref d fs = (fs', r)"
    and "IsAbs root" and "plain (Encoded L (Digest d))" and "numbered os" and "meanwhile os = (\<lambda>g. g)"
    and "found_apart root R fs" and "wf_fs fs"
  shows "(at fs q = Some f \<longrightarrow> at fs' q = Some f \<or>
      (\<exists>man cfg. admitted L F goos goarch ref d = Inr (man, cfg) \<and> prefix (tree_of L R cfg d) q)) \<and>
    (\<not> prefix (R @ [''runtimes'']) q \<longrightarrow> at fs' q = at fs q)"
  using assms by (rule Ensure_frame)

lemma Ensure_succeeds:
  assumes adm: "admitted L F goos goarch ref d = Inr (man, cfg)" and stock: "stocked L F man"
    and titles: "''/'' \<notin> title ` set (Layers man)" and calm: "calm os" and os: "numbered os"
    and root: "IsAbs root" and enc: "plain (Encoded L (Digest d))"
    and found: "found_apart root R fs" and wf: "wf_fs fs"
    and above: "at fs (R @ [''runtimes'']) = None \<or> at fs (R @ [''runtimes'']) = Some Folder"
      "at fs (home_of R (c_Name cfg)) = None \<or> at fs (home_of R (c_Name cfg)) = Some Folder"
    and lock: "at fs (R @ [''runtimes'', unpackLockName]) = None \<or>
      (\<exists>x c. at fs (R @ [''runtimes'', unpackLockName]) = Some (Regular x c))"
    and s: "s \<in> set (suffixes os)" "at fs (home_of R (c_Name cfg) @ [''.unpack-'' @ s]) = None"
  shows "\<exists>fs' entry. Ensure L F os goos goarch root ref d fs = (fs', Inr entry)"
proof -
  let ?n = "c_Name cfg"
  note ad = admitted_ok [OF adm]
  have n: "plain ?n" and dir: "plain (dirName cfg)" using ad(5) by simp_all
  note names = tree_names [OF n dir enc root]
  have lname: "?n \<noteq> unpackLockName" using ad(5) by (auto simp: unpackLockName_def)
  have dirs: "parts (Dir (destination L root cfg d)) = rooted_parts root @ [''runtimes'', ?n]" using names(3) n by simp
  have lockdir: "Join [root, ''runtimes''] = abs_of (rooted_parts root @ [''runtimes''])"
    using Join_abs [OF root, of "[''runtimes'']"] by simp
  have pd: "plainDirs os fs root [''runtimes'', ?n] = Inr ()" using plainDirs_calm [OF calm root n found above] .
  obtain g where mk: "MkdirAll os fs (rooted_parts root @ [''runtimes'', ?n]) = (g, Inr ())"
    and rest: "\<And>q. q \<noteq> R @ [''runtimes''] \<Longrightarrow> q \<noteq> home_of R ?n \<Longrightarrow> at g q = at fs q"
    using mkdir_calm [OF calm found n wf above] by blast
  have g: "grown R fs g" "wf_fs g" "based root R ?n g"
    using mkdir_cases [OF mk found wf n plainDirs_ok [OF pd root n found_apart_directory [OF found]]] by simp_all
  let ?lock = "R @ [''runtimes'', unpackLockName]"
  have same: "at g ?lock = at fs ?lock" using rest [of ?lock] lname by (simp add: home_of_def)
  let ?h = "if at g ?lock = None then put g ?lock (Regular False []) else g"
  have lk: "lockUnpacking os g (abs_of (rooted_parts root @ [''runtimes''])) = (?h, Inr ())"
    using lock_calm [OF calm g(3)] lock same by simp
  have rt: "at g (R @ [''runtimes'']) = Some Folder" using g(3) by (simp add: based_def)
  have plainl: "plain unpackLockName" by (simp add: plain_def unpackLockName_def)
  have "at g ((R @ [''runtimes'']) @ [unpackLockName]) = None \<Longrightarrow>
      grown R g (put g ((R @ [''runtimes'']) @ [unpackLockName]) (Regular False [])) \<and>
      wf_fs (put g ((R @ [''runtimes'']) @ [unpackLockName]) (Regular False []))"
    by (rule grown_put) (use g(2) rt plainl in simp_all)
  then have h: "grown R g ?h" "wf_fs ?h" using g(2) by auto
  have baseh: "based root R ?n ?h" using g(3) h(1) grown_found [OF h(1)] by (auto simp: based_def grown_def)
  have pd2: "plainDirs os ?h root [''runtimes'', ?n] = Inr ()"
    by (rule plainDirs_calm [OF calm root n]) (use baseh in \<open>auto simp: based_def\<close>)
  have "at ?h (home_of R ?n @ [''.unpack-'' @ s]) = at fs (home_of R ?n @ [''.unpack-'' @ s])"
    using g(1) h(1) by (simp add: grown_def home_of_def)
  then have s2: "at ?h (home_of R ?n @ [''.unpack-'' @ s]) = None" using s(2) by simp
  have pl: "\<And>l. l \<in> set (Layers man) \<Longrightarrow> plain (title l)" using ad(8) titles by force
  obtain k where up: "unpack L F os man (c_Entrypoint cfg) (destination L root cfg d) ?h = (k, Inr ())"
    using unpack_calm [OF calm baseh h(2) os n names(1) tree_name_def s(1) s2 stock pl ad(7)] by (auto simp: names(2))
  have "\<exists>fs' entry. ensure_locked L F os root d man cfg ?h = (fs', Inr entry)"
    using pd2 up by (cases "materializedMatches L os ?h man (destination L root cfg d)") (simp_all add: ensure_locked_def)
  then show ?thesis using adm pd mk dirs lk lockdir by (simp add: Ensure_def)
qed

text \<open>
  C13. On a host where no call fails, an admitted engine whose blobs the store holds is unpacked,
  whatever is in the place of its tree: a tampered copy, a link, or half of one.
\<close>

theorem Ensure_repairs:
  assumes adm: "admitted L F goos goarch ref d = Inr (man, cfg)" and stock: "stocked L F man"
    and titles: "''/'' \<notin> title ` set (Layers man)" and calm: "calm os" and os: "numbered os"
    and root: "IsAbs root" and enc: "plain (Encoded L (Digest d))"
    and found: "found_apart root R fs" and wf: "wf_fs fs"
    and above: "at fs (R @ [''runtimes'']) = None \<or> at fs (R @ [''runtimes'']) = Some Folder"
      "at fs (home_of R (c_Name cfg)) = None \<or> at fs (home_of R (c_Name cfg)) = Some Folder"
    and lock: "at fs (R @ [''runtimes'', unpackLockName]) = None \<or>
      (\<exists>x c. at fs (R @ [''runtimes'', unpackLockName]) = Some (Regular x c))"
    and s: "s \<in> set (suffixes os)" "at fs (home_of R (c_Name cfg) @ [''.unpack-'' @ s]) = None"
  shows "\<exists>fs' entry. Ensure L F os goos goarch root ref d fs = (fs', Inr entry)"
  using assms by (rule Ensure_succeeds)

text \<open>
  Unpacking an engine again, on a host where no call fails, finds the tree it left, hands back
  the same file and writes nothing.
\<close>

theorem Ensure_again:
  assumes "Ensure L F os goos goarch root ref d fs = (fs', Inr entry)"
    and root: "IsAbs root" and enc: "plain (Encoded L (Digest d))" and "numbered os" and "neighbours os root R"
    and "found_apart root R fs" and "wf_fs fs"
    and calm: "calm os'" and lock: "at fs' (R @ [''runtimes'', unpackLockName]) = Some (Regular x c)"
  shows "Ensure L F os' goos goarch root ref d fs' = (fs', Inr entry)"
proof (cases "admitted L F goos goarch ref d")
  case (Inl e)
  then show ?thesis using assms(1) by (simp add: Ensure_def)
next
  case (Inr mc)
  then obtain man cfg where adm: "admitted L F goos goarch ref d = Inr (man, cfg)" by (cases mc) simp
  let ?n = "c_Name cfg"
  note ad = admitted_ok [OF adm]
  have n: "plain ?n" and dir: "plain (dirName cfg)" using ad(5) by simp_all
  note names = tree_names [OF n dir enc root]
  have dirs: "parts (Dir (destination L root cfg d)) = rooted_parts root @ [''runtimes'', ?n]" using names(3) n by simp
  have lockdir: "Join [root, ''runtimes''] = abs_of (rooted_parts root @ [''runtimes''])"
    using Join_abs [OF root, of "[''runtimes'']"] by simp
  obtain h where h: "wf_fs h" "found_apart root R h" "ensure_locked L F os root d man cfg h = (fs', Inr entry)"
    using Ensure_steps [OF assms(1) adm root enc assms(5-7)] by blast
  have e: "entry = Join [destination L root cfg d, c_Entrypoint cfg]" and base: "based root R ?n fs'"
    and st: "stands L fs' (tree_of L R cfg d) man"
    using ensure_locked_cases [OF h(3) adm root enc assms(4) h(2,1)] by simp_all
  have above: "found_apart root R fs'" "at fs' (R @ [''runtimes'']) = Some Folder" "at fs' (home_of R ?n) = Some Folder"
    using base by (simp_all add: based_def)
  have pd: "plainDirs os' fs' root [''runtimes'', ?n] = Inr ()"
    using plainDirs_calm [OF calm root n above(1)] above by simp
  have mk: "MkdirAll os' fs' (rooted_parts root @ [''runtimes'', ?n]) = (fs', Inr ())"
    using mkdir_there [OF base n] .
  have lk: "lockUnpacking os' fs' (abs_of (rooted_parts root @ [''runtimes''])) = (fs', Inr ())"
    using lock_calm [OF calm base] lock by simp
  let ?np = "rooted_parts root @ [''runtimes'', ?n]" and ?D = "tree_of L R cfg d"
  have D: "?D = home_of R ?n @ [tree_name L cfg d]" by (simp add: tree_of_def home_of_def)
  have pD: "place fs' (?np @ [tree_name L cfg d]) = Inr ?D" using based_place [OF base n] D by simp
  have dD: "directory fs' (?np @ [tree_name L cfg d]) = Inr ?D"
    using directory_snoc(1) [OF based_directory [OF base n] names(1)] st D by (simp add: stands_def)
  have "materializedMatches L os' fs' man (abs_of (?np @ [tree_name L cfg d])) = Inr ()"
    by (rule stands_matches [OF calm st _ pD dD ad(7)]) (use n names(1) in simp)
  then have "ensure_locked L F os' root d man cfg fs' = (fs', Inr entry)"
    using pd e by (simp add: ensure_locked_def names(2))
  then show ?thesis using adm pd mk dirs lk lockdir by (simp add: Ensure_def)
qed

end
