(* ===== verification/ServingSpec.thy ===== *)
theory ServingSpec
  imports Serving VerifySpec RuntimeSpec
begin

text \<open>
  What reaches the process that is started: weights and engine were signed by an allowed signer, are
  what the checked manifests record, and the engine finds its own libraries first.
\<close>

section \<open>Signed and servable\<close>

text \<open>One of those allowed to sign the repository a name is in signed the artifact of that digest.\<close>

definition signed_artifact :: "'k host \<Rightarrow> config \<Rightarrow> string \<Rightarrow> string \<Rightarrow> string \<Rightarrow> bool" where
  "signed_artifact h cfg keyPath raw dg \<longleftrightarrow>
     (\<exists>ref src allowed. Parse (parse_ref h) raw (c_default_registry cfg) = Inr ref \<and>
       resolveVerifiers h cfg keyPath ref = Inr allowed \<and> signed_by h src (repo_of ref) allowed \<and>
       Digest (vs_subject src) = dg)"

text \<open>What a source of signatures answers about is a content address and not the empty name.\<close>

definition addressed :: "'k host \<Rightarrow> bool" where
  "addressed h \<longleftrightarrow> (\<forall>ref src. resolveVerifySource h ref = Inr src \<longrightarrow> Digest (vs_subject src) \<noteq> [])"

lemma gate_signed:
  assumes "verifyGate h cfg doVerify keyPath = Some g" and "g raw = Inr v" and "addressed h"
  shows "Digest v \<noteq> [] \<and> signed_artifact h cfg keyPath raw (Digest v)"
proof -
  from assms(1,2) have "run_gate h cfg keyPath raw = Inr v" by (auto simp: verifyGate_def split: if_splits)
  then obtain ref src vb where r: "Parse (parse_ref h) raw (c_default_registry cfg) = Inr ref"
      "resolveVerifySource h ref = Inr src" "verifyDigest h cfg keyPath src ref = Inr vb" "vs_subject src = v"
    by (auto simp: run_gate_def)
  from verifyDigest_true [OF r(3)] obtain allowed where "resolveVerifiers h cfg keyPath ref = Inr allowed"
      "signed_by h src (repo_of ref) allowed" using verdict_signed by blast
  with r assms(3) show ?thesis by (auto simp: signed_artifact_def addressed_def)
qed

lemma checked_digest:
  "checkLoadedContent h ref local verified rehash = Inr u \<Longrightarrow> Digest verified \<noteq> [] \<Longrightarrow> Digest local = Digest verified"
  by (auto simp: checkLoadedContent_def split: if_splits)

text \<open>
  A path is that of the weights of an artifact when its manifest has a raw layer of weights there,
  and the bytes begin as a GGUF file does.
\<close>

definition weights_at :: "model_spec \<Rightarrow> 'k host \<Rightarrow> string \<Rightarrow> node \<Rightarrow> string \<Rightarrow> bool" where
  "weights_at S h root d file \<longleftrightarrow>
     (\<exists>man w c b. FetchManifest (store_blobs h) d = Inr man \<and> w \<in> set (Layers man) \<and>
       KindOf S (MediaType w) = LayerKindWeight \<and> IsRaw S (MediaType w) \<and>
       BlobPath h root (node_of w) = Inr file \<and> store_open h (node_of w) = Some (gguf_magic @ c, b))"

lemma find_in: "find P xs = Some x \<Longrightarrow> x \<in> set xs \<and> P x"
  by (rule find_found)

lemma requireGGUF_magic:
  assumes "requireGGUF S h root ref man w = Inr u"
  shows "\<exists>c b. store_open h (node_of w) = Some (gguf_magic @ c, b)"
proof (cases "store_open h (node_of w)")
  case None
  then show ?thesis using assms
    by (cases "BlobPath h root (node_of w)") (auto simp: requireGGUF_def Let_def split: if_split_asm)
next
  case (Some r)
  obtain c b where r: "r = (c, b)" by fastforce
  obtain dc where "(if dc \<noteq> [] \<and> dc \<noteq> FormatGGUF then Inl (NotGGUF ref dc)
      else bind_res (BlobPath h root (node_of w)) (\<lambda>_.
        if length c < 4 then Inl (HeaderUnread ref)
        else if take 4 c \<noteq> gguf_magic then Inl (BadMagic ref (take 4 c)) else Inr ())) = Inr u"
    using assms unfolding requireGGUF_def Some r option.case prod.case bind_res_eq_Inr by blast
  then have "take 4 c = gguf_magic" by (simp split: if_split_asm)
  then have "c = gguf_magic @ drop 4 c" by (metis append_take_drop_id)
  with Some r show ?thesis by metis
qed

lemma loadModelInfo_weights:
  assumes "loadModelInfo S h root ref d = Inr info"
  shows "weights_at S h root d (blobPath info)"
proof -
  obtain man where man: "FetchManifest (store_blobs h) d = Inr man"
    using assms by (auto simp: loadModelInfo_def)
  obtain w where w: "find (\<lambda>l. KindOf S (MediaType l) = LayerKindWeight) (Layers man) = Some w"
    using assms man by (cases "find (\<lambda>l. KindOf S (MediaType l) = LayerKindWeight) (Layers man)") (simp_all add: loadModelInfo_def)
  have raw: "IsRaw S (MediaType w)" using assms man w by (cases "IsRaw S (MediaType w)") (simp_all add: loadModelInfo_def)
  from assms man w raw have "requireGGUF S h root ref man w = Inr ()" "BlobPath h root (node_of w) = Inr (blobPath info)"
    by (auto simp: loadModelInfo_def)
  note m = man w raw this
  from requireGGUF_magic [OF m(4)] m find_in [OF m(2)] show ?thesis unfolding weights_at_def by blast
qed

section \<open>Serve\<close>

text \<open>
  C6. On a host that asks for signatures, what serve loads for a request is signed: the copy in the
  store that was opened for the load has the digest an allowed signer signed, the file handed to the
  engine is a raw layer of weights of that very manifest, and it is a GGUF file.
\<close>

theorem serve_loads_signed:
  assumes "backend_Spec S opened (\<lambda>h. verifyGate h cfg doVerify keyPath) rehash root bin refs size_of named ref = Inr (p, mem)"
    and "doVerify \<or> c_required cfg" and "opened = Inr h" and "addressed h"
  shows "\<exists>d. t_Resolve (store h) ref = Inr d \<and> signed_artifact h cfg keyPath ref (Digest d) \<and>
    weights_at S h root d (p_ModelPath p)"
proof -
  obtain g where g: "verifyGate h cfg doVerify keyPath = Some g" using assms(2) by (auto simp: verifyGate_def)
  from assms(1,3) g obtain v d u info where s: "g ref = Inr v" "t_Resolve (store h) ref = Inr d"
      "checkLoadedContent h (named ref) d v rehash = Inr u" "loadModelInfo S h root ref d = Inr info"
      "p_ModelPath p = blobPath info"
    by (auto simp: backend_Spec_def Let_def split: if_splits)
  note v = gate_signed [OF g s(1) assms(4)]
  have "Digest d = Digest v" using checked_digest [OF s(3)] v by blast
  with v s(2,5) loadModelInfo_weights [OF s(4)] show ?thesis by auto
qed

section \<open>Run\<close>

lemma resolve_engine_cases:
  "resolve_engine h os goos goarch root onPath name d fs = (fs', Inr bin) \<Longrightarrow> name \<noteq> [] \<Longrightarrow>
     Ensure (digests h) (store_blobs h) os goos goarch root name d fs = (fs', Inr bin)"
  by (auto simp: resolve_engine_def map_error_def split: prod.splits sum.splits)

text \<open>
  The engine that is started for a configured reference was admitted under the same policy, and what
  is at its path is the tree of the manifest the signature covers.
\<close>

definition signed_engine :: "'k host \<Rightarrow> config \<Rightarrow> string \<Rightarrow> string \<Rightarrow> string \<Rightarrow> name \<Rightarrow> fs \<Rightarrow> string \<Rightarrow> bool" where
  "signed_engine h cfg keyPath goos goarch R fs bin \<longleftrightarrow>
     (\<exists>name d man rc. signed_artifact h cfg keyPath name (Digest d) \<and>
       admitted (digests h) (store_blobs h) goos goarch name d = Inr (man, rc) \<and>
       place fs (parts bin) = Inr (tree_of (digests h) R rc d @ [c_Entrypoint rc]) \<and>
       stands (digests h) fs (tree_of (digests h) R rc d) man)"

text \<open>A store resolves a name to a digest in its written form, and no reference has an empty text.\<close>

definition well_named :: "'k host \<Rightarrow> bool" where
  "well_named h \<longleftrightarrow> addressed h \<and> (\<forall>r. ref_text h r \<noteq> []) \<and>
     (\<forall>s n. t_Resolve (store h) s = Inr n \<longrightarrow> plain (Encoded (digests h) (Digest n)))"

lemma prepare_signed:
  assumes "prepare S h cfg os goos goarch root onPath (verifyGate h cfg doVerify keyPath) rehash ref verified runtimeRef ctx ngl fs
      = (fs', Inr p)"
    and asked: "doVerify \<or> c_required cfg" and wn: "well_named h" and v: "Digest verified \<noteq> []"
    and root: "IsAbs root" and os: "numbered os"
    and near: "neighbours os root R" and fs: "found_apart root R fs" "wf_fs fs"
  shows "(\<exists>d. t_Resolve (store h) (ref_text h ref) = Inr d \<and> Digest d = Digest verified \<and> weights_at S h root d (p_ModelPath p)) \<and>
    (runtimeRef \<noteq> [] \<longrightarrow> signed_engine h cfg keyPath goos goarch R fs' (p_Bin p))"
proof -
  obtain g where g: "verifyGate h cfg doVerify keyPath = Some g" using asked by (auto simp: verifyGate_def)
  from assms(1) obtain d info name n where c: "held_copy h (Some g) rehash ref verified = Inr d"
      "loadModelInfo S h root (ref_text h ref) d = Inr info" "checkRuntime h cfg (Some g) runtimeRef rehash = Inr (name, n)"
    and e: "resolve_engine h os goos goarch root onPath name n fs = (fs', Inr (p_Bin p))" "p_ModelPath p = blobPath info"
    by (auto simp: prepare_def g split: sum.splits prod.splits)
  from c(1) obtain u where "t_Resolve (store h) (ref_text h ref) = Inr d" "checkLoadedContent h ref d verified rehash = Inr u"
    by (auto simp: held_copy_def)
  moreover from this checked_digest v have "Digest d = Digest verified" by blast
  ultimately have model: "\<exists>d. t_Resolve (store h) (ref_text h ref) = Inr d \<and> Digest d = Digest verified \<and>
      weights_at S h root d (p_ModelPath p)" using loadModelInfo_weights [OF c(2)] e(2) by auto
  have "signed_engine h cfg keyPath goos goarch R fs' (p_Bin p)" if r: "runtimeRef \<noteq> []"
  proof -
    from c(3) r obtain rf w x where k: "name = ref_text h rf" "g name = Inr w"
        "checkLoadedContent h rf n w rehash = Inr x" "t_Resolve (store h) name = Inr n"
      by (auto simp: checkRuntime_def Let_def)
    note w = gate_signed [OF g k(2)]
    have "Digest n = Digest w" using checked_digest [OF k(3)] w wn by (auto simp: well_named_def)
    with w wn have signed: "signed_artifact h cfg keyPath name (Digest n)" by (simp add: well_named_def)
    have "name \<noteq> []" and enc: "plain (Encoded (digests h) (Digest n))" using k(1,4) wn by (auto simp: well_named_def)
    from Ensure_establishes [OF resolve_engine_cases [OF e(1) this(1)] root enc os near fs] signed
    show ?thesis unfolding signed_engine_def by blast
  qed
  with model show ?thesis by blast
qed


section \<open>The environment of the engine\<close>

lemma search_path_out:
  "search_path pre dir kvs v out = (v', out') \<Longrightarrow>
     out' = out @ filter (\<lambda>kv. \<not> prefix pre kv) kvs \<and> (v' = v \<or> prefix (dir @ '':'') v')"
  by (induction pre dir kvs v out rule: search_path.induct) (auto simp: Let_def split: if_splits)

text \<open>
  An engine that ships libraries is started with exactly one search path for them, which begins
  with the directory it was unpacked in, and with its environment otherwise unchanged.
\<close>

theorem own_libraries_first:
  assumes "shipsLibraries os fs binDir" and "binDir \<noteq> []" and "binDir \<noteq> ''.''"
  shows "\<exists>v. runtimeEnv goos os fs base binDir =
      filter (\<lambda>kv. \<not> prefix (libraryPathVar goos @ ''='') kv) base @ [libraryPathVar goos @ ''='' @ v] \<and>
    (v = binDir \<or> prefix (binDir @ '':'') v)"
proof -
  obtain v out where s: "search_path (libraryPathVar goos @ ''='') binDir base binDir [] = (v, out)" by fastforce
  from search_path_out [OF s] s assms show ?thesis by (auto simp: runtimeEnv_def)
qed

end
