(* ===== verification/RuntimeSample.thy ===== *)
theory RuntimeSample
  imports RuntimeSpec JsonText
begin

text \<open>A small engine in a store, and a host on which the statements about unpacking apply.\<close>

definition engine_config :: json where
  "engine_config = JObj [(''name'', JStr ''llama''), (''build'', JStr ''b1''), (''os'', JStr ''linux''),
     (''arch'', JStr ''amd64''), (''flavor'', JStr ''cpu''), (''entrypoint'', JStr ''server'')]"

definition engine_manifest :: json where
  "engine_manifest = JObj
     [(''artifactType'', JStr ArtifactTypeRuntime),
      (''config'', JObj [(''mediaType'', JStr MediaTypeRuntimeConfig), (''digest'', JStr (sha256_digest ''config'')),
         (''size'', JNum ''2'')]),
      (''layers'', JArr [JObj [(''mediaType'', JStr MediaTypeRuntimeFile), (''digest'', JStr (sha256_digest ''code'')),
         (''size'', JNum ''4''), (''annotations'', JObj [(AnnotationTitle, JStr ''server'')])]])]"

definition engine_layer :: descriptor where
  "engine_layer = \<lparr>MediaType = MediaTypeRuntimeFile, Digest = sha256_digest ''code'', Size = 4,
     Annotations = [(AnnotationTitle, ''server'')]\<rparr>"

definition engine_man :: manifest where
  "engine_man = \<lparr>m_artifactType = ArtifactTypeRuntime,
     Config = \<lparr>MediaType = MediaTypeRuntimeConfig, Digest = sha256_digest ''config'', Size = 2, Annotations = []\<rparr>,
     Layers = [engine_layer], m_annotations = []\<rparr>"

definition engine_cfg :: rt_config where
  "engine_cfg = \<lparr>c_Name = ''llama'', c_Build = ''b1'', c_OS = ''linux'', c_Arch = ''amd64'', c_Flavor = ''cpu'',
     c_Entrypoint = ''server''\<rparr>"

definition engine :: node where
  "engine = \<lparr>MediaType = MediaTypeImageManifest, Digest = sha256_digest ''engine'', Size = 1\<rparr>"

definition engine_store :: fetcher where
  "engine_store = \<lparr>
     fetch_all = (\<lambda>n. if Size n = 1 then Some (show_json engine_manifest)
       else if Size n = 2 then Some (show_json engine_config) else None),
     open_blob = (\<lambda>n. if Size n = 4 then Some (''code'', False) else None)\<rparr>"

text \<open>The unpacked copy on this host is a link to a directory palan does not own.\<close>

definition engine_host :: fs where
  "engine_host =
     [([''s''], Folder), ([''s'', ''index.json''], Regular False ''{}''),
      ([''s'', ''runtimes''], Folder), ([''s'', ''runtimes'', unpackLockName], Regular False []),
      ([''s'', ''runtimes'', ''llama''], Folder),
      ([''s'', ''runtimes'', ''llama'', tree_name sha256_digests engine_cfg engine], Symlink True [''tmp''])]"

definition engine_os :: os where
  "engine_os = \<lparr>fault = (\<lambda>_ _ _. False), taken = (\<lambda>_. True), suffixes = [''7''], meanwhile = (\<lambda>g. g)\<rparr>"

lemma engine_unmarshal:
  "unmarshal_manifest (show_json engine_manifest) = Some engine_man"
  "unmarshal_rt_config (show_json engine_config) = Some engine_cfg"
proof -
  have w: "written engine_manifest" "written engine_config"
    by (simp_all add: engine_manifest_def engine_config_def is_digit_def)
  have "decode_manifest engine_manifest = Some engine_man"
    by (simp add: engine_manifest_def decode_manifest_def decode_descriptor_def decode_node_def
        engine_man_def engine_layer_def str_field_def int_field_def sub_field_def list_field_def map_field_def field_def
        int64_of_def node.defs descriptor.defs digit_value_def is_digit_def to_lower_def to_lower_char_def Let_def
        char_of_def bit_0)
  then show "unmarshal_manifest (show_json engine_manifest) = Some engine_man"
    by (simp add: unmarshal_manifest_def parse_show [OF w(1)])
  have "decode_rt_config engine_config = Some engine_cfg"
    by (simp add: engine_config_def decode_rt_config_def engine_cfg_def str_field_def field_def
        to_lower_def to_lower_char_def Let_def char_of_def bit_0)
  then show "unmarshal_rt_config (show_json engine_config) = Some engine_cfg"
    by (simp add: unmarshal_rt_config_def parse_show [OF w(2)])
qed

lemma engine_admitted: "admitted sha256_digests engine_store ''linux'' ''amd64'' ''e'' engine = Inr (engine_man, engine_cfg)"
proof -
  have "FetchManifest engine_store engine = Inr engine_man"
    using engine_unmarshal(1)
    by (simp add: FetchManifest_def FetchJSON_def engine_store_def engine_def node.defs maxJSONBlobSize_def from_option_def)
  moreover have "FetchJSON unmarshal_rt_config engine_store (node_of (Config engine_man)) = Inr engine_cfg"
    using engine_unmarshal(2)
    by (simp add: FetchJSON_def engine_store_def engine_man_def node.defs maxJSONBlobSize_def from_option_def)
  moreover have "safePathFields engine_cfg = Inr ()" by (simp add: safePathFields_ok engine_cfg_def plain_def)
  moreover have "title engine_layer = ''server''" by (simp add: title_def engine_layer_def lookup_str_def)
  then have "namesLayer engine_man (c_Entrypoint engine_cfg)" "validateLayers sha256_digests engine_man = Inr ()"
    using Base_plain [of "''server''"] sha256_digests_simps(4) [of "''code''"]
    by (simp_all add: namesLayer_def validateLayers_def engine_man_def engine_cfg_def plain_def) (simp add: engine_layer_def)
  ultimately show ?thesis by (simp add: admitted_def) (simp add: engine_man_def engine_cfg_def)
qed

lemma engine_facts:
  "stocked sha256_digests engine_store engine_man" "''/'' \<notin> title ` set (Layers engine_man)"
  "calm engine_os" "numbered engine_os" "neighbours engine_os ''/s'' [''s'']" "IsAbs ''/s''"
  by (simp_all add: stocked_def engine_man_def engine_layer_def engine_store_def faithful_def node.defs title_def
      lookup_str_def AnnotationTitle_def calm_def engine_os_def numbered_def is_digit_def neighbours_def IsAbs_def)

lemma sha256_plain: "plain (Encoded sha256_digests (sha256_digest bs))"
proof -
  have e: "Encoded sha256_digests (sha256_digest bs) = hex_encode (sha256 bs)"
    by (simp add: sha256_digests_def sha256_digest_def)
  have "\<forall>n \<in> set [0..<16]. hex_char n \<noteq> CHR ''/'' \<and> hex_char n \<noteq> CHR ''.''" by code_simp
  then have c: "n < 16 \<Longrightarrow> hex_char n \<noteq> CHR ''/'' \<and> hex_char n \<noteq> CHR ''.''" for n by simp
  have h: "byte x div 16 < 16" for x using byte_less [of x] by (simp add: less_mult_imp_div_less)
  have "CHR ''/'' \<notin> set (hex_encode s) \<and> CHR ''.'' \<notin> set (hex_encode s)" for s
  proof (induction s)
    case (Cons x s)
    with c [OF h, of x] c [of "byte x mod 16"] show ?case by auto
  qed simp
  from this [of "sha256 bs"]
  have "hex_encode (sha256 bs) \<noteq> ''.''" "hex_encode (sha256 bs) \<noteq> ''..''"
    "CHR ''/'' \<notin> set (hex_encode (sha256 bs))" by auto
  moreover have "hex_encode (sha256 bs) \<noteq> []" using length_hex [of "sha256 bs"] length_sha256 by fastforce
  ultimately show ?thesis unfolding e by (simp add: plain_def)
qed

lemma engine_digest: "plain (Encoded sha256_digests (Digest engine))"
  using sha256_plain by (simp add: engine_def)

lemma engine_names: "plain (tree_name sha256_digests engine_cfg engine)"
proof -
  have "plain (dirName engine_cfg)" by (simp add: plain_def dirName_def engine_cfg_def)
  then show ?thesis unfolding tree_name_def using engine_digest by (rule plain_append)
qed

lemma engine_host_facts:
  "found_apart ''/s'' [''s''] engine_host" "wf_fs engine_host"
  "at engine_host [''s'', ''runtimes''] = Some Folder" "at engine_host (home_of [''s''] (c_Name engine_cfg)) = Some Folder"
  "at engine_host [''s'', ''runtimes'', unpackLockName] = Some (Regular False [])"
  "at engine_host (home_of [''s''] (c_Name engine_cfg) @ [''.unpack-7'']) = None"
proof -
  have t: "tree_name sha256_digests engine_cfg engine \<noteq> ''.unpack-7''"
    using staging_differs [of "''7''" engine_cfg "Encoded sha256_digests (Digest engine)"]
    by (auto simp: tree_name_def is_digit_def)
  have r: "rooted_parts ''/s'' = [''s'']" by (simp add: rooted_parts_def parts_def)
  have "at engine_host [''s''] = Some Folder" by (simp add: engine_host_def at_def)
  then have "at (take_out (\<lambda>_. True) engine_host [''s'', ''runtimes'']) [''s''] = Some Folder" by (simp add: tree)
  then show "found_apart ''/s'' [''s''] engine_host" by (simp add: found_apart_def directory_def r)
  show "at engine_host [''s'', ''runtimes''] = Some Folder" "at engine_host (home_of [''s''] (c_Name engine_cfg)) = Some Folder"
    "at engine_host [''s'', ''runtimes'', unpackLockName] = Some (Regular False [])"
    "at engine_host (home_of [''s''] (c_Name engine_cfg) @ [''.unpack-7'']) = None"
    using t by (simp_all add: engine_host_def at_def home_of_def engine_cfg_def unpackLockName_def)
  have p: "plain unpackLockName" "plain ''s''" "plain ''index.json''" "plain ''llama''" "unpackLockName \<noteq> ''llama''"
    by (simp_all add: plain_def unpackLockName_def)
  show "wf_fs engine_host"
    unfolding wf_fs_def
  proof (intro allI impI)
    fix q f assume q: "q \<noteq> []" "at engine_host q = Some f"
    then have "(q, f) \<in> set engine_host" by (simp add: at_def map_of_SomeD)
    then show "list_all plain q \<and> at engine_host (butlast q) = Some Folder"
      using p p(5) [symmetric] engine_names by (auto simp: engine_host_def at_def)
  qed
qed
lemma engine_unpacks:
  "\<exists>fs' entry. Ensure sha256_digests engine_store engine_os ''linux'' ''amd64'' ''/s'' ''e'' engine engine_host = (fs', Inr entry)"
  by (rule Ensure_succeeds [where R = "[''s'']" and man = engine_man and cfg = engine_cfg and s = "''7''"])
     (use engine_admitted engine_facts engine_digest engine_host_facts in \<open>auto simp: engine_os_def\<close>)

theorem Ensure_repairs_witness:
  "\<exists>fs' entry. Ensure sha256_digests engine_store engine_os ''linux'' ''amd64'' ''/s'' ''e'' engine engine_host = (fs', Inr entry)"
  by (rule Ensure_repairs [where R = "[''s'']" and man = engine_man and cfg = engine_cfg and s = "''7''"])
     (use engine_admitted engine_facts engine_digest engine_host_facts in \<open>auto simp: engine_os_def\<close>)

theorem Ensure_unpacks_witness:
  "\<exists>fs' entry man cfg. Ensure sha256_digests engine_store engine_os ''linux'' ''amd64'' ''/s'' ''e'' engine engine_host = (fs', Inr entry) \<and>
     place fs' (parts entry) = Inr (tree_of sha256_digests [''s''] cfg engine @ [c_Entrypoint cfg]) \<and>
     stands sha256_digests fs' (tree_of sha256_digests [''s''] cfg engine) man"
proof -
  obtain fs' entry where e: "Ensure sha256_digests engine_store engine_os ''linux'' ''amd64'' ''/s'' ''e'' engine engine_host = (fs', Inr entry)"
    using engine_unpacks by blast
  from Ensure_unpacks [OF this engine_facts(6) engine_digest engine_facts(4,5) engine_host_facts(1,2)] e
  show ?thesis by blast
qed

theorem Ensure_spares_witness:
  "at (fst (Ensure sha256_digests engine_store engine_os ''linux'' ''amd64'' ''/s'' ''e'' engine engine_host)) [''s'', ''index.json'']
     = at engine_host [''s'', ''index.json'']"
proof -
  obtain fs' r where e: "Ensure sha256_digests engine_store engine_os ''linux'' ''amd64'' ''/s'' ''e'' engine engine_host = (fs', r)"
    by fastforce
  have "meanwhile engine_os = (\<lambda>g. g)" by (simp add: engine_os_def)
  from Ensure_spares [OF e engine_facts(6) engine_digest engine_facts(4) this engine_host_facts(1,2),
    where q = "[''s'', ''index.json'']"] e
  show ?thesis by simp
qed

theorem Ensure_again_witness:
  "\<exists>fs' entry. Ensure sha256_digests engine_store engine_os ''linux'' ''amd64'' ''/s'' ''e'' engine engine_host = (fs', Inr entry) \<and>
     Ensure sha256_digests engine_store engine_os ''linux'' ''amd64'' ''/s'' ''e'' engine fs' = (fs', Inr entry)"
proof -
  obtain fs' entry where e: "Ensure sha256_digests engine_store engine_os ''linux'' ''amd64'' ''/s'' ''e'' engine engine_host = (fs', Inr entry)"
    using engine_unpacks by blast
  have m: "meanwhile engine_os = (\<lambda>g. g)" by (simp add: engine_os_def)
  have "\<not> prefix (tree_of sha256_digests [''s''] engine_cfg engine) [''s'', ''runtimes'', unpackLockName]"
    by (simp add: tree_of_def engine_cfg_def unpackLockName_def)
  then have lock: "at fs' ([''s''] @ [''runtimes'', unpackLockName]) = Some (Regular False [])"
    using Ensure_frame [OF e engine_facts(6) engine_digest engine_facts(4) m engine_host_facts(1,2),
      where q = "[''s'', ''runtimes'', unpackLockName]" and f = "Regular False []"] engine_host_facts(5) engine_admitted
    by auto
  from Ensure_again [OF e engine_facts(6) engine_digest engine_facts(4,5) engine_host_facts(1,2) engine_facts(3) lock] e
  show ?thesis by blast
qed

end
