(* ===== verification/VerifySample.thy ===== *)
theory VerifySample
  imports VerifySpec
begin

text \<open>A host with one signed model in its store, on which the statements about verification apply.\<close>

definition weight_blob :: descriptor where
  "weight_blob = \<lparr>MediaType = ''application/vnd.cncf.model.weight.v1.raw'', Digest = sha256_digest ''GGUF'', Size = 4,
     Annotations = []\<rparr>"

definition sample_payload :: string where
  "sample_payload = buildPayload ''r/a'' (sha256_digest ''model'')"

definition model_node :: node where
  "model_node = \<lparr>MediaType = MediaTypeImageManifest, Digest = sha256_digest ''model'', Size = 1\<rparr>"

definition sig_node :: node where
  "sig_node = \<lparr>MediaType = MediaTypeImageManifest, Digest = sha256_digest ''signature'', Size = 2\<rparr>"

definition payload_layer :: descriptor where
  "payload_layer = \<lparr>MediaType = MediaTypeSimpleSigning, Digest = sha256_digest ''payload'', Size = 3,
     Annotations = [(AnnotationSignature, b64_encode ''s'')]\<rparr>"

definition model_raw :: string where
  "model_raw = show_json (attached_json ''model'' weight_blob weight_blob weight_blob)"

definition sig_raw :: string where
  "sig_raw = show_json (attached_json ArtifactTypeSignature weight_blob payload_layer weight_blob)"

definition sample_store :: target where
  "sample_store = \<lparr>
     t_Resolve = (\<lambda>name. if name = ''r/a:t'' then Inr model_node
       else if suffix_of ''.sig'' name then Inr sig_node else Inl NotFoundErr),
     t_Fetch = (\<lambda>n. if Size n = 1 then Some model_raw else if Size n = 2 then Some sig_raw
       else if Size n = 3 then Some sample_payload else None),
     t_graph = True,
     t_Referrers = (\<lambda>_ _. Inr [])\<rparr>"

definition sample_ref :: reference where
  "sample_ref = \<lparr>rf_Registry = ''r'', rf_Repository = ''a'', rf_Reference = ''t''\<rparr>"

definition sample_key :: key where
  "sample_key sg m \<longleftrightarrow> sg = ''s''"

definition sample_host :: "unit host" where
  "sample_host = \<lparr>
     parse_ref = (\<lambda>_. Some sample_ref),
     ref_text = (\<lambda>r. rf_Registry r @ ''/'' @ rf_Repository r @ '':'' @ rf_Reference r),
     read_file = (\<lambda>f. if f = ''k'' then Some ''pem'' else None),
     load_key = (\<lambda>_. Some sample_key),
     crypto = toy_crypto,
     root_message = (\<lambda>_. None),
     bundle_message = (\<lambda>_. None),
     store = sample_store,
     store_open = (\<lambda>_. Some (''GGUF'', False)),
     remote = (\<lambda>_. None),
     digests = sha256_digests,
     go_quote = id\<rparr>"

definition sample_config :: config where
  "sample_config = \<lparr>c_default_registry = ''r'', c_required = True, c_rehash = False, c_key = [],
     c_policy = Some [sample_rule]\<rparr>"

definition sample_source :: verifySource where
  "sample_source = layoutSource (ref_text sample_host) sample_store sample_ref model_node ''local store''"

lemma model_manifest: "unmarshal_manifest model_raw = Some (attached_manifest ''model'' weight_blob weight_blob)"
  unfolding model_raw_def by (rule unmarshal_attached) (simp_all add: weight_blob_def)

lemma sig_manifest: "unmarshal_manifest sig_raw = Some (attached_manifest ArtifactTypeSignature weight_blob payload_layer)"
  unfolding sig_raw_def by (rule unmarshal_attached) (simp_all add: weight_blob_def payload_layer_def)

lemma sample_resolves:
  "t_Resolve sample_store (ref_text sample_host sample_ref) = Inr model_node"
  "t_Resolve sample_store (SigRef (ref_text sample_host) sample_ref d) = Inr sig_node"
  "t_Resolve sample_store (AttRef (ref_text sample_host) sample_ref d) = Inl NotFoundErr"
proof -
  have "SigTag d \<noteq> ''t''" "AttTag d \<noteq> ''t''"
    by (cases "dash_digest d"; simp add: SigTag_def AttTag_def)+
  then show "t_Resolve sample_store (ref_text sample_host sample_ref) = Inr model_node"
    "t_Resolve sample_store (SigRef (ref_text sample_host) sample_ref d) = Inr sig_node"
    "t_Resolve sample_store (AttRef (ref_text sample_host) sample_ref d) = Inl NotFoundErr"
    by (simp_all add: sample_store_def sample_host_def sample_ref_def SigRef_def AttRef_def SigTag_def AttTag_def
        suffix_of_def)
qed

lemma sample_parse: "Parse (parse_ref sample_host) ''a'' (c_default_registry sample_config) = Inr sample_ref"
  by (simp add: Parse_def sample_host_def sample_config_def sample_ref_def hasRegistryHost_def)

lemma sample_sourced_here: "resolveVerifySource sample_host sample_ref = Inr sample_source"
proof -
  have "store sample_host = sample_store" by (simp add: sample_host_def)
  then show ?thesis
    using sample_resolves by (simp add: resolveVerifySource_def storeHoldsSignature_def sample_source_def)
qed

lemma sample_signed: "key_signed sample_source ''r/a'' sample_key"
proof -
  have ne: "b64_encode ''s'' \<noteq> []" using b64_injective [of "''s''" "[]"] by simp
  have l: "good_layer sample_store ''r/a'' (sha256_digest ''model'') sample_key
      (payload_layer\<lparr>Annotations := rev (Annotations payload_layer)\<rparr>)"
    using decode_buildPayload [of "''r/a''" "sha256_digest ''model''"] ne
    by (simp add: good_layer_def payload_layer_def lookup_str_def sample_store_def sample_key_def sample_payload_def
        node.defs del: b64_encode.simps)
  have "good_manifest sample_store ''r/a'' (sha256_digest ''model'') sample_key sig_node"
    using l sig_manifest
    by (auto simp: good_manifest_def sample_store_def sig_node_def attached_manifest_def)
  then show ?thesis
    using sample_resolves(2)
    by (simp add: key_signed_def candidates_def sample_source_def layoutSource_def) (simp add: model_node_def)
qed

lemma sample_signers:
  "resolveVerifiers sample_host sample_config [] sample_ref =
     Inr \<lparr>verifiers = [\<lparr>nv_name = ''k'', nv_verifier = sample_key\<rparr>], identities = [], as_trustRoot = [],
           as_admitted = keyVerifyPolicy @ '' rule '' @ ''r/**''\<rparr>"
proof -
  have "New [sample_rule] = Inr \<lparr>rules = [sample_rule]\<rparr>" by code_simp
  moreover have "Match (Pattern sample_rule) ''r/a''" by code_simp
  ultimately show ?thesis
    by (simp add: resolveVerifiers_def loadPolicy_def sample_config_def map_error_def RuleFor_def repo_of_def
        sample_ref_def rule_signers_def)
       (simp add: sample_rule_def loadNamedVerifier_def sample_host_def from_option_def)
qed

definition sample_verdict :: verifiedBy where
  "sample_verdict = \<lparr>vb_key = Some sample_key, vb_keyless = None,
     vb_admitted = keyVerifyPolicy @ '' rule '' @ ''r/**'', vb_trustRoot = []\<rparr>"

lemma sample_repo: "repo_of sample_ref = ''r/a''"
  by (simp add: repo_of_def sample_ref_def)

lemma sample_verified: "verifyDigest sample_host sample_config [] sample_source sample_ref = Inr sample_verdict"
proof -
  have "Verify_sig (vs_target sample_source) (vs_sigRef sample_source) ''r/a'' (vs_subject sample_source) sample_key = Inr ()"
    using sample_signed by (simp add: Verify_sig_key_signed)
  then show ?thesis
    by (simp add: verifyDigest_def sample_signers sample_repo sample_verdict_def)
qed

lemma sample_resident: "checkResidentCopy sample_host sample_ref (vs_subject sample_source) = Inr (Some model_node)"
proof -
  have "store sample_host = sample_store" by (simp add: sample_host_def)
  then show ?thesis
    using sample_resolves(1) by (simp add: checkResidentCopy_def sample_source_def layoutSource_def)
qed

lemma sample_no_layers: "LayersFromManifest (attached_manifest ''model'' weight_blob weight_blob) = []"
  by (simp add: LayersFromManifest_def attached_manifest_def source_layer_def weight_blob_def lookup_str_def map_filter_def
      Let_def)

lemma sample_attestation:
  "checkAttestation sample_host sample_verdict sample_source = Inr \<lparr>provenance = [], warned = None\<rparr>"
proof -
  have t: "vs_target sample_source = sample_store" "vs_subject sample_source = model_node"
    "vs_attRef sample_source = AttRef (ref_text sample_host) sample_ref (Digest model_node)"
    by (simp_all add: sample_source_def layoutSource_def)
  have "FetchAttestation sample_store (vs_attRef sample_source) model_node = Inl (NoAttestation (Digest model_node))"
    unfolding t(3) FetchAttestation_def sample_resolves(3)
    by (simp add: hiddenAsAbsent_def attestationReferrers_def) (simp add: sample_store_def)
  moreover have "claimedSources sample_source = Inr 0"
    using model_manifest sample_no_layers
    by (simp add: claimedSources_def t from_option_def) (simp add: sample_store_def model_node_def)
  ultimately show ?thesis
    by (simp add: checkAttestation_def sample_verdict_def t missingAttestation_def)
qed

lemma sample_rehash:
  "Rehash (digests sample_host) (store_blobs sample_host) model_node = Inr \<lparr>Blobs = 3, Bytes = 9\<rparr>"
proof -
  have i: "intact sha256_digests (store_blobs sample_host) (node_of weight_blob)"
    by (simp add: intact_def weight_blob_def node.defs) (simp add: sample_host_def)
  have "Digest weight_blob \<noteq> []" by (simp add: weight_blob_def sha256_digest_def)
  then show ?thesis
    unfolding Rehash_spec
    using i model_manifest int64_small [of 1] int64_small [of 5] int64_small [of 9]
    by (simp add: sample_host_def sample_store_def model_node_def attached_manifest_def maxJSONBlobSize_def)
       (simp add: weight_blob_def node.defs)
qed

section \<open>The statements on it\<close>

lemma policy_governs_witness:
  "\<exists>above r below. [sample_rule] = above @ r # below \<and> Match (Pattern r) ''r/a'' \<and> validateRule r = None"
proof -
  have "c_policy sample_config = Some [sample_rule]" by (simp add: sample_config_def)
  from policy_governs [OF sample_verified this] show ?thesis unfolding sample_repo by blast
qed

lemma sample_gate: "run_gate sample_host sample_config [] ''a'' = Inr model_node"
proof -
  have "vs_subject sample_source = model_node" by (simp add: sample_source_def layoutSource_def)
  then show ?thesis
    by (simp add: run_gate_def sample_parse sample_sourced_here sample_verified map_error_def)
qed

lemma gate_admits_signed_content_witness:
  "\<exists>src allowed. signed_by sample_host src ''r/a'' allowed \<and> Digest (vs_subject src) = Digest model_node \<and>
     blobs_intact sample_host model_node"
proof -
  have g: "verifyGate sample_host sample_config False [] = Some (run_gate sample_host sample_config [])"
    by (simp add: verifyGate_def sample_config_def)
  have c: "checkLoadedContent sample_host sample_ref model_node model_node True = Inr ()"
    by (simp add: checkLoadedContent_def sample_rehash map_error_def)
  have d: "Digest model_node \<noteq> []" by (simp add: model_node_def sha256_digest_def)
  from gate_admits_signed_content [OF g sample_gate c d] sample_parse sample_repo show ?thesis by auto
qed

definition sample_explanation :: explanation where
  "sample_explanation = explain (go_quote sample_host) (ref_text sample_host sample_ref) (Digest model_node)
     sample_source sample_verdict \<lparr>provenance = [], warned = None\<rparr> (Some model_node)
     (Some \<lparr>Blobs = 3, Bytes = 9\<rparr>)"

lemma sample_verify: "verify_cmd sample_host sample_config [] True ''a'' = Inr sample_explanation"
proof -
  have r: "rehashStore sample_host sample_ref (Some model_node) = Inr \<lparr>Blobs = 3, Bytes = 9\<rparr>"
    by (simp add: rehashStore_def sample_rehash map_error_def)
  have s: "vs_subject sample_source = model_node" by (simp add: sample_source_def layoutSource_def)
  note res = sample_resident [unfolded s]
  show ?thesis
    unfolding verify_cmd_def sample_parse
    by (simp add: map_error_def sample_sourced_here sample_verified s res sample_attestation r rehashRequested_def
        sample_explanation_def)
qed

lemma verify_command_sound_witness:
  "\<exists>local. t_Resolve (store sample_host) (ref_text sample_host sample_ref) = Inr local \<and>
     Digest local = Digest model_node \<and> blobs_intact sample_host local"
proof -
  have x: "x_Digest sample_explanation = Digest model_node" by (simp add: sample_explanation_def explain_def)
  have p: "proven LinkContent sample_explanation" by (simp add: sample_explanation_def explain_proven)
  from verify_command_sound [OF sample_verify] p sample_parse show ?thesis unfolding x by auto
qed

lemma verification_is_offline_witness:
  "verify_cmd (elsewhere sample_host (\<lambda>_. Some sample_store)) sample_config [] True ''a'' = verify_cmd sample_host sample_config [] True ''a''"
proof -
  have s: "store sample_host = sample_store" by (simp add: sample_host_def)
  have r: "t_Resolve (store sample_host) (ref_text sample_host sample_ref) = Inr model_node"
    and h: "storeHoldsSignature (store sample_host) (SigRef (ref_text sample_host) sample_ref (Digest model_node)) model_node = Inr True"
    unfolding s storeHoldsSignature_def using sample_resolves by simp_all
  from verification_is_offline [OF sample_parse r h] show ?thesis by blast
qed

lemma Rehash_exact_witness:
  "\<exists>raw man. fetch_all (store_blobs sample_host) model_node = Some raw \<and> unmarshal_manifest raw = Some man \<and>
     intact (digests sample_host) (store_blobs sample_host) (node_of (Config man))"
  using sample_rehash [unfolded Rehash_exact] by auto

end
