(* ===== verification/ServingSample.thy ===== *)
theory ServingSample
  imports ServingSpec RuntimeSample VerifySample
begin

text \<open>The host of the verification samples, seen by run and serve.\<close>

definition sample_spec :: model_spec where
  "sample_spec = \<lparr>
     layer_type = (\<lambda>r f. ''application/vnd.cncf.model.'' @
       (case r of Weight \<Rightarrow> ''weight'' | WeightConfig \<Rightarrow> ''weight.config'' | Doc \<Rightarrow> ''doc'' | Code \<Rightarrow> ''code''
        | Dataset \<Rightarrow> ''dataset'') @ ''.v1.'' @
       (case f of Raw \<Rightarrow> ''raw'' | Tar \<Rightarrow> ''tar'' | Gzip \<Rightarrow> ''tar+gzip'' | Zstd \<Rightarrow> ''tar+zstd'')),
     model_manifest_type = ''application/vnd.cncf.model.manifest.v1+json'',
     model_config_type = ''application/vnd.cncf.model.config.v1+json'',
     config_format = (\<lambda>_. None)\<rparr>"

lemma sample_host_store [simp]: "store sample_host = sample_store" "digests sample_host = sha256_digests"
  "store_open sample_host n = Some (''GGUF'', False)"
  by (simp_all add: sample_host_def)

lemma sample_named: "well_named sample_host"
proof -
  have r: "t_Resolve sample_store s = Inr n \<Longrightarrow> n = model_node \<or> n = sig_node" for s n
    by (auto simp: sample_store_def split: if_splits)
  have d: "n = model_node \<or> n = sig_node \<Longrightarrow> Digest n \<noteq> [] \<and> plain (Encoded sha256_digests (Digest n))" for n
    using sha256_plain by (auto simp: model_node_def sig_node_def sha256_digest_def)
  have "registrySource sample_host ref b \<noteq> Inr src" for ref b src
    by (simp add: registrySource_def sample_host_def)
  then have s: "resolveVerifySource sample_host ref = Inr src \<Longrightarrow> \<exists>s. t_Resolve sample_store s = Inr (vs_subject src)" for ref src
    by (auto simp: resolveVerifySource_def layoutSource_def Let_def split: sum.splits if_splits bool.splits)
  have "addressed sample_host" unfolding addressed_def using s r d by blast
  moreover have "ref_text sample_host rf \<noteq> []" for rf by (simp add: sample_host_def)
  ultimately show ?thesis unfolding well_named_def sample_host_store using r d by blast
qed

lemma sample_kind: "KindOf sample_spec (MediaType weight_blob) = LayerKindWeight" "IsRaw sample_spec (MediaType weight_blob)"
  by (simp_all add: IsRaw_def KindOf_def kindByMediaType_def sample_spec_def weight_blob_def suffix_def)

lemma sample_info: "\<exists>info. loadModelInfo sample_spec sample_host ''/s'' ref model_node = Inr info"
proof -
  have "FetchManifest (store_blobs sample_host) model_node = Inr (attached_manifest ''model'' weight_blob weight_blob)"
    using model_manifest
    by (simp add: FetchManifest_def FetchJSON_def maxJSONBlobSize_def from_option_def) (simp add: sample_store_def model_node_def)
  moreover have "Layers (attached_manifest ''model'' weight_blob weight_blob) = [weight_blob]"
    by (simp add: attached_manifest_def weight_blob_def)
  moreover have "MediaType (Config (attached_manifest ''model'' weight_blob weight_blob)) \<noteq> model_config_type sample_spec"
    by (simp add: attached_manifest_def weight_blob_def sample_spec_def)
  moreover have "\<exists>p. BlobPath sample_host ''/s'' (node_of weight_blob) = Inr p"
    using sha256_digests_simps(4) [of "''GGUF''"] by (simp add: BlobPath_def weight_blob_def node.defs)
  ultimately show ?thesis
    using sample_kind by (auto simp: loadModelInfo_def requireGGUF_def gguf_magic_def map_error_def)
qed

lemma sample_gate_named:
  "verifyGate sample_host sample_config False [] = Some (run_gate sample_host sample_config [])"
  "run_gate sample_host sample_config [] (ref_text sample_host sample_ref) = Inr model_node"
proof -
  show "verifyGate sample_host sample_config False [] = Some (run_gate sample_host sample_config [])"
    by (simp add: verifyGate_def sample_config_def)
  have "Parse (parse_ref sample_host) (ref_text sample_host sample_ref) (c_default_registry sample_config) = Inr sample_ref"
    by (simp add: Parse_def sample_host_def sample_config_def sample_ref_def hasRegistryHost_def)
  moreover have "vs_subject sample_source = model_node" by (simp add: sample_source_def layoutSource_def)
  ultimately show "run_gate sample_host sample_config [] (ref_text sample_host sample_ref) = Inr model_node"
    by (simp add: run_gate_def sample_sourced_here sample_verified map_error_def)
qed

lemma sample_checked: "checkLoadedContent sample_host ref model_node model_node False = Inr ()"
  by (simp add: checkLoadedContent_def)

theorem serve_loads_signed_witness:
  "\<exists>p mem d. backend_Spec sample_spec (Inr sample_host) (\<lambda>h. verifyGate h sample_config False []) False ''/s'' ''/bin/llama-server'' []
      (\<lambda>_. Some 4) (\<lambda>_. sample_ref) (ref_text sample_host sample_ref) = Inr (p, mem) \<and>
    signed_artifact sample_host sample_config [] (ref_text sample_host sample_ref) (Digest d) \<and>
    weights_at sample_spec sample_host ''/s'' d (p_ModelPath p)"
proof -
  obtain info where info: "loadModelInfo sample_spec sample_host ''/s'' (ref_text sample_host sample_ref) model_node = Inr info"
    using sample_info by blast
  have r: "t_Resolve (store sample_host) (ref_text sample_host sample_ref) = Inr model_node" using sample_resolves(1) by simp
  obtain p mem where b: "backend_Spec sample_spec (Inr sample_host) (\<lambda>h. verifyGate h sample_config False []) False ''/s''
      ''/bin/llama-server'' [] (\<lambda>_. Some 4) (\<lambda>_. sample_ref) (ref_text sample_host sample_ref) = Inr (p, mem)"
    using info r sample_gate_named sample_checked
    by (simp add: backend_Spec_def Let_def map_error_def from_option_def)
  have "False \<or> c_required sample_config" by (simp add: sample_config_def)
  moreover have "addressed sample_host" using sample_named by (simp add: well_named_def)
  ultimately show ?thesis using serve_loads_signed [OF b] b by blast
qed


theorem own_libraries_first_witness:
  "\<exists>v. runtimeEnv ''linux'' engine_os [([''e''], Folder), ([''e'', ''libggml.so.0''], Regular False [])] [''HOME=/'', ''LD_LIBRARY_PATH=/lib''] ''/e'' =
      [''HOME=/'', ''LD_LIBRARY_PATH='' @ v] \<and> (v = ''/e'' \<or> prefix ''/e:'' v)"
proof -
  have "parts ''/e'' = [''e'']" by (simp add: parts_def)
  moreover have "contains_sub ''libggml.so.0'' ''.so.''"
    unfolding contains_sub_iff by (rule exI [of _ "''libggml''"], rule exI [of _ "''0''"]) simp
  ultimately have "shipsLibraries engine_os [([''e''], Folder), ([''e'', ''libggml.so.0''], Regular False [])] ''/e''"
    by (simp add: shipsLibraries_def read_dir_def directory_def at_def children_def engine_os_def isSharedLibrary_def)
  from own_libraries_first [OF this, of "''linux''" "[''HOME=/'', ''LD_LIBRARY_PATH=/lib'']"]
  show ?thesis by (simp add: libraryPathVar_def)
qed

end
