(* ===== verification/Transport.thy ===== *)
theory Transport
  imports Download Signing
begin

text \<open>
  \<^verbatim>\<open>internal/transfer/pull.go\<close>, \<^verbatim>\<open>push.go\<close> and the registry to registry part of
  \<^verbatim>\<open>saveload.go\<close>. A repository handle is a record over the registry's state: what it answers
  now, and the state it is in by the next request, so that a tag may move between two of them. The
  content library's \<^verbatim>\<open>oras.Copy\<close> and the local layout are records of parameters.
\<close>

section \<open>The graph of a manifest\<close>

definition isManifestMediaType :: "string \<Rightarrow> bool" where
  "isManifestMediaType mt \<longleftrightarrow> mt \<in> {MediaTypeImageManifest, MediaTypeImageIndex,
     ''application/vnd.docker.distribution.manifest.v2+json'',
     ''application/vnd.docker.distribution.manifest.list.v2+json''}"

text \<open>The queue, what has been seen, and the leaves so far.\<close>

partial_function (option) leaf_loop ::
    "(node \<Rightarrow> 'e + node list) \<Rightarrow> string list \<Rightarrow> node list \<Rightarrow> node list \<Rightarrow> ('e + node list) option" where
  "leaf_loop succ seen leaves queue =
     (case queue of
        [] \<Rightarrow> Some (Inr leaves)
      | d # ds \<Rightarrow>
          if Digest d \<in> set seen then leaf_loop succ seen leaves ds
          else if \<not> isManifestMediaType (MediaType d)
          then leaf_loop succ (Digest d # seen) (leaves @ [d]) ds
          else (case succ d of
              Inl e \<Rightarrow> Some (Inl e)
            | Inr ns \<Rightarrow> leaf_loop succ (Digest d # seen) leaves (ds @ ns)))"

definition collectLeafBlobs :: "(node \<Rightarrow> 'e + node list) \<Rightarrow> node \<Rightarrow> ('e + node list) option" where
  "collectLeafBlobs succ root = leaf_loop succ [] [] [root]"

section \<open>Handles\<close>

record 'r handle =
  lk_view :: "'r \<Rightarrow> target"
  lk_later :: "'r \<Rightarrow> 'r"
  lk_successors :: "'r \<Rightarrow> node \<Rightarrow> lookup_error + node list"
  lk_serve :: "node \<Rightarrow> 'r serve"
  lk_whole :: "'r \<Rightarrow> node \<Rightarrow> string option"

text \<open>
  What a copy is made into: \<^verbatim>\<open>oras.Copy\<close> from a source under a name of the source, to a name of
  the destination.
\<close>

type_synonym 's copier = "target \<Rightarrow> string \<Rightarrow> string \<Rightarrow> 's \<Rightarrow> (lookup_error + node) \<times> 's"

record 's local_store =
  st_target :: "'s \<Rightarrow> target"
  st_has :: "'s \<Rightarrow> node \<Rightarrow> unit + bool"
  st_push :: "'s push"
  st_copy :: "'s copier"
  st_ingest :: "'s \<Rightarrow> string option"

datatype carried = CarriedSignature | CarriedAttestation | CarriedBundle

datatype transfer_error =
    NoRepository | ResolveErr lookup_error | TagMoved string string | WalkErr lookup_error | IngestErr
  | ExistsErr | DownloadErr dl_error | CopyErr lookup_error | LookupErr carried lookup_error
  | CarryErr carried lookup_error | BundleLookup bundle_error | NotInStore lookup_error | MountErr

definition ask :: "'r handle \<Rightarrow> (target \<Rightarrow> 'a) \<Rightarrow> ('s, 'r) world \<Rightarrow> 'a \<times> ('s, 'r) world" where
  "ask K q w = (q (lk_view K (server w)), w\<lparr>server := lk_later K (server w)\<rparr>)"

text \<open>\<^verbatim>\<open>oras.Copy\<close> into the local store.\<close>

definition copy_here :: "'r handle \<Rightarrow> 's local_store \<Rightarrow> string \<Rightarrow> string \<Rightarrow> ('s, 'r) world \<Rightarrow>
    (lookup_error + node) \<times> ('s, 'r) world" where
  "copy_here K S src name w =
     (case st_copy S (lk_view K (server w)) src name (blobs w) of (res, s) \<Rightarrow>
        (res, w\<lparr>blobs := s, server := lk_later K (server w)\<rparr>))"

section \<open>What travels with a model\<close>

text \<open>A signature and an attestation are found under a tag, and copied under the tag's name here.\<close>

definition fetch_tagged :: "carried \<Rightarrow> 'r handle \<Rightarrow> 's local_store \<Rightarrow> string \<Rightarrow> string \<Rightarrow> ('s, 'r) world \<Rightarrow>
    (transfer_error + bool) \<times> ('s, 'r) world" where
  "fetch_tagged what K S tag name w =
     (case ask K (\<lambda>t. t_Resolve t tag) w of
        (Inl e, w1) \<Rightarrow> (if e = NotFoundErr then Inr False else Inl (LookupErr what e), w1)
      | (Inr _, w1) \<Rightarrow>
          (case copy_here K S tag name w1 of
             (Inl e, w2) \<Rightarrow> (Inl (CarryErr what e), w2)
           | (Inr _, w2) \<Rightarrow> (Inr True, w2)))"

definition fetchSignature :: "(reference \<Rightarrow> string) \<Rightarrow> 'r handle \<Rightarrow> 's local_store \<Rightarrow> reference \<Rightarrow> string \<Rightarrow>
    ('s, 'r) world \<Rightarrow> (transfer_error + bool) \<times> ('s, 'r) world" where
  "fetchSignature str K S ref d = fetch_tagged CarriedSignature K S (SigTag d) (SigRef str ref d)"

definition fetchAttestation :: "(reference \<Rightarrow> string) \<Rightarrow> 'r handle \<Rightarrow> 's local_store \<Rightarrow> reference \<Rightarrow> string \<Rightarrow>
    ('s, 'r) world \<Rightarrow> (transfer_error + bool) \<times> ('s, 'r) world" where
  "fetchAttestation str K S ref d = fetch_tagged CarriedAttestation K S (AttTag d) (AttRef str ref d)"

fun copy_bundles :: "(reference \<Rightarrow> string) \<Rightarrow> 'r handle \<Rightarrow> 's local_store \<Rightarrow> reference \<Rightarrow> referrer list \<Rightarrow>
    ('s, 'r) world \<Rightarrow> (transfer_error + bool) \<times> ('s, 'r) world" where
  "copy_bundles str K S ref [] w = (Inr True, w)"
| "copy_bundles str K S ref (b # bs) w =
     (case copy_here K S (Digest b) (BundleRef str ref (Digest b)) w of
        (Inl e, w') \<Rightarrow> (Inl (CarryErr CarriedBundle e), w')
      | (Inr _, w') \<Rightarrow> copy_bundles str K S ref bs w')"

definition fetchBundles :: "(reference \<Rightarrow> string) \<Rightarrow> 'r handle \<Rightarrow> 's local_store \<Rightarrow> reference \<Rightarrow> node \<Rightarrow>
    ('s, 'r) world \<Rightarrow> (transfer_error + bool) \<times> ('s, 'r) world" where
  "fetchBundles str K S ref subject w =
     (case ask K (\<lambda>t. BundleReferrers t subject) w of
        (Inl e, w1) \<Rightarrow> (Inl (BundleLookup e), w1)
      | (Inr [], w1) \<Rightarrow> (Inr False, w1)
      | (Inr bs, w1) \<Rightarrow> copy_bundles str K S ref bs w1)"

section \<open>Pull\<close>

text \<open>
  The blobs are fetched concurrently; \<open>order\<close> is the order they come to their turn in. Each
  download has conditions of its own.
\<close>

fun pull_blobs :: "digest_lib \<Rightarrow> 'r handle \<Rightarrow> 's local_store \<Rightarrow> (node \<Rightarrow> conditions) \<Rightarrow> string \<Rightarrow> node list \<Rightarrow>
    ('s, 'r) world \<Rightarrow> (transfer_error + unit) \<times> ('s, 'r) world" where
  "pull_blobs L K S c dir [] w = (Inr (), w)"
| "pull_blobs L K S c dir (d # ds) w =
     (case st_has S (blobs w) d of
        Inl _ \<Rightarrow> (Inl ExistsErr, w)
      | Inr True \<Rightarrow> pull_blobs L K S c dir ds w
      | Inr False \<Rightarrow>
          (case downloadBlob L (lk_serve K d) (lk_whole K (server w)) (st_push S) (c d) dir d w of
             (Inl e, w') \<Rightarrow> (Inl (DownloadErr e), w')
           | (Inr _, w') \<Rightarrow> pull_blobs L K S c dir ds w'))"

record pulled =
  pl_desc :: node
  pl_signature :: "transfer_error + bool"
  pl_attestation :: "transfer_error + bool"
  pl_bundle :: "transfer_error + bool"

text \<open>After the model is here: what is carried beside it, whose failure is reported and no more.\<close>

definition supplement :: "(reference \<Rightarrow> string) \<Rightarrow> 'r handle \<Rightarrow> 's local_store \<Rightarrow> reference \<Rightarrow> node \<Rightarrow>
    ('s, 'r) world \<Rightarrow> pulled \<times> ('s, 'r) world" where
  "supplement str K S ref desc w =
     (case fetchSignature str K S ref (Digest desc) w of (sg, w1) \<Rightarrow>
      case fetchAttestation str K S ref (Digest desc) w1 of (att, w2) \<Rightarrow>
      case fetchBundles str K S ref desc w2 of (bd, w3) \<Rightarrow>
        (\<lparr>pl_desc = desc, pl_signature = sg, pl_attestation = att, pl_bundle = bd\<rparr>, w3))"

definition pull_content :: "digest_lib \<Rightarrow> (reference \<Rightarrow> string) \<Rightarrow> 'r handle \<Rightarrow> 's local_store \<Rightarrow> (node \<Rightarrow> conditions) \<Rightarrow>
    reference \<Rightarrow> node \<Rightarrow> node list \<Rightarrow> ('s, 'r) world \<Rightarrow> (transfer_error + pulled) \<times> ('s, 'r) world" where
  "pull_content L str K S c ref root leaves w =
     (case st_ingest S (blobs w) of
        None \<Rightarrow> (Inl IngestErr, w)
      | Some dir \<Rightarrow>
          (case pull_blobs L K S c dir leaves w of
             (Inl e, w1) \<Rightarrow> (Inl e, w1)
           | (Inr _, w1) \<Rightarrow>
               (case copy_here K S (Digest root) (str ref) w1 of
                  (Inl e, w2) \<Rightarrow> (Inl (CopyErr e), w2)
                | (Inr desc, w2) \<Rightarrow> map_prod Inr id (supplement str K S ref desc w2))))"

definition Pull :: "digest_lib \<Rightarrow> (reference \<Rightarrow> string) \<Rightarrow> (reference \<Rightarrow> 'r handle option) \<Rightarrow> 's local_store \<Rightarrow>
    (node \<Rightarrow> conditions) \<Rightarrow> (node list \<Rightarrow> node list) \<Rightarrow> reference \<Rightarrow> string \<Rightarrow> ('s, 'r) world \<Rightarrow>
    ((transfer_error + pulled) \<times> ('s, 'r) world) option" where
  "Pull L str Repository S c order ref expected w =
     (case Repository ref of
        None \<Rightarrow> Some (Inl NoRepository, w)
      | Some K \<Rightarrow>
          (case ask K (\<lambda>t. t_Resolve t (rf_Reference ref)) w of
             (Inl e, w1) \<Rightarrow> Some (Inl (ResolveErr e), w1)
           | (Inr root, w1) \<Rightarrow>
               if expected \<noteq> [] \<and> Digest root \<noteq> expected
               then Some (Inl (TagMoved (Digest root) expected), w1)
               else (case collectLeafBlobs (lk_successors K (server w1)) root of
                   None \<Rightarrow> None
                 | Some (Inl e) \<Rightarrow> Some (Inl (WalkErr e), w1)
                 | Some (Inr leaves) \<Rightarrow> Some (pull_content L str K S c ref root (order leaves) w1))))"

section \<open>Push\<close>

fun mount_scan :: "(string \<Rightarrow> reference option) \<Rightarrow> reference \<Rightarrow> string list \<Rightarrow> string list \<Rightarrow> string list \<Rightarrow> string list" where
  "mount_scan parse ref seen out [] = out"
| "mount_scan parse ref seen out (e # es) =
     (case parse e of
        None \<Rightarrow> mount_scan parse ref seen out es
      | Some r \<Rightarrow>
          if rf_Registry r \<noteq> rf_Registry ref \<or> rf_Repository r \<in> set seen then mount_scan parse ref seen out es
          else if length (out @ [rf_Repository r]) = 3 then out @ [rf_Repository r]
          else mount_scan parse ref (rf_Repository r # seen) (out @ [rf_Repository r]) es)"

text \<open>The names come from the store's listing, which can fail.\<close>

definition mountCandidates :: "(string \<Rightarrow> reference option) \<Rightarrow> 'e + string list \<Rightarrow> reference \<Rightarrow> 'e + string list" where
  "mountCandidates parse listed ref =
     bind_res listed (\<lambda>es. Inr (mount_scan parse ref [rf_Repository ref] [] es))"

text \<open>A copy into a registry asks for mount candidates, blob by blob.\<close>

type_synonym ('e, 'r) uploader = "('e + string list) \<Rightarrow> target \<Rightarrow> string \<Rightarrow> string \<Rightarrow> 'r \<Rightarrow> (lookup_error + node) \<times> 'r"

definition Push :: "(reference \<Rightarrow> string) \<Rightarrow> (string \<Rightarrow> reference option) \<Rightarrow> ('e, 'r) uploader option \<Rightarrow> target \<Rightarrow>
    'e + string list \<Rightarrow> reference \<Rightarrow> 'r \<Rightarrow> (transfer_error + node) \<times> 'r" where
  "Push str parse upload local listed ref r =
     (case upload of
        None \<Rightarrow> (Inl NoRepository, r)
      | Some copy \<Rightarrow>
          (case t_Resolve local (str ref) of
             Inl e \<Rightarrow> (Inl (NotInStore e), r)
           | Inr _ \<Rightarrow>
               (case copy (mountCandidates parse listed ref) local (str ref) (rf_Reference ref) r of
                  (Inl e, r') \<Rightarrow> (Inl (CopyErr e), r')
                | (Inr d, r') \<Rightarrow> (Inr d, r'))))"

section \<open>From registry to registry\<close>

text \<open>The source answers request by request; the two registries are the two halves of the world.\<close>

definition mirror_tagged :: "carried \<Rightarrow> 'r handle \<Rightarrow> 's local_store \<Rightarrow> string \<Rightarrow> ('s, 'r) world \<Rightarrow>
    (transfer_error + bool) \<times> ('s, 'r) world" where
  "mirror_tagged what K D tag = fetch_tagged what K D tag tag"

fun mirror_bundles :: "'r handle \<Rightarrow> 's local_store \<Rightarrow> referrer list \<Rightarrow> ('s, 'r) world \<Rightarrow>
    (transfer_error + bool) \<times> ('s, 'r) world" where
  "mirror_bundles K D [] w = (Inr True, w)"
| "mirror_bundles K D (b # bs) w =
     (case copy_here K D (Digest b) (Digest b) w of
        (Inl e, w') \<Rightarrow> (Inl (CarryErr CarriedBundle e), w')
      | (Inr _, w') \<Rightarrow> mirror_bundles K D bs w')"

definition mirror_keyless :: "'r handle \<Rightarrow> 's local_store \<Rightarrow> node \<Rightarrow> ('s, 'r) world \<Rightarrow>
    (transfer_error + bool) \<times> ('s, 'r) world" where
  "mirror_keyless K D subject w =
     (case ask K (\<lambda>t. BundleReferrers t subject) w of
        (Inl e, w1) \<Rightarrow> (Inl (BundleLookup e), w1)
      | (Inr [], w1) \<Rightarrow> (Inr False, w1)
      | (Inr bs, w1) \<Rightarrow> mirror_bundles K D bs w1)"

definition Copy :: "(reference \<Rightarrow> 'r handle option) \<Rightarrow> (reference \<Rightarrow> 's local_store option) \<Rightarrow> reference \<Rightarrow> reference \<Rightarrow>
    ('s, 'r) world \<Rightarrow> (transfer_error + pulled) \<times> ('s, 'r) world" where
  "Copy Src Dst src dst w =
     (case (Src src, Dst dst) of
        (Some K, Some D) \<Rightarrow>
          (case copy_here K D (rf_Reference src) (rf_Reference dst) w of
             (Inl e, w1) \<Rightarrow> (Inl (CopyErr e), w1)
           | (Inr desc, w1) \<Rightarrow>
               (case mirror_tagged CarriedSignature K D (SigTag (Digest desc)) w1 of (sg, w2) \<Rightarrow>
                case mirror_tagged CarriedAttestation K D (AttTag (Digest desc)) w2 of (att, w3) \<Rightarrow>
                case mirror_keyless K D desc w3 of (bd, w4) \<Rightarrow>
                  (Inr \<lparr>pl_desc = desc, pl_signature = sg, pl_attestation = att, pl_bundle = bd\<rparr>, w4)))
      | _ \<Rightarrow> (Inl NoRepository, w))"

end
