(* ===== verification/TransportSpec.thy ===== *)
theory TransportSpec
  imports Transport DownloadSafety
begin

text \<open>What the transfer operations promise: the walk over a manifest's graph ends and finds every
  blob, and a pull installs the artifact that was asked for, whatever the registry answers later.\<close>

section \<open>The walk\<close>

inductive_set graph :: "(node \<Rightarrow> 'e + node list) \<Rightarrow> node \<Rightarrow> node set" for succ root where
  graph_root: "root \<in> graph succ root"
| graph_step: "n \<in> graph succ root \<Longrightarrow> isManifestMediaType (MediaType n) \<Longrightarrow> succ n = Inr ns \<Longrightarrow> m \<in> set ns \<Longrightarrow>
    m \<in> graph succ root"

definition leaves_in :: "node set \<Rightarrow> node set" where
  "leaves_in V = {n \<in> V. \<not> isManifestMediaType (MediaType n)}"

text \<open>The nodes seen, and what is known while the queue is worked off.\<close>

definition visited :: "(node \<Rightarrow> 'e + node list) \<Rightarrow> node \<Rightarrow> string list \<Rightarrow> node set" where
  "visited succ root seen = {n \<in> graph succ root. Digest n \<in> set seen}"

definition walking :: "(node \<Rightarrow> 'e + node list) \<Rightarrow> node \<Rightarrow> string list \<Rightarrow> node list \<Rightarrow> node list \<Rightarrow> bool" where
  "walking succ root seen leaves queue \<longleftrightarrow>
     set queue \<subseteq> graph succ root \<and> set leaves = leaves_in (visited succ root seen) \<and> distinct leaves \<and>
     root \<in> visited succ root seen \<union> set queue \<and>
     (\<forall>n \<in> visited succ root seen. isManifestMediaType (MediaType n) \<longrightarrow>
        (\<exists>ns. succ n = Inr ns \<and> set ns \<subseteq> visited succ root seen \<union> set queue))"

lemma visited_add:
  assumes "inj_on Digest (graph succ root)" and "d \<in> graph succ root"
  shows "visited succ root (Digest d # seen) = insert d (visited succ root seen)"
  using assms by (auto simp: visited_def dest: inj_onD)

lemma walking_done:
  assumes "walking succ root seen leaves []"
  shows "set leaves = leaves_in (graph succ root) \<and> distinct leaves"
proof -
  have "n \<in> visited succ root seen" if "n \<in> graph succ root" for n
    using that
  proof (induction rule: graph.induct)
    case graph_root
    then show ?case using assms by (simp add: walking_def)
  next
    case (graph_step n ns m)
    from assms have "\<exists>ns. succ n = Inr ns \<and> set ns \<subseteq> visited succ root seen"
      using graph_step.IH graph_step.hyps(2) by (simp add: walking_def)
    with graph_step.hyps(3,4) show ?case by auto
  qed
  then have "visited succ root seen = graph succ root" by (auto simp: visited_def)
  with assms show ?thesis by (simp add: walking_def)
qed

lemma walking_seen:
  assumes "walking succ root seen leaves (d # ds)" and "Digest d \<in> set seen"
  shows "walking succ root seen leaves ds"
proof -
  have "d \<in> visited succ root seen" using assms by (simp add: walking_def visited_def)
  with assms(1) show ?thesis by (fastforce simp: walking_def)
qed

lemma walking_leaf:
  assumes inj: "inj_on Digest (graph succ root)" and w: "walking succ root seen leaves (d # ds)"
    and new: "Digest d \<notin> set seen" and leaf: "\<not> isManifestMediaType (MediaType d)"
  shows "walking succ root (Digest d # seen) (leaves @ [d]) ds"
proof -
  have d: "d \<in> graph succ root" using w by (simp add: walking_def)
  have v: "visited succ root (Digest d # seen) = insert d (visited succ root seen)"
    by (rule visited_add [OF inj d])
  have "d \<notin> visited succ root seen" using new by (simp add: visited_def)
  with w leaf show ?thesis unfolding walking_def v by (fastforce simp: leaves_in_def)
qed

lemma walking_manifest:
  assumes inj: "inj_on Digest (graph succ root)" and w: "walking succ root seen leaves (d # ds)"
    and man: "isManifestMediaType (MediaType d)" and ns: "succ d = Inr ns"
  shows "walking succ root (Digest d # seen) leaves (ds @ ns)"
proof -
  have d: "d \<in> graph succ root" using w by (simp add: walking_def)
  have v: "visited succ root (Digest d # seen) = insert d (visited succ root seen)"
    by (rule visited_add [OF inj d])
  have g: "set ns \<subseteq> graph succ root" using graph_step [OF d man ns] by blast
  show ?thesis
    unfolding walking_def v
  proof (intro conjI ballI impI)
    show "set (ds @ ns) \<subseteq> graph succ root" using w g by (simp add: walking_def)
    show "set leaves = leaves_in (insert d (visited succ root seen))"
      using w man by (auto simp: walking_def leaves_in_def)
    show "distinct leaves" using w by (simp add: walking_def)
    show "root \<in> insert d (visited succ root seen) \<union> set (ds @ ns)" using w by (auto simp: walking_def)
    fix n assume n: "n \<in> insert d (visited succ root seen)" and mn: "isManifestMediaType (MediaType n)"
    show "\<exists>ms. succ n = Inr ms \<and> set ms \<subseteq> insert d (visited succ root seen) \<union> set (ds @ ns)"
    proof (cases "n = d")
      case True
      with ns show ?thesis by auto
    next
      case False
      with n have "n \<in> visited succ root seen" by simp
      with w mn obtain ms where "succ n = Inr ms" "set ms \<subseteq> visited succ root seen \<union> set (d # ds)"
        unfolding walking_def by blast
      then show ?thesis by auto
    qed
  qed
qed

text \<open>With finitely many digests in reach the queue runs empty: each step either shortens it or marks a
  new digest.\<close>

lemma leaf_loop_ends:
  assumes fin: "finite (graph succ root)" and inj: "inj_on Digest (graph succ root)"
    and w: "walking succ root seen leaves queue"
  shows "\<exists>res. leaf_loop succ seen leaves queue = Some res \<and>
    (case res of Inl e \<Rightarrow> \<exists>n \<in> graph succ root. isManifestMediaType (MediaType n) \<and> succ n = Inl e
     | Inr ls \<Rightarrow> set ls = leaves_in (graph succ root) \<and> distinct ls)"
  using w
proof (induction "(seen, leaves, queue)" arbitrary: seen leaves queue
    rule: wf_induct_rule [OF wf_measures [of "[\<lambda>(s, _, _). card (graph succ root - visited succ root s), \<lambda>(_, _, q). length q]"]])
  case 1
  note IH = "1.hyps" and w = "1.prems"
  show ?case
  proof (cases queue)
    case Nil
    with walking_done [of succ root seen leaves] w show ?thesis by (simp add: leaf_loop.simps)
  next
    case (Cons d ds)
    show ?thesis
    proof (cases "Digest d \<in> set seen")
      case True
      with IH [of seen leaves ds] walking_seen [of succ root seen leaves d ds] w Cons show ?thesis
        by (simp add: leaf_loop.simps [of _ _ _ "d # ds"])
    next
      case False
      have d: "d \<in> graph succ root" using w Cons by (simp add: walking_def)
      have "d \<notin> visited succ root seen" using False by (simp add: visited_def)
      then have less: "card (graph succ root - visited succ root (Digest d # seen)) < card (graph succ root - visited succ root seen)"
        using d fin by (intro psubset_card_mono) (auto simp: visited_add [OF inj d])
      show ?thesis
      proof (cases "isManifestMediaType (MediaType d)")
        case False': False
        with IH [of "Digest d # seen" "leaves @ [d]" ds] walking_leaf [OF inj, of seen leaves d ds] w Cons False less
        show ?thesis by (simp add: leaf_loop.simps [of _ _ _ "d # ds"])
      next
        case True
        show ?thesis
        proof (cases "succ d")
          case (Inl e)
          with True False d Cons show ?thesis by (auto simp: leaf_loop.simps [of _ _ _ "d # ds"])
        next
          case (Inr ns)
          with IH [of "Digest d # seen" leaves "ds @ ns"] walking_manifest [OF inj, of seen leaves d ds ns] w Cons False less True
          show ?thesis by (simp add: leaf_loop.simps [of _ _ _ "d # ds"])
        qed
      qed
    qed
  qed
qed

lemma collectLeafBlobs_ends:
  assumes "finite (graph succ root)" and "inj_on Digest (graph succ root)"
  shows "\<exists>res. collectLeafBlobs succ root = Some res \<and>
    (case res of Inl e \<Rightarrow> \<exists>n \<in> graph succ root. isManifestMediaType (MediaType n) \<and> succ n = Inl e
     | Inr ls \<Rightarrow> set ls = leaves_in (graph succ root) \<and> distinct ls)"
  unfolding collectLeafBlobs_def
  by (rule leaf_loop_ends [OF assms]) (simp add: walking_def visited_def leaves_in_def graph_root)

section \<open>What the content library does\<close>

text \<open>
  The library's documented behaviour, as far as a pull relies on it: a copy ends with the destination's
  name on what the source's name resolved to, and neither a copy nor a write takes content away or
  touches another name; a digest resolves to content of that digest.
\<close>

definition copies_by_name :: "'s local_store \<Rightarrow> bool" where
  "copies_by_name S \<longleftrightarrow> (\<forall>t src name s res s'. st_copy S t src name s = (res, s') \<longrightarrow>
     (\<forall>m. m \<noteq> name \<longrightarrow> t_Resolve (st_target S s') m = t_Resolve (st_target S s) m) \<and>
     (\<forall>n. st_has S s n = Inr True \<longrightarrow> st_has S s' n = Inr True) \<and>
     (\<forall>d. res = Inr d \<longrightarrow> t_Resolve t src = Inr d \<and> t_Resolve (st_target S s') name = Inr d))"

definition writes_add :: "'s local_store \<Rightarrow> bool" where
  "writes_add S \<longleftrightarrow> (\<forall>s d b res s'. st_push S s d b = (res, s') \<longrightarrow>
     t_Resolve (st_target S s') = t_Resolve (st_target S s) \<and>
     (\<forall>n. st_has S s n = Inr True \<longrightarrow> st_has S s' n = Inr True) \<and>
     (res \<noteq> Inl PushFailed \<longrightarrow> st_has S s' d = Inr True))"

definition digests_resolve :: "'r handle \<Rightarrow> bool" where
  "digests_resolve K \<longleftrightarrow> (\<forall>r r' name d d'. t_Resolve (lk_view K r) name = Inr d \<longrightarrow>
     t_Resolve (lk_view K r') (Digest d) = Inr d' \<longrightarrow> Digest d' = Digest d)"

section \<open>The steps of a pull\<close>

text \<open>What a step keeps of the local store: all content, and every name but some.\<close>

definition kept :: "'s local_store \<Rightarrow> string set \<Rightarrow> 's \<Rightarrow> 's \<Rightarrow> bool" where
  "kept S names s s' \<longleftrightarrow> (\<forall>n. st_has S s n = Inr True \<longrightarrow> st_has S s' n = Inr True) \<and>
     (\<forall>m. m \<notin> names \<longrightarrow> t_Resolve (st_target S s') m = t_Resolve (st_target S s) m)"

lemma kept_refl [simp]: "kept S names s s"
  by (simp add: kept_def)

lemma kept_trans: "kept S A s s' \<Longrightarrow> kept S B s' s'' \<Longrightarrow> A \<subseteq> C \<Longrightarrow> B \<subseteq> C \<Longrightarrow> kept S C s s''"
  unfolding kept_def by (metis subsetD)

lemma kept_mono: "kept S A s s' \<Longrightarrow> A \<subseteq> C \<Longrightarrow> kept S C s s'"
  by (rule kept_trans [OF _ kept_refl]) auto

lemma copy_here_kept:
  assumes "copies_by_name S" and "copy_here K S src name w = (res, w')"
  shows "kept S {name} (blobs w) (blobs w')" and "ingest w' = ingest w"
    and "\<And>d. res = Inr d \<Longrightarrow> t_Resolve (lk_view K (server w)) src = Inr d \<and> t_Resolve (st_target S (blobs w')) name = Inr d"
proof -
  obtain s where s: "st_copy S (lk_view K (server w)) src name (blobs w) = (res, s)" and
    w': "w' = w\<lparr>blobs := s, server := lk_later K (server w)\<rparr>"
    using assms(2) by (cases "st_copy S (lk_view K (server w)) src name (blobs w)") (simp add: copy_here_def)
  note c = assms(1) [unfolded copies_by_name_def, rule_format, OF s]
  show "kept S {name} (blobs w) (blobs w')" unfolding kept_def w' using c by simp
  show "ingest w' = ingest w" by (simp add: w')
  show "t_Resolve (lk_view K (server w)) src = Inr d \<and> t_Resolve (st_target S (blobs w')) name = Inr d" if "res = Inr d" for d
    using c that by (simp add: w')
qed

lemma ask_blobs: "ask K q w = (a, w') \<Longrightarrow> blobs w' = blobs w \<and> ingest w' = ingest w \<and> a = q (lk_view K (server w))"
  by (auto simp: ask_def)

lemma fetch_tagged_kept:
  assumes "copies_by_name S" and "fetch_tagged what K S tag name w = (res, w')"
  shows "kept S {name} (blobs w) (blobs w')"
proof -
  obtain a w1 where q: "ask K (\<lambda>t. t_Resolve t tag) w = (a, w1)" by force
  have b: "blobs w1 = blobs w" using ask_blobs [OF q] by simp
  show ?thesis
  proof (cases a)
    case (Inl e)
    with assms(2) q b show ?thesis by (auto simp: fetch_tagged_def)
  next
    case (Inr d)
    obtain c w2 where c: "copy_here K S tag name w1 = (c, w2)" by force
    from assms(2) q Inr c have "w' = w2" by (cases c) (auto simp: fetch_tagged_def)
    with copy_here_kept(1) [OF assms(1) c] b show ?thesis by simp
  qed
qed

lemma copy_bundles_kept:
  assumes "copies_by_name S"
  shows "copy_bundles str K S ref bs w = (res, w') \<Longrightarrow>
    kept S {m. \<exists>d. m = BundleRef str ref d} (blobs w) (blobs w')"
proof (induction bs arbitrary: w)
  case Nil
  then show ?case by simp
next
  case (Cons b bs)
  obtain c w1 where c: "copy_here K S (Digest b) (BundleRef str ref (Digest b)) w = (c, w1)" by force
  have k: "kept S {m. \<exists>d. m = BundleRef str ref d} (blobs w) (blobs w1)"
    by (rule kept_mono [OF copy_here_kept(1) [OF assms c]]) auto
  show ?case
  proof (cases c)
    case (Inl e)
    with Cons.prems c k show ?thesis by auto
  next
    case (Inr d)
    with Cons.prems c have "copy_bundles str K S ref bs w1 = (res, w')" by simp
    from kept_trans [OF k Cons.IH [OF this] order_refl order_refl] show ?thesis .
  qed
qed

lemma fetchBundles_kept:
  assumes "copies_by_name S" and "fetchBundles str K S ref subject w = (res, w')"
  shows "kept S {m. \<exists>d. m = BundleRef str ref d} (blobs w) (blobs w')"
proof -
  obtain a w1 where q: "ask K (\<lambda>t. BundleReferrers t subject) w = (a, w1)" by force
  have b: "blobs w1 = blobs w" using ask_blobs [OF q] by simp
  show ?thesis
  proof (cases a)
    case (Inl e)
    with assms(2) q b show ?thesis by (auto simp: fetchBundles_def)
  next
    case (Inr bs)
    show ?thesis
    proof (cases bs)
      case Nil
      with assms(2) q b Inr show ?thesis by (auto simp: fetchBundles_def)
    next
      case (Cons x xs)
      with assms(2) q Inr have "copy_bundles str K S ref bs w1 = (res, w')" by (simp add: fetchBundles_def)
      from copy_bundles_kept [OF assms(1) this] b show ?thesis by simp
    qed
  qed
qed

text \<open>The names a supplement is stored under.\<close>

definition side_names :: "(reference \<Rightarrow> string) \<Rightarrow> reference \<Rightarrow> string set" where
  "side_names str ref = {m. \<exists>d. m = SigRef str ref d \<or> m = AttRef str ref d \<or> m = BundleRef str ref d}"

lemma supplement_kept:
  assumes c: "copies_by_name S" and s: "supplement str K S ref desc w = (p, w')"
  shows "kept S (side_names str ref) (blobs w) (blobs w')" and "pl_desc p = desc"
proof -
  obtain sg w1 where 1: "fetchSignature str K S ref (Digest desc) w = (sg, w1)" by force
  obtain att w2 where 2: "fetchAttestation str K S ref (Digest desc) w1 = (att, w2)" by force
  obtain bd w3 where 3: "fetchBundles str K S ref desc w2 = (bd, w3)" by force
  have w': "w' = w3" "pl_desc p = desc" using s 1 2 3 by (auto simp: supplement_def)
  show "pl_desc p = desc" by (rule w'(2))
  have a: "kept S (side_names str ref) (blobs w) (blobs w1)"
    by (rule kept_mono [OF fetch_tagged_kept [OF c 1 [unfolded fetchSignature_def]]]) (auto simp: side_names_def)
  have b: "kept S (side_names str ref) (blobs w1) (blobs w2)"
    by (rule kept_mono [OF fetch_tagged_kept [OF c 2 [unfolded fetchAttestation_def]]]) (auto simp: side_names_def)
  have d: "kept S (side_names str ref) (blobs w2) (blobs w3)"
    by (rule kept_mono [OF fetchBundles_kept [OF c 3]]) (auto simp: side_names_def)
  from kept_trans [OF kept_trans [OF a b order_refl order_refl] d order_refl order_refl]
  show "kept S (side_names str ref) (blobs w) (blobs w')" by (simp add: w')
qed

section \<open>The blobs of a pull\<close>

text \<open>A step that only writes blobs, and after which the blob is here when the step succeeded.\<close>

definition blob_step :: "'s local_store \<Rightarrow> node \<Rightarrow> ('s, 'r) world \<Rightarrow> (dl_error + unit) \<times> ('s, 'r) world \<Rightarrow> bool" where
  "blob_step S d w rw \<longleftrightarrow> kept S {} (blobs w) (blobs (snd rw)) \<and>
     (\<forall>u. fst rw = Inr u \<longrightarrow> st_has S (blobs (snd rw)) d = Inr True)"

lemma push_step:
  assumes "writes_add S" and "st_push S s d b = (r, s')"
  shows "kept S {} s s'" and "r \<noteq> Inl PushFailed \<Longrightarrow> st_has S s' d = Inr True"
  using assms unfolding writes_add_def kept_def by metis+

lemma blob_step_idle: "blobs w' = blobs w \<Longrightarrow> fst rw = Inl e \<Longrightarrow> snd rw = w' \<Longrightarrow> blob_step S d w rw"
  by (simp add: blob_step_def)

lemma install_step:
  assumes "writes_add S"
  shows "blob_step S d w (installPartial L (st_push S) f p d h w)"
proof (cases "ingest w p")
  case None
  then show ?thesis by (auto simp: installPartial_def blob_step_def)
next
  case (Some b)
  obtain r s where "st_push S (blobs w) d b = (r, s)" by force
  with push_step [OF assms this] Some show ?thesis by (auto simp: installPartial_def blob_step_def)
qed

lemma blob_step_from: "blobs w1 = blobs w \<Longrightarrow> blob_step S d w1 rw \<Longrightarrow> blob_step S d w rw"
  by (simp add: blob_step_def)

lemma stream_step:
  assumes "writes_add S"
  shows "blob_step S d w (stream L (st_push S) f p d app h resp w)"
proof -
  have i: "blob_step S d w (installPartial L (st_push S) f p d h' (w\<lparr>ingest := m\<rparr>))" for h' m
    by (rule blob_step_from [OF _ install_step [OF assms]]) simp
  have e: "blob_step S d w (Inl e, w)" "blob_step S d w (Inl e, w\<lparr>ingest := m\<rparr>)" for e m
    by (simp_all add: blob_step_def)
  show ?thesis unfolding stream_def Let_def by (simp add: i e)
qed

lemma receive_step:
  assumes "writes_add S"
  shows "blob_step S d w (receive L (st_push S) f p d off h resp w)"
  unfolding receive_def by (simp add: stream_step [OF assms]) (simp add: blob_step_def)

lemma close_step: "blob_step S d w rw \<Longrightarrow> blob_step S d w (close_body f rw)"
  by (cases rw) (auto simp: blob_step_def close_body_def)

lemma tryDownload_step:
  assumes "writes_add S"
  shows "blob_step S d w (tryDownload L serve (st_push S) f p d w)"
proof -
  obtain r m where rh: "RehashPartial f p (Size d) (ingest w) = (r, m)" by force
  show ?thesis
  proof (cases r)
    case (Inl e)
    with rh show ?thesis by (simp add: tryDownload_def blob_step_def)
  next
    case (Inr x)
    obtain off h where x: "x = (off, h)" by force
    obtain a s where sv: "serve (server w) off = (a, s)" by force
    have i: "blob_step S d w (installPartial L (st_push S) f p d h (w\<lparr>ingest := m\<rparr>))"
      by (rule blob_step_from [OF _ install_step [OF assms]]) simp
    have c: "blob_step S d w (close_body f (receive L (st_push S) f p d off h resp (w\<lparr>ingest := m, server := s\<rparr>)))" for resp
      by (rule close_step, rule blob_step_from [OF _ receive_step [OF assms]]) simp
    have n: "blob_step S d w (Inl e, w\<lparr>ingest := m\<rparr>)" "blob_step S d w (Inl e, w\<lparr>ingest := m, server := s\<rparr>)" for e
      by (simp_all add: blob_step_def)
    from i c n show ?thesis
      by (cases a) (simp_all add: tryDownload_def rh Inr x sv Let_def)
  qed
qed

lemma attempts_step:
  assumes "writes_add S"
  shows "blob_step S d w (attempts L serve (st_push S) c p d e i k w)"
proof (induction k arbitrary: e i w)
  case 0
  show ?case by (simp add: blob_step_def)
next
  case (Suc k)
  obtain r w1 where t: "tryDownload L serve (st_push S) (faults_at c i) p d w = (r, w1)" by force
  have s: "blob_step S d w (r, w1)" using tryDownload_step [OF assms, of d w L serve "faults_at c i" p] by (simp add: t)
  show ?case
  proof (cases r)
    case (Inr u)
    with s t show ?thesis by simp
  next
    case (Inl e1)
    have "kept S {} (blobs w) (blobs w1)" using s by (simp add: blob_step_def)
    with Suc.IH [of w1 e1 "Suc i"] have "blob_step S d w (attempts L serve (st_push S) c p d e1 (Suc i) k w1)"
      unfolding blob_step_def by (blast intro: kept_trans)
    with s t Inl show ?thesis by (simp add: blob_step_def)
  qed
qed

lemma downloadBlob_step:
  assumes "writes_add S"
  shows "blob_step S d w (downloadBlob L serve fetch (st_push S) c dir d w)"
proof (cases "Algorithm L (Digest d) = ''sha256''")
  case True
  with attempts_step [OF assms] show ?thesis by (simp add: downloadBlob_def)
next
  case False
  show ?thesis
  proof (cases "fetch d")
    case None
    with False show ?thesis by (simp add: downloadBlob_def fetchWholeBlob_def blob_step_def)
  next
    case (Some b)
    obtain r s where "st_push S (blobs w) d b = (r, s)" by force
    with push_step [OF assms this] False Some show ?thesis
      by (simp add: downloadBlob_def fetchWholeBlob_def blob_step_def)
  qed
qed

lemma pull_blobs_step:
  assumes "writes_add S"
  shows "pull_blobs L K S c dir ds w = (res, w') \<Longrightarrow> kept S {} (blobs w) (blobs w') \<and>
    (\<forall>u. res = Inr u \<longrightarrow> (\<forall>d \<in> set ds. st_has S (blobs w') d = Inr True))"
proof (induction ds arbitrary: w)
  case Nil
  then show ?case by simp
next
  case (Cons d ds)
  have has: "st_has S (blobs w') d = Inr True"
    if "st_has S (blobs w1) d = Inr True" "kept S {} (blobs w1) (blobs w')" for w1 :: "('a, 'b) world"
    using that by (simp add: kept_def)
  consider (bad) x where "st_has S (blobs w) d = Inl x" | (there) "st_has S (blobs w) d = Inr True"
    | (missing) "st_has S (blobs w) d = Inr False"
    by (metis (full_types) sum.exhaust)
  then show ?case
  proof cases
    case bad
    with Cons.prems show ?thesis by auto
  next
    case there
    with Cons.prems have "pull_blobs L K S c dir ds w = (res, w')" by simp
    from Cons.IH [OF this] has [OF there] show ?thesis by auto
  next
    case missing
    obtain r w1 where t: "downloadBlob L (lk_serve K d) (lk_whole K (server w)) (st_push S) (c d) dir d w = (r, w1)" by force
    have s: "blob_step S d w (r, w1)"
      using downloadBlob_step [OF assms, of d w L "lk_serve K d" "lk_whole K (server w)" "c d" dir] by (simp add: t)
    show ?thesis
    proof (cases r)
      case (Inl e)
      with Cons.prems missing t s show ?thesis by (auto simp: blob_step_def)
    next
      case (Inr u)
      with Cons.prems missing t have "pull_blobs L K S c dir ds w1 = (res, w')" by simp
      note rest = Cons.IH [OF this]
      from s Inr have "kept S {} (blobs w) (blobs w1)" "st_has S (blobs w1) d = Inr True" by (simp_all add: blob_step_def)
      with rest has [of w1] show ?thesis by (auto intro: kept_trans)
    qed
  qed
qed

section \<open>Pull\<close>

text \<open>A name apart from those the supplements get.\<close>

definition main_name :: "(reference \<Rightarrow> string) \<Rightarrow> reference \<Rightarrow> bool" where
  "main_name str ref \<longleftrightarrow> str ref \<notin> side_names str ref"

lemma pull_content_installs:
  assumes c: "copies_by_name S" and p: "writes_add S" and n: "main_name str ref"
    and run: "pull_content L str K S cond ref root leaves w = (Inr pl, w')"
  shows "(\<forall>d \<in> set leaves. st_has S (blobs w') d = Inr True) \<and>
    t_Resolve (st_target S (blobs w')) (str ref) = Inr (pl_desc pl) \<and>
    (\<exists>r. t_Resolve (lk_view K r) (Digest root) = Inr (pl_desc pl))"
proof -
  from run obtain dir where dir: "st_ingest S (blobs w) = Some dir"
    by (auto simp: pull_content_def split: option.splits)
  obtain res w1 where b: "pull_blobs L K S cond dir leaves w = (res, w1)" by force
  from run dir b obtain u where res: "res = Inr u" by (cases res) (auto simp: pull_content_def)
  obtain c1 w2 where cp: "copy_here K S (Digest root) (str ref) w1 = (c1, w2)" by force
  from run dir b res cp obtain desc where c1: "c1 = Inr desc" by (cases c1) (auto simp: pull_content_def)
  obtain q w3 where s: "supplement str K S ref desc w2 = (q, w3)" by force
  from run dir b res cp c1 s have e: "pl = q" "w' = w3" by (auto simp: pull_content_def)
  note k1 = pull_blobs_step [OF p b] and k2 = copy_here_kept [OF c cp] and k3 = supplement_kept [OF c s]
  have "t_Resolve (st_target S (blobs w3)) (str ref) = t_Resolve (st_target S (blobs w2)) (str ref)"
    using k3(1) n by (simp add: kept_def main_name_def)
  moreover have "st_has S (blobs w3) d = Inr True" if "d \<in> set leaves" for d
    using k1 k2(1) k3(1) res that by (simp add: kept_def)
  ultimately show ?thesis using k2(3) [of desc] c1 k3(2) e by auto
qed

lemma Pull_steps:
  assumes "Pull L str Repository S cond order ref expected w = Some (Inr pl, w')"
  obtains K root w1 leaves where "Repository ref = Some K" "t_Resolve (lk_view K (server w)) (rf_Reference ref) = Inr root"
    "w1 = w\<lparr>server := lk_later K (server w)\<rparr>" "expected \<noteq> [] \<longrightarrow> Digest root = expected"
    "collectLeafBlobs (lk_successors K (server w1)) root = Some (Inr leaves)"
    "pull_content L str K S cond ref root (order leaves) w1 = (Inr pl, w')"
proof -
  from assms obtain K where K: "Repository ref = Some K" by (cases "Repository ref") (auto simp: Pull_def)
  with assms obtain root where r: "t_Resolve (lk_view K (server w)) (rf_Reference ref) = Inr root"
    by (cases "t_Resolve (lk_view K (server w)) (rf_Reference ref)") (auto simp: Pull_def ask_def)
  let ?w1 = "w\<lparr>server := lk_later K (server w)\<rparr>"
  from assms K r have e: "expected \<noteq> [] \<longrightarrow> Digest root = expected" by (auto simp: Pull_def ask_def split: if_splits)
  with assms K r obtain x where x: "collectLeafBlobs (lk_successors K (server ?w1)) root = Some x"
    by (cases "collectLeafBlobs (lk_successors K (server ?w1)) root") (auto simp: Pull_def ask_def)
  with assms K r e obtain ls where "x = Inr ls" "pull_content L str K S cond ref root (order ls) ?w1 = (Inr pl, w')"
    by (cases x) (auto simp: Pull_def ask_def)
  with that [OF K r refl e] x show ?thesis by blast
qed

text \<open>Everything a pull without an error did.\<close>

definition pulled_whole :: "(reference \<Rightarrow> string) \<Rightarrow> 'r handle \<Rightarrow> 's local_store \<Rightarrow> reference \<Rightarrow> pulled \<Rightarrow>
    ('s, 'r) world \<Rightarrow> ('s, 'r) world \<Rightarrow> bool" where
  "pulled_whole str K S ref pl w w' \<longleftrightarrow>
     t_Resolve (st_target S (blobs w')) (str ref) = Inr (pl_desc pl) \<and>
     (\<exists>root leaves. t_Resolve (lk_view K (server w)) (rf_Reference ref) = Inr root \<and>
        Digest root = Digest (pl_desc pl) \<and>
        collectLeafBlobs (lk_successors K (lk_later K (server w))) root = Some (Inr leaves) \<and>
        (\<forall>d \<in> set leaves. st_has S (blobs w') d = Inr True))"

lemma Pull_installs:
  assumes c: "copies_by_name S" and p: "writes_add S" and a: "digests_resolve K" and n: "main_name str ref"
    and K: "Repository ref = Some K" and o: "\<forall>ls. set (order ls) = set ls"
    and run: "Pull L str Repository S cond order ref expected w = Some (Inr pl, w')"
  shows "pulled_whole str K S ref pl w w' \<and> (expected \<noteq> [] \<longrightarrow> Digest (pl_desc pl) = expected)"
proof -
  from Pull_steps [OF run] obtain K' root w1 leaves where s: "Repository ref = Some K'"
    "t_Resolve (lk_view K' (server w)) (rf_Reference ref) = Inr root"
    "w1 = w\<lparr>server := lk_later K' (server w)\<rparr>" "expected \<noteq> [] \<longrightarrow> Digest root = expected"
    "collectLeafBlobs (lk_successors K' (server w1)) root = Some (Inr leaves)"
    "pull_content L str K' S cond ref root (order leaves) w1 = (Inr pl, w')" .
  from s(1) K have K': "K' = K" by simp
  note i = pull_content_installs [OF c p n s(6) [unfolded K']]
  then obtain r where "t_Resolve (lk_view K r) (Digest root) = Inr (pl_desc pl)" by blast
  with a s(2) K' have d: "Digest (pl_desc pl) = Digest root" unfolding digests_resolve_def by blast
  with i s o K' show ?thesis by (auto simp: pulled_whole_def)
qed

section \<open>Properties\<close>

text \<open>
  C27. The walk over a manifest graph ends wherever finitely many nodes are in reach and a digest names one
  node. It returns every blob in reach, each once, or the error of a manifest in reach whose successors
  cannot be read.
\<close>

theorem collectLeafBlobs_exact:
  assumes "finite (graph succ root)" and "inj_on Digest (graph succ root)"
  shows "\<exists>res. collectLeafBlobs succ root = Some res \<and>
    (case res of Inl e \<Rightarrow> \<exists>n \<in> graph succ root. isManifestMediaType (MediaType n) \<and> succ n = Inl e
     | Inr ls \<Rightarrow> set ls = leaves_in (graph succ root) \<and> distinct ls)"
  by (rule collectLeafBlobs_ends [OF assms])

end
