(* ===== verification/Materialize.thy ===== *)
theory Materialize
  imports Serving
begin

text \<open>
  \<^verbatim>\<open>internal/cli/pull.go\<close>, \<^verbatim>\<open>materialize\<close> and what it calls: the files of a model written from
  the store into a directory, through a handle (\<^verbatim>\<open>os.Root\<close>) below which every name is resolved.
  The handle is the full name of the directory it was opened on; names below it are lists of
  components. A file is told from another by where it is.
\<close>

section \<open>Names below a root\<close>

definition root_max_links :: nat where
  "root_max_links = 255"

text \<open>Links are followed while they stay below the root; what would leave it is refused.\<close>

fun root_walk :: "nat \<Rightarrow> fs \<Rightarrow> name \<Rightarrow> name \<Rightarrow> name \<Rightarrow> errno + name" where
  "root_walk n fs R cur [] = Inr cur"
| "root_walk n fs R cur (p # ps) =
     (if p = ''.'' then root_walk n fs R cur ps
      else if p = ''..'' then (if cur = [] then Inl EXDEV else root_walk n fs R (butlast cur) ps)
      else case at fs (R @ cur @ [p]) of
        None \<Rightarrow> Inl ENOENT
      | Some (Regular _ _) \<Rightarrow> Inl ENOTDIR
      | Some Folder \<Rightarrow> root_walk n fs R (cur @ [p]) ps
      | Some (Symlink absolute target) \<Rightarrow>
          (if n = 0 then Inl ELOOP else if absolute then Inl EXDEV else root_walk (n - 1) fs R cur (target @ ps)))"

definition root_place :: "fs \<Rightarrow> name \<Rightarrow> name \<Rightarrow> errno + name" where
  "root_place fs R p =
     (if p = [] then Inr []
      else bind_res (root_walk root_max_links fs R [] (butlast p)) (\<lambda>d. Inr (d @ [last p])))"

definition root_lstat :: "os \<Rightarrow> fs \<Rightarrow> name \<Rightarrow> name \<Rightarrow> errno + inode" where
  "root_lstat os fs R p =
     (if fault os CLstat (R @ p) fs then Inl EIO
      else bind_res (root_place fs R p) (\<lambda>q. from_option ENOENT (at fs (R @ q))))"

fun root_mkdir_from :: "os \<Rightarrow> fs \<Rightarrow> name \<Rightarrow> name \<Rightarrow> name \<Rightarrow> fs \<times> (errno + unit)" where
  "root_mkdir_from os fs R over [] = (fs, Inr ())"
| "root_mkdir_from os fs R over (p # ps) =
     (let q = over @ [p] in
      case root_walk root_max_links fs R [] q of
        Inr _ \<Rightarrow> root_mkdir_from os fs R q ps
      | Inl ENOENT \<Rightarrow>
          (if fault os CMkdir (R @ q) fs then (fs, Inl EIO)
           else case root_place fs R q of
             Inl e \<Rightarrow> (fs, Inl e)
           | Inr r \<Rightarrow>
               if at fs (R @ r) = None then root_mkdir_from os (put fs (R @ r) Folder) R q ps else (fs, Inl EEXIST))
      | Inl e \<Rightarrow> (fs, Inl e))"

text \<open>\<^verbatim>\<open>O_CREATE|O_EXCL\<close>, \<^verbatim>\<open>Remove\<close> of a file or an empty directory.\<close>

definition root_create :: "os \<Rightarrow> fs \<Rightarrow> name \<Rightarrow> name \<Rightarrow> fs \<times> (errno + name)" where
  "root_create os fs R p =
     (if fault os CCreate (R @ p) fs then (fs, Inl EIO)
      else case root_place fs R p of
        Inl e \<Rightarrow> (fs, Inl e)
      | Inr q \<Rightarrow> if at fs (R @ q) = None then (put fs (R @ q) (Regular False []), Inr q) else (fs, Inl EEXIST))"

definition drop_node :: "fs \<Rightarrow> name \<Rightarrow> fs \<times> (errno + unit)" where
  "drop_node fs q =
     (if at fs q = None then (fs, Inl ENOENT)
      else if at fs q = Some Folder \<and> children fs q \<noteq> [] then (fs, Inl ENOTEMPTY)
      else (take_out (\<lambda>r. r = q) fs q, Inr ()))"

definition root_remove :: "os \<Rightarrow> fs \<Rightarrow> name \<Rightarrow> name \<Rightarrow> fs \<times> (errno + unit)" where
  "root_remove os fs R p =
     (if fault os CRemove (R @ p) fs then (fs, Inl EIO)
      else case root_place fs R p of
        Inl e \<Rightarrow> (fs, Inl e)
      | Inr q \<Rightarrow> if q = [] then (fs, Inl EIO) else drop_node fs (R @ q))"

definition os_remove :: "os \<Rightarrow> fs \<Rightarrow> name \<Rightarrow> fs \<times> (errno + unit)" where
  "os_remove os fs p =
     (if fault os CRemove p fs then (fs, Inl EIO)
      else case place fs p of Inl e \<Rightarrow> (fs, Inl e) | Inr q \<Rightarrow> if q = [] then (fs, Inl EIO) else drop_node fs q)"

section \<open>One file\<close>

datatype mat_error =
    MatFetch fetch_error | MatFile errno | MatNotRegular name | MatTwoLayers name | MatBlob string
  | MatWrongLength string nat int | MatWrongBytes string | MatUnnamedWeight string
  | MatNotRaw string string | MatEscapes string | MatNothing

definition withInfo :: "os \<Rightarrow> fs \<Rightarrow> name \<Rightarrow> name \<Rightarrow> name \<Rightarrow> fs \<times> (mat_error + name)" where
  "withInfo os fs R p q =
     (if fault os CStat (R @ p) fs then (fst (root_remove os fs R p), Inl (MatFile EIO)) else (fs, Inr q))"

definition createOutputFile :: "os \<Rightarrow> fs \<Rightarrow> name \<Rightarrow> name \<Rightarrow> name list \<Rightarrow> fs \<times> (mat_error + name)" where
  "createOutputFile os fs R p mine =
     (case root_create os fs R p of
        (fs1, Inr q) \<Rightarrow> withInfo os fs1 R p q
      | (fs1, Inl e) \<Rightarrow>
          if e \<noteq> EEXIST then (fs1, Inl (MatFile e))
          else case root_lstat os fs1 R p of
            Inl e \<Rightarrow> (fs1, Inl (MatFile e))
          | Inr f \<Rightarrow>
              if \<not> is_Regular f then (fs1, Inl (MatNotRegular p))
              else if \<exists>q \<in> set mine. root_place fs1 R p = Inr q then (fs1, Inl (MatTwoLayers p))
              else (case root_remove os fs1 R p of
                (fs2, Inl e) \<Rightarrow> (fs2, Inl (MatFile e))
              | (fs2, Inr _) \<Rightarrow>
                  (case root_create os fs2 R p of
                     (fs3, Inl e) \<Rightarrow> (fs3, Inl (MatFile e))
                   | (fs3, Inr q) \<Rightarrow> withInfo os fs3 R p q)))"

text \<open>The file made, if one was, and how writing it went.\<close>

definition copyFile :: "digest_lib \<Rightarrow> fetcher \<Rightarrow> os \<Rightarrow> fs \<Rightarrow> name \<Rightarrow> name \<Rightarrow> descriptor \<Rightarrow> name list \<Rightarrow>
    fs \<times> name option \<times> (mat_error + unit)" where
  "copyFile L F os fs R p d mine =
     (case open_blob F (node_of d) of
        None \<Rightarrow> (fs, None, Inl (MatBlob (Digest d)))
      | Some r \<Rightarrow>
          (case createOutputFile os fs R p mine of
             (fs1, Inl e) \<Rightarrow> (fs1, None, Inl e)
           | (fs1, Inr q) \<Rightarrow>
               (let got = limited d (fst r); fs2 = put fs1 (R @ q) (Regular False got) in
                (fs2, Some q,
                 if fault os CWrite (R @ p) fs1 \<or> cut_short d r then Inl (MatFile EIO)
                 else if int (length got) \<noteq> Size d then Inl (MatWrongLength (Digest d) (length got) (Size d))
                 else if \<not> Verified L (Digest d) got then Inl (MatWrongBytes (Digest d))
                 else Inr ()))))"

section \<open>The layers\<close>

fun missing_from :: "os \<Rightarrow> fs \<Rightarrow> name \<Rightarrow> name \<Rightarrow> name \<Rightarrow> name list" where
  "missing_from os fs R cur [] = []"
| "missing_from os fs R cur (p # ps) =
     (case root_lstat os fs R (cur @ [p]) of Inl _ \<Rightarrow> [cur @ [p]] | Inr _ \<Rightarrow> []) @ missing_from os fs R (cur @ [p]) ps"

definition missingDirs :: "os \<Rightarrow> fs \<Rightarrow> name \<Rightarrow> name \<Rightarrow> name list" where
  "missingDirs os fs R p = missing_from os fs R [] p"

record mat =
  mt_fs :: fs
  mt_written :: "name list"
  mt_dirs :: "name list"
  mt_mine :: "name list"

definition AnnotationFilepath :: string where
  "AnnotationFilepath = ''org.cncf.model.filepath''"

definition file_name :: "descriptor \<Rightarrow> string" where
  "file_name d = lookup_str (Annotations d) AnnotationFilepath"

text \<open>The components of a cleaned relative name; a dot is the directory itself.\<close>

definition components :: "string \<Rightarrow> name" where
  "components s = filter (\<lambda>p. p \<noteq> ''.'') (parts s)"

definition write_layer :: "digest_lib \<Rightarrow> fetcher \<Rightarrow> os \<Rightarrow> name \<Rightarrow> descriptor \<Rightarrow> name \<Rightarrow> mat \<Rightarrow> mat \<times> (mat_error + unit)" where
  "write_layer L F os R d p m =
     (if \<not> Validate_ok L (Digest d) then (m, Inl (MatBlob (Digest d)))
      else case copyFile L F os (mt_fs m) R p d (mt_mine m) of
        (fs1, None, r) \<Rightarrow> (m\<lparr>mt_fs := fs1\<rparr>, r)
      | (fs1, Some q, r) \<Rightarrow>
          (m\<lparr>mt_fs := fs1, mt_written := mt_written m @ [p], mt_mine := mt_mine m @ [q]\<rparr>, r))"

definition materialize_layer :: "model_spec \<Rightarrow> digest_lib \<Rightarrow> fetcher \<Rightarrow> os \<Rightarrow> name \<Rightarrow> descriptor \<Rightarrow> mat \<Rightarrow>
    mat \<times> (mat_error + unit)" where
  "materialize_layer S L F os R d m =
     (let name = file_name d; clean = Clean name; p = components clean in
      if name = [] then
        (m, if KindOf S (MediaType d) = LayerKindWeight then Inl (MatUnnamedWeight (Digest d)) else Inr ())
      else if \<not> IsRaw S (MediaType d) then (m, Inl (MatNotRaw name (MediaType d)))
      else if IsAbs clean \<or> clean = ''..'' \<or> prefix ''../'' clean then (m, Inl (MatEscapes name))
      else if length p \<le> 1 then write_layer L F os R d p m
      else (let dirs = mt_dirs m @ missingDirs os (mt_fs m) R (butlast p) in
        case root_mkdir_from os (mt_fs m) R [] (butlast p) of
          (fs1, Inl e) \<Rightarrow> (m\<lparr>mt_fs := fs1, mt_dirs := dirs\<rparr>, Inl (MatFile e))
        | (fs1, Inr _) \<Rightarrow> write_layer L F os R d p (m\<lparr>mt_fs := fs1, mt_dirs := dirs\<rparr>)))"

fun materialize_layers :: "model_spec \<Rightarrow> digest_lib \<Rightarrow> fetcher \<Rightarrow> os \<Rightarrow> name \<Rightarrow> descriptor list \<Rightarrow> mat \<Rightarrow>
    mat \<times> (mat_error + unit)" where
  "materialize_layers S L F os R [] m = (m, Inr ())"
| "materialize_layers S L F os R (d # ds) m =
     (case materialize_layer S L F os R d m of
        (m1, Inl e) \<Rightarrow> (m1, Inl e)
      | (m1, Inr _) \<Rightarrow> materialize_layers S L F os R ds m1)"

text \<open>What a refusal takes back: the files, the directories deepest first, the output directory.\<close>

definition take_back :: "os \<Rightarrow> name \<Rightarrow> mat \<Rightarrow> fs" where
  "take_back os R m =
     fold (\<lambda>p fs. fst (root_remove os fs R p)) (rev (mt_dirs m))
       (fold (\<lambda>p fs. fst (root_remove os fs R p)) (mt_written m) (mt_fs m))"

definition materialize :: "model_spec \<Rightarrow> digest_lib \<Rightarrow> fetcher \<Rightarrow> os \<Rightarrow> node \<Rightarrow> string \<Rightarrow> fs \<Rightarrow>
    fs \<times> (mat_error + string list)" where
  "materialize S L F os desc dir fs =
     (case FetchManifest F desc of
        Inl e \<Rightarrow> (fs, Inl (MatFetch e))
      | Inr man \<Rightarrow>
          (let madeDir = (lstat os fs (parts dir) = Inl ENOENT) in
           case MkdirAll os fs (parts dir) of
             (fs1, Inl e) \<Rightarrow> (fs1, Inl (MatFile e))
           | (fs1, Inr _) \<Rightarrow>
               if fault os COpen (parts dir) fs1 then (fs1, Inl (MatFile EIO))
               else case directory fs1 (parts dir) of
                 Inl e \<Rightarrow> (fs1, Inl (MatFile e))
               | Inr R \<Rightarrow>
                   (let (m, r) = materialize_layers S L F os R (Layers man)
                          \<lparr>mt_fs = fs1, mt_written = [], mt_dirs = [], mt_mine = []\<rparr>;
                        undone = take_back os R m;
                        back = (if madeDir then fst (os_remove os undone (parts dir)) else undone) in
                    case r of
                      Inl e \<Rightarrow> (back, Inl e)
                    | Inr _ \<Rightarrow>
                        if mt_written m = [] then (back, Inl MatNothing)
                        else (mt_fs m, Inr (map (\<lambda>p. Join [dir, join_on CHR ''/'' p]) (mt_written m))))))"

end
