(* ===== verification/MaterializeSpec.thy ===== *)
theory MaterializeSpec
  imports Materialize RuntimeSpec
begin

text \<open>What writing a model out leaves on disk: each file whole and in its place when it succeeds, nothing
  of its own when it is refused, and nothing changed outside the directory either way.\<close>

section \<open>Names keep leading where they lead\<close>

text \<open>Directories and links stay; what is not below the root stays too.\<close>

definition stays :: "fs \<Rightarrow> fs \<Rightarrow> bool" where
  "stays fs fs' \<longleftrightarrow> (\<forall>p f. at fs p = Some f \<longrightarrow> \<not> is_Regular f \<longrightarrow> at fs' p = Some f)"

definition apart :: "name \<Rightarrow> fs \<Rightarrow> fs \<Rightarrow> bool" where
  "apart R fs fs' \<longleftrightarrow> (\<forall>q. \<not> strict_prefix R q \<longrightarrow> at fs' q = at fs q)"

lemma stays_refl [simp]: "stays fs fs" "apart R fs fs"
  by (simp_all add: stays_def apart_def)

lemma stays_trans: "stays a b \<Longrightarrow> stays b c \<Longrightarrow> stays a c" "apart R a b \<Longrightarrow> apart R b c \<Longrightarrow> apart R a c"
  by (simp_all add: stays_def apart_def)

lemma walk_stays: "walk n fs cur ps = Inr d \<Longrightarrow> stays fs fs' \<Longrightarrow> walk n fs' cur ps = Inr d"
proof (induction n fs cur ps rule: walk.induct)
  case (2 n fs cur p ps)
  have keep: "at fs (cur @ [p]) = Some f \<Longrightarrow> \<not> is_Regular f \<Longrightarrow> at fs' (cur @ [p]) = Some f" for f
    using "2.prems"(2) by (simp add: stays_def)
  show ?case
    using "2.prems" "2.IH" keep [of Folder] keep [of "Symlink _ _"]
    by (auto split: if_splits option.splits inode.splits)
qed simp

lemma root_walk_stays: "root_walk n fs R cur ps = Inr d \<Longrightarrow> stays fs fs' \<Longrightarrow> root_walk n fs' R cur ps = Inr d"
proof (induction n fs R cur ps rule: root_walk.induct)
  case (2 n fs R cur p ps)
  have keep: "at fs (R @ cur @ [p]) = Some f \<Longrightarrow> \<not> is_Regular f \<Longrightarrow> at fs' (R @ cur @ [p]) = Some f" for f
    using "2.prems"(2) by (simp add: stays_def)
  show ?case
    using "2.prems" "2.IH" keep [of Folder] keep [of "Symlink _ _"]
    by (auto split: if_splits option.splits inode.splits)
qed simp

lemma root_place_stays: "root_place fs R p = Inr q \<Longrightarrow> stays fs fs' \<Longrightarrow> root_place fs' R p = Inr q"
proof (cases "p = []")
  case True
  assume "root_place fs R p = Inr q"
  with True show ?thesis by (simp add: root_place_def)
next
  case False
  assume q: "root_place fs R p = Inr q" and s: "stays fs fs'"
  from q False obtain d where d: "root_walk root_max_links fs R [] (butlast p) = Inr d" "q = d @ [last p]"
    by (auto simp: root_place_def)
  from root_walk_stays [OF d(1) s] d(2) False show ?thesis by (simp add: root_place_def)
qed

lemma root_walk_folder:
  "root_walk n fs R cur ps = Inr d \<Longrightarrow> wf_fs fs \<Longrightarrow> at fs (R @ cur) = Some Folder \<Longrightarrow> at fs (R @ d) = Some Folder"
proof (induction n fs R cur ps rule: root_walk.induct)
  case (1 n fs R cur)
  then show ?case by simp
next
  case (2 n fs R cur p ps)
  have up: "at fs (R @ butlast cur) = Some Folder" if "cur \<noteq> []"
    using "2.prems"(2,3) that by (auto simp: wf_fs_def butlast_append)
  show ?case using 2 up by (auto split: if_splits option.splits inode.splits)
qed

text \<open>A place below the root: a directory, and a plain name in it.\<close>

lemma root_place_below:
  assumes "root_place fs R p = Inr q" and "p \<noteq> []" and "list_all plain p" and "wf_fs fs" and "at fs R = Some Folder"
  shows "q \<noteq> [] \<and> list_all plain (R @ q) \<and> at fs (butlast (R @ q)) = Some Folder \<and> strict_prefix R (R @ q)"
proof -
  from assms(1,2) obtain d where d: "root_walk root_max_links fs R [] (butlast p) = Inr d" "q = d @ [last p]"
    by (auto simp: root_place_def)
  have f: "at fs (R @ d) = Some Folder" using root_walk_folder [OF d(1) assms(4)] assms(5) by simp
  have "list_all plain (R @ d)" using assms(4) f by (cases "R @ d = []") (auto simp: wf_fs_def)
  moreover have "plain (last p)" using assms(2,3) by (simp add: list.pred_set)
  ultimately show ?thesis using f d(2) by (simp add: butlast_append strict_prefix_def)
qed

lemma below_strict: "strict_prefix R q \<longleftrightarrow> (\<exists>p. q = R @ p \<and> p \<noteq> [])"
  by (auto simp: strict_prefix_def prefix_def)

section \<open>The steps\<close>

text \<open>
  A step that makes or replaces files and makes directories, below the root. The tree stays well
  formed, and what it has made so far is not touched.
\<close>

definition step :: "name \<Rightarrow> name set \<Rightarrow> fs \<Rightarrow> fs \<Rightarrow> bool" where
  "step R mine fs fs' \<longleftrightarrow> wf_fs fs' \<and> stays fs fs' \<and> apart R fs fs' \<and> (\<forall>q \<in> mine. at fs' (R @ q) = at fs (R @ q))"

lemma step_refl: "wf_fs fs \<Longrightarrow> step R mine fs fs"
  by (simp add: step_def)

lemma step_trans: "step R mine a b \<Longrightarrow> step R mine b c \<Longrightarrow> step R mine a c"
  unfolding step_def using stays_trans by metis

lemma step_fewer: "step R A a b \<Longrightarrow> B \<subseteq> A \<Longrightarrow> step R B a b"
  by (auto simp: step_def)

lemma step_root: "step R mine fs fs' \<Longrightarrow> at fs R = Some Folder \<Longrightarrow> at fs' R = Some Folder"
  by (simp add: step_def stays_def)

lemma step_put:
  assumes wf: "wf_fs fs" and p: "root_place fs R p = Inr q" "p \<noteq> []" "list_all plain p" and R: "at fs R = Some Folder"
    and free: "at fs (R @ q) = None \<or> (\<exists>b c. at fs (R @ q) = Some (Regular b c)) \<and> is_Regular f"
    and "q \<notin> mine"
  shows "step R mine fs (put fs (R @ q) f)"
proof -
  note b = root_place_below [OF p wf R]
  have "at fs (R @ q) \<noteq> Some Folder" using free by auto
  then have "\<forall>r. strict_prefix (R @ q) r \<longrightarrow> at fs r = None" using wf_below [OF wf] by blast
  with b have "wf_fs (put fs (R @ q) f)" by (intro wf_put [OF wf]) auto
  moreover have "stays fs (put fs (R @ q) f)" using free b by (auto simp: stays_def tree)
  moreover have "apart R fs (put fs (R @ q) f)" using b by (auto simp: apart_def tree)
  ultimately show ?thesis using b \<open>q \<notin> mine\<close> by (auto simp: step_def tree)
qed

lemma wf_without_file:
  assumes "wf_fs fs" and "at fs q = Some (Regular b c)"
  shows "wf_fs (take_out (\<lambda>r. r = q) fs q)"
  using assms unfolding wf_fs_def by (auto simp: tree split: if_splits)

lemma root_remove_step:
  assumes wf: "wf_fs fs" and p: "root_place fs R p = Inr q" "p \<noteq> []" "list_all plain p" and R: "at fs R = Some Folder"
    and f: "at fs (R @ q) = Some (Regular b c)" and m: "q \<notin> mine" and r: "root_remove os fs R p = (fs', res)"
  shows "step R mine fs fs' \<and> (res = Inr () \<longrightarrow> at fs' (R @ q) = None \<and> root_place fs' R p = Inr q)"
proof (cases "fault os CRemove (R @ p) fs")
  case True
  with r wf show ?thesis by (auto simp: root_remove_def step_refl)
next
  case False
  note b = root_place_below [OF p wf R]
  from False r p(1) b f have fs': "fs' = take_out (\<lambda>r. r = R @ q) fs (R @ q)" by (auto simp: root_remove_def drop_node_def)
  have s: "stays fs fs'" using f by (auto simp: fs' stays_def tree)
  have "apart R fs fs'" using b by (auto simp: fs' apart_def tree)
  moreover have "wf_fs fs'" unfolding fs' by (rule wf_without_file [OF wf f])
  moreover have "at fs' (R @ q) = None" using b by (simp add: fs' tree)
  ultimately show ?thesis using s m root_place_stays [OF p(1) s] by (auto simp: step_def fs' tree)
qed

lemma root_create_step:
  assumes wf: "wf_fs fs" and p: "p \<noteq> []" "list_all plain p" and R: "at fs R = Some Folder"
    and m: "\<forall>q \<in> mine. at fs (R @ q) \<noteq> None" and r: "root_create os fs R p = (fs', res)"
  shows "step R mine fs fs' \<and> (\<forall>e. res = Inl e \<longrightarrow> fs' = fs) \<and>
    (\<forall>q. res = Inr q \<longrightarrow> q \<notin> mine \<and> at fs (R @ q) = None \<and> at fs' (R @ q) = Some (Regular False []) \<and> root_place fs' R p = Inr q)"
proof (cases "fault os CCreate (R @ p) fs")
  case True
  with r wf show ?thesis by (auto simp: root_create_def step_refl)
next
  case False
  show ?thesis
  proof (cases "root_place fs R p")
    case (Inl e)
    with False r wf show ?thesis by (auto simp: root_create_def step_refl)
  next
    case (Inr q)
    show ?thesis
    proof (cases "at fs (R @ q) = None")
      case True
      with False r Inr have fs': "fs' = put fs (R @ q) (Regular False [])" "res = Inr q" by (auto simp: root_create_def)
      have qm: "q \<notin> mine" using m True by blast
      have s: "step R mine fs fs'" unfolding fs' by (rule step_put [OF wf Inr p R]) (use True qm in simp_all)
      have "root_place fs' R p = Inr q" using root_place_stays [OF Inr] s by (simp add: step_def)
      with s qm fs' True root_place_below [OF Inr p wf R] show ?thesis by (simp add: tree)
    next
      case taken: False
      with False r Inr wf show ?thesis by (auto simp: root_create_def step_refl)
    qed
  qed
qed

lemma withInfo_step:
  assumes wf: "wf_fs fs" and p: "root_place fs R p = Inr q" "p \<noteq> []" "list_all plain p" and R: "at fs R = Some Folder"
    and f: "at fs (R @ q) = Some (Regular b c)" and m: "q \<notin> mine" and r: "withInfo os fs R p q = (fs', res)"
  shows "step R mine fs fs' \<and> (\<forall>q'. res = Inr q' \<longrightarrow> q' = q \<and> fs' = fs)"
proof (cases "fault os CStat (R @ p) fs")
  case True
  obtain fs2 rr where rr: "root_remove os fs R p = (fs2, rr)" by fastforce
  from root_remove_step [OF wf p R f m rr] True r rr show ?thesis by (auto simp: withInfo_def)
next
  case False
  with r wf show ?thesis by (auto simp: withInfo_def step_refl)
qed

text \<open>A file handed out is new, under its name, and none that this run made before.\<close>

definition handed_out :: "name \<Rightarrow> name set \<Rightarrow> fs \<Rightarrow> name \<Rightarrow> fs \<times> (mat_error + name) \<Rightarrow> bool" where
  "handed_out R mine fs p res \<longleftrightarrow> step R mine fs (fst res) \<and>
     (\<forall>q. snd res = Inr q \<longrightarrow> q \<notin> mine \<and> at (fst res) (R @ q) = Some (Regular False []) \<and> root_place (fst res) R p = Inr q)"

lemma create_then_info:
  assumes wf: "wf_fs fs" and p: "p \<noteq> []" "list_all plain p" and R: "at fs R = Some Folder"
    and m: "\<forall>q \<in> mine. at fs (R @ q) \<noteq> None" and c: "root_create os fs R p = (fs1, Inr q)"
  shows "handed_out R mine fs p (withInfo os fs1 R p q)"
proof -
  have c1: "step R mine fs fs1" "q \<notin> mine" "at fs1 (R @ q) = Some (Regular False [])" "root_place fs1 R p = Inr q"
    using root_create_step [OF wf p R m c] by simp_all
  have wf1: "wf_fs fs1" using c1(1) by (simp add: step_def)
  obtain fs2 res where w: "withInfo os fs1 R p q = (fs2, res)" by fastforce
  from withInfo_step [OF wf1 c1(4) p step_root [OF c1(1) R] c1(3,2) w] c1 w step_trans [OF c1(1)]
  show ?thesis by (auto simp: handed_out_def)
qed

lemma handed_after:
  assumes "step R mine fs fs1" and "handed_out R mine fs1 p res"
  shows "handed_out R mine fs p res"
  using assms step_trans by (auto simp: handed_out_def)

lemma handed_none: "step R mine fs fs1 \<Longrightarrow> handed_out R mine fs p (fs1, Inl e)"
  by (simp add: handed_out_def)

lemma createOutputFile_step:
  assumes wf: "wf_fs fs" and p: "list_all plain p" and R: "at fs R = Some Folder"
    and m: "\<forall>q \<in> set mine. at fs (R @ q) \<noteq> None"
  shows "handed_out R (set mine) fs p (createOutputFile os fs R p mine)"
proof (cases "p = []")
  case True
  have "\<not> is_Regular Folder" by simp
  with True R wf show ?thesis
    by (auto simp: createOutputFile_def root_create_def root_lstat_def root_place_def handed_out_def step_refl from_option_def)
next
  case ne: False
  obtain fs1 r1 where c: "root_create os fs R p = (fs1, r1)" by fastforce
  show ?thesis
  proof (cases r1)
    case (Inr q)
    with create_then_info [OF wf ne p R m] c show ?thesis by (simp add: createOutputFile_def)
  next
    case (Inl e)
    with root_create_step [OF wf ne p R m c] have fs1: "fs1 = fs" by blast
    show ?thesis
    proof (cases "\<exists>b x q. e = EEXIST \<and> root_lstat os fs R p = Inr (Regular b x) \<and> root_place fs R p = Inr q \<and> q \<notin> set mine")
      case False
      have "root_lstat os fs R p = Inr f \<Longrightarrow> \<exists>q. root_place fs R p = Inr q" for f
        by (auto simp: root_lstat_def split: if_splits)
      with False have "\<exists>e'. createOutputFile os fs R p mine = (fs, Inl e')"
        by (auto simp: createOutputFile_def c Inl fs1 is_Regular_def split: sum.splits)
      with handed_none [OF step_refl [OF wf]] show ?thesis by fastforce
    next
      case True
      then obtain b x q where t: "e = EEXIST" "root_lstat os fs R p = Inr (Regular b x)" "root_place fs R p = Inr q" "q \<notin> set mine"
        by blast
      then have f: "at fs (R @ q) = Some (Regular b x)" by (auto simp: root_lstat_def split: if_splits)
      obtain fs2 r2 where rm: "root_remove os fs R p = (fs2, r2)" by fastforce
      have s2: "step R (set mine) fs fs2" using root_remove_step [OF wf t(3) ne p R f t(4) rm] by blast
      obtain fs3 r3 where c3: "root_create os fs2 R p = (fs3, r3)" by fastforce
      have wf2: "wf_fs fs2" and R2: "at fs2 R = Some Folder" and m2: "\<forall>q \<in> set mine. at fs2 (R @ q) \<noteq> None"
        using s2 step_root [OF s2 R] m by (simp_all add: step_def)
      note s3 = root_create_step [OF wf2 ne p R2 m2 c3]
      have eq: "createOutputFile os fs R p mine = (case r2 of Inl e \<Rightarrow> (fs2, Inl (MatFile e))
          | Inr _ \<Rightarrow> (case r3 of Inl e \<Rightarrow> (fs3, Inl (MatFile e)) | Inr q \<Rightarrow> withInfo os fs3 R p q))"
        using t by (simp add: createOutputFile_def c Inl fs1 rm c3 split: sum.splits)
      show ?thesis
      proof (cases r2)
        case (Inl e2)
        with eq handed_none [OF s2] show ?thesis by simp
      next
        case (Inr u)
        show ?thesis
        proof (cases r3)
          case (Inl e3)
          with eq Inr s3 handed_none [OF s2] show ?thesis by simp
        next
          case (Inr q3)
          from create_then_info [OF wf2 ne p R2 m2 c3 [unfolded Inr]] have "handed_out R (set mine) fs2 p (withInfo os fs3 R p q3)" .
          from handed_after [OF s2 this] eq \<open>r2 = Inr u\<close> Inr show ?thesis by simp
        qed
      qed
    qed
  qed
qed

section \<open>A run\<close>

text \<open>What holds of a run so far: the files it made are there, each under its name.\<close>

definition running :: "name \<Rightarrow> fs \<Rightarrow> mat \<Rightarrow> bool" where
  "running R fs m \<longleftrightarrow> wf_fs (mt_fs m) \<and> stays fs (mt_fs m) \<and> apart R fs (mt_fs m) \<and> at (mt_fs m) R = Some Folder \<and>
     (\<forall>q \<in> set (mt_mine m). \<exists>c. at (mt_fs m) (R @ q) = Some (Regular False c))"

text \<open>From one state of a run to a later one.\<close>

definition onward :: "name \<Rightarrow> mat \<Rightarrow> mat \<Rightarrow> bool" where
  "onward R m m' \<longleftrightarrow> step R (set (mt_mine m)) (mt_fs m) (mt_fs m') \<and> set (mt_mine m) \<subseteq> set (mt_mine m')"

text \<open>A layer's file is in its place with the bytes its descriptor records, and is one this run made.\<close>

definition in_place :: "digest_lib \<Rightarrow> name \<Rightarrow> descriptor \<Rightarrow> name \<Rightarrow> mat \<Rightarrow> bool" where
  "in_place L R d p m \<longleftrightarrow> (\<exists>q c. q \<in> set (mt_mine m) \<and> root_place (mt_fs m) R p = Inr q \<and>
     at (mt_fs m) (R @ q) = Some (Regular False c) \<and> faithful L d c)"

lemma onward_refl: "wf_fs (mt_fs m) \<Longrightarrow> onward R m m"
  by (simp add: onward_def step_refl)

lemma onward_trans: "onward R a b \<Longrightarrow> onward R b c \<Longrightarrow> onward R a c"
  unfolding onward_def by (blast intro: step_trans step_fewer)

lemma in_place_onward:
  assumes "in_place L R d p m" and "onward R m m'"
  shows "in_place L R d p m'"
proof -
  from assms(1) obtain q c where q: "q \<in> set (mt_mine m)" "root_place (mt_fs m) R p = Inr q"
    "at (mt_fs m) (R @ q) = Some (Regular False c)" "faithful L d c"
    by (auto simp: in_place_def)
  from assms(2) have s: "stays (mt_fs m) (mt_fs m')" "at (mt_fs m') (R @ q) = at (mt_fs m) (R @ q)" "q \<in> set (mt_mine m')"
    using q(1) by (auto simp: onward_def step_def)
  from root_place_stays [OF q(2) s(1)] s q show ?thesis by (auto simp: in_place_def)
qed

lemma copyFile_step:
  assumes wf: "wf_fs fs" and p: "list_all plain p" and R: "at fs R = Some Folder"
    and m: "\<forall>q \<in> set mine. at fs (R @ q) \<noteq> None" and c: "copyFile L F os fs R p d mine = (fs', made, res)"
  shows "step R (set mine) fs fs' \<and>
    (\<forall>q. made = Some q \<longrightarrow> q \<notin> set mine \<and> root_place fs' R p = Inr q \<and>
       (\<exists>b. at fs' (R @ q) = Some (Regular False b) \<and> (\<forall>u. res = Inr u \<longrightarrow> faithful L d b))) \<and>
    (made = None \<longrightarrow> (\<forall>u. res \<noteq> Inr u))"
proof (cases "open_blob F (node_of d)")
  case None
  with c wf show ?thesis by (auto simp: copyFile_def step_refl)
next
  case (Some r)
  obtain fs1 o1 where o: "createOutputFile os fs R p mine = (fs1, o1)" by fastforce
  note h = createOutputFile_step [OF wf p R m, of os, unfolded o handed_out_def, simplified]
  show ?thesis
  proof (cases o1)
    case (Inl e)
    with c Some o h show ?thesis by (auto simp: copyFile_def)
  next
    case (Inr q)
    with h have q: "q \<notin> set mine" "at fs1 (R @ q) = Some (Regular False [])" "root_place fs1 R p = Inr q"
      and s: "step R (set mine) fs fs1" by simp_all
    have wf1: "wf_fs fs1" and R1: "at fs1 R = Some Folder" using s step_root [OF s R] by (simp_all add: step_def)
    have pn: "p \<noteq> []"
    proof
      assume "p = []"
      with q(3) have "q = []" by (simp add: root_place_def)
      with q(2) R1 show False by simp
    qed
    let ?got = "limited d (fst r)"
    have s2: "step R (set mine) fs1 (put fs1 (R @ q) (Regular False ?got))"
      by (rule step_put [OF wf1 q(3) pn p R1]) (use q in auto)
    have fs': "fs' = put fs1 (R @ q) (Regular False ?got)" "made = Some q"
      using c Some o Inr by (auto simp: copyFile_def Let_def)
    have ok: "faithful L d ?got" if "res = Inr u" for u
    proof -
      from that c Some o Inr have "int (length ?got) = Size d" "Verified L (Digest d) ?got"
        by (auto simp: copyFile_def Let_def split: if_splits)
      with limited_whole show ?thesis by (simp add: faithful_def)
    qed
    have "root_place fs' R p = Inr q" using root_place_stays [OF q(3)] s2 by (simp add: step_def fs')
    moreover have "at fs' (R @ q) = Some (Regular False ?got)"
      using root_place_below [OF q(3) pn p wf1 R1] by (simp add: fs' tree)
    ultimately show ?thesis using step_trans [OF s s2] q(1) ok fs' by auto
  qed
qed

lemma write_layer_step:
  assumes run: "running R fs m" and p: "list_all plain p" and w: "write_layer L F os R d p m = (m', res)"
  shows "running R fs m' \<and> onward R m m' \<and> (\<forall>u. res = Inr u \<longrightarrow> in_place L R d p m')"
proof (cases "Validate_ok L (Digest d)")
  case False
  with w run show ?thesis by (auto simp: write_layer_def running_def onward_def step_refl)
next
  case True
  obtain fs1 made r where c: "copyFile L F os (mt_fs m) R p d (mt_mine m) = (fs1, made, r)" by (metis prod_cases3)
  have wf: "wf_fs (mt_fs m)" and R: "at (mt_fs m) R = Some Folder" and mine: "\<forall>q \<in> set (mt_mine m). at (mt_fs m) (R @ q) \<noteq> None"
    using run by (auto simp: running_def)
  note s = copyFile_step [OF wf p R mine c]
  have keep: "running R fs (m\<lparr>mt_fs := fs1\<rparr>)" and on: "onward R m (m\<lparr>mt_fs := fs1\<rparr>)"
    using s run stays_trans step_root [OF conjunct1 [OF s] R] by (auto simp: running_def onward_def step_def)
  show ?thesis
  proof (cases made)
    case None
    with w True c have "m' = m\<lparr>mt_fs := fs1\<rparr>" "res = r" by (auto simp: write_layer_def)
    with keep on s None show ?thesis by auto
  next
    case (Some q)
    with w True c have m': "m' = m\<lparr>mt_fs := fs1, mt_written := mt_written m @ [p], mt_mine := mt_mine m @ [q]\<rparr>" "res = r"
      by (auto simp: write_layer_def)
    with keep on s Some show ?thesis by (auto simp: running_def onward_def in_place_def)
  qed
qed

text \<open>The directories of a layer: only directories are added, below the root.\<close>

lemma root_mkdir_step:
  assumes "root_mkdir_from os fs R over ps = (fs', res)" and "wf_fs fs" and "list_all plain over" and "list_all plain ps"
    and "at fs R = Some Folder" and "\<forall>q \<in> mine. at fs (R @ q) \<noteq> None"
  shows "step R mine fs fs'"
  using assms
proof (induction ps arbitrary: fs over)
  case Nil
  then show ?case by (simp add: step_refl)
next
  case (Cons p ps)
  let ?q = "over @ [p]"
  have pl: "list_all plain ?q" "list_all plain ps" "?q \<noteq> []" using Cons.prems(3,4) by simp_all
  note idle = step_refl [OF Cons.prems(2), of R mine]
  show ?case
  proof (cases "root_walk root_max_links fs R [] ?q")
    case (Inr d)
    with Cons.prems have "root_mkdir_from os fs R ?q ps = (fs', res)" by simp
    from Cons.IH [OF this Cons.prems(2) pl(1,2) Cons.prems(5,6)] show ?thesis .
  next
    case (Inl e)
    show ?thesis
    proof (cases "e = ENOENT \<and> \<not> fault os CMkdir (R @ ?q) fs \<and> (\<exists>r. root_place fs R ?q = Inr r \<and> at fs (R @ r) = None)")
      case False
      with Cons.prems(1) Inl have "fs' = fs" by (auto simp: Let_def split: errno.splits if_splits sum.splits)
      with idle show ?thesis by simp
    next
      case True
      then obtain r where r: "e = ENOENT" "\<not> fault os CMkdir (R @ ?q) fs" "root_place fs R ?q = Inr r" "at fs (R @ r) = None"
        by blast
      let ?g = "put fs (R @ r) Folder"
      have "r \<notin> mine" using r(4) Cons.prems(6) by blast
      then have s: "step R mine fs ?g"
        using step_put [OF Cons.prems(2) r(3) pl(3,1) Cons.prems(5), of Folder mine] r(4) by simp
      from Cons.prems(1) Inl r have rest: "root_mkdir_from os ?g R ?q ps = (fs', res)" by simp
      have "wf_fs ?g" "at ?g R = Some Folder" "\<forall>q \<in> mine. at ?g (R @ q) \<noteq> None"
        using s step_root [OF s Cons.prems(5)] Cons.prems(6) by (simp_all add: step_def)
      from step_trans [OF s Cons.IH [OF rest this(1) pl(1,2) this(2,3)]] show ?thesis .
    qed
  qed
qed

lemma components_plain:
  assumes "\<not> IsAbs (Clean s)" and "Clean s \<noteq> ''..''" and "\<not> prefix ''../'' (Clean s)"
  shows "list_all plain (components (Clean s))"
proof (cases "Clean s = ''.''")
  case True
  then show ?thesis by (simp add: components_def parts_def)
next
  case False
  with Clean_below [OF assms] obtain ps where "list_all plain ps" "Clean s = join_on CHR ''/'' ps" by blast
  then show ?thesis by (simp add: components_def parts_join list.pred_set)
qed

text \<open>What a layer asks for: a file, or nothing when it names none and holds no weights.\<close>

definition settled :: "model_spec \<Rightarrow> digest_lib \<Rightarrow> name \<Rightarrow> descriptor \<Rightarrow> mat \<Rightarrow> bool" where
  "settled S L R d m \<longleftrightarrow> (file_name d = [] \<and> KindOf S (MediaType d) \<noteq> LayerKindWeight) \<or>
     (file_name d \<noteq> [] \<and> IsRaw S (MediaType d) \<and> list_all plain (components (Clean (file_name d))) \<and>
      in_place L R d (components (Clean (file_name d))) m)"

lemma settled_onward: "settled S L R d m \<Longrightarrow> onward R m m' \<Longrightarrow> settled S L R d m'"
  unfolding settled_def using in_place_onward by blast

lemma materialize_layer_step:
  assumes run: "running R fs m" and l: "materialize_layer S L F os R d m = (m', res)"
  shows "running R fs m' \<and> onward R m m' \<and> (\<forall>u. res = Inr u \<longrightarrow> settled S L R d m')"
proof -
  let ?clean = "Clean (file_name d)" and ?p = "components (Clean (file_name d))"
  have wf: "wf_fs (mt_fs m)" and R: "at (mt_fs m) R = Some Folder" and mine: "\<forall>q \<in> set (mt_mine m). at (mt_fs m) (R @ q) \<noteq> None"
    using run by (auto simp: running_def)
  note same = onward_refl [OF wf, of R]
  show ?thesis
  proof (cases "file_name d = [] \<or> \<not> IsRaw S (MediaType d) \<or> IsAbs ?clean \<or> ?clean = ''..'' \<or> prefix ''../'' ?clean")
    case True
    with l run same show ?thesis by (auto simp: materialize_layer_def Let_def settled_def split: if_splits)
  next
    case False
    then have named: "file_name d \<noteq> []" "IsRaw S (MediaType d)" and p: "list_all plain ?p" using components_plain by blast+
    have finish: "running R fs m' \<and> onward R m1 m' \<and> (\<forall>u. res = Inr u \<longrightarrow> settled S L R d m')"
      if "running R fs m1" "write_layer L F os R d ?p m1 = (m', res)" for m1
      using write_layer_step [OF that(1) p that(2)] named p by (auto simp: settled_def)
    show ?thesis
    proof (cases "length ?p \<le> 1")
      case True
      with l False have "write_layer L F os R d ?p m = (m', res)" by (simp add: materialize_layer_def Let_def)
      from finish [OF run this] show ?thesis .
    next
      case deep: False
      obtain fs1 mk where mk: "root_mkdir_from os (mt_fs m) R [] (butlast ?p) = (fs1, mk)" by fastforce
      have bl: "list_all plain (butlast ?p)" using p by (auto simp: list.pred_set dest: in_set_butlastD)
      have s: "step R (set (mt_mine m)) (mt_fs m) fs1"
        by (rule root_mkdir_step [OF mk wf _ bl R mine]) simp
      define m1 where "m1 = m\<lparr>mt_fs := fs1, mt_dirs := mt_dirs m @ missingDirs os (mt_fs m) R (butlast ?p)\<rparr>"
      have m1: "running R fs m1" "onward R m m1"
        using s run stays_trans step_root [OF s R] by (auto simp: m1_def running_def onward_def step_def)
      show ?thesis
      proof (cases mk)
        case (Inl e)
        with l False deep mk have "m' = m1" "res = Inl (MatFile e)" by (simp_all add: materialize_layer_def Let_def m1_def)
        with m1 show ?thesis by simp
      next
        case (Inr u)
        with l False deep mk have "write_layer L F os R d ?p m1 = (m', res)" by (simp add: materialize_layer_def Let_def m1_def)
        from finish [OF m1(1) this] m1(2) onward_trans show ?thesis by blast
      qed
    qed
  qed
qed

lemma materialize_layers_step:
  "running R fs m \<Longrightarrow> materialize_layers S L F os R ds m = (m', res) \<Longrightarrow>
    running R fs m' \<and> onward R m m' \<and> (\<forall>u. res = Inr u \<longrightarrow> (\<forall>d \<in> set ds. settled S L R d m'))"
proof (induction ds arbitrary: m)
  case Nil
  then show ?case by (auto simp: running_def intro: onward_refl)
next
  case (Cons d ds)
  obtain m1 r1 where l: "materialize_layer S L F os R d m = (m1, r1)" by fastforce
  note one = materialize_layer_step [OF Cons.prems(1) l]
  show ?case
  proof (cases r1)
    case (Inl e)
    with Cons.prems(2) l one show ?thesis by auto
  next
    case (Inr u)
    with Cons.prems(2) l have "materialize_layers S L F os R ds m1 = (m', res)" by simp
    from Cons.IH [OF conjunct1 [OF one] this] one Inr settled_onward onward_trans show ?thesis by auto
  qed
qed

section \<open>The output directory\<close>

text \<open>Only directories are new.\<close>

definition more_dirs :: "fs \<Rightarrow> fs \<Rightarrow> bool" where
  "more_dirs fs fs' \<longleftrightarrow> (\<forall>q. at fs' q = at fs q \<or> at fs q = None \<and> at fs' q = Some Folder)"

lemma more_dirs_refl [simp]: "more_dirs fs fs"
  by (simp add: more_dirs_def)

lemma more_dirs_trans: "more_dirs a b \<Longrightarrow> more_dirs b c \<Longrightarrow> more_dirs a c"
  unfolding more_dirs_def by metis

lemma walk_dots: "walk n fs cur ps = Inr d \<Longrightarrow> p = ''.'' \<or> p = ''..'' \<Longrightarrow> \<exists>d'. walk n fs cur (ps @ [p]) = Inr d'"
  by (induction n fs cur ps rule: walk.induct) (auto split: if_splits option.splits inode.splits)

lemma mkdir_from_adds:
  assumes "mkdir_from os fs over ps = (fs', res)" and "wf_fs fs" and "list_all (\<lambda>p. p \<noteq> [] \<and> CHR ''/'' \<notin> set p) ps"
  shows "wf_fs fs' \<and> more_dirs fs fs'"
  using assms
proof (induction ps arbitrary: fs over)
  case Nil
  then show ?case by simp
next
  case (Cons p ps)
  let ?q = "over @ [p]"
  show ?case
  proof (cases "directory fs ?q")
    case (Inr d)
    with Cons.prems have "mkdir_from os fs ?q ps = (fs', res)" by simp
    from Cons.IH [OF this Cons.prems(2)] Cons.prems(3) show ?thesis by simp
  next
    case (Inl e)
    show ?thesis
    proof (cases "e = ENOENT \<and> \<not> fault os CMkdir ?q fs \<and> (\<exists>r. place fs ?q = Inr r \<and> at fs r = None)")
      case False
      with Cons.prems(1) Inl have "fs' = fs" by (auto simp: Let_def split: errno.splits if_splits sum.splits)
      with Cons.prems(2) show ?thesis by simp
    next
      case True
      then obtain r where r: "e = ENOENT" "\<not> fault os CMkdir ?q fs" "place fs ?q = Inr r" "at fs r = None" by blast
      then obtain d where d: "directory fs over = Inr d" "r = d @ [p]" by (auto simp: place_def)
      have "p \<noteq> ''.'' \<and> p \<noteq> ''..''" using walk_dots [of max_links fs "[]" over d p] d(1) Inl by (auto simp: directory_def)
      with Cons.prems(3) have p: "plain p" by (auto simp: plain_def)
      have f: "at fs d = Some Folder" by (rule directory_folder [OF d(1) Cons.prems(2)])
      then have "list_all plain d" using Cons.prems(2) by (cases "d = []") (auto simp: wf_fs_def)
      then have wf: "wf_fs (put fs r Folder)" using f p d(2) by (intro wf_put [OF Cons.prems(2)]) simp_all
      have new: "more_dirs fs (put fs r Folder)" using r(4) d(2) by (auto simp: more_dirs_def tree)
      from Cons.prems(1) Inl r have "mkdir_from os (put fs r Folder) ?q ps = (fs', res)" by simp
      from Cons.IH [OF this wf] Cons.prems(3) new more_dirs_trans show ?thesis by auto
    qed
  qed
qed

lemma parts_components: "list_all (\<lambda>p. p \<noteq> [] \<and> CHR ''/'' \<notin> set p) (parts s)"
  using split_slash_free [of s] by (auto simp: parts_def list.pred_set)

lemma MkdirAll_adds: "MkdirAll os fs (parts dir) = (fs', res) \<Longrightarrow> wf_fs fs \<Longrightarrow> wf_fs fs' \<and> more_dirs fs fs'"
  unfolding MkdirAll_def by (rule mkdir_from_adds [OF _ _ parts_components])

section \<open>What is written\<close>

text \<open>
  A layer with a file name is a whole file below the root, under that name; a layer without one holds no
  weights.
\<close>

definition written_out :: "model_spec \<Rightarrow> digest_lib \<Rightarrow> fs \<Rightarrow> name \<Rightarrow> descriptor \<Rightarrow> bool" where
  "written_out S L fs R d \<longleftrightarrow>
     (if file_name d = [] then KindOf S (MediaType d) \<noteq> LayerKindWeight
      else \<exists>q c. root_place fs R (components (Clean (file_name d))) = Inr q \<and> q \<noteq> [] \<and>
        at fs (R @ q) = Some (Regular False c) \<and> faithful L d c)"

definition start_mat :: "fs \<Rightarrow> mat" where
  "start_mat fs = \<lparr>mt_fs = fs, mt_written = [], mt_dirs = [], mt_mine = []\<rparr>"

lemma start_running: "wf_fs fs \<Longrightarrow> at fs R = Some Folder \<Longrightarrow> running R fs (start_mat fs)"
  by (simp add: running_def start_mat_def)

lemma settled_written: "settled S L R d m \<Longrightarrow> at (mt_fs m) R = Some Folder \<Longrightarrow> written_out S L (mt_fs m) R d"
  by (fastforce simp: settled_def written_out_def in_place_def)

lemma materialize_success:
  assumes ok: "materialize S L F os desc dir fs = (fs', Inr files)" and wf: "wf_fs fs"
  shows "\<exists>man R. FetchManifest F desc = Inr man \<and> directory fs' (parts dir) = Inr R \<and>
    (\<forall>d \<in> set (Layers man). written_out S L fs' R d) \<and>
    (\<forall>q. \<not> strict_prefix R q \<longrightarrow> at fs' q = at fs q \<or> at fs q = None \<and> at fs' q = Some Folder)"
proof -
  from ok obtain man where man: "FetchManifest F desc = Inr man" by (cases "FetchManifest F desc") (auto simp: materialize_def)
  obtain fs1 r1 where mk: "MkdirAll os fs (parts dir) = (fs1, r1)" by fastforce
  from ok man mk have "r1 = Inr ()" by (cases r1) (auto simp: materialize_def)
  with ok man mk obtain R where R: "directory fs1 (parts dir) = Inr R"
    by (cases "directory fs1 (parts dir)") (auto simp: materialize_def Let_def split: if_splits)
  obtain m r where run: "materialize_layers S L F os R (Layers man) (start_mat fs1) = (m, r)" by fastforce
  from ok man mk \<open>r1 = Inr ()\<close> R run have m: "fs' = mt_fs m" "r = Inr ()"
    by (cases r; auto simp: materialize_def start_mat_def Let_def split: if_splits)+
  note adds = MkdirAll_adds [OF mk wf]
  have f: "at fs1 R = Some Folder" using directory_folder [OF R] adds by blast
  note s = materialize_layers_step [OF start_running [OF conjunct1 [OF adds] f] run]
  then have "directory fs' (parts dir) = Inr R"
    using walk_stays [of max_links fs1 "[]" "parts dir" R fs'] R m(1) by (simp add: running_def directory_def)
  moreover have "written_out S L fs' R d" if "d \<in> set (Layers man)" for d
    using s that m settled_written by (simp add: running_def)
  moreover have "at fs' q = at fs q \<or> at fs q = None \<and> at fs' q = Some Folder" if "\<not> strict_prefix R q" for q
    using s adds that m(1) by (simp add: running_def apart_def more_dirs_def)
  ultimately show ?thesis using man by blast
qed

end
