(* ===== verification/MaterializeUndo.thy ===== *)
theory MaterializeUndo
  imports MaterializeSpec
begin

text \<open>
  A refused materialization takes back what it wrote. Proved where the tree holds no symbolic links and
  neither a look at a name nor a removal fails: then a name below the output directory is the place it
  leads to.
\<close>

definition quiet :: "os \<Rightarrow> bool" where
  "quiet os \<longleftrightarrow> (\<forall>p fs. \<not> fault os CLstat p fs \<and> \<not> fault os CRemove p fs)"

definition no_links :: "fs \<Rightarrow> bool" where
  "no_links fs \<longleftrightarrow> (\<forall>q b t. at fs q \<noteq> Some (Symlink b t))"

section \<open>Without links\<close>

lemma root_walk_straight:
  "root_walk n fs R cur ps = Inr d \<Longrightarrow> no_links fs \<Longrightarrow> list_all plain ps \<Longrightarrow> d = cur @ ps"
proof (induction n fs R cur ps rule: root_walk.induct)
  case (2 n fs R cur p ps)
  have "at fs (R @ cur @ [p]) \<noteq> Some (Symlink b t)" for b t using "2.prems"(2) by (simp add: no_links_def)
  with 2 show ?case by (auto simp: plain_def split: option.splits inode.splits)
qed simp

lemma root_walk_there:
  "wf_fs fs \<Longrightarrow> list_all plain ps \<Longrightarrow> at fs (R @ cur @ ps) = Some Folder \<Longrightarrow> root_walk n fs R cur ps = Inr (cur @ ps)"
proof (induction ps arbitrary: cur)
  case (Cons p ps)
  have "at fs (R @ cur @ [p]) = Some Folder"
  proof (rule ccontr)
    assume n: "at fs (R @ cur @ [p]) \<noteq> Some Folder"
    with Cons.prems(3) have "ps \<noteq> []" by auto
    then have "strict_prefix (R @ cur @ [p]) (R @ cur @ p # ps)" by (simp add: strict_prefix_def)
    with wf_below [OF Cons.prems(1) n] Cons.prems(3) show False by simp
  qed
  with Cons show ?case by (simp add: plain_def)
qed simp

lemma root_place_straight: "root_place fs R p = Inr q \<Longrightarrow> no_links fs \<Longrightarrow> list_all plain p \<Longrightarrow> q = p"
proof (cases "p = []")
  case False
  assume a: "root_place fs R p = Inr q" "no_links fs" "list_all plain p"
  have "list_all plain (butlast p)" using a(3) by (auto simp: list.pred_set dest: in_set_butlastD)
  with a False root_walk_straight [of root_max_links fs R "[]" "butlast p"] show ?thesis by (auto simp: root_place_def)
qed (simp add: root_place_def)

lemma root_place_there:
  assumes "wf_fs fs" and "list_all plain p" and "p \<noteq> []" and "at fs (R @ p) \<noteq> None"
  shows "root_place fs R p = Inr p"
proof -
  from assms(4) obtain f where f: "at fs (R @ p) = Some f" by blast
  then have "at fs (R @ butlast p) = Some Folder"
    using assms(1,3) by (auto simp: wf_fs_def butlast_append dest!: spec [of _ "R @ p"])
  moreover have "list_all plain (butlast p)" using assms(2) by (auto simp: list.pred_set dest: in_set_butlastD)
  ultimately show ?thesis
    using root_walk_there [of fs "butlast p" R "[]" root_max_links] assms(1,3) by (simp add: root_place_def)
qed

lemma quiet_lstat:
  assumes "quiet os" and "wf_fs fs" and "no_links fs" and "list_all plain p" and "p \<noteq> []"
  shows "(\<exists>e. root_lstat os fs R p = Inl e) \<longleftrightarrow> at fs (R @ p) = None"
proof (cases "at fs (R @ p)")
  case None
  then show ?thesis
    using assms root_place_straight [of fs R p] by (cases "root_place fs R p") (auto simp: root_lstat_def quiet_def from_option_def)
next
  case (Some f)
  then show ?thesis
    using assms root_place_there [of fs p R] by (simp add: root_lstat_def quiet_def from_option_def)
qed

text \<open>Removing a name that is no directory with something in it, and what is left.\<close>

lemma quiet_remove:
  assumes "quiet os" and "wf_fs fs" and "no_links fs" and "list_all plain p" and "p \<noteq> []"
    and "at fs (R @ p) = Some Folder \<Longrightarrow> children fs (R @ p) = []"
  shows "at (fst (root_remove os fs R p)) q = (if q = R @ p then None else at fs q)"
proof (cases "at fs (R @ p)")
  case None
  then show ?thesis
    using assms root_place_straight [of fs R p]
    by (cases "root_place fs R p") (auto simp: root_remove_def drop_node_def quiet_def)
next
  case (Some f)
  then show ?thesis
    using assms root_place_there [of fs p R] by (auto simp: root_remove_def drop_node_def quiet_def tree)
qed

lemma wf_removed:
  assumes "wf_fs fs" and "\<And>q. at fs' q = (if q = x then None else at fs q)" and "x \<noteq> []"
    and "at fs x = Some Folder \<Longrightarrow> children fs x = []"
  shows "wf_fs fs'"
  unfolding wf_fs_def
proof (intro allI impI)
  fix p f assume p: "p \<noteq> []" "at fs' p = Some f"
  with assms(2) have o: "at fs p = Some f" "p \<noteq> x" by (auto split: if_splits)
  with assms(1) p(1) have w: "list_all plain p" "at fs (butlast p) = Some Folder" by (auto simp: wf_fs_def)
  have "butlast p \<noteq> x"
  proof
    assume "butlast p = x"
    with w(2) assms(4) have "children fs x = []" by simp
    moreover have "last p \<in> set (children fs x)" using o(1) \<open>butlast p = x\<close> p(1) by (metis append_butlast_last_id in_children option.distinct(1))
    ultimately show False by simp
  qed
  with w assms(2) show "list_all plain p \<and> at fs' (butlast p) = Some Folder" by simp
qed

section \<open>Taking back\<close>

lemma remove_files:
  assumes "quiet os" and "wf_fs fs" and "no_links fs"
    and "\<forall>p \<in> set ps. list_all plain p \<and> p \<noteq> [] \<and> at fs (R @ p) \<noteq> Some Folder"
  shows "(\<forall>q. at (fold (\<lambda>p fs. fst (root_remove os fs R p)) ps fs) q = (if \<exists>p \<in> set ps. q = R @ p then None else at fs q)) \<and>
    wf_fs (fold (\<lambda>p fs. fst (root_remove os fs R p)) ps fs) \<and> no_links (fold (\<lambda>p fs. fst (root_remove os fs R p)) ps fs)"
  using assms
proof (induction ps arbitrary: fs)
  case Nil
  then show ?case by simp
next
  case (Cons p ps)
  let ?g = "fst (root_remove os fs R p)"
  have p: "list_all plain p" "p \<noteq> []" "at fs (R @ p) \<noteq> Some Folder" using Cons.prems(4) by simp_all
  have g: "at ?g q = (if q = R @ p then None else at fs q)" for q
    by (rule quiet_remove [OF Cons.prems(1-3) p(1,2)]) (use p(3) in simp)
  have wf: "wf_fs ?g" by (rule wf_removed [OF Cons.prems(2) g]) (use p in simp_all)
  have nl: "no_links ?g" using Cons.prems(3) g by (simp add: no_links_def)
  have "\<forall>p \<in> set ps. list_all plain p \<and> p \<noteq> [] \<and> at ?g (R @ p) \<noteq> Some Folder" using Cons.prems(4) g by simp
  from Cons.IH [OF Cons.prems(1) wf nl this] g show ?case by auto
qed

text \<open>The directories go deepest first; by the time one comes to its turn nothing is in it.\<close>

lemma remove_dirs:
  assumes q: "quiet os" and "wf_fs fs" and "no_links fs" and wf0: "wf_fs fs0"
    and "\<forall>d \<in> set ds. list_all plain d \<and> d \<noteq> [] \<and> at fs0 (R @ d) \<noteq> Some Folder \<and>
      (at fs (R @ d) = None \<or> at fs (R @ d) = Some Folder)"
    and "sorted_wrt (\<lambda>d e. \<not> strict_prefix d e) ds"
    and "\<forall>q f. at fs (R @ q) = Some f \<longrightarrow> at fs0 (R @ q) = Some f \<or> q \<in> set ds"
  shows "(\<forall>q f. at (fold (\<lambda>p fs. fst (root_remove os fs R p)) ds fs) (R @ q) = Some f \<longrightarrow> at fs0 (R @ q) = Some f) \<and>
    (\<forall>q. \<not> strict_prefix R q \<longrightarrow> at (fold (\<lambda>p fs. fst (root_remove os fs R p)) ds fs) q = at fs q) \<and>
    wf_fs (fold (\<lambda>p fs. fst (root_remove os fs R p)) ds fs) \<and> no_links (fold (\<lambda>p fs. fst (root_remove os fs R p)) ds fs)"
  using assms
proof (induction ds arbitrary: fs)
  case Nil
  then show ?case by simp
next
  case (Cons d ds)
  let ?g = "fst (root_remove os fs R d)"
  have d: "list_all plain d" "d \<noteq> []" "at fs0 (R @ d) \<noteq> Some Folder" using Cons.prems(5) by simp_all
  have empty: "children fs (R @ d) = []"
  proof (rule ccontr)
    assume "children fs (R @ d) \<noteq> []"
    then obtain x where "x \<in> set (children fs (R @ d))" by (meson list.set_sel(1))
    then obtain f where f: "at fs (R @ d @ [x]) = Some f" by auto
    have "at fs0 (R @ d @ [x]) = None" by (rule wf_below [OF wf0 d(3)]) (simp add: strict_prefix_def)
    with f Cons.prems(7) have "d @ [x] \<in> set (d # ds)" by (metis option.distinct(1))
    with Cons.prems(6) show False by (auto simp: strict_prefix_def)
  qed
  have g: "at ?g q = (if q = R @ d then None else at fs q)" for q
    by (rule quiet_remove [OF Cons.prems(1-3) d(1,2)]) (rule empty)
  have wf: "wf_fs ?g" by (rule wf_removed [OF Cons.prems(2) g]) (use d empty in simp_all)
  have nl: "no_links ?g" using Cons.prems(3) g by (simp add: no_links_def)
  have ds: "\<forall>e \<in> set ds. list_all plain e \<and> e \<noteq> [] \<and> at fs0 (R @ e) \<noteq> Some Folder \<and> (at ?g (R @ e) = None \<or> at ?g (R @ e) = Some Folder)"
    using Cons.prems(5) g by auto
  have so: "sorted_wrt (\<lambda>d e. \<not> strict_prefix d e) ds" using Cons.prems(6) by simp
  have rest: "\<forall>q f. at ?g (R @ q) = Some f \<longrightarrow> at fs0 (R @ q) = Some f \<or> q \<in> set ds" using Cons.prems(7) g by auto
  have out: "\<not> strict_prefix R q \<Longrightarrow> at ?g q = at fs q" for q using g d(2) by (auto simp: strict_prefix_def)
  from Cons.IH [OF q wf nl wf0 ds so rest] out show ?case by simp
qed

section \<open>What a run changes\<close>

text \<open>One name below the root: free, or with a file on it, where no directory was.\<close>

definition touches :: "name \<Rightarrow> fs \<Rightarrow> fs \<Rightarrow> bool" where
  "touches x fs fs' \<longleftrightarrow> (\<forall>q. q \<noteq> x \<longrightarrow> at fs' q = at fs q) \<and>
     (at fs' x = at fs x \<or> at fs x \<noteq> Some Folder \<and> (at fs' x = None \<or> (\<exists>b c. at fs' x = Some (Regular b c))))"

lemma touches_refl [simp]: "touches x fs fs"
  by (simp add: touches_def)

lemma touches_trans: "touches x a b \<Longrightarrow> touches x b c \<Longrightarrow> touches x a c"
  unfolding touches_def by (metis option.sel)

lemma touches_links: "touches x fs fs' \<Longrightarrow> no_links fs \<Longrightarrow> no_links fs'"
  unfolding touches_def no_links_def by (metis inode.distinct(3) option.distinct(1) option.inject)

lemma create_touches:
  assumes "root_create os fs R p = (fs', res)" and "no_links fs" and "list_all plain p"
  shows "touches (R @ p) fs fs' \<and> (\<forall>q. res = Inr q \<longrightarrow> at fs' (R @ p) = Some (Regular False []) \<or> p = [])"
proof (cases "fault os CCreate (R @ p) fs")
  case True
  with assms(1) show ?thesis by (auto simp: root_create_def)
next
  case False
  show ?thesis
  proof (cases "root_place fs R p")
    case (Inl e)
    with False assms(1) show ?thesis by (auto simp: root_create_def)
  next
    case (Inr q)
    with root_place_straight assms(2,3) have "q = p" by blast
    with Inr False assms(1) show ?thesis
      by (cases "R @ p = []") (auto simp: root_create_def touches_def tree split: if_splits)
  qed
qed

lemma remove_touches:
  assumes "quiet os" and "wf_fs fs" and "no_links fs" and "list_all plain p" and "p \<noteq> []" and "at fs (R @ p) \<noteq> Some Folder"
  shows "touches (R @ p) fs (fst (root_remove os fs R p))"
proof -
  have "at (fst (root_remove os fs R p)) q = (if q = R @ p then None else at fs q)" for q
    by (rule quiet_remove [OF assms(1-5)]) (use assms(6) in simp)
  then show ?thesis using assms(6) by (simp add: touches_def)
qed

lemma withInfo_touches:
  assumes "quiet os" and "wf_fs fs" and "no_links fs" and "list_all plain p" and "p \<noteq> []" and "at fs (R @ p) = Some (Regular b c)"
    and "withInfo os fs R p q = (fs', res)"
  shows "touches (R @ p) fs fs' \<and> (\<forall>e. res = Inl e \<longrightarrow> at fs' (R @ p) = None) \<and> (\<forall>r. res = Inr r \<longrightarrow> fs' = fs)"
proof -
  have f: "at fs (R @ p) \<noteq> Some Folder" by (simp add: assms(6))
  show ?thesis
    using remove_touches [OF assms(1-5) f] quiet_remove [OF assms(1-5), of R "R @ p"] f assms(7)
    by (auto simp: withInfo_def split: if_splits)
qed

text \<open>A file made is there; a file not made leaves its name free or as it was.\<close>

definition file_result :: "name \<Rightarrow> fs \<Rightarrow> fs \<Rightarrow> bool \<Rightarrow> bool" where
  "file_result x fs fs' made \<longleftrightarrow> touches x fs fs' \<and>
     (if made then \<exists>b c. at fs' x = Some (Regular b c) else at fs' x = at fs x \<or> at fs' x = None)"

lemma create_info_result:
  assumes q: "quiet os" and wf: "wf_fs fs" and nl: "no_links fs" and p: "list_all plain p" "p \<noteq> []" and R: "at fs R = Some Folder"
    and c: "root_create os fs R p = (fs1, Inr r)" and w: "withInfo os fs1 R p r = (fs2, res)"
  shows "file_result (R @ p) fs fs2 (\<exists>r. res = Inr r)"
proof -
  have t: "touches (R @ p) fs fs1" "at fs1 (R @ p) = Some (Regular False [])"
    using create_touches [OF c nl p(1)] p(2) by auto
  have wf1: "wf_fs fs1" using root_create_step [OF wf p(2,1) R _ c, of "{}"] by (simp add: step_def)
  note i = withInfo_touches [OF q wf1 touches_links [OF t(1) nl] p t(2) w]
  show ?thesis
    using touches_trans [OF t(1)] i t(2) by (cases res) (auto simp: file_result_def)
qed

lemma createOutputFile_result:
  assumes q: "quiet os" and wf: "wf_fs fs" and nl: "no_links fs" and p: "list_all plain p" and R: "at fs R = Some Folder"
    and m: "\<forall>q \<in> set mine. at fs (R @ q) \<noteq> None" and c: "createOutputFile os fs R p mine = (fs', res)"
  shows "file_result (R @ p) fs fs' (\<exists>r. res = Inr r)"
proof (cases "p = []")
  case True
  with R c show ?thesis
    by (auto simp: createOutputFile_def root_create_def root_lstat_def root_place_def from_option_def file_result_def split: if_splits)
next
  case ne: False
  obtain fs1 r1 where c1: "root_create os fs R p = (fs1, r1)" by fastforce
  show ?thesis
  proof (cases r1)
    case (Inr r)
    from create_info_result [OF q wf nl p ne R] c1 c Inr show ?thesis by (simp add: createOutputFile_def)
  next
    case (Inl e)
    with root_create_step [OF wf ne p R m c1] have fs1: "fs1 = fs" by blast
    show ?thesis
    proof (cases "\<exists>b x. e = EEXIST \<and> root_lstat os fs R p = Inr (Regular b x) \<and> \<not> (\<exists>q \<in> set mine. root_place fs R p = Inr q)")
      case False
      then have "fs' = fs \<and> (\<exists>e. res = Inl e)"
        using c by (auto simp: createOutputFile_def c1 Inl fs1 is_Regular_def split: sum.splits if_splits)
      then show ?thesis by (auto simp: file_result_def)
    next
      case True
      then obtain b x where t: "e = EEXIST" "root_lstat os fs R p = Inr (Regular b x)" "\<not> (\<exists>q \<in> set mine. root_place fs R p = Inr q)"
        by blast
      then obtain r where r: "root_place fs R p = Inr r" "at fs (R @ r) = Some (Regular b x)"
        by (auto simp: root_lstat_def split: if_splits)
      have rp: "r = p" using root_place_straight [OF r(1) nl p] .
      have nf: "at fs (R @ p) \<noteq> Some Folder" using r(2) rp by simp
      obtain fs2 r2 where rm: "root_remove os fs R p = (fs2, r2)" by fastforce
      have t2: "touches (R @ p) fs fs2" "at fs2 (R @ p) = None"
        using remove_touches [OF q wf nl p ne nf] quiet_remove [OF q wf nl p ne, of R "R @ p"] nf rm by auto
      have "p \<notin> set mine" using t(3) r(1) rp by blast
      then have s2: "step R (set mine) fs fs2" using root_remove_step [OF wf r(1) ne p R r(2), of "set mine" os] rm rp by simp
      have wf2: "wf_fs fs2" and R2: "at fs2 R = Some Folder" and nl2: "no_links fs2" and m2: "\<forall>q \<in> set mine. at fs2 (R @ q) \<noteq> None"
        using s2 step_root [OF s2 R] touches_links [OF t2(1) nl] m by (simp_all add: step_def)
      obtain fs3 r3 where c3: "root_create os fs2 R p = (fs3, r3)" by fastforce
      have eq: "(fs', res) = (case r2 of Inl e \<Rightarrow> (fs2, Inl (MatFile e))
          | Inr _ \<Rightarrow> (case r3 of Inl e \<Rightarrow> (fs3, Inl (MatFile e)) | Inr q \<Rightarrow> withInfo os fs3 R p q))"
        using t c by (simp add: createOutputFile_def c1 Inl fs1 rm c3 split: sum.splits)
      show ?thesis
      proof (cases r2)
        case (Inl e2)
        with eq t2 show ?thesis by (simp add: file_result_def)
      next
        case u: (Inr u)
        show ?thesis
        proof (cases r3)
          case (Inl e3)
          with root_create_step [OF wf2 ne p R2 m2 c3] have "fs3 = fs2" by blast
          with eq t2 u Inl show ?thesis by (simp add: file_result_def)
        next
          case (Inr r4)
          with eq u have w: "withInfo os fs3 R p r4 = (fs', res)" by simp
          have fr: "file_result (R @ p) fs2 fs' (\<exists>r. res = Inr r)"
            by (rule create_info_result [OF q wf2 nl2 p ne R2 c3 [unfolded Inr] w])
          then show ?thesis
            using touches_trans [OF t2(1)] t2(2) by (auto simp: file_result_def split: if_splits)
        qed
      qed
    qed
  qed
qed

lemma copyFile_result:
  assumes q: "quiet os" and wf: "wf_fs fs" and nl: "no_links fs" and p: "list_all plain p" and R: "at fs R = Some Folder"
    and m: "\<forall>q \<in> set mine. at fs (R @ q) \<noteq> None" and c: "copyFile L F os fs R p d mine = (fs', made, res)"
  shows "file_result (R @ p) fs fs' (made \<noteq> None) \<and> (made = None \<longrightarrow> (\<forall>u. res \<noteq> Inr u)) \<and> (made \<noteq> None \<longrightarrow> p \<noteq> [])"
proof (cases "open_blob F (node_of d)")
  case None
  with c show ?thesis by (auto simp: copyFile_def file_result_def)
next
  case (Some r)
  obtain fs1 o1 where o: "createOutputFile os fs R p mine = (fs1, o1)" by fastforce
  note f = createOutputFile_result [OF q wf nl p R m o]
  note h = createOutputFile_step [OF wf p R m, of os, unfolded o handed_out_def, simplified]
  show ?thesis
  proof (cases o1)
    case (Inl e)
    with c Some o f show ?thesis by (auto simp: copyFile_def)
  next
    case (Inr r1)
    with f have t: "touches (R @ p) fs fs1" "\<exists>b c. at fs1 (R @ p) = Some (Regular b c)" by (auto simp: file_result_def)
    from h Inr have pl: "root_place fs1 R p = Inr r1" "at fs1 R = Some Folder" using step_root [OF _ R] by auto
    have "r1 = p" by (rule root_place_straight [OF pl(1) touches_links [OF t(1) nl] p])
    have ne: "p \<noteq> []" using t(2) pl(2) by auto
    with c Some o Inr \<open>r1 = p\<close> have fs': "fs' = put fs1 (R @ p) (Regular False (limited d (fst r)))" "made = Some p"
      by (auto simp: copyFile_def Let_def)
    have "touches (R @ p) fs1 fs'" using ne t(2) by (auto simp: fs' touches_def tree)
    with touches_trans [OF t(1)] ne show ?thesis by (auto simp: fs' file_result_def tree)
  qed
qed

section \<open>What a run made\<close>

lemma front_cases:
  "(\<exists>qs. qs \<noteq> [] \<and> prefix qs (p # ps) \<and> P qs) \<longleftrightarrow> P [p] \<or> (\<exists>r. r \<noteq> [] \<and> prefix r ps \<and> P (p # r))"
  "(\<forall>qs. qs \<noteq> [] \<longrightarrow> prefix qs (p # ps) \<longrightarrow> P qs) \<longleftrightarrow> P [p] \<and> (\<forall>r. r \<noteq> [] \<longrightarrow> prefix r ps \<longrightarrow> P (p # r))"
proof -
  have f: "qs \<noteq> [] \<and> prefix qs (p # ps) \<longleftrightarrow> qs = [p] \<or> (\<exists>r. qs = p # r \<and> r \<noteq> [] \<and> prefix r ps)" for qs
    by (cases qs) auto
  have "(\<exists>qs. (qs \<noteq> [] \<and> prefix qs (p # ps)) \<and> P qs) \<longleftrightarrow> P [p] \<or> (\<exists>r. r \<noteq> [] \<and> prefix r ps \<and> P (p # r))"
    unfolding f by blast
  then show "(\<exists>qs. qs \<noteq> [] \<and> prefix qs (p # ps) \<and> P qs) \<longleftrightarrow> P [p] \<or> (\<exists>r. r \<noteq> [] \<and> prefix r ps \<and> P (p # r))" by simp
  have "(\<forall>qs. qs \<noteq> [] \<and> prefix qs (p # ps) \<longrightarrow> P qs) \<longleftrightarrow> P [p] \<and> (\<forall>r. r \<noteq> [] \<longrightarrow> prefix r ps \<longrightarrow> P (p # r))"
    unfolding f by blast
  then show "(\<forall>qs. qs \<noteq> [] \<longrightarrow> prefix qs (p # ps) \<longrightarrow> P qs) \<longleftrightarrow> P [p] \<and> (\<forall>r. r \<noteq> [] \<longrightarrow> prefix r ps \<longrightarrow> P (p # r))"
    by blast
qed

lemma missing_from_set:
  assumes "quiet os" and "wf_fs fs" and "no_links fs"
  shows "list_all plain (cur @ ps) \<Longrightarrow> d \<in> set (missing_from os fs R cur ps) \<longleftrightarrow>
    (\<exists>qs. qs \<noteq> [] \<and> prefix qs ps \<and> d = cur @ qs \<and> at fs (R @ cur @ qs) = None)"
proof (induction ps arbitrary: cur)
  case Nil
  then show ?case by simp
next
  case (Cons p ps)
  have pl: "list_all plain (cur @ [p])" using Cons.prems by simp
  have "list_all plain ((cur @ [p]) @ ps)" using Cons.prems by simp
  note IH = Cons.IH [OF this]
  have here: "(\<exists>e. root_lstat os fs R (cur @ [p]) = Inl e) \<longleftrightarrow> at fs (R @ cur @ [p]) = None"
    using quiet_lstat [OF assms pl, of R] by simp
  have "d \<in> set (missing_from os fs R cur (p # ps)) \<longleftrightarrow>
      d = cur @ [p] \<and> at fs (R @ cur @ [p]) = None \<or> d \<in> set (missing_from os fs R (cur @ [p]) ps)"
    using here by (cases "root_lstat os fs R (cur @ [p])") auto
  also have "\<dots> \<longleftrightarrow> (\<exists>qs. qs \<noteq> [] \<and> prefix qs (p # ps) \<and> d = cur @ qs \<and> at fs (R @ cur @ qs) = None)"
    unfolding front_cases(1) IH by simp
  finally show ?case .
qed

lemma missing_from_order: "sorted_wrt (\<lambda>d e. length d < length e) (missing_from os fs R cur ps) \<and>
    (\<forall>d \<in> set (missing_from os fs R cur ps). length cur < length d)"
proof (induction ps arbitrary: cur)
  case (Cons p ps)
  from Cons.IH [of "cur @ [p]"] show ?case by (fastforce simp: sorted_wrt_append split: sum.splits)
qed simp

lemma root_mkdir_new:
  assumes "root_mkdir_from os fs R over ps = (fs', res)" and "wf_fs fs" and "no_links fs" and "list_all plain (over @ ps)"
    and "at fs R = Some Folder"
  shows "(\<forall>q. at fs' q = at fs q \<or> at fs q = None \<and> at fs' q = Some Folder \<and> (\<exists>qs. qs \<noteq> [] \<and> prefix qs ps \<and> q = R @ over @ qs)) \<and>
    no_links fs' \<and> (\<forall>u. res = Inr u \<longrightarrow> (\<forall>qs. qs \<noteq> [] \<longrightarrow> prefix qs ps \<longrightarrow> at fs' (R @ over @ qs) = Some Folder))"
  using assms
proof (induction ps arbitrary: fs over)
  case Nil
  then show ?case by simp
next
  case (Cons p ps)
  let ?q = "over @ [p]"
  have pl: "list_all plain (?q @ ps)" "list_all plain ?q" "?q \<noteq> []" using Cons.prems(4) by simp_all
  show ?case
  proof (cases "root_walk root_max_links fs R [] ?q")
    case (Inr d)
    have "d = ?q" using root_walk_straight [OF Inr Cons.prems(3) pl(2)] by simp
    then have f: "at fs (R @ ?q) = Some Folder" using root_walk_folder [OF Inr Cons.prems(2)] Cons.prems(5) by simp
    from Inr Cons.prems(1) have "root_mkdir_from os fs R ?q ps = (fs', res)" by simp
    note IH = Cons.IH [OF this Cons.prems(2,3) pl(1) Cons.prems(5)]
    have here: "at fs' (R @ ?q) = Some Folder" using IH f by (metis option.distinct(1))
    show ?thesis
      unfolding front_cases using IH here by (simp, blast)
  next
    case (Inl e)
    show ?thesis
    proof (cases "e = ENOENT \<and> \<not> fault os CMkdir (R @ ?q) fs \<and> (\<exists>r. root_place fs R ?q = Inr r \<and> at fs (R @ r) = None)")
      case False
      with Cons.prems(1) Inl have "fs' = fs" "\<exists>e. res = Inl e" by (auto simp: Let_def split: errno.splits if_splits sum.splits)
      with Cons.prems(3) show ?thesis by auto
    next
      case True
      then obtain r where r: "e = ENOENT" "\<not> fault os CMkdir (R @ ?q) fs" "root_place fs R ?q = Inr r" "at fs (R @ r) = None"
        by blast
      have rq: "r = ?q" by (rule root_place_straight [OF r(3) Cons.prems(3) pl(2)])
      let ?g = "put fs (R @ ?q) Folder"
      have s: "step R {} fs ?g"
        using step_put [OF Cons.prems(2) r(3) pl(3,2) Cons.prems(5), of Folder "{}"] r(4) rq by simp
      have nl: "no_links ?g" using Cons.prems(3) by (simp add: no_links_def tree)
      from Cons.prems(1) Inl r rq have rest: "root_mkdir_from os ?g R ?q ps = (fs', res)" by (simp add: Let_def)
      have "wf_fs ?g" "at ?g R = Some Folder" using s step_root [OF s Cons.prems(5)] by (simp_all add: step_def)
      note IH = Cons.IH [OF rest this(1) nl pl(1) this(2)]
      have g: "at ?g q = (if q = R @ ?q then Some Folder else at fs q)" for q by (simp add: tree)
      have here: "at fs' (R @ ?q) = Some Folder" using IH g [of "R @ ?q"] by (metis option.distinct(1))
      have "at fs' q = at fs q \<or> at fs q = None \<and> at fs' q = Some Folder \<and>
          (q = R @ over @ [p] \<or> (\<exists>r. r \<noteq> [] \<and> prefix r ps \<and> q = R @ over @ p # r))" for q
      proof (cases "q = R @ ?q")
        case True
        with r(4) rq here show ?thesis by simp
      next
        case False
        then have "at ?g q = at fs q" using g by simp
        with IH show ?thesis by (metis append_Cons append_Nil append_assoc)
      qed
      moreover have "\<forall>u. res = Inr u \<longrightarrow> (\<forall>r. r \<noteq> [] \<longrightarrow> prefix r ps \<longrightarrow> at fs' (R @ over @ p # r) = Some Folder)"
        using IH by simp
      ultimately show ?thesis unfolding front_cases using IH here by simp
    qed
  qed
qed

text \<open>
  Everything below the root is as before or on the lists; the directories on theirs are new, parents
  first. While nothing has failed the lists are exactly what was made.
\<close>

definition accounted :: "name \<Rightarrow> fs \<Rightarrow> mat \<Rightarrow> bool" where
  "accounted R fs m \<longleftrightarrow> no_links (mt_fs m) \<and>
     (\<forall>q f. at (mt_fs m) (R @ q) = Some f \<longrightarrow> at fs (R @ q) = Some f \<or> q \<in> set (mt_written m) \<or> q \<in> set (mt_dirs m)) \<and>
     (\<forall>q \<in> set (mt_written m). list_all plain q \<and> q \<noteq> [] \<and> at (mt_fs m) (R @ q) \<noteq> Some Folder) \<and>
     (\<forall>d \<in> set (mt_dirs m). list_all plain d \<and> d \<noteq> [] \<and> at fs (R @ d) \<noteq> Some Folder \<and>
        (at (mt_fs m) (R @ d) = None \<or> at (mt_fs m) (R @ d) = Some Folder)) \<and>
     sorted_wrt (\<lambda>d e. \<not> strict_prefix e d) (mt_dirs m)"

definition firm :: "name \<Rightarrow> mat \<Rightarrow> bool" where
  "firm R m \<longleftrightarrow> (\<forall>q \<in> set (mt_written m). \<exists>b c. at (mt_fs m) (R @ q) = Some (Regular b c)) \<and>
     (\<forall>d \<in> set (mt_dirs m). at (mt_fs m) (R @ d) = Some Folder)"

lemma write_layer_accounted:
  assumes q: "quiet os" and run: "running R fs m" and acc: "accounted R fs m" and firm: "firm R m"
    and p: "list_all plain p" and w: "write_layer L F os R d p m = (m', res)"
  shows "accounted R fs m' \<and> (\<forall>u. res = Inr u \<longrightarrow> firm R m')"
proof (cases "Validate_ok L (Digest d)")
  case False
  with w acc show ?thesis by (auto simp: write_layer_def)
next
  case True
  obtain fs1 made r where c: "copyFile L F os (mt_fs m) R p d (mt_mine m) = (fs1, made, r)" by (metis prod_cases3)
  have wf: "wf_fs (mt_fs m)" and R: "at (mt_fs m) R = Some Folder" and mine: "\<forall>q \<in> set (mt_mine m). at (mt_fs m) (R @ q) \<noteq> None"
    using run by (auto simp: running_def)
  have nl: "no_links (mt_fs m)" using acc by (simp add: accounted_def)
  note f = copyFile_result [OF q wf nl p R mine c]
  then have t: "touches (R @ p) (mt_fs m) fs1" by (simp add: file_result_def)
  have other: "at fs1 (R @ x) = at (mt_fs m) (R @ x)" if "x \<noteq> p" for x using t that by (simp add: touches_def)
  have nl1: "no_links fs1" by (rule touches_links [OF t nl])
  have dirs: "at fs1 (R @ e) = Some Folder" if "e \<in> set (mt_dirs m)" for e
    using firm that t other by (cases "e = p") (auto simp: firm_def touches_def)
  have wrt: "at fs1 (R @ e) \<noteq> Some Folder" if "e \<in> set (mt_written m)" for e
    using firm that t other by (cases "e = p") (auto simp: firm_def touches_def)
  show ?thesis
  proof (cases made)
    case None
    with w True c have m': "m' = m\<lparr>mt_fs := fs1\<rparr>" "res = r" by (auto simp: write_layer_def)
    have "at fs1 (R @ p) = at (mt_fs m) (R @ p) \<or> at fs1 (R @ p) = None" using f None by (simp add: file_result_def)
    then have before: "at fs1 (R @ x) = Some g \<Longrightarrow> at (mt_fs m) (R @ x) = Some g" for x g using other by (cases "x = p") auto
    have "accounted R fs m'"
      using acc nl1 dirs wrt before unfolding accounted_def m' by simp
    then show ?thesis using f None m' by auto
  next
    case (Some y)
    with w True c have m': "m' = m\<lparr>mt_fs := fs1, mt_written := mt_written m @ [p], mt_mine := mt_mine m @ [y]\<rparr>" "res = r"
      by (auto simp: write_layer_def)
    from f Some obtain b k where here: "at fs1 (R @ p) = Some (Regular b k)" and ne: "p \<noteq> []" by (auto simp: file_result_def)
    have "accounted R fs m'"
      using acc nl1 dirs wrt here ne p other unfolding accounted_def m' by (simp, metis)
    moreover have "firm R m'"
    proof -
      have "\<exists>b c. at fs1 (R @ e) = Some (Regular b c)" if "e \<in> set (mt_written m)" for e
        using firm that other here by (cases "e = p") (auto simp: firm_def)
      with dirs here show ?thesis by (auto simp: firm_def m')
    qed
    ultimately show ?thesis by blast
  qed
qed

lemma dirs_accounted:
  assumes q: "quiet os" and run: "running R fs m" and acc: "accounted R fs m" and firm: "firm R m"
    and p: "list_all plain p" and mk: "root_mkdir_from os (mt_fs m) R [] p = (fs1, res)"
  defines "m1 \<equiv> m\<lparr>mt_fs := fs1, mt_dirs := mt_dirs m @ missingDirs os (mt_fs m) R p\<rparr>"
  shows "accounted R fs m1 \<and> (\<forall>u. res = Inr u \<longrightarrow> firm R m1)"
proof -
  have wf: "wf_fs (mt_fs m)" and R: "at (mt_fs m) R = Some Folder" using run by (auto simp: running_def)
  have nl: "no_links (mt_fs m)" using acc by (simp add: accounted_def)
  have pp: "list_all plain ([] @ p)" using p by simp
  let ?new = "missingDirs os (mt_fs m) R p"
  note n = root_mkdir_new [OF mk wf nl pp R]
  have new: "d \<in> set ?new \<longleftrightarrow> d \<noteq> [] \<and> prefix d p \<and> at (mt_fs m) (R @ d) = None" for d
    unfolding missingDirs_def missing_from_set [OF q wf nl pp] by auto
  have old: "at fs1 x = at (mt_fs m) x" if "at (mt_fs m) x \<noteq> None" for x using n that by metis
  have add: "at fs1 (R @ d) = at (mt_fs m) (R @ d) \<or> d \<in> set ?new \<and> at fs1 (R @ d) = Some Folder" for d
  proof -
    from n have "at fs1 (R @ d) = at (mt_fs m) (R @ d) \<or> at (mt_fs m) (R @ d) = None \<and> at fs1 (R @ d) = Some Folder \<and>
      (\<exists>qs. qs \<noteq> [] \<and> prefix qs p \<and> R @ d = R @ [] @ qs)" by blast
    then show ?thesis using new by auto
  qed
  have plain_new: "list_all plain d" if "d \<in> set ?new" for d
    using p that new by (auto simp: list.pred_set prefix_def)
  have fresh: "at fs (R @ d) \<noteq> Some Folder" if "d \<in> set ?new" for d
  proof
    assume "at fs (R @ d) = Some Folder"
    with run have "at (mt_fs m) (R @ d) = Some Folder" by (simp add: running_def stays_def)
    with that new show False by simp
  qed
  have "sorted_wrt (\<lambda>d e. \<not> strict_prefix e d) ?new"
    unfolding missingDirs_def
    by (rule sorted_wrt_mono_rel [OF _ conjunct1 [OF missing_from_order]]) (auto dest: prefix_length_less)
  moreover have "\<not> strict_prefix e d" if "d \<in> set (mt_dirs m)" "e \<in> set ?new" for d e
  proof
    assume "strict_prefix e d"
    then have s: "strict_prefix (R @ e) (R @ d)" by (auto simp: strict_prefix_def)
    have "at (mt_fs m) (R @ e) \<noteq> Some Folder" using that new by simp
    from wf_below [OF wf this s] that firm show False by (auto simp: firm_def)
  qed
  ultimately have order: "sorted_wrt (\<lambda>d e. \<not> strict_prefix e d) (mt_dirs m @ ?new)"
    using acc by (simp add: accounted_def sorted_wrt_append)
  have dirs: "at fs1 (R @ d) = Some Folder" if "d \<in> set (mt_dirs m)" for d using firm that old by (auto simp: firm_def)
  have wrt: "\<exists>b c. at fs1 (R @ d) = Some (Regular b c)" if "d \<in> set (mt_written m)" for d
    using firm that old by (fastforce simp: firm_def)
  have newd: "at fs1 (R @ d) = None \<or> at fs1 (R @ d) = Some Folder" if "d \<in> set ?new" for d
    using add [of d] that new by auto
  have acc1: "accounted R fs m1"
    unfolding accounted_def
  proof (intro conjI ballI allI impI)
    show "no_links (mt_fs m1)" using n by (simp add: m1_def)
    show "sorted_wrt (\<lambda>d e. \<not> strict_prefix e d) (mt_dirs m1)" using order by (simp add: m1_def)
  next
    fix x f assume "at (mt_fs m1) (R @ x) = Some f"
    then have "at (mt_fs m) (R @ x) = Some f \<or> x \<in> set ?new" using add [of x] by (auto simp: m1_def)
    moreover have "at (mt_fs m) (R @ x) = Some f \<Longrightarrow> at fs (R @ x) = Some f \<or> x \<in> set (mt_written m) \<or> x \<in> set (mt_dirs m)"
      using acc unfolding accounted_def by blast
    ultimately show "at fs (R @ x) = Some f \<or> x \<in> set (mt_written m1) \<or> x \<in> set (mt_dirs m1)" by (auto simp: m1_def)
  next
    fix x assume x: "x \<in> set (mt_written m1)"
    then show "list_all plain x" "x \<noteq> []" using acc by (auto simp: m1_def accounted_def)
    show "at (mt_fs m1) (R @ x) \<noteq> Some Folder" using wrt x by (fastforce simp: m1_def)
  next
    fix d assume d: "d \<in> set (mt_dirs m1)"
    then show "list_all plain d" "d \<noteq> []" "at fs (R @ d) \<noteq> Some Folder"
      "at (mt_fs m1) (R @ d) = None \<or> at (mt_fs m1) (R @ d) = Some Folder"
      using acc dirs plain_new fresh newd new by (auto simp: m1_def accounted_def)
  qed
  moreover have "firm R m1" if "res = Inr u" for u
  proof -
    have "at fs1 (R @ d) = Some Folder" if "d \<in> set ?new" for d using n new that \<open>res = Inr u\<close> by simp
    with dirs wrt show ?thesis by (auto simp: firm_def m1_def)
  qed
  ultimately show ?thesis by blast
qed

lemma materialize_layers_accounted:
  "quiet os \<Longrightarrow> running R fs m \<Longrightarrow> accounted R fs m \<Longrightarrow> firm R m \<Longrightarrow> materialize_layers S L F os R ds m = (m', res) \<Longrightarrow>
    accounted R fs m'"
proof (induction ds arbitrary: m)
  case Nil
  then show ?case by simp
next
  case (Cons d ds)
  let ?clean = "Clean (file_name d)" and ?p = "components (Clean (file_name d))"
  obtain m1 r1 where l: "materialize_layer S L F os R d m = (m1, r1)" by fastforce
  have one: "accounted R fs m1 \<and> (\<forall>u. r1 = Inr u \<longrightarrow> firm R m1)"
  proof (cases "file_name d = [] \<or> \<not> IsRaw S (MediaType d) \<or> IsAbs ?clean \<or> ?clean = ''..'' \<or> prefix ''../'' ?clean")
    case True
    with l Cons.prems(3,4) show ?thesis by (auto simp: materialize_layer_def Let_def split: if_splits)
  next
    case False
    then have p: "list_all plain ?p" using components_plain by blast
    show ?thesis
    proof (cases "length ?p \<le> 1")
      case True
      with l False have "write_layer L F os R d ?p m = (m1, r1)" by (simp add: materialize_layer_def Let_def)
      from write_layer_accounted [OF Cons.prems(1-4) p this] show ?thesis .
    next
      case deep: False
      obtain fs1 mk where mk: "root_mkdir_from os (mt_fs m) R [] (butlast ?p) = (fs1, mk)" by fastforce
      have bl: "list_all plain (butlast ?p)" using p by (auto simp: list.pred_set dest: in_set_butlastD)
      define m2 where "m2 = m\<lparr>mt_fs := fs1, mt_dirs := mt_dirs m @ missingDirs os (mt_fs m) R (butlast ?p)\<rparr>"
      note a2 = dirs_accounted [OF Cons.prems(1-4) bl mk, folded m2_def]
      show ?thesis
      proof (cases mk)
        case (Inl e)
        with l False deep mk have "m1 = m2" "r1 = Inl (MatFile e)" by (simp_all add: materialize_layer_def Let_def m2_def)
        with a2 show ?thesis by simp
      next
        case (Inr u)
        have R: "at (mt_fs m) R = Some Folder" and wf: "wf_fs (mt_fs m)" using Cons.prems(2) by (simp_all add: running_def)
        have "step R (set (mt_mine m)) (mt_fs m) fs1"
          by (rule root_mkdir_step [OF mk wf _ bl R]) (use Cons.prems(2) in \<open>auto simp: running_def\<close>)
        then have run2: "running R fs m2"
          using Cons.prems(2) stays_trans step_root [OF _ R] by (auto simp: m2_def running_def step_def)
        from l False deep mk Inr have "write_layer L F os R d ?p m2 = (m1, r1)" by (simp add: materialize_layer_def Let_def m2_def)
        from write_layer_accounted [OF Cons.prems(1) run2 _ _ p this] a2 Inr show ?thesis by blast
      qed
    qed
  qed
  show ?case
  proof (cases r1)
    case (Inl e)
    with Cons.prems(5) l one show ?thesis by simp
  next
    case (Inr u)
    have "running R fs m1" using materialize_layer_step [OF Cons.prems(2) l] by blast
    with Cons.IH [OF Cons.prems(1) this] one Inr Cons.prems(5) l show ?thesis by simp
  qed
qed

lemma take_back_restores:
  assumes q: "quiet os" and run: "running R fs m" and acc: "accounted R fs m" and wf: "wf_fs fs"
  shows "(\<forall>x f. at (take_back os R m) x = Some f \<longrightarrow> at fs x = Some f) \<and> (\<forall>x. \<not> strict_prefix R x \<longrightarrow> at (take_back os R m) x = at fs x) \<and>
    wf_fs (take_back os R m) \<and> no_links (take_back os R m)"
proof -
  define g where "g = fold (\<lambda>p fs. fst (root_remove os fs R p)) (mt_written m) (mt_fs m)"
  have wfm: "wf_fs (mt_fs m)" using run by (simp add: running_def)
  have nl: "no_links (mt_fs m)" using acc by (simp add: accounted_def)
  have w: "\<forall>p \<in> set (mt_written m). list_all plain p \<and> p \<noteq> [] \<and> at (mt_fs m) (R @ p) \<noteq> Some Folder"
    using acc by (simp add: accounted_def)
  note f = remove_files [OF q wfm nl w, folded g_def]
  have atg: "at g x = (if \<exists>p \<in> set (mt_written m). x = R @ p then None else at (mt_fs m) x)" for x using f by blast
  have ds: "\<forall>d \<in> set (rev (mt_dirs m)). list_all plain d \<and> d \<noteq> [] \<and> at fs (R @ d) \<noteq> Some Folder \<and>
      (at g (R @ d) = None \<or> at g (R @ d) = Some Folder)"
    using acc atg by (auto simp: accounted_def)
  have so: "sorted_wrt (\<lambda>d e. \<not> strict_prefix d e) (rev (mt_dirs m))" using acc by (simp add: accounted_def sorted_wrt_rev)
  have rest: "\<forall>x f. at g (R @ x) = Some f \<longrightarrow> at fs (R @ x) = Some f \<or> x \<in> set (rev (mt_dirs m))"
    using acc atg by (auto simp: accounted_def split: if_splits)
  note d = remove_dirs [OF q _ _ wf ds so rest]
  have tb: "take_back os R m = fold (\<lambda>p fs. fst (root_remove os fs R p)) (rev (mt_dirs m)) g"
    by (simp add: take_back_def g_def)
  have out: "at (take_back os R m) x = at fs x" if "\<not> strict_prefix R x" for x
  proof -
    have "x \<noteq> R @ p" if "p \<in> set (mt_written m)" for p
      using w that \<open>\<not> strict_prefix R x\<close> by (auto simp: strict_prefix_def)
    then have "at g x = at fs x" using run atg [of x] that by (auto simp: running_def apart_def)
    with d f tb that show ?thesis by simp
  qed
  have below: "at (take_back os R m) x = Some f \<longrightarrow> at fs x = Some f" for x f
  proof (cases "strict_prefix R x")
    case True
    then obtain y where "x = R @ y" by (auto simp: strict_prefix_def prefix_def)
    with d f tb show ?thesis by simp
  next
    case False
    with out show ?thesis by simp
  qed
  have "wf_fs (take_back os R m) \<and> no_links (take_back os R m)" using d f tb by simp
  with out below show ?thesis by blast
qed

section \<open>A refusal\<close>

text \<open>Without links the directories made are those of the name.\<close>

lemma walk_root: "no_links fs \<Longrightarrow> list_all plain ps \<Longrightarrow> walk n fs cur ps = root_walk k fs [] cur ps"
proof (induction ps arbitrary: cur)
  case (Cons p ps)
  have "at fs (cur @ [p]) \<noteq> Some (Symlink b t)" for b t using Cons.prems(1) by (simp add: no_links_def)
  with Cons show ?case by (auto simp: plain_def split: option.splits inode.splits)
qed simp

lemma place_root: "no_links fs \<Longrightarrow> list_all plain ps \<Longrightarrow> place fs ps = root_place fs [] ps"
  using walk_root [of fs "butlast ps" max_links "[]" root_max_links]
  by (simp add: place_def root_place_def directory_def list.pred_set in_set_butlastD)

lemma mkdir_root: "no_links fs \<Longrightarrow> list_all plain (over @ ps) \<Longrightarrow> mkdir_from os fs over ps = root_mkdir_from os fs [] over ps"
proof (induction ps arbitrary: fs over)
  case (Cons p ps)
  let ?q = "over @ [p]"
  have pl: "list_all plain ?q" "list_all plain (?q @ ps)" using Cons.prems(2) by simp_all
  have w: "directory fs ?q = root_walk root_max_links fs [] [] ?q"
    using walk_root [OF Cons.prems(1) pl(1)] by (simp add: directory_def)
  have "no_links (put fs r Folder)" if "r \<noteq> []" for r using Cons.prems(1) that by (simp add: no_links_def tree)
  then have put: "mkdir_from os (put fs r Folder) ?q ps = root_mkdir_from os (put fs r Folder) [] ?q ps" if "at fs r = None" for r
    using Cons.IH [OF _ pl(2)] that by (cases "r = []") auto
  show ?case
    using Cons.IH [OF Cons.prems(1) pl(2)] put
    by (auto simp: Let_def w place_root [OF Cons.prems(1) pl(1)] split: sum.splits errno.splits)
qed simp

lemma drop_node_less: "at (fst (drop_node fs x)) q = Some f \<Longrightarrow> at fs q = Some f"
  by (auto simp: drop_node_def tree split: if_splits)

lemma os_remove_less: "at (fst (os_remove os fs p)) q = Some f \<Longrightarrow> at fs q = Some f"
  by (auto simp: os_remove_def dest: drop_node_less split: if_splits sum.splits)

lemma materialize_takes_back:
  assumes ref: "materialize S L F os desc dir fs = (fs', Inl e)" and wf: "wf_fs fs" and nl: "no_links fs" and q: "quiet os"
    and pl: "list_all plain (parts dir)"
  shows "\<forall>x f. at fs' x = Some f \<longrightarrow> at fs x = Some f \<or> f = Folder \<and> prefix x (parts dir)"
proof (cases "FetchManifest F desc")
  case (Inl e')
  with ref show ?thesis by (simp add: materialize_def)
next
  case (Inr man)
  obtain fs1 r1 where mk: "MkdirAll os fs (parts dir) = (fs1, r1)" by fastforce
  then have "root_mkdir_from os fs [] [] (parts dir) = (fs1, r1)" using mkdir_root [OF nl, of "[]"] pl by (simp add: MkdirAll_def)
  from root_mkdir_new [OF this wf nl] pl have n: "no_links fs1"
    and one: "at fs1 x = Some f \<Longrightarrow> at fs x = Some f \<or> f = Folder \<and> prefix x (parts dir)" for x f
    by auto (metis option.inject)+
  have wf1: "wf_fs fs1" using MkdirAll_adds [OF mk wf] by blast
  show ?thesis
  proof (cases "\<exists>R. r1 = Inr () \<and> \<not> fault os COpen (parts dir) fs1 \<and> directory fs1 (parts dir) = Inr R")
    case False
    with ref Inr mk have "fs' = fs1" by (auto simp: materialize_def Let_def split: sum.splits if_splits)
    with one show ?thesis by blast
  next
    case True
    then obtain R where R: "r1 = Inr ()" "\<not> fault os COpen (parts dir) fs1" "directory fs1 (parts dir) = Inr R" by blast
    obtain m r where run: "materialize_layers S L F os R (Layers man) (start_mat fs1) = (m, r)" by fastforce
    have run0: "running R fs1 (start_mat fs1)" by (rule start_running [OF wf1 directory_folder [OF R(3) wf1]])
    have acc: "accounted R fs1 m"
      by (rule materialize_layers_accounted [OF q run0 _ _ run]) (simp_all add: accounted_def firm_def start_mat_def n)
    note t = take_back_restores [OF q _ acc wf1] materialize_layers_step [OF run0 run]
    have "at fs' x = Some f \<Longrightarrow> at (take_back os R m) x = Some f" for x f
      using ref Inr mk R run
      by (cases r) (auto simp: materialize_def start_mat_def Let_def dest: os_remove_less split: if_splits)
    with t one show ?thesis by blast
  qed
qed

section \<open>Properties\<close>


text \<open>
  C20. A refused \<open>materialize\<close> leaves nothing of its own: whatever is on disk afterwards was there
  before, but for the output directory and those above it. The tree is one without links, and looking at
  a name and removing one do not fail.
\<close>

theorem materialize_refused:
  assumes "materialize S L F os desc dir fs = (fs', Inl e)" and "wf_fs fs" and "no_links fs" and "quiet os"
    and "list_all plain (parts dir)"
  shows "\<forall>x f. at fs' x = Some f \<longrightarrow> at fs x = Some f \<or> f = Folder \<and> prefix x (parts dir)"
  by (rule materialize_takes_back [OF assms])

end
