(* ===== verification/PullCmd.thy ===== *)
theory PullCmd
  imports TransportSpec MaterializeUndo VerifySpec
begin

text \<open>
  The \<^verbatim>\<open>pull\<close> command (\<^verbatim>\<open>internal/cli/pull.go\<close>): the signature is checked on the registry before
  anything is fetched, the digest that was checked is carried into the fetch, and the files are written
  out of the store. Between two requests the registry may answer differently.
\<close>

datatype pull_error =
    PullRef ref_error | PullNoRepository | PullResolve lookup_error | PullUnverified verify_error
  | PullTransfer transfer_error | PullWrite mat_error

text \<open>The gate: the digest that was checked, empty when nothing was asked for.\<close>

definition pull_gate :: "'k host \<Rightarrow> config \<Rightarrow> bool \<Rightarrow> string \<Rightarrow> (reference \<Rightarrow> 'r handle option) \<Rightarrow> reference \<Rightarrow>
    ('s, 'r) world \<Rightarrow> (pull_error + string) \<times> ('s, 'r) world" where
  "pull_gate h cfg doVerify keyPath Repository ref w =
     (if \<not> doVerify \<and> \<not> c_required cfg then (Inr [], w)
      else case Repository ref of
        None \<Rightarrow> (Inl PullNoRepository, w)
      | Some K \<Rightarrow>
          (case ask K (\<lambda>t. t_Resolve t (rf_Reference ref)) w of
             (Inl e, w1) \<Rightarrow> (Inl (PullResolve e), w1)
           | (Inr desc, w1) \<Rightarrow>
               (case ask K (\<lambda>t. verifyDigest h cfg keyPath (remoteSource t desc ''registry'') ref) w1 of
                  (Inl e, w2) \<Rightarrow> (Inl (PullUnverified e), w2)
                | (Inr _, w2) \<Rightarrow> (Inr (Digest desc), w2))))"

definition pull_files :: "model_spec \<Rightarrow> digest_lib \<Rightarrow> ('s \<Rightarrow> fetcher) \<Rightarrow> os \<Rightarrow> string \<Rightarrow> pulled \<Rightarrow> 's \<Rightarrow> fs \<Rightarrow>
    fs \<times> (pull_error + string list)" where
  "pull_files S L content os outputDir pl s fs =
     (if outputDir = [] then (fs, Inr [])
      else case materialize S L (content s) os (pl_desc pl) outputDir fs of
        (fs1, Inl e) \<Rightarrow> (fs1, Inl (PullWrite e))
      | (fs1, Inr files) \<Rightarrow> (fs1, Inr files))"

definition pull_cmd :: "model_spec \<Rightarrow> 'k host \<Rightarrow> config \<Rightarrow> (reference \<Rightarrow> 'r handle option) \<Rightarrow> 's local_store \<Rightarrow>
    ('s \<Rightarrow> fetcher) \<Rightarrow> (node \<Rightarrow> conditions) \<Rightarrow> (node list \<Rightarrow> node list) \<Rightarrow> os \<Rightarrow> string \<Rightarrow> bool \<Rightarrow> string \<Rightarrow> string \<Rightarrow>
    ('s, 'r) world \<Rightarrow> fs \<Rightarrow> ((pull_error + pulled \<times> string list) \<times> ('s, 'r) world \<times> fs) option" where
  "pull_cmd S h cfg Repository st content conds order os outputDir doVerify keyPath raw w fs =
     (case Parse (parse_ref h) raw (c_default_registry cfg) of
        Inl e \<Rightarrow> Some (Inl (PullRef e), w, fs)
      | Inr ref \<Rightarrow>
          (case pull_gate h cfg doVerify keyPath Repository ref w of
             (Inl e, w1) \<Rightarrow> Some (Inl e, w1, fs)
           | (Inr verified, w1) \<Rightarrow>
               (case Pull (digests h) (ref_text h) Repository st conds order ref verified w1 of
                  None \<Rightarrow> None
                | Some (Inl e, w2) \<Rightarrow> Some (Inl (PullTransfer e), w2, fs)
                | Some (Inr pl, w2) \<Rightarrow>
                    (case pull_files S (digests h) content os outputDir pl (blobs w2) fs of
                       (fs1, Inl e) \<Rightarrow> Some (Inl e, w2, fs1)
                     | (fs1, Inr files) \<Rightarrow> Some (Inr (pl, files), w2, fs1)))))"

section \<open>What is pulled is signed\<close>

text \<open>Some moment of the registry at which the artifact was verified.\<close>

definition verified_remotely :: "'k host \<Rightarrow> config \<Rightarrow> string \<Rightarrow> 'r handle \<Rightarrow> reference \<Rightarrow> string \<Rightarrow> bool" where
  "verified_remotely h cfg keyPath K ref dg \<longleftrightarrow>
     (\<exists>r desc allowed. resolveVerifiers h cfg keyPath ref = Inr allowed \<and> Digest desc = dg \<and>
        signed_by h (remoteSource (lk_view K r) desc ''registry'') (repo_of ref) allowed)"

lemma pull_gate_verified:
  assumes "pull_gate h cfg doVerify keyPath Repository ref w = (Inr v, w1)" and "doVerify \<or> c_required cfg"
    and "Repository ref = Some K"
  shows "verified_remotely h cfg keyPath K ref v \<and> (\<exists>r desc. t_Resolve (lk_view K r) (rf_Reference ref) = Inr desc \<and> v = Digest desc)"
proof -
  from assms obtain desc where d: "t_Resolve (lk_view K (server w)) (rf_Reference ref) = Inr desc"
    by (cases "t_Resolve (lk_view K (server w)) (rf_Reference ref)") (auto simp: pull_gate_def ask_def)
  let ?t = "lk_view K (lk_later K (server w))"
  from assms d obtain by_whom where "verifyDigest h cfg keyPath (remoteSource ?t desc ''registry'') ref = Inr by_whom" and v: "v = Digest desc"
    by (cases "verifyDigest h cfg keyPath (remoteSource ?t desc ''registry'') ref") (auto simp: pull_gate_def ask_def)
  from verifyDigest_true [OF this(1)] verdict_signed d show ?thesis unfolding verified_remotely_def v by blast
qed

lemma pull_cmd_steps:
  assumes "pull_cmd S h cfg Repository st content conds order os outputDir doVerify keyPath raw w fs = Some (Inr (pl, files), w', fs')"
  obtains ref v w1 where "Parse (parse_ref h) raw (c_default_registry cfg) = Inr ref"
    "pull_gate h cfg doVerify keyPath Repository ref w = (Inr v, w1)"
    "Pull (digests h) (ref_text h) Repository st conds order ref v w1 = Some (Inr pl, w')"
    "pull_files S (digests h) content os outputDir pl (blobs w') fs = (fs', Inr files)"
proof -
  from assms obtain ref where ref: "Parse (parse_ref h) raw (c_default_registry cfg) = Inr ref"
    by (cases "Parse (parse_ref h) raw (c_default_registry cfg)") (auto simp: pull_cmd_def)
  obtain g w1 where g: "pull_gate h cfg doVerify keyPath Repository ref w = (g, w1)" by fastforce
  from assms ref g obtain v where v: "g = Inr v" by (cases g) (auto simp: pull_cmd_def)
  from assms ref g v obtain p w2 where p: "Pull (digests h) (ref_text h) Repository st conds order ref v w1 = Some (p, w2)"
    by (cases "Pull (digests h) (ref_text h) Repository st conds order ref v w1") (auto simp: pull_cmd_def)
  from assms ref g v p obtain pl2 where pl2: "p = Inr pl2" by (cases p) (auto simp: pull_cmd_def)
  obtain fs1 r where f: "pull_files S (digests h) content os outputDir pl2 (blobs w2) fs = (fs1, r)" by fastforce
  from assms ref g v p pl2 f have "r = Inr files" "pl2 = pl" "w2 = w'" "fs1 = fs'" by (cases r; auto simp: pull_cmd_def)+
  with that ref g v p pl2 f show ?thesis by simp
qed

text \<open>The library behaves as documented on the two sides of a pull.\<close>

definition pull_contract :: "'r handle \<Rightarrow> 's local_store \<Rightarrow> (node list \<Rightarrow> node list) \<Rightarrow> bool" where
  "pull_contract K st order \<longleftrightarrow> copies_by_name st \<and> writes_add st \<and> digests_resolve K \<and>
     (\<forall>r name d. t_Resolve (lk_view K r) name = Inr d \<longrightarrow> Digest d \<noteq> []) \<and> (\<forall>ls. set (order ls) = set ls)"

lemma pull_cmd_pulls:
  assumes "pull_cmd S h cfg Repository st content conds order os outputDir doVerify keyPath raw w fs = Some (Inr (pl, files), w', fs')"
    and "Parse (parse_ref h) raw (c_default_registry cfg) = Inr ref" and "Repository ref = Some K"
    and "pull_contract K st order" and "main_name (ref_text h) ref"
  shows "\<exists>w1. pulled_whole (ref_text h) K st ref pl w1 w' \<and>
    (doVerify \<or> c_required cfg \<longrightarrow> verified_remotely h cfg keyPath K ref (Digest (pl_desc pl)))"
proof -
  from pull_cmd_steps [OF assms(1)] obtain ref' v w1 where s: "Parse (parse_ref h) raw (c_default_registry cfg) = Inr ref'"
    "pull_gate h cfg doVerify keyPath Repository ref' w = (Inr v, w1)"
    "Pull (digests h) (ref_text h) Repository st conds order ref' v w1 = Some (Inr pl, w')" .
  from s(1) assms(2) have ref: "ref' = ref" by simp
  note c = assms(4) [unfolded pull_contract_def]
  have i: "pulled_whole (ref_text h) K st ref pl w1 w' \<and> (v \<noteq> [] \<longrightarrow> Digest (pl_desc pl) = v)"
    by (rule Pull_installs [OF _ _ _ assms(5,3) _ s(3) [unfolded ref]]) (use c in simp_all)
  moreover have "Digest (pl_desc pl) = v \<and> verified_remotely h cfg keyPath K ref v" if "doVerify \<or> c_required cfg"
  proof -
    note g = pull_gate_verified [OF s(2) [unfolded ref] that assms(3)]
    then obtain r desc where "t_Resolve (lk_view K r) (rf_Reference ref) = Inr desc" "v = Digest desc" by blast
    moreover have "\<forall>r name d. t_Resolve (lk_view K r) name = Inr d \<longrightarrow> Digest d \<noteq> []" using c by blast
    ultimately have "v \<noteq> []" by metis
    with i g show ?thesis by blast
  qed
  ultimately show ?thesis by auto
qed


end
