(* ===== verification/PullSample.thy ===== *)
theory PullSample
  imports PullCmd ServingSample DownloadSpec
begin

text \<open>A registry that answers for one signed model, a store, and files written out of it.\<close>

section \<open>The walk\<close>

definition leaf :: node where
  "leaf = \<lparr>MediaType = ''layer'', Digest = ''d:leaf'', Size = 4\<rparr>"

definition sample_succ :: "node \<Rightarrow> unit + node list" where
  "sample_succ n = (if n = model_node then Inr [leaf, leaf] else Inl ())"

lemma sample_graph: "graph sample_succ model_node = {model_node, leaf}"
proof -
  have m: "isManifestMediaType (MediaType model_node)" "\<not> isManifestMediaType (MediaType leaf)"
    by (simp_all add: isManifestMediaType_def model_node_def leaf_def MediaTypeImageManifest_def MediaTypeImageIndex_def)
  have "n \<in> {model_node, leaf}" if "n \<in> graph sample_succ model_node" for n
    using that by (induction rule: graph.induct) (auto simp: sample_succ_def split: if_splits)
  moreover have "leaf \<in> graph sample_succ model_node"
    by (rule graph_step [OF graph_root m(1), of _ "[leaf, leaf]"]) (simp_all add: sample_succ_def)
  ultimately show ?thesis using graph_root by auto
qed

lemma collectLeafBlobs_exact_witness: "\<exists>ls. collectLeafBlobs sample_succ model_node = Some (Inr ls) \<and> set ls = {leaf}"
proof -
  have m: "isManifestMediaType (MediaType model_node)" "\<not> isManifestMediaType (MediaType leaf)" "Digest model_node \<noteq> Digest leaf"
    by (simp_all add: isManifestMediaType_def model_node_def leaf_def MediaTypeImageManifest_def MediaTypeImageIndex_def sha256_digest_def)
  have "inj_on Digest (graph sample_succ model_node)" "finite (graph sample_succ model_node)"
    using m(3) by (auto simp: sample_graph)
  from collectLeafBlobs_exact [OF this(2,1)] obtain res where r: "collectLeafBlobs sample_succ model_node = Some res"
    "case res of Inl e \<Rightarrow> \<exists>n \<in> graph sample_succ model_node. isManifestMediaType (MediaType n) \<and> sample_succ n = Inl e
     | Inr ls \<Rightarrow> set ls = leaves_in (graph sample_succ model_node) \<and> distinct ls" by blast
  moreover have "leaves_in (graph sample_succ model_node) = {leaf}" using m by (auto simp: sample_graph leaves_in_def)
  moreover have "res \<noteq> Inl e" for e
    using r(2) m by (cases res) (auto simp: sample_graph sample_succ_def)
  ultimately show ?thesis by (cases res) auto
qed

section \<open>Files\<close>

definition file_layer :: descriptor where
  "file_layer = \<lparr>MediaType = ''w.raw'', Digest = sha256_digest ''GGUF'', Size = 4,
     Annotations = [(AnnotationFilepath, ''d/m.gguf'')]\<rparr>"

definition file_spec :: model_spec where
  "file_spec = \<lparr>layer_type = (\<lambda>_ _. ''w.raw''), model_manifest_type = [], model_config_type = [], config_format = (\<lambda>_. None)\<rparr>"

definition files_raw :: string where
  "files_raw = show_json (attached_json ''model'' weight_blob file_layer weight_blob)"

definition file_store :: "string \<Rightarrow> fetcher" where
  "file_store c = \<lparr>fetch_all = (\<lambda>_. Some files_raw), open_blob = (\<lambda>_. Some (c, False))\<rparr>"

definition calm_os :: os where
  "calm_os = \<lparr>fault = (\<lambda>_ _ _. False), taken = (\<lambda>_. True), suffixes = [], meanwhile = id\<rparr>"

definition stored_layer :: descriptor where
  "stored_layer = file_layer\<lparr>Annotations := rev (Annotations file_layer)\<rparr>"

lemma files_manifest: "FetchManifest (file_store c) model_node = Inr (attached_manifest ''model'' weight_blob file_layer)"
proof -
  have "unmarshal_manifest files_raw = Some (attached_manifest ''model'' weight_blob file_layer)"
    unfolding files_raw_def by (rule unmarshal_attached) (simp_all add: weight_blob_def file_layer_def)
  then show ?thesis
    by (simp add: FetchManifest_def FetchJSON_def file_store_def from_option_def model_node_def maxJSONBlobSize_def)
qed

lemma file_parts: "parts ''/out'' = [''out'']" "Clean ''d/m.gguf'' = ''d/m.gguf''" "components ''d/m.gguf'' = [''d'', ''m.gguf'']"
  by code_simp+

definition empty_fs :: fs where
  "empty_fs = []"

lemma empty_wf: "wf_fs empty_fs" "no_links empty_fs" "quiet calm_os"
  by (auto simp: wf_fs_def no_links_def empty_fs_def at_def quiet_def calm_os_def)

definition out_dir :: fs where
  "out_dir = put empty_fs [''out''] Folder"

definition out_deep :: fs where
  "out_deep = put out_dir [''out'', ''d''] Folder"

lemma sample_start:
  "MkdirAll calm_os empty_fs [''out''] = (out_dir, Inr ())"
  "directory out_dir [''out''] = Inr [''out'']" "\<not> fault calm_os c p fs"
  by (simp_all add: MkdirAll_def directory_def out_dir_def empty_fs_def at_def put_def place_def calm_os_def max_links_def)

lemma sample_out: "at out_dir q = (if q = [] \<or> q = [''out''] then Some Folder else None)"
  "at out_deep q = (if q = [] \<or> q = [''out''] \<or> q = [''out'', ''d''] then Some Folder else None)"
  by (auto simp: out_dir_def out_deep_def empty_fs_def at_def put_def)

lemma sample_mkdir: "root_mkdir_from calm_os out_dir [''out''] [] [''d''] = (out_deep, Inr ())"
  "missingDirs calm_os out_dir [''out''] [''d''] = [[''d'']]"
  by (simp_all add: missingDirs_def root_lstat_def root_place_def sample_out sample_start(3) from_option_def out_deep_def [symmetric])

lemma sample_create: "createOutputFile calm_os out_deep [''out''] [''d'', ''m.gguf''] [] =
    (put out_deep [''out'', ''d'', ''m.gguf''] (Regular False []), Inr [''d'', ''m.gguf''])"
  by (simp add: createOutputFile_def root_create_def root_place_def sample_out sample_start(3) withInfo_def)

definition out_file :: "string \<Rightarrow> fs" where
  "out_file c = put (put out_deep [''out'', ''d'', ''m.gguf''] (Regular False [])) [''out'', ''d'', ''m.gguf''] (Regular False c)"

definition one_written :: "string \<Rightarrow> mat" where
  "one_written c = \<lparr>mt_fs = out_file c, mt_written = [[''d'', ''m.gguf'']], mt_dirs = [[''d'']], mt_mine = [[''d'', ''m.gguf'']]\<rparr>"

definition file_verdict :: "string \<Rightarrow> mat_error + unit" where
  "file_verdict c = (if length c \<noteq> 4 then Inl (MatWrongLength (sha256_digest ''GGUF'') (length c) 4)
     else if sha256_digest c \<noteq> sha256_digest ''GGUF'' then Inl (MatWrongBytes (sha256_digest ''GGUF'')) else Inr ())"

lemma sample_layer:
  assumes "length c \<le> 5"
  shows "materialize_layers file_spec sha256_digests (file_store c) calm_os [''out''] [stored_layer] (start_mat out_dir) =
     (one_written c, file_verdict c)"
proof -
  have l: "limited stored_layer c = c" using assms int64_small [of 5] by (simp add: limited_def stored_layer_def file_layer_def)
  have n: "file_name stored_layer = ''d/m.gguf''" "MediaType stored_layer = ''w.raw''" "Digest stored_layer = sha256_digest ''GGUF''"
    "Size stored_layer = 4"
    by (simp_all add: file_name_def stored_layer_def file_layer_def lookup_str_def)
  have raw: "IsRaw file_spec ''w.raw''"
    by (simp add: IsRaw_def KindOf_def kindByMediaType_def file_spec_def suffix_def)
  have esc: "\<not> IsAbs ''d/m.gguf''" "\<not> prefix ''../'' ''d/m.gguf''" by (simp_all add: IsAbs_def)
  have ob: "open_blob (file_store c) d = Some (c, False)" for d by (simp add: file_store_def)
  have cp: "copyFile sha256_digests (file_store c) calm_os out_deep [''out''] [''d'', ''m.gguf''] stored_layer [] =
    (out_file c, Some [''d'', ''m.gguf''], file_verdict c)"
    by (simp add: copyFile_def ob sample_create sample_start(3) l n cut_short_def out_file_def file_verdict_def Let_def)
  show ?thesis
    by (simp add: materialize_layer_def n raw esc file_parts sample_mkdir start_mat_def write_layer_def cp one_written_def Let_def
        split: sum.splits del: root_mkdir_from.simps)
qed

lemma sample_write: "materialize file_spec sha256_digests (file_store ''GGUF'') calm_os model_node ''/out'' empty_fs =
    (out_file ''GGUF'', Inr [Join [''/out'', ''d/m.gguf'']])"
  using sample_layer [of "''GGUF''", unfolded start_mat_def]
  by (simp add: materialize_def files_manifest file_parts sample_start Let_def attached_manifest_def stored_layer_def [symmetric]
      file_verdict_def) (simp add: one_written_def)


lemma materialize_refused_witness:
  "\<exists>fs' e. materialize file_spec sha256_digests (file_store ''GG'') calm_os model_node ''/out'' empty_fs = (fs', Inl e) \<and>
     (\<forall>x f. at fs' x = Some f \<longrightarrow> f = Folder)"
proof -
  have p: "list_all plain (parts ''/out'')" by (simp add: file_parts plain_def)
  have "\<exists>fs' e. materialize file_spec sha256_digests (file_store ''GG'') calm_os model_node ''/out'' empty_fs = (fs', Inl e)"
    using sample_layer [of "''GG''", unfolded start_mat_def]
    by (simp add: materialize_def files_manifest file_parts sample_start Let_def attached_manifest_def stored_layer_def [symmetric]
        file_verdict_def)
  then obtain fs' e where m: "materialize file_spec sha256_digests (file_store ''GG'') calm_os model_node ''/out'' empty_fs = (fs', Inl e)"
    by blast
  have "\<forall>x f. at fs' x = Some f \<longrightarrow> f = Folder"
    using materialize_refused [OF m empty_wf p] by (auto simp: empty_fs_def at_def split: if_splits)
  with m show ?thesis by blast
qed

section \<open>A pull\<close>

text \<open>The registry resolves the tag, the digest and the signature's tag; the store keeps names and blobs.\<close>

definition sample_registry_view :: target where
  "sample_registry_view = sample_store\<lparr>t_Resolve := (\<lambda>name. if name = SigTag (Digest model_node) then Inr sig_node
     else if name = ''t'' \<or> name = Digest model_node then Inr model_node else Inl NotFoundErr)\<rparr>"

definition sample_handle :: "unit handle" where
  "sample_handle = \<lparr>lk_view = (\<lambda>_. sample_registry_view), lk_later = id,
     lk_successors = (\<lambda>_ n. if n = model_node then Inr [leaf] else Inl NotFoundErr),
     lk_serve = (\<lambda>_ r _. (Inl (), r)), lk_whole = (\<lambda>_ _. None)\<rparr>"

type_synonym shelf = "(string \<Rightarrow> node option) \<times> node list"

definition shelf_target :: "shelf \<Rightarrow> target" where
  "shelf_target s = sample_store\<lparr>t_Resolve := (\<lambda>name. case fst s name of Some n \<Rightarrow> Inr n | None \<Rightarrow> Inl NotFoundErr)\<rparr>"

definition sample_shelf :: "shelf local_store" where
  "sample_shelf = \<lparr>st_target = shelf_target, st_has = (\<lambda>s d. Inr (d \<in> set (snd s))),
     st_push = (\<lambda>s d b. (Inr (), (fst s, d # snd s))),
     st_copy = (\<lambda>t src name s. case t_Resolve t src of
         Inl e \<Rightarrow> (Inl e, s) | Inr d \<Rightarrow> (Inr d, ((fst s)(name \<mapsto> d), d # snd s))),
     st_ingest = (\<lambda>_. Some ''ingest'')\<rparr>"

lemma sample_view: "lk_view sample_handle r = sample_registry_view" "lk_later sample_handle = id"
  by (simp_all add: sample_handle_def)

lemma length_SigTag: "length (SigTag d) = length d + 4"
  using index_of_Some [of d "'':''"] by (auto simp: SigTag_def dash_digest_def split: option.splits)

lemma sample_names: "SigTag (Digest model_node) \<noteq> ''t''" "SigTag (Digest model_node) \<noteq> Digest model_node"
  "Digest model_node \<noteq> ''t''" "Digest sig_node \<noteq> ''t''" "Digest model_node \<noteq> []" "Digest sig_node \<noteq> []"
proof -
  show "SigTag (Digest model_node) \<noteq> ''t''" using length_SigTag [of "Digest model_node"] by auto
  show "SigTag (Digest model_node) \<noteq> Digest model_node" using length_SigTag [of "Digest model_node"] by auto
qed (simp_all add: model_node_def sig_node_def sha256_digest_def)

lemma sample_remote: "t_Resolve sample_registry_view name = (if name = SigTag (Digest model_node) then Inr sig_node
     else if name = ''t'' \<or> name = Digest model_node then Inr model_node else Inl NotFoundErr)"
  by (simp add: sample_registry_view_def)

lemma sample_contract: "pull_contract sample_handle sample_shelf id"
proof -
  have "digests_resolve sample_handle"
    unfolding digests_resolve_def using sample_names by (auto simp: sample_view sample_remote split: if_splits)
  moreover have "copies_by_name sample_shelf"
    by (auto simp: copies_by_name_def sample_shelf_def shelf_target_def split: sum.splits)
  moreover have "writes_add sample_shelf" by (auto simp: writes_add_def sample_shelf_def shelf_target_def)
  ultimately show ?thesis
    using sample_names by (auto simp: pull_contract_def sample_view sample_remote split: if_splits)
qed

lemma sample_remote_signed: "key_signed (remoteSource sample_registry_view model_node ''registry'') ''r/a'' sample_key"
proof -
  have "good_manifest sample_store ''r/a'' (Digest model_node) sample_key sig_node"
    using sample_signed sample_resolves(2)
    by (simp add: key_signed_def candidates_def sample_source_def layoutSource_def)
  moreover have "t_Fetch sample_registry_view = t_Fetch sample_store" by (simp add: sample_registry_view_def)
  ultimately have "good_manifest sample_registry_view ''r/a'' (Digest model_node) sample_key sig_node"
    by (simp add: good_manifest_def good_layer_def)
  then show ?thesis by (simp add: key_signed_def candidates_def remoteSource_def sample_remote)
qed

lemma sample_remote_verified:
  "verifyDigest sample_host sample_config [] (remoteSource sample_registry_view model_node ''registry'') sample_ref = Inr sample_verdict"
proof -
  let ?s = "remoteSource sample_registry_view model_node ''registry''"
  have "Verify_sig (vs_target ?s) (vs_sigRef ?s) ''r/a'' (vs_subject ?s) sample_key = Inr ()"
    using sample_remote_signed by (simp add: Verify_sig_key_signed)
  then show ?thesis by (simp add: verifyDigest_def sample_signers sample_repo sample_verdict_def)
qed

definition sample_pull_world :: "(shelf, unit) world" where
  "sample_pull_world = \<lparr>ingest = Map.empty, blobs = (Map.empty, [leaf]), server = ()\<rparr>"

lemma sample_leaves: "collectLeafBlobs (lk_successors sample_handle r) model_node = Some (Inr [leaf])"
proof -
  have "isManifestMediaType (MediaType model_node)" "\<not> isManifestMediaType (MediaType leaf)" "Digest leaf \<noteq> Digest model_node"
    by (simp_all add: isManifestMediaType_def model_node_def leaf_def MediaTypeImageManifest_def MediaTypeImageIndex_def sha256_digest_def)
  then show ?thesis by (simp add: collectLeafBlobs_def leaf_loop.simps sample_handle_def)
qed

lemma sample_text: "ref_text sample_host sample_ref = ''r/a:t''"
  by (simp add: sample_host_def sample_ref_def)

lemma sample_main: "main_name (ref_text sample_host) sample_ref"
proof -
  have "''t'' \<noteq> SigTag d" "''t'' \<noteq> AttTag d" "''t'' \<noteq> BundleTag d" for d
    by (cases "dash_digest d"; simp add: SigTag_def AttTag_def BundleTag_def)+
  then show ?thesis
    by (auto simp: main_name_def side_names_def SigRef_def AttRef_def BundleRef_def) (simp_all add: sample_host_def sample_ref_def)
qed

lemma sample_gate_pull: "pull_gate sample_host sample_config False [] (\<lambda>_. Some sample_handle) sample_ref sample_pull_world =
    (Inr (Digest model_node), sample_pull_world)"
proof -
  have c: "c_required sample_config" by (simp add: sample_config_def)
  have t: "rf_Reference sample_ref = ''t''" by (simp add: sample_ref_def)
  have n: "''t'' \<noteq> SigTag (Digest model_node)" using sample_names(1) by metis
  show ?thesis
    by (simp add: pull_gate_def c ask_def sample_view sample_remote t n sample_remote_verified sample_pull_world_def)
qed

lemma sample_pull: "\<exists>pl w'. Pull sha256_digests (ref_text sample_host) (\<lambda>_. Some sample_handle) sample_shelf (\<lambda>_. DownloadSpec.calm) id sample_ref
    (Digest model_node) sample_pull_world = Some (Inr pl, w')"
proof -
  have t: "rf_Reference sample_ref = ''t''" by (simp add: sample_ref_def)
  have n: "''t'' \<noteq> SigTag (Digest model_node)" "Digest model_node \<noteq> SigTag (Digest model_node)" using sample_names(1,2) by metis+
  have ingest: "st_ingest sample_shelf s = Some ''ingest''" "st_has sample_shelf s d = Inr (d \<in> set (snd s))" for s d
    by (simp_all add: sample_shelf_def)
  obtain c1 w1 where c: "copy_here sample_handle sample_shelf (Digest model_node) ''r/a:t'' sample_pull_world = (c1, w1)" by fastforce
  then have c1: "c1 = Inr model_node"
    by (simp add: copy_here_def sample_view sample_remote n sample_shelf_def)
  obtain p w2 where s: "supplement (ref_text sample_host) sample_handle sample_shelf sample_ref model_node w1 = (p, w2)" by fastforce
  have w: "sample_pull_world\<lparr>server := ()\<rparr> = sample_pull_world" by (simp add: sample_pull_world_def)
  have "leaf \<in> set (snd (blobs sample_pull_world))" by (simp add: sample_pull_world_def)
  then show ?thesis
    by (simp add: Pull_def ask_def sample_view sample_remote t n w sample_leaves pull_content_def ingest sample_text c c1 s)
qed


end
