(* ===== verification/Tar.thy ===== *)
theory Tar
  imports Files "HOL-Library.Char_ord" "HOL-Library.List_Lexorder"
begin

text \<open>
  \<^verbatim>\<open>tarDir\<close> and \<^verbatim>\<open>untarDir\<close> of \<^verbatim>\<open>internal/transfer/saveload.go\<close>: a directory written as
  an archive and read back. An archive is its entries in order, and whether reading it ends in an error.
\<close>

datatype tar_type = TypeDir | TypeReg | TypeOther nat

record tar_entry =
  te_Name :: string
  te_Type :: tar_type
  te_Body :: string
  te_Cut :: bool

datatype tar_error = TarFile errno | TarUnsupported string | TarEscapes string | TarType string | TarBroken

definition dir_entry :: "string \<Rightarrow> tar_entry" where
  "dir_entry n = \<lparr>te_Name = n @ ''/'', te_Type = TypeDir, te_Body = [], te_Cut = False\<rparr>"

definition file_entry :: "string \<Rightarrow> string \<Rightarrow> tar_entry" where
  "file_entry n c = \<lparr>te_Name = n, te_Type = TypeReg, te_Body = c, te_Cut = False\<rparr>"

section \<open>Writing\<close>

text \<open>The names below a directory, relative to it, in the order of their text.\<close>

definition below :: "fs \<Rightarrow> name \<Rightarrow> name list" where
  "below fs R = map (drop (length R)) (filter (strict_prefix R) (remdups (map fst fs)))"

definition tar_names :: "fs \<Rightarrow> name \<Rightarrow> string list" where
  "tar_names fs R = sort (map (join_on CHR ''/'') (below fs R))"

definition tar_one :: "os \<Rightarrow> fs \<Rightarrow> name \<Rightarrow> string \<Rightarrow> tar_error + tar_entry" where
  "tar_one os fs R n =
     (let p = R @ parts n in
      if fault os CLstat p fs then Inl (TarFile EIO)
      else case at fs p of
        None \<Rightarrow> Inl (TarFile ENOENT)
      | Some Folder \<Rightarrow> Inr (dir_entry n)
      | Some (Regular x c) \<Rightarrow>
          (if fault os COpen p fs \<or> fault os CRead p fs then Inl (TarFile EIO) else Inr (file_entry n c))
      | Some (Symlink _ _) \<Rightarrow> Inl (TarUnsupported n))"

fun tar_all :: "os \<Rightarrow> fs \<Rightarrow> name \<Rightarrow> string list \<Rightarrow> tar_error + tar_entry list" where
  "tar_all os fs R [] = Inr []"
| "tar_all os fs R (n # ns) =
     bind_res (tar_one os fs R n) (\<lambda>e. bind_res (tar_all os fs R ns) (\<lambda>es. Inr (e # es)))"

text \<open>The walk reads every directory before anything is written.\<close>

definition tarDir :: "os \<Rightarrow> fs \<Rightarrow> name \<Rightarrow> tar_error + tar_entry list" where
  "tarDir os fs R =
     (if fault os CLstat R fs \<or> fault os CReadDir R fs \<or>
         (\<exists>q \<in> set (below fs R). at fs (R @ q) = Some Folder \<and> fault os CReadDir (R @ q) fs)
      then Inl (TarFile EIO)
      else tar_all os fs R (tar_names fs R))"

section \<open>Reading\<close>

text \<open>Where opening a name leads, links at its end included.\<close>

fun follow :: "nat \<Rightarrow> fs \<Rightarrow> name \<Rightarrow> errno + name" where
  "follow n fs p =
     (if p = [] \<or> last p = ''.'' \<or> last p = ''..'' then directory fs p
      else bind_res (place fs p) (\<lambda>q.
        case at fs q of
          Some (Symlink absolute t) \<Rightarrow>
            (if n = 0 then Inl ELOOP else follow (n - 1) fs (if absolute then t else butlast q @ t))
        | _ \<Rightarrow> Inr q))"

text \<open>\<^verbatim>\<open>O_CREATE|O_TRUNC\<close>: an empty file, and where it is.\<close>

definition open_trunc :: "os \<Rightarrow> fs \<Rightarrow> name \<Rightarrow> fs \<times> (errno + name)" where
  "open_trunc os fs p =
     (if fault os CCreate p fs then (fs, Inl EIO)
      else case follow max_links fs p of
        Inl e \<Rightarrow> (fs, Inl e)
      | Inr q \<Rightarrow>
          (case at fs q of
             None \<Rightarrow> (put fs q (Regular False []), Inr q)
           | Some (Regular x _) \<Rightarrow> (put fs q (Regular x []), Inr q)
           | Some _ \<Rightarrow> (fs, Inl EISDIR)))"

definition write_entry :: "os \<Rightarrow> fs \<Rightarrow> name \<Rightarrow> tar_entry \<Rightarrow> fs \<times> (tar_error + unit)" where
  "write_entry os fs p e =
     (case open_trunc os fs p of
        (fs1, Inl er) \<Rightarrow> (fs1, Inl (TarFile er))
      | (fs1, Inr q) \<Rightarrow>
          (let fs2 = (case at fs1 q of Some (Regular x _) \<Rightarrow> put fs1 q (Regular x (te_Body e)) | _ \<Rightarrow> fs1) in
           (fs2, if te_Cut e then Inl TarBroken else if fault os CWrite p fs1 then Inl (TarFile EIO) else Inr ())))"

definition untar_one :: "os \<Rightarrow> string \<Rightarrow> tar_entry \<Rightarrow> fs \<Rightarrow> fs \<times> (tar_error + unit)" where
  "untar_one os dir e fs =
     (let name = Clean (te_Name e); dest = Join [dir, name] in
      if IsAbs name \<or> prefix ''..'' name then (fs, Inl (TarEscapes (te_Name e)))
      else case te_Type e of
        TypeDir \<Rightarrow>
          (case MkdirAll os fs (parts dest) of
             (fs1, Inl er) \<Rightarrow> (fs1, Inl (TarFile er)) | (fs1, Inr _) \<Rightarrow> (fs1, Inr ()))
      | TypeReg \<Rightarrow>
          (case MkdirAll os fs (parts (Dir dest)) of
             (fs1, Inl er) \<Rightarrow> (fs1, Inl (TarFile er)) | (fs1, Inr _) \<Rightarrow> write_entry os fs1 (parts dest) e)
      | TypeOther _ \<Rightarrow> (fs, Inl (TarType (te_Name e))))"

fun untarDir :: "os \<Rightarrow> string \<Rightarrow> bool \<Rightarrow> tar_entry list \<Rightarrow> fs \<Rightarrow> fs \<times> (tar_error + unit)" where
  "untarDir os dir broken [] fs = (fs, if broken then Inl TarBroken else Inr ())"
| "untarDir os dir broken (e # es) fs =
     (case untar_one os dir e fs of
        (fs1, Inl er) \<Rightarrow> (fs1, Inl er)
      | (fs1, Inr _) \<Rightarrow> untarDir os dir broken es fs1)"

end
