(* ===== verification/Bundle.thy ===== *)
theory Bundle
  imports Tar Transport VerifyCmd
begin

text \<open>
  Bundles: \<^verbatim>\<open>Save\<close> and \<^verbatim>\<open>Load\<close> of \<^verbatim>\<open>internal/transfer/saveload.go\<close> and the check
  \<^verbatim>\<open>load\<close> runs before anything is imported (\<^verbatim>\<open>internal/cli/airgap.go\<close>). The layout in the
  temporary directory belongs to the content library: a parameter that opens a directory, whose content
  is read and copied like any other store's.
\<close>

record layout =
  ly_store :: "fs local_store"
  ly_tags :: "fs \<Rightarrow> lookup_error + string list"

type_synonym opener = "string \<Rightarrow> fs \<Rightarrow> fs \<times> (unit + layout)"

datatype layout_error = NotALayout | Unpacking tar_error | ListErr lookup_error | NoTaggedRefs

datatype 'e transport_error =
    TempDirErr errno | LayoutErr layout_error | Archiving tar_error | Transferring transfer_error | Exporting string lookup_error | Importing string lookup_error
  | Rejected 'e

text \<open>A directory made for the time of a call, by its text.\<close>

definition temp_text :: "string \<Rightarrow> name \<Rightarrow> string" where
  "temp_text base p = base @ CHR ''/'' # last p"

section \<open>Writing a bundle\<close>

record save_report =
  sr_Signatures :: nat
  sr_Attestations :: nat
  sr_Bundles :: nat

text \<open>A signature or attestation is held under a name, and copied under the same name.\<close>

definition save_tagged :: "carried \<Rightarrow> target \<Rightarrow> fs local_store \<Rightarrow> string \<Rightarrow> fs \<Rightarrow> fs \<times> (transfer_error + bool)" where
  "save_tagged what src dst name fs =
     (case t_Resolve src name of
        Inl e \<Rightarrow> (fs, if e = NotFoundErr then Inr False else Inl (LookupErr what e))
      | Inr _ \<Rightarrow>
          (case st_copy dst src name name fs of
             (Inl e, fs') \<Rightarrow> (fs', Inl (CarryErr what e))
           | (Inr _, fs') \<Rightarrow> (fs', Inr True)))"

definition saveSignature :: "(string \<Rightarrow> reference option) \<Rightarrow> (reference \<Rightarrow> string) \<Rightarrow> target \<Rightarrow> fs local_store \<Rightarrow> string \<Rightarrow> string \<Rightarrow>
    fs \<Rightarrow> fs \<times> (transfer_error + bool)" where
  "saveSignature parse str src dst ref d fs =
     (case parse ref of None \<Rightarrow> (fs, Inr False) | Some r \<Rightarrow> save_tagged CarriedSignature src dst (SigRef str r d) fs)"

definition saveAttestation :: "(string \<Rightarrow> reference option) \<Rightarrow> (reference \<Rightarrow> string) \<Rightarrow> target \<Rightarrow> fs local_store \<Rightarrow> string \<Rightarrow> string \<Rightarrow>
    fs \<Rightarrow> fs \<times> (transfer_error + bool)" where
  "saveAttestation parse str src dst ref d fs =
     (case parse ref of None \<Rightarrow> (fs, Inr False) | Some r \<Rightarrow> save_tagged CarriedAttestation src dst (AttRef str r d) fs)"

fun save_bundles :: "(reference \<Rightarrow> string) \<Rightarrow> target \<Rightarrow> fs local_store \<Rightarrow> reference \<Rightarrow> referrer list \<Rightarrow> fs \<Rightarrow>
    fs \<times> (transfer_error + unit)" where
  "save_bundles str src dst r [] fs = (fs, Inr ())"
| "save_bundles str src dst r (b # bs) fs =
     (case st_copy dst src (Digest b) (BundleRef str r (Digest b)) fs of
        (Inl e, fs') \<Rightarrow> (fs', Inl (CarryErr CarriedBundle e))
      | (Inr _, fs') \<Rightarrow> save_bundles str src dst r bs fs')"

definition saveBundles :: "(string \<Rightarrow> reference option) \<Rightarrow> (reference \<Rightarrow> string) \<Rightarrow> target \<Rightarrow> fs local_store \<Rightarrow> string \<Rightarrow> node \<Rightarrow>
    fs \<Rightarrow> fs \<times> (transfer_error + nat)" where
  "saveBundles parse str src dst ref subject fs =
     (case parse ref of
        None \<Rightarrow> (fs, Inr 0)
      | Some r \<Rightarrow>
          (case BundleReferrers src subject of
             Inl e \<Rightarrow> (fs, Inl (BundleLookup e))
           | Inr bs \<Rightarrow>
               (case save_bundles str src dst r bs fs of
                  (fs', Inl e) \<Rightarrow> (fs', Inl e)
                | (fs', Inr _) \<Rightarrow> (fs', Inr (length bs)))))"

fun save_refs :: "(string \<Rightarrow> reference option) \<Rightarrow> (reference \<Rightarrow> string) \<Rightarrow> target \<Rightarrow> fs local_store \<Rightarrow> string list \<Rightarrow>
    save_report \<Rightarrow> fs \<Rightarrow> fs \<times> ('e transport_error + save_report)" where
  "save_refs parse str src dst [] rep fs = (fs, Inr rep)"
| "save_refs parse str src dst (ref # refs) rep fs =
     (case st_copy dst src ref ref fs of
        (Inl e, fs1) \<Rightarrow> (fs1, Inl (Exporting ref e))
      | (Inr desc, fs1) \<Rightarrow>
          (case saveSignature parse str src dst ref (Digest desc) fs1 of
             (fs2, Inl e) \<Rightarrow> (fs2, Inl (Transferring e))
           | (fs2, Inr has_sig) \<Rightarrow>
               (case saveAttestation parse str src dst ref (Digest desc) fs2 of
                  (fs3, Inl e) \<Rightarrow> (fs3, Inl (Transferring e))
                | (fs3, Inr attested) \<Rightarrow>
                    (case saveBundles parse str src dst ref desc fs3 of
                       (fs4, Inl e) \<Rightarrow> (fs4, Inl (Transferring e))
                     | (fs4, Inr bundled) \<Rightarrow>
                         save_refs parse str src dst refs
                           \<lparr>sr_Signatures = sr_Signatures rep + (if has_sig then 1 else 0),
                            sr_Attestations = sr_Attestations rep + (if attested then 1 else 0),
                            sr_Bundles = sr_Bundles rep + bundled\<rparr> fs4))))"

definition save_into :: "os \<Rightarrow> opener \<Rightarrow> (string \<Rightarrow> reference option) \<Rightarrow> (reference \<Rightarrow> string) \<Rightarrow> target \<Rightarrow> string list \<Rightarrow> string \<Rightarrow>
    fs \<Rightarrow> fs \<times> ('e transport_error + save_report \<times> tar_entry list)" where
  "save_into os opener parse str src refs dir fs =
     (case opener dir fs of
        (fs1, Inl _) \<Rightarrow> (fs1, Inl (LayoutErr NotALayout))
      | (fs1, Inr lay) \<Rightarrow>
          (case save_refs parse str src (ly_store lay) refs
                  \<lparr>sr_Signatures = 0, sr_Attestations = 0, sr_Bundles = 0\<rparr> fs1 of
             (fs2, Inl e) \<Rightarrow> (fs2, Inl e)
           | (fs2, Inr rep) \<Rightarrow>
               (fs2, case directory fs2 (parts dir) of
                  Inl e \<Rightarrow> Inl (Archiving (TarFile e))
                | Inr R \<Rightarrow> bind_res (map_error Archiving (tarDir os fs2 R)) (\<lambda>es. Inr (rep, es)))))"

definition Save :: "os \<Rightarrow> string \<Rightarrow> opener \<Rightarrow> (string \<Rightarrow> reference option) \<Rightarrow> (reference \<Rightarrow> string) \<Rightarrow> target \<Rightarrow> string list \<Rightarrow>
    fs \<Rightarrow> fs \<times> ('e transport_error + save_report \<times> tar_entry list)" where
  "Save os base opener parse str src refs fs =
     (case MkdirTemp os fs (parts base) ''palan-save-'' of
        (fs1, Inl e) \<Rightarrow> (fs1, Inl (TempDirErr e))
      | (fs1, Inr tmp) \<Rightarrow>
          (case save_into os opener parse str src refs (temp_text base tmp) fs1 of
             (fs2, r) \<Rightarrow> (fst (RemoveAll os fs2 tmp), r)))"

section \<open>Reading a bundle\<close>

fun import_refs :: "'s local_store \<Rightarrow> target \<Rightarrow> string list \<Rightarrow> 's \<Rightarrow> ('e transport_error + unit) \<times> 's" where
  "import_refs st src [] s = (Inr (), s)"
| "import_refs st src (ref # refs) s =
     (case st_copy st src ref ref s of
        (Inl e, s') \<Rightarrow> (Inl (Importing ref e), s')
      | (Inr _, s') \<Rightarrow> import_refs st src refs s')"

text \<open>Until a check or an import: the layout and the names in it.\<close>

definition unpack_bundle :: "os \<Rightarrow> opener \<Rightarrow> string \<Rightarrow> bool \<Rightarrow> tar_entry list \<Rightarrow> fs \<Rightarrow>
    fs \<times> (layout_error + target \<times> string list)" where
  "unpack_bundle os opener dir broken es fs =
     (case untarDir os dir broken es fs of
        (fs1, Inl e) \<Rightarrow> (fs1, Inl (Unpacking e))
      | (fs1, Inr _) \<Rightarrow>
          (case opener dir fs1 of
             (fs2, Inl _) \<Rightarrow> (fs2, Inl NotALayout)
           | (fs2, Inr lay) \<Rightarrow>
               (fs2, case ly_tags lay fs2 of
                  Inl e \<Rightarrow> Inl (ListErr e)
                | Inr refs \<Rightarrow> if refs = [] then Inl NoTaggedRefs else Inr (st_target (ly_store lay) fs2, refs))))"

definition load_from :: "os \<Rightarrow> opener \<Rightarrow> (target \<Rightarrow> string list \<Rightarrow> 'e + unit) option \<Rightarrow> 's local_store \<Rightarrow> string \<Rightarrow> bool \<Rightarrow>
    tar_entry list \<Rightarrow> fs \<Rightarrow> 's \<Rightarrow> fs \<times> ('e transport_error + string list) \<times> 's" where
  "load_from os opener beforeImport st dir broken es fs s =
     (case unpack_bundle os opener dir broken es fs of
        (fs1, Inl e) \<Rightarrow> (fs1, Inl (LayoutErr e), s)
      | (fs1, Inr (src, refs)) \<Rightarrow>
          (case (case beforeImport of None \<Rightarrow> Inr () | Some check \<Rightarrow> check src refs) of
             Inl e \<Rightarrow> (fs1, Inl (Rejected e), s)
           | Inr _ \<Rightarrow>
               (case import_refs st src refs s of
                  (Inl e, s') \<Rightarrow> (fs1, Inl e, s')
                | (Inr _, s') \<Rightarrow> (fs1, Inr refs, s'))))"

definition Load :: "os \<Rightarrow> string \<Rightarrow> opener \<Rightarrow> (target \<Rightarrow> string list \<Rightarrow> 'e + unit) option \<Rightarrow> 's local_store \<Rightarrow> bool \<Rightarrow>
    tar_entry list \<Rightarrow> fs \<Rightarrow> 's \<Rightarrow> fs \<times> ('e transport_error + string list) \<times> 's" where
  "Load os base opener beforeImport st broken es fs s =
     (case MkdirTemp os fs (parts base) ''palan-load-'' of
        (fs1, Inl e) \<Rightarrow> (fs1, Inl (TempDirErr e), s)
      | (fs1, Inr tmp) \<Rightarrow>
          (case load_from os opener beforeImport st (temp_text base tmp) broken es fs1 s of
             (fs2, r) \<Rightarrow> (fst (RemoveAll os fs2 tmp), r)))"

section \<open>The check before an import\<close>

datatype bundle_refusal =
    BundleRefErr string ref_error | BundleResolveErr lookup_error | BundleUnverified verify_error
  | BundleReferrersErr bundle_error | NotASignature string | NotAnAttestation string | NotABundle string
  | BundleNameErr string lookup_error | OtherBundle string string string

text \<open>What the models that verified may bring along: by name, and a keyless signature by digest too.\<close>

record expected =
  ex_signatures :: "string list"
  ex_attestations :: "string list"
  ex_bundles :: "string \<rightharpoonup> string"

definition travels :: "string \<Rightarrow> bool" where
  "travels raw \<longleftrightarrow> IsSigTag raw \<or> IsAttTag raw \<or> IsBundleTag raw"

definition expect :: "(reference \<Rightarrow> string) \<Rightarrow> reference \<Rightarrow> verifySource \<Rightarrow> referrer list \<Rightarrow> expected \<Rightarrow> expected" where
  "expect str ref src bs x =
     \<lparr>ex_signatures = vs_sigRef src # ex_signatures x, ex_attestations = vs_attRef src # ex_attestations x,
      ex_bundles = fold (\<lambda>b m. m(BundleRef str ref (Digest b) \<mapsto> Digest b)) bs (ex_bundles x)\<rparr>"

fun verify_models :: "'k host \<Rightarrow> config \<Rightarrow> string \<Rightarrow> target \<Rightarrow> string list \<Rightarrow> expected \<Rightarrow> bundle_refusal + expected" where
  "verify_models h cfg keyPath t [] x = Inr x"
| "verify_models h cfg keyPath t (raw # raws) x =
     (if travels raw then verify_models h cfg keyPath t raws x
      else case Parse (parse_ref h) raw [] of
        Inl e \<Rightarrow> Inl (BundleRefErr raw e)
      | Inr ref \<Rightarrow>
          (case t_Resolve t raw of
             Inl e \<Rightarrow> Inl (BundleResolveErr e)
           | Inr desc \<Rightarrow>
               (let src = layoutSource (ref_text h) t ref desc ''bundle'' in
                case verifyDigest h cfg keyPath src ref of
                  Inl e \<Rightarrow> Inl (BundleUnverified e)
                | Inr _ \<Rightarrow>
                    (case BundleReferrers t desc of
                       Inl e \<Rightarrow> Inl (BundleReferrersErr e)
                     | Inr bs \<Rightarrow> verify_models h cfg keyPath t raws (expect (ref_text h) ref src bs x)))))"

definition check_name :: "target \<Rightarrow> expected \<Rightarrow> string \<Rightarrow> bundle_refusal + unit" where
  "check_name t x raw =
     (if IsSigTag raw then (if raw \<in> set (ex_signatures x) then Inr () else Inl (NotASignature raw))
      else if IsAttTag raw then (if raw \<in> set (ex_attestations x) then Inr () else Inl (NotAnAttestation raw))
      else if IsBundleTag raw then
        (case ex_bundles x raw of
           None \<Rightarrow> Inl (NotABundle raw)
         | Some want \<Rightarrow>
             (case t_Resolve t raw of
                Inl e \<Rightarrow> Inl (BundleNameErr raw e)
              | Inr got \<Rightarrow> if Digest got \<noteq> want then Inl (OtherBundle raw (Digest got) want) else Inr ()))
      else Inr ())"

fun check_names :: "target \<Rightarrow> expected \<Rightarrow> string list \<Rightarrow> bundle_refusal + unit" where
  "check_names t x [] = Inr ()"
| "check_names t x (raw # raws) = bind_res (check_name t x raw) (\<lambda>_. check_names t x raws)"

definition bundleVerifier :: "'k host \<Rightarrow> config \<Rightarrow> string \<Rightarrow> target \<Rightarrow> string list \<Rightarrow> bundle_refusal + unit" where
  "bundleVerifier h cfg keyPath t refs =
     bind_res (verify_models h cfg keyPath t refs \<lparr>ex_signatures = [], ex_attestations = [], ex_bundles = Map.empty\<rparr>)
       (\<lambda>x. check_names t x refs)"

text \<open>\<^verbatim>\<open>load\<close>: the check is made when it is asked for or required.\<close>

definition load_cmd :: "'k host \<Rightarrow> config \<Rightarrow> os \<Rightarrow> string \<Rightarrow> opener \<Rightarrow> 's local_store \<Rightarrow> bool \<Rightarrow> string \<Rightarrow> bool \<Rightarrow> tar_entry list \<Rightarrow>
    fs \<Rightarrow> 's \<Rightarrow> fs \<times> (bundle_refusal transport_error + string list) \<times> 's" where
  "load_cmd h cfg os base opener st doVerify keyPath broken es fs s =
     (case Load os base opener (if doVerify \<or> c_required cfg then Some (bundleVerifier h cfg keyPath) else None) st broken es fs s of
        (fs', Inl e, s') \<Rightarrow> (fs', Inl e, s')
      | (fs', Inr refs, s') \<Rightarrow> (fs', Inr (filter (\<lambda>r. \<not> travels r) refs), s'))"

end
