(* ===== verification/TarSpec.thy ===== *)
theory TarSpec
  imports Tar MaterializeSpec
begin

text \<open>
  What reading an archive back does to the tree of files: it stays in the directory it was given, and
  gives back what was archived.
\<close>

section \<open>A directory without links\<close>

text \<open>
  The directory called \<open>d\<close> is at \<open>R\<close>, in a directory of its own right, and no link is
  below it.
\<close>

definition boxed :: "name \<Rightarrow> name \<Rightarrow> fs \<Rightarrow> bool" where
  "boxed d R fs \<longleftrightarrow> wf_fs fs \<and> at fs R = Some Folder \<and> d \<noteq> [] \<and> list_all plain d \<and>
     (\<exists>T. directory fs (butlast d) = Inr T \<and> R = T @ [last d]) \<and>
     (\<forall>q. prefix R q \<longrightarrow> (\<forall>b t. at fs q \<noteq> Some (Symlink b t)))"

text \<open>What may happen to a tree while it stays so.\<close>

definition inside :: "name \<Rightarrow> fs \<Rightarrow> fs \<Rightarrow> bool" where
  "inside R fs fs' \<longleftrightarrow> wf_fs fs' \<and> stays fs fs' \<and> apart R fs fs' \<and>
     (\<forall>q b t. at fs' q = Some (Symlink b t) \<longrightarrow> at fs q = Some (Symlink b t))"

lemma inside_refl: "wf_fs fs \<Longrightarrow> inside R fs fs"
  by (simp add: inside_def)

lemma inside_trans: "inside R a b \<Longrightarrow> inside R b c \<Longrightarrow> inside R a c"
  unfolding inside_def using stays_trans by blast

lemma boxed_inside:
  assumes "boxed d R fs" and "inside R fs fs'"
  shows "boxed d R fs'"
proof -
  from assms(1) obtain T where T: "directory fs (butlast d) = Inr T" "R = T @ [last d]" by (auto simp: boxed_def)
  have s: "stays fs fs'" using assms(2) by (simp add: inside_def)
  have "directory fs' (butlast d) = Inr T" using T(1) walk_stays [OF _ s] by (simp add: directory_def)
  moreover have "at fs' R = Some Folder" using s assms(1) by (simp add: stays_def boxed_def)
  moreover have "\<forall>q. prefix R q \<longrightarrow> (\<forall>b t. at fs' q \<noteq> Some (Symlink b t))"
    using assms unfolding boxed_def inside_def by blast
  ultimately show ?thesis using assms T(2) by (auto simp: boxed_def inside_def)
qed

lemma boxed_directory:
  assumes "boxed d R fs" and "list_all plain qs"
  shows "if at fs (R @ qs) = Some Folder then directory fs (d @ qs) = Inr (R @ qs) else \<exists>e. directory fs (d @ qs) = Inl e"
  using assms(2)
proof (induction qs rule: rev_induct)
  case Nil
  from assms(1) obtain T where T: "directory fs (butlast d) = Inr T" "R = T @ [last d]" "d \<noteq> []" "plain (last d)"
    "at fs R = Some Folder" by (auto simp: boxed_def list.pred_set)
  with directory_snoc(1) [OF T(1,4)] show ?case by simp
next
  case (snoc x qs)
  have links: "at fs (R @ qs @ [x]) \<noteq> Some (Symlink b t)" for b t using assms(1) by (simp add: boxed_def)
  have up: "at fs (R @ qs) = Some Folder" if "at fs (R @ qs @ [x]) = Some Folder"
    using assms(1) that unfolding boxed_def wf_fs_def by (metis append_assoc snoc_eq_iff_butlast)
  show ?case
  proof (cases "at fs (R @ qs) = Some Folder")
    case True
    with snoc have d: "directory fs (d @ qs) = Inr (R @ qs)" and x: "plain x" by simp_all
    from d have w: "walk max_links fs [] (d @ qs) = Inr (R @ qs)" by (simp add: directory_def)
    show ?thesis using walk_snoc [OF w x] links
      by (cases "at fs (R @ qs @ [x])"; cases "the (at fs (R @ qs @ [x]))") (auto simp: directory_def)
  next
    case False
    with snoc obtain e where "directory fs (d @ qs) = Inl e" by auto
    with directory_butlast [of fs "d @ qs" x] False up show ?thesis by (cases "directory fs (d @ qs @ [x])") auto
  qed
qed

lemma boxed_place:
  assumes "boxed d R fs" and "list_all plain qs" and "qs \<noteq> []"
  shows "if at fs (R @ butlast qs) = Some Folder then place fs (d @ qs) = Inr (R @ qs) else \<exists>e. place fs (d @ qs) = Inl e"
proof -
  obtain ps x where q: "qs = ps @ [x]" using assms(3) by (cases qs rule: rev_cases) auto
  with boxed_directory [OF assms(1), of ps] assms(2) show ?thesis
    by (auto simp: place_def butlast_append split: if_splits)
qed

lemma boxed_put:
  assumes b: "boxed d R fs" and q: "qs \<noteq> []" "list_all plain qs" and up: "at fs (R @ butlast qs) = Some Folder"
    and free: "at fs (R @ qs) = None \<or> is_Regular f \<and> (\<exists>x c. at fs (R @ qs) = Some (Regular x c))"
    and f: "f = Folder \<or> is_Regular f"
  shows "inside R fs (put fs (R @ qs) f)"
proof -
  have wf: "wf_fs fs" using b by (simp add: boxed_def)
  have "at fs R = Some Folder" using b by (simp add: boxed_def)
  then have "list_all plain R" using wf by (cases "R = []") (auto simp: wf_fs_def)
  moreover have "at fs (R @ qs) \<noteq> Some Folder" using free by auto
  then have "\<forall>r. strict_prefix (R @ qs) r \<longrightarrow> at fs r = None" using wf_below [OF wf] by blast
  ultimately have "wf_fs (put fs (R @ qs) f)" using q up by (intro wf_put [OF wf]) (auto simp: butlast_append)
  moreover have "stays fs (put fs (R @ qs) f)" using free q by (auto simp: stays_def tree)
  moreover have "apart R fs (put fs (R @ qs) f)" using q by (auto simp: apart_def tree strict_prefix_def)
  ultimately show ?thesis using f q by (auto simp: inside_def tree)
qed

section \<open>One entry\<close>

lemma mkdir_boxed:
  assumes "mkdir_from os fs (d @ over) qs = (fs', r)" and "boxed d R fs" and "list_all plain (over @ qs)"
    and "at fs (R @ over) = Some Folder"
  shows "inside R fs fs' \<and> (r = Inr () \<longrightarrow> at fs' (R @ over @ qs) = Some Folder)"
  using assms
proof (induction qs arbitrary: fs over)
  case Nil
  then show ?case by (auto simp: inside_refl boxed_def)
next
  case (Cons x qs)
  have wf: "wf_fs fs" using Cons.prems(2) by (simp add: boxed_def)
  have ps: "list_all plain (over @ [x])" using Cons.prems(3) by simp
  have dir: "directory fs (d @ over) = Inr (R @ over)"
    using boxed_directory [OF Cons.prems(2), of over] Cons.prems(3,4) by simp
  show ?case
  proof (cases "at fs (R @ over @ [x]) = Some Folder")
    case True
    with boxed_directory [OF Cons.prems(2) ps] Cons.prems(1)
    have "mkdir_from os fs (d @ over @ [x]) qs = (fs', r)" by (simp add: Let_def)
    from Cons.IH [OF this Cons.prems(2)] Cons.prems(3) True show ?thesis by simp
  next
    case False
    with boxed_directory [OF Cons.prems(2) ps] obtain e where e: "directory fs (d @ over @ [x]) = Inl e" by auto
    have place: "place fs (d @ over @ [x]) = Inr (R @ over @ [x])"
      using place_snoc [OF dir, of x] by simp
    show ?thesis
    proof (cases "e = ENOENT \<and> \<not> fault os CMkdir (d @ over @ [x]) fs \<and> at fs (R @ over @ [x]) = None")
      case True
      let ?g = "put fs (R @ over @ [x]) Folder"
      have i: "inside R fs ?g"
        by (rule boxed_put [OF Cons.prems(2)]) (use ps True Cons.prems(4) in \<open>simp_all add: butlast_append\<close>)
      have "mkdir_from os ?g (d @ over @ [x]) qs = (fs', r)" using Cons.prems(1) e place True by (simp add: Let_def)
      from Cons.IH [OF this boxed_inside [OF Cons.prems(2) i]] Cons.prems(3) inside_trans [OF i]
      show ?thesis by (auto simp: tree)
    next
      case False
      with Cons.prems(1) e place have "fs' = fs \<and> r \<noteq> Inr ()"
        by (auto simp: Let_def split: errno.splits if_splits)
      with wf show ?thesis by (simp add: inside_refl)
    qed
  qed
qed

lemma MkdirAll_boxed:
  assumes "MkdirAll os fs (d @ qs) = (fs', r)" and b: "boxed d R fs" and "list_all plain qs"
  shows "inside R fs fs' \<and> (r = Inr () \<longrightarrow> at fs' (R @ qs) = Some Folder)"
proof -
  have "at fs R = Some Folder" using b by (simp add: boxed_def)
  with boxed_directory [OF b, of "[]"] have "directory fs ([] @ d) = Inr R" by simp
  from mkdir_over [OF this, of os qs] assms(1) have "mkdir_from os fs (d @ []) qs = (fs', r)" by (simp add: MkdirAll_def)
  from mkdir_boxed [OF this b] assms(3) \<open>at fs R = Some Folder\<close> show ?thesis by simp
qed

text \<open>Opening a name below for writing empties the file there, or makes it; the directory itself cannot be.\<close>

lemma follow_boxed:
  assumes b: "boxed d R fs" and q: "list_all plain qs" "qs \<noteq> []"
  shows "follow n fs (d @ qs) = (if at fs (R @ butlast qs) = Some Folder then Inr (R @ qs) else place fs (d @ qs))"
proof -
  have l: "last (d @ qs) \<noteq> ''.''" "last (d @ qs) \<noteq> ''..''" "d @ qs \<noteq> []"
    using q by (auto simp: list.pred_set plain_def)
  have links: "at fs (R @ qs) \<noteq> Some (Symlink x t)" for x t using b by (simp add: boxed_def)
  show ?thesis
  proof (cases "at fs (R @ butlast qs) = Some Folder")
    case True
    with boxed_place [OF b q] l links show ?thesis
      by (cases "at fs (R @ qs)"; cases "the (at fs (R @ qs))") auto
  next
    case False
    with boxed_place [OF b q] l show ?thesis by auto
  qed
qed

lemma follow_box: "boxed d R fs \<Longrightarrow> follow n fs d = Inr R"
proof -
  assume b: "boxed d R fs"
  then obtain T where T: "directory fs (butlast d) = Inr T" "R = T @ [last d]" "d \<noteq> []" "plain (last d)"
    "at fs R = Some Folder" by (auto simp: boxed_def list.pred_set)
  then show ?thesis by (simp add: place_def plain_def)
qed

declare follow.simps [simp del]

lemma open_trunc_boxed:
  assumes o: "open_trunc os fs (d @ qs) = (fs', r)" and b: "boxed d R fs" and q: "list_all plain qs"
  shows "inside R fs fs' \<and> (\<forall>p. r = Inr p \<longrightarrow> p = R @ qs \<and> qs \<noteq> [] \<and> (\<exists>x. at fs' p = Some (Regular x [])))"
proof (cases "fault os CCreate (d @ qs) fs \<or> qs = []")
  case True
  have "at fs R = Some Folder" using b by (simp add: boxed_def)
  moreover have "open_trunc os fs d = (fs', r)" if "qs = []" using o that by simp
  ultimately have "fs' = fs \<and> (\<exists>e. r = Inl e)" using True o follow_box [OF b, of max_links]
    by (cases "qs = []") (auto simp: open_trunc_def split: if_splits)
  with b show ?thesis by (auto simp: inside_refl boxed_def)
next
  case False
  note f = follow_boxed [OF b q, of max_links]
  show ?thesis
  proof (cases "at fs (R @ butlast qs) = Some Folder \<and> at fs (R @ qs) \<noteq> Some Folder")
    case True
    have links: "at fs (R @ qs) \<noteq> Some (Symlink x t)" for x t using b by (simp add: boxed_def)
    have "\<exists>x. fs' = put fs (R @ qs) (Regular x []) \<and> r = Inr (R @ qs) \<and>
        (at fs (R @ qs) = None \<or> (\<exists>c. at fs (R @ qs) = Some (Regular x c)))"
      using False True f o links by (cases "at fs (R @ qs)"; cases "the (at fs (R @ qs))") (auto simp: open_trunc_def)
    then obtain x where x: "fs' = put fs (R @ qs) (Regular x [])" "r = Inr (R @ qs)"
      "at fs (R @ qs) = None \<or> (\<exists>c. at fs (R @ qs) = Some (Regular x c))" by blast
    have "inside R fs fs'" unfolding x(1) by (rule boxed_put [OF b]) (use False True q x(3) in auto)
    with x(1,2) False show ?thesis by (simp add: tree)
  next
    case stuck: False
    have "(\<exists>e. follow max_links fs (d @ qs) = Inl e) \<or>
        follow max_links fs (d @ qs) = Inr (R @ qs) \<and> at fs (R @ qs) = Some Folder"
      using stuck False boxed_place [OF b q] f by (auto split: if_splits)
    with False o have "fs' = fs \<and> (\<exists>e. r = Inl e)" by (cases r) (auto simp: open_trunc_def)
    with b show ?thesis by (auto simp: inside_refl boxed_def)
  qed
qed

lemma write_entry_boxed:
  assumes w: "write_entry os fs (d @ qs) e = (fs', r)" and b: "boxed d R fs" and q: "list_all plain qs"
  shows "inside R fs fs' \<and> (r = Inr () \<longrightarrow> qs \<noteq> [] \<and> (\<exists>x. at fs' (R @ qs) = Some (Regular x (te_Body e))))"
proof -
  obtain fs1 res where o: "open_trunc os fs (d @ qs) = (fs1, res)" by fastforce
  note i = open_trunc_boxed [OF o b q]
  show ?thesis
  proof (cases res)
    case (Inl er)
    with w o i show ?thesis by (auto simp: write_entry_def)
  next
    case (Inr p)
    with i obtain x where x: "p = R @ qs" "qs \<noteq> []" "at fs1 (R @ qs) = Some (Regular x [])" by blast
    have b1: "boxed d R fs1" by (rule boxed_inside [OF b]) (use i in blast)
    have "wf_fs fs1" using b1 by (simp add: boxed_def)
    then have "R @ qs \<noteq> [] \<longrightarrow> at fs1 (butlast (R @ qs)) = Some Folder" using x(3) unfolding wf_fs_def by blast
    then have up: "at fs1 (R @ butlast qs) = Some Folder" using x(2) by (simp add: butlast_append)
    from w o Inr x have fs': "fs' = put fs1 (R @ qs) (Regular x (te_Body e))" by (simp add: write_entry_def Let_def)
    have "inside R fs1 fs'" unfolding fs' by (rule boxed_put [OF b1 x(2) q up]) (use x in auto)
    from inside_trans [OF _ this] i have "inside R fs fs'" by blast
    moreover have "at fs' (R @ qs) = Some (Regular x (te_Body e))" using x(2) by (simp add: fs' tree)
    ultimately show ?thesis using x(2) by blast
  qed
qed

lemma resolve_dot: "resolve_dots r out (ps @ [''.'']) = resolve_dots r out ps"
  by (induction ps arbitrary: out) auto

lemma Join_below:
  assumes "IsAbs dir" and "\<not> IsAbs (Clean n)" and "\<not> prefix ''..'' (Clean n)"
  shows "\<exists>qs. list_all plain qs \<and> Join [dir, Clean n] = abs_of (rooted_parts dir @ qs) \<and>
    (Clean n = ''.'' \<and> qs = [] \<or> qs \<noteq> [] \<and> Clean n = join_on CHR ''/'' qs)"
proof -
  obtain s where s: "dir = CHR ''/'' # s" using assms(1) by (auto simp: IsAbs_def prefix_def)
  have "Clean n \<noteq> ''..''" and "\<not> prefix ''../'' (Clean n)" using assms(3) by (auto simp: prefix_def)
  from Clean_below [OF assms(2) this] consider "Clean n = ''.''"
    | qs where "qs \<noteq> []" "list_all plain qs" "Clean n = join_on CHR ''/'' qs" by blast
  then show ?thesis
  proof cases
    case 1
    have "IsAbs (dir @ CHR ''/'' # ''.'')" by (simp add: s IsAbs_def)
    from Clean_abs [OF this] have "Clean (dir @ CHR ''/'' # ''.'') = abs_of (resolve_dots True [] (parts dir @ [''.'']))"
      by (simp only: parts_append) (simp add: parts_def)
    then have "Clean (dir @ CHR ''/'' # ''.'') = abs_of (rooted_parts dir)"
      by (simp only: resolve_dot rooted_parts_def)
    with 1 show ?thesis by (intro exI [of _ "[]"]) (simp add: Join_def s)
  next
    case 2
    then have "join_on CHR ''/'' (dir # qs) = join_on CHR ''/'' [dir, Clean n]" by (cases qs) simp_all
    then have "Join [dir, Clean n] = Join (dir # qs)" by (simp only: Join_def s dropWhile.simps list.distinct if_False list.case)
    then have "Join [dir, Clean n] = abs_of (rooted_parts dir @ qs)" by (simp only: Join_abs [OF assms(1) 2(2)])
    with 2 show ?thesis by blast
  qed
qed

text \<open>The directory the archive is read into, by its name.\<close>

definition at_dir :: "string \<Rightarrow> name \<Rightarrow> fs \<Rightarrow> bool" where
  "at_dir dir R fs \<longleftrightarrow> IsAbs dir \<and> boxed (rooted_parts dir) R fs"

lemma untar_one_inside:
  assumes u: "untar_one os dir e fs = (fs', r)" and b: "at_dir dir R fs"
  shows "inside R fs fs'"
proof -
  have bx: "boxed (rooted_parts dir) R fs" and ab: "IsAbs dir" using b by (auto simp: at_dir_def)
  have wf: "wf_fs fs" using bx by (simp add: boxed_def)
  show ?thesis
  proof (cases "IsAbs (Clean (te_Name e)) \<or> prefix ''..'' (Clean (te_Name e))")
    case True
    with u wf show ?thesis by (auto simp: untar_one_def Let_def inside_refl)
  next
    case False
    then obtain qs where q: "list_all plain qs" "Join [dir, Clean (te_Name e)] = abs_of (rooted_parts dir @ qs)"
      using Join_below [OF ab] by blast
    have pd: "parts (abs_of (rooted_parts dir @ qs)) = rooted_parts dir @ qs" using q(1) by simp
    show ?thesis
    proof (cases "te_Type e")
      case TypeDir
      obtain fs1 r1 where m: "MkdirAll os fs (rooted_parts dir @ qs) = (fs1, r1)" by fastforce
      with u False q(2) pd TypeDir have "fs' = fs1" by (cases r1) (auto simp: untar_one_def Let_def)
      with MkdirAll_boxed [OF m bx q(1)] show ?thesis by simp
    next
      case TypeReg
      obtain fs1 r1 where m: "MkdirAll os fs (parts (Dir (abs_of (rooted_parts dir @ qs)))) = (fs1, r1)" by fastforce
      have i: "inside R fs fs1"
      proof (cases qs rule: rev_cases)
        case Nil
        have "rooted_parts dir \<noteq> []" using bx by (simp add: boxed_def)
        then obtain t c where t: "rooted_parts dir = t @ [c]" by (cases "rooted_parts dir" rule: rev_cases) auto
        have "list_all plain (t @ [c])" using rooted_parts_plain [of dir] t by simp
        with Nil t have "MkdirAll os fs t = (fs1, r1)" using m by (simp add: Dir_abs_of)
        moreover obtain T where "directory fs ([] @ t) = Inr T" using bx t by (auto simp: boxed_def)
        ultimately have "fs1 = fs" using mkdir_over [of fs "[]" t T os "[]"] by (simp add: MkdirAll_def)
        with wf show ?thesis by (simp add: inside_refl)
      next
        case (snoc ps x)
        have "Dir (abs_of (rooted_parts dir @ ps @ [x])) = abs_of (rooted_parts dir @ ps)"
          using Dir_abs_of [of "rooted_parts dir @ ps" x] q(1) snoc by simp
        with m snoc q(1) have "MkdirAll os fs (rooted_parts dir @ ps) = (fs1, r1)" by simp
        from MkdirAll_boxed [OF this bx] q(1) snoc show ?thesis by simp
      qed
      show ?thesis
      proof (cases r1)
        case (Inl er)
        with u False q(2) TypeReg m i show ?thesis by (auto simp: untar_one_def Let_def)
      next
        case (Inr un)
        with u False q(2) TypeReg m pd have "write_entry os fs1 (rooted_parts dir @ qs) e = (fs', r)"
          by (auto simp: untar_one_def Let_def)
        from write_entry_boxed [OF this boxed_inside [OF bx i] q(1)] inside_trans [OF i] show ?thesis by blast
      qed
    next
      case (TypeOther n)
      with u False wf show ?thesis by (auto simp: untar_one_def Let_def inside_refl)
    qed
  qed
qed

lemma at_dir_inside: "at_dir dir R fs \<Longrightarrow> inside R fs fs' \<Longrightarrow> at_dir dir R fs'"
  using boxed_inside by (auto simp: at_dir_def)

lemma untarDir_inside: "untarDir os dir broken es fs = (fs', r) \<Longrightarrow> at_dir dir R fs \<Longrightarrow> inside R fs fs'"
proof (induction es arbitrary: fs)
  case Nil
  then show ?case by (auto simp: inside_refl at_dir_def boxed_def)
next
  case (Cons e es)
  obtain fs1 r1 where u: "untar_one os dir e fs = (fs1, r1)" by fastforce
  note i = untar_one_inside [OF u Cons.prems(2)]
  show ?case
  proof (cases r1)
    case (Inl er)
    with Cons.prems(1) u i show ?thesis by simp
  next
    case (Inr un)
    with Cons.prems(1) u have "untarDir os dir broken es fs1 = (fs', r)" by simp
    from Cons.IH [OF this at_dir_inside [OF Cons.prems(2) i]] inside_trans [OF i] show ?thesis by blast
  qed
qed

end
