(* ===== verification/BundleSpec.thy ===== *)
theory BundleSpec
  imports Bundle TarSpec TransportSpec VerifySpec
begin

text \<open>
  What loading a bundle promises: with a signature asked for, nothing reaches the store that does not
  belong to a model some allowed signer signed; and whatever the archive holds, the files of the host
  stay as they were.
\<close>

section \<open>The check before an import\<close>

definition verified_model :: "'k host \<Rightarrow> config \<Rightarrow> string \<Rightarrow> target \<Rightarrow> string \<Rightarrow> reference \<Rightarrow> node \<Rightarrow> bool" where
  "verified_model h cfg keyPath t raw ref desc \<longleftrightarrow> \<not> travels raw \<and> Parse (parse_ref h) raw [] = Inr ref \<and>
     t_Resolve t raw = Inr desc \<and>
     (\<exists>allowed. resolveVerifiers h cfg keyPath ref = Inr allowed \<and>
        signed_by h (layoutSource (ref_text h) t ref desc ''bundle'') (repo_of ref) allowed)"

text \<open>A keyless signature of a model, by its name in the store and its digest.\<close>

definition bundle_of :: "'k host \<Rightarrow> target \<Rightarrow> reference \<Rightarrow> node \<Rightarrow> string \<Rightarrow> string \<Rightarrow> bool" where
  "bundle_of h t ref desc raw d \<longleftrightarrow>
     (\<exists>bs b. BundleReferrers t desc = Inr bs \<and> b \<in> set bs \<and> raw = BundleRef (ref_text h) ref (Digest b) \<and> d = Digest b)"

text \<open>A model that verified, or what travels with one.\<close>

definition vouched :: "'k host \<Rightarrow> config \<Rightarrow> string \<Rightarrow> target \<Rightarrow> string list \<Rightarrow> string \<Rightarrow> bool" where
  "vouched h cfg keyPath t raws raw \<longleftrightarrow>
     (\<exists>m \<in> set raws. \<exists>ref desc. verified_model h cfg keyPath t m ref desc \<and>
        (raw = m \<or> raw = SigRef (ref_text h) ref (Digest desc) \<or> raw = AttRef (ref_text h) ref (Digest desc) \<or>
         (\<exists>got. t_Resolve t raw = Inr got \<and> bundle_of h t ref desc raw (Digest got))))"

text \<open>What is expected, and on what grounds.\<close>

definition expected_of :: "'k host \<Rightarrow> config \<Rightarrow> string \<Rightarrow> target \<Rightarrow> string list \<Rightarrow> expected \<Rightarrow> bool" where
  "expected_of h cfg keyPath t raws x \<longleftrightarrow>
     (\<forall>n \<in> set (ex_signatures x). \<exists>m \<in> set raws. \<exists>ref desc. verified_model h cfg keyPath t m ref desc \<and> n = SigRef (ref_text h) ref (Digest desc)) \<and>
     (\<forall>n \<in> set (ex_attestations x). \<exists>m \<in> set raws. \<exists>ref desc. verified_model h cfg keyPath t m ref desc \<and> n = AttRef (ref_text h) ref (Digest desc)) \<and>
     (\<forall>n d. ex_bundles x n = Some d \<longrightarrow> (\<exists>m \<in> set raws. \<exists>ref desc. verified_model h cfg keyPath t m ref desc \<and> bundle_of h t ref desc n d))"

lemma fold_names: "fold (\<lambda>b m. m(f b \<mapsto> g b)) bs m0 n = Some d \<Longrightarrow> m0 n = Some d \<or> (\<exists>b \<in> set bs. n = f b \<and> d = g b)"
  by (induction bs arbitrary: m0) (fastforce split: if_splits)+

lemma expect_of:
  assumes "expected_of h cfg keyPath t raws x" and "m \<in> set raws" and "verified_model h cfg keyPath t m ref desc"
    and "BundleReferrers t desc = Inr bs"
  shows "expected_of h cfg keyPath t raws (expect (ref_text h) ref (layoutSource (ref_text h) t ref desc n) bs x)"
proof -
  have "\<exists>m \<in> set raws. \<exists>ref desc. verified_model h cfg keyPath t m ref desc \<and> bundle_of h t ref desc k d"
    if "ex_bundles (expect (ref_text h) ref (layoutSource (ref_text h) t ref desc n) bs x) k = Some d" for k d
  proof -
    from fold_names [of "\<lambda>b. BundleRef (ref_text h) ref (Digest b)" Digest bs "ex_bundles x" k d] that
    have "ex_bundles x k = Some d \<or> bundle_of h t ref desc k d"
      using assms(4) unfolding expect_def bundle_of_def by auto
    then show ?thesis using assms(1,2,3) unfolding expected_of_def by blast
  qed
  with assms show ?thesis by (auto simp: expected_of_def expect_def layoutSource_def)
qed

lemma verify_models_sound:
  assumes "verify_models h cfg keyPath t raws x = Inr x'" and "set raws \<subseteq> set all" and "expected_of h cfg keyPath t all x"
  shows "expected_of h cfg keyPath t all x' \<and> (\<forall>raw \<in> set raws. \<not> travels raw \<longrightarrow> (\<exists>ref desc. verified_model h cfg keyPath t raw ref desc))"
  using assms
proof (induction raws arbitrary: x)
  case Nil
  then show ?case by simp
next
  case (Cons raw raws)
  show ?case
  proof (cases "travels raw")
    case True
    with Cons show ?thesis by simp
  next
    case False
    from False Cons.prems(1) obtain ref where ref: "Parse (parse_ref h) raw [] = Inr ref"
      by (cases "Parse (parse_ref h) raw []") simp_all
    with False Cons.prems(1) obtain desc where d: "t_Resolve t raw = Inr desc"
      by (cases "t_Resolve t raw") simp_all
    let ?src = "layoutSource (ref_text h) t ref desc ''bundle''"
    from False ref d Cons.prems(1) obtain v where v: "verifyDigest h cfg keyPath ?src ref = Inr v"
      by (cases "verifyDigest h cfg keyPath ?src ref") (simp_all add: Let_def)
    with False ref d Cons.prems(1) obtain bs where bs: "BundleReferrers t desc = Inr bs"
      by (cases "BundleReferrers t desc") (simp_all add: Let_def)
    have ok: "verified_model h cfg keyPath t raw ref desc"
      using verifyDigest_true [OF v] verdict_signed False ref d unfolding verified_model_def by blast
    from False ref d v bs Cons.prems(1)
    have "verify_models h cfg keyPath t raws (expect (ref_text h) ref ?src bs x) = Inr x'" by (simp add: Let_def)
    from Cons.IH [OF this _ expect_of [OF Cons.prems(3) _ ok bs]] Cons.prems(2) ok show ?thesis by auto
  qed
qed

lemma check_names_all: "check_names t x raws = Inr () \<longleftrightarrow> (\<forall>raw \<in> set raws. check_name t x raw = Inr ())"
proof (induction raws)
  case (Cons raw raws)
  then show ?case by (cases "check_name t x raw") auto
qed simp

lemma check_name_vouched:
  assumes "check_name t x raw = Inr ()" and "expected_of h cfg keyPath t raws x" and "travels raw"
  shows "vouched h cfg keyPath t raws raw"
proof (cases "IsSigTag raw \<or> IsAttTag raw")
  case True
  with assms show ?thesis unfolding expected_of_def vouched_def check_name_def by (auto split: if_splits) blast+
next
  case False
  with assms(3) have b: "IsBundleTag raw" by (simp add: travels_def)
  from assms(1) False b obtain want where w: "ex_bundles x raw = Some want"
    by (cases "ex_bundles x raw") (auto simp: check_name_def)
  with assms(1) False b obtain got where g: "t_Resolve t raw = Inr got" "Digest got = want"
    by (cases "t_Resolve t raw") (auto simp: check_name_def split: if_splits)
  with w assms(2) show ?thesis unfolding expected_of_def vouched_def by blast
qed

lemma bundleVerifier_vouches:
  assumes "bundleVerifier h cfg keyPath t raws = Inr ()" and "raw \<in> set raws"
  shows "vouched h cfg keyPath t raws raw"
proof -
  let ?x0 = "\<lparr>ex_signatures = [], ex_attestations = [], ex_bundles = Map.empty\<rparr>"
  from assms(1) obtain x where x: "verify_models h cfg keyPath t raws ?x0 = Inr x" "check_names t x raws = Inr ()"
    by (auto simp: bundleVerifier_def)
  have "expected_of h cfg keyPath t raws ?x0" by (simp add: expected_of_def)
  from verify_models_sound [OF x(1) order_refl this] have e: "expected_of h cfg keyPath t raws x"
    and m: "\<not> travels raw \<longrightarrow> (\<exists>ref desc. verified_model h cfg keyPath t raw ref desc)" using assms(2) by auto
  show ?thesis
  proof (cases "travels raw")
    case True
    from x(2) assms(2) have "check_name t x raw = Inr ()" by (simp add: check_names_all)
    from check_name_vouched [OF this e True] show ?thesis .
  next
    case False
    with m assms(2) show ?thesis unfolding vouched_def by blast
  qed
qed

section \<open>What an import does to the store\<close>

lemma import_refs_kept:
  assumes c: "copies_by_name st"
  shows "import_refs st t raws s = (r, s') \<Longrightarrow> kept st (set raws) s s' \<and>
    (r = Inr () \<longrightarrow> (\<forall>raw \<in> set raws. \<exists>d. t_Resolve t raw = Inr d \<and> t_Resolve (st_target st s') raw = Inr d))"
proof (induction raws arbitrary: s)
  case Nil
  then show ?case by simp
next
  case (Cons raw raws)
  obtain res s1 where s1: "st_copy st t raw raw s = (res, s1)" by fastforce
  note n = c [unfolded copies_by_name_def, rule_format, OF s1]
  have k: "kept st {raw} s s1" unfolding kept_def using n by simp
  show ?case
  proof (cases res)
    case (Inl e)
    with Cons.prems s1 kept_mono [OF k] show ?thesis by auto
  next
    case (Inr d)
    with Cons.prems s1 have rest: "import_refs st t raws s1 = (r, s')" by simp
    note i = Cons.IH [OF rest]
    have all: "kept st (set (raw # raws)) s s'" by (rule kept_trans [OF k, of "set raws"]) (use i in auto)
    moreover have "\<exists>d. t_Resolve t raw = Inr d \<and> t_Resolve (st_target st s') raw = Inr d" if "r = Inr ()"
    proof (cases "raw \<in> set raws")
      case True
      with i that show ?thesis by blast
    next
      case False
      with i have "t_Resolve (st_target st s') raw = t_Resolve (st_target st s1) raw" by (simp add: kept_def)
      with n Inr show ?thesis by simp
    qed
    ultimately show ?thesis using i by auto
  qed
qed

text \<open>The layout a bundle was unpacked to, and its names.\<close>

definition bundle_read :: "os \<Rightarrow> string \<Rightarrow> opener \<Rightarrow> bool \<Rightarrow> tar_entry list \<Rightarrow> fs \<Rightarrow> target \<Rightarrow> string list \<Rightarrow> bool" where
  "bundle_read os base opener broken es fs t raws \<longleftrightarrow>
     (\<exists>fs1 tmp fs2. MkdirTemp os fs (parts base) ''palan-load-'' = (fs1, Inr tmp) \<and>
        unpack_bundle os opener (temp_text base tmp) broken es fs1 = (fs2, Inr (t, raws)))"

lemma load_cmd_steps:
  assumes l: "load_cmd h cfg os base opener st doVerify keyPath broken es fs s = (fs', r, s')"
    and v: "doVerify \<or> c_required cfg"
  obtains e where "r = Inl e" "s' = s"
  | t raws res where "bundle_read os base opener broken es fs t raws" "bundleVerifier h cfg keyPath t raws = Inr ()"
      "import_refs st t raws s = (res :: bundle_refusal transport_error + unit, s')" "(\<exists>e. res = Inl e \<and> r = Inl e) \<or> res = Inr () \<and> r = Inr (filter (\<lambda>n. \<not> travels n) raws)"
proof -
  let ?check = "Some (bundleVerifier h cfg keyPath)"
  obtain fs1 m where m: "MkdirTemp os fs (parts base) ''palan-load-'' = (fs1, m)" by fastforce
  show ?thesis
  proof (cases m)
    case (Inl e)
    with l v m that(1) show ?thesis by (auto simp: load_cmd_def Load_def)
  next
    case (Inr tmp)
    obtain fs2 u where u: "unpack_bundle os opener (temp_text base tmp) broken es fs1 = (fs2, u)" by fastforce
    show ?thesis
    proof (cases u)
      case (Inl e)
      with l v m Inr u that(1) show ?thesis by (auto simp: load_cmd_def Load_def load_from_def)
    next
      case (Inr tr)
      obtain t raws where tr: "tr = (t, raws)" by fastforce
      have b: "bundle_read os base opener broken es fs t raws"
        unfolding bundle_read_def using m u \<open>m = Inr tmp\<close> Inr tr by blast
      show ?thesis
      proof (cases "bundleVerifier h cfg keyPath t raws")
        case (Inl e)
        with l v m \<open>m = Inr tmp\<close> u Inr tr that(1) show ?thesis by (auto simp: load_cmd_def Load_def load_from_def)
      next
        case (Inr un)
        obtain res s1 where i: "import_refs st t raws s = (res :: bundle_refusal transport_error + unit, s1)" by fastforce
        from l v m \<open>m = Inr tmp\<close> u \<open>u = Inr tr\<close> tr Inr i
        have "s1 = s' \<and> ((\<exists>e. res = Inl e \<and> r = Inl e) \<or> res = Inr () \<and> r = Inr (filter (\<lambda>n. \<not> travels n) raws))"
          by (cases res) (auto simp: load_cmd_def Load_def load_from_def)
        then have "s1 = s'" and r: "(\<exists>e. res = Inl e \<and> r = Inl e) \<or> res = Inr () \<and> r = Inr (filter (\<lambda>n. \<not> travels n) raws)"
          by blast+
        have "bundleVerifier h cfg keyPath t raws = Inr ()" using Inr by simp
        from that(2) [OF b this i [unfolded \<open>s1 = s'\<close>] r] show ?thesis .
      qed
    qed
  qed
qed


section \<open>What loading leaves on the host\<close>

text \<open>The content library keeps to the directory it is given.\<close>

definition keeps_inside :: "opener \<Rightarrow> bool" where
  "keeps_inside opener \<longleftrightarrow> (\<forall>dir R g g' r. at_dir dir R g \<longrightarrow> opener dir g = (g', r) \<longrightarrow> inside R g g')"

text \<open>Where temporary directories are made: a plain name, and plain names tried below it.\<close>

definition temp_base :: "os \<Rightarrow> string \<Rightarrow> bool" where
  "temp_base os base \<longleftrightarrow> IsAbs base \<and> parts base = rooted_parts base \<and> (\<forall>x \<in> set (suffixes os). plain (''palan-load-'' @ x))"

lemma temp_text_parts:
  assumes "IsAbs base" and "parts base = rooted_parts base" and "plain x"
  shows "IsAbs (temp_text base (p @ [x])) \<and> rooted_parts (temp_text base (p @ [x])) = rooted_parts base @ [x]"
proof -
  have "parts (temp_text base (p @ [x])) = rooted_parts base @ [x]"
    using assms(2,3) by (simp add: temp_text_def parts_append)
  then have "rooted_parts (temp_text base (p @ [x])) = rooted_parts base @ [x]"
    using assms(3) by (simp add: rooted_parts_def [of "temp_text _ _"] resolve_plain)
  with assms(1) show ?thesis by (auto simp: temp_text_def IsAbs_def prefix_def)
qed

lemma MkdirTemp_boxes:
  assumes m: "MkdirTemp os fs (parts base) ''palan-load-'' = (fs1, Inr tmp)" and wf: "wf_fs fs" and b: "temp_base os base"
  shows "\<exists>T x. plain x \<and> at fs (T @ [x]) = None \<and> tmp = rooted_parts base @ [x] \<and> fs1 = put fs (T @ [x]) Folder \<and>
    at_dir (temp_text base tmp) (T @ [x]) fs1"
proof -
  from m obtain T s where d: "directory fs (parts base) = Inr T" and
    f: "find (\<lambda>s. at fs (T @ [''palan-load-'' @ s]) = None) (suffixes os) = Some s" and
    r: "fs1 = put fs (T @ [''palan-load-'' @ s]) Folder" "tmp = parts base @ [''palan-load-'' @ s]"
    by (auto simp: MkdirTemp_def split: if_splits sum.splits option.splits)
  define x where "x = ''palan-load-'' @ s"
  let ?R = "T @ [x]"
  note r = r [folded x_def]
  from f have free: "at fs ?R = None" and "s \<in> set (suffixes os)" by (auto simp: find_Some_iff x_def)
  with b have x: "plain x" and ab: "IsAbs base" "parts base = rooted_parts base" by (auto simp: temp_base_def x_def)
  have TF: "at fs T = Some Folder" by (rule directory_folder [OF d wf])
  then have "list_all plain T" using wf by (cases "T = []") (auto simp: wf_fs_def)
  with x TF have wf1: "wf_fs fs1" unfolding r(1) by (intro wf_put [OF wf]) auto
  have "directory fs1 (parts base) = Inr T"
    by (rule directory_mono [OF d]) (use free in \<open>auto simp: r(1) tree\<close>)
  moreover have none: "at fs1 q = None" if "strict_prefix ?R q" for q
  proof -
    have "at fs q = None" by (rule wf_below [OF wf _ that]) (simp add: free)
    with that show ?thesis by (auto simp: r(1) tree)
  qed
  have "at fs1 q = Some Folder \<or> at fs1 q = None" if "prefix ?R q" for q
    using that none [of q] by (cases "q = ?R") (simp_all add: r(1) tree strict_prefix_def)
  then have "\<forall>q. prefix ?R q \<longrightarrow> (\<forall>b t. at fs1 q \<noteq> Some (Symlink b t))" by fastforce
  moreover note t = temp_text_parts [OF ab x, of "parts base"]
  ultimately have "at_dir (temp_text base tmp) ?R fs1"
    using wf1 x ab by (auto simp: at_dir_def boxed_def r tree)
  with free r x ab(2) show ?thesis by metis
qed

lemma load_from_inside:
  assumes l: "load_from os opener check st dir broken es fs s = (fs', r)" and d: "at_dir dir R fs" and k: "keeps_inside opener"
  shows "inside R fs fs'"
proof -
  obtain fs1 u where u: "unpack_bundle os opener dir broken es fs = (fs1, u)" by fastforce
  have "fs' = fs1" using l u by (auto simp: load_from_def split: sum.splits prod.splits option.splits)
  obtain g v where g: "untarDir os dir broken es fs = (g, v)" by fastforce
  note i = untarDir_inside [OF g d]
  show ?thesis
  proof (cases v)
    case (Inl e)
    with u g i \<open>fs' = fs1\<close> show ?thesis by (simp add: unpack_bundle_def)
  next
    case (Inr un)
    obtain g' lay where o: "opener dir g = (g', lay)" by fastforce
    from u g Inr o have "fs1 = g'" by (cases lay) (auto simp: unpack_bundle_def)
    moreover have "inside R g g'" using k at_dir_inside [OF d i] o unfolding keeps_inside_def by blast
    ultimately show ?thesis using inside_trans [OF i] \<open>fs' = fs1\<close> by simp
  qed
qed

text \<open>
  C18. Whatever a bundle holds, reading it changes nothing on the host outside a directory made for it
  under a name that was free; and where removing that directory does not fail, nothing at all is left.
\<close>

theorem Load_leaves_no_trace:
  assumes "Load os base opener beforeImport st broken es fs s = (fs', r, s')"
    and "wf_fs fs" and "temp_base os base" and "keeps_inside opener"
  shows "fs' = fs \<or> (\<exists>R. at fs R = None \<and> (\<forall>q. \<not> prefix R q \<longrightarrow> at fs' q = at fs q) \<and>
    ((\<forall>p g. \<not> fault os CRemove p g) \<longrightarrow> (\<forall>q. at fs' q = at fs q)))"
proof -
  obtain fs1 m where m: "MkdirTemp os fs (parts base) ''palan-load-'' = (fs1, m)" by fastforce
  show ?thesis
  proof (cases m)
    case (Inl e)
    with m have "fs1 = fs" by (auto simp: MkdirTemp_def split: if_splits sum.splits option.splits)
    with assms(1) m Inl show ?thesis by (simp add: Load_def)
  next
    case (Inr tmp)
    from MkdirTemp_boxes [OF m [unfolded Inr] assms(2,3)] obtain T x where t: "plain x" "at fs (T @ [x]) = None"
      "tmp = rooted_parts base @ [x]" "fs1 = put fs (T @ [x]) Folder" "at_dir (temp_text base tmp) (T @ [x]) fs1" by blast
    let ?R = "T @ [x]"
    obtain fs2 rr where l: "load_from os opener beforeImport st (temp_text base tmp) broken es fs1 s = (fs2, rr)" by (cases "load_from os opener beforeImport st (temp_text base tmp) broken es fs1 s") blast
    note i = load_from_inside [OF l t(5) assms(4)]
    have fs': "fs' = fst (RemoveAll os fs2 tmp)" using assms(1) m Inr l by (auto simp: Load_def)
    have bx: "boxed tmp ?R fs2"
      using at_dir_inside [OF t(5) i] temp_text_parts [OF _ _ t(1)] assms(3) t(3) by (auto simp: at_dir_def temp_base_def)
    then have pl: "place fs2 tmp = Inr ?R" by (auto simp: boxed_def place_def)
    have before: "at fs2 q = at fs q" if "\<not> prefix ?R q" for q
    proof -
      from i have "apart ?R fs1 fs2" by (simp only: inside_def)
      with that have "at fs2 q = at fs1 q" unfolding apart_def by (auto simp: strict_prefix_def)
      with that t(4) show ?thesis by (auto simp: tree)
    qed
    have "at fs' q = at fs q" if "\<not> prefix ?R q" for q
      using before [OF that] that pl by (simp add: fs' RemoveAll_def tree)
    moreover have "at fs' q = at fs q" if "\<forall>p g. \<not> fault os CRemove p g" "prefix ?R q" for q
    proof -
      have "at fs q = None"
        using wf_below [OF assms(2), of ?R q] t(2) that(2) by (cases "q = ?R") (auto simp: strict_prefix_def)
      moreover have "at fs' q = None" using that pl by (auto simp: fs' RemoveAll_def tree prefix_def)
      ultimately show ?thesis by simp
    qed
    ultimately show ?thesis using t(2) by blast
  qed
qed

section \<open>What the check does not see\<close>

text \<open>A layout in which one name leads elsewhere.\<close>

definition redirect :: "string \<Rightarrow> node \<Rightarrow> target \<Rightarrow> target" where
  "redirect n x t = t\<lparr>t_Resolve := (t_Resolve t)(n := Inr x)\<rparr>"

lemma redirect_same [simp]:
  "t_Fetch (redirect n x t) = t_Fetch t" "t_graph (redirect n x t) = t_graph t" "t_Referrers (redirect n x t) = t_Referrers t"
  "m \<noteq> n \<Longrightarrow> t_Resolve (redirect n x t) m = t_Resolve t m"
  by (simp_all add: redirect_def)

lemma check_sig_layers_redirect: "check_sig_layers (redirect n x t) repo d v ls e = check_sig_layers t repo d v ls e"
proof (induction ls arbitrary: e)
  case (Cons l ls)
  have "check_sig_layer (redirect n x t) repo d v l = check_sig_layer t repo d v l"
    unfolding check_sig_layer_def redirect_same(1) ..
  with Cons show ?case by (simp split: layer_verdict.split)
qed simp

lemma verifyManifest_redirect: "verifyManifest (redirect n x t) desc repo d v = verifyManifest t desc repo d v"
  by (simp add: verifyManifest_def check_sig_layers_redirect)

lemma try_manifests_redirect: "try_manifests (redirect n x t) repo d v ns e = try_manifests t repo d v ns e"
  by (induction ns arbitrary: e) (simp_all add: verifyManifest_redirect split: sum.splits)

lemma Verify_sig_redirect: "sig \<noteq> n \<Longrightarrow> Verify_sig (redirect n x t) sig repo subject v = Verify_sig t sig repo subject v"
proof -
  assume s: "sig \<noteq> n"
  have "sig_referrers (redirect n x t) subject = sig_referrers t subject"
    unfolding sig_referrers_def redirect_same(2,3) ..
  then show ?thesis
    by (simp only: Verify_sig_def verifyManifest_redirect try_manifests_redirect redirect_same(4) [OF s])
qed

lemma FetchBundles_redirect: "FetchBundles (redirect n x t) subject = FetchBundles t subject"
proof -
  have "readable_bundles (redirect n x t) rs = readable_bundles t rs" for rs
  proof (induction rs)
    case (Cons r rs)
    have "fetchBundleBlob (redirect n x t) (referrer_node r) = fetchBundleBlob t (referrer_node r)"
      unfolding fetchBundleBlob_def redirect_same(1) ..
    with Cons show ?case by (simp split: sum.split)
  qed simp
  then show ?thesis by (simp only: FetchBundles_def BundleReferrers_def redirect_same(2,3))
qed

lemma try_keys_redirect:
  assumes "vs_sigRef src \<noteq> n"
  shows "try_keys (src\<lparr>vs_target := redirect n x (vs_target src)\<rparr>) repo nvs tried e = try_keys src repo nvs tried e"
  by (induction nvs arbitrary: tried e) (simp_all add: Verify_sig_redirect [OF assms] split: sum.splits)

lemma verifyDigest_redirect:
  assumes "SigRef (ref_text h) ref (Digest desc) \<noteq> n"
  shows "verifyDigest h cfg keyPath (layoutSource (ref_text h) (redirect n x t) ref desc nm) ref =
    verifyDigest h cfg keyPath (layoutSource (ref_text h) t ref desc nm) ref"
proof -
  let ?s = "layoutSource (ref_text h) t ref desc nm"
  have e: "layoutSource (ref_text h) (redirect n x t) ref desc nm = ?s\<lparr>vs_target := redirect n x (vs_target ?s)\<rparr>"
    by (simp add: layoutSource_def)
  have k: "verifyKeyless h (?s\<lparr>vs_target := redirect n x (vs_target ?s)\<rparr>) allowed = verifyKeyless h ?s allowed" for allowed
    by (simp add: verifyKeyless_def FetchBundles_redirect)
  have "vs_sigRef ?s \<noteq> n" using assms by (simp add: layoutSource_def)
  note t = try_keys_redirect [OF this]
  have "vs_subject (?s\<lparr>vs_target := redirect n x (vs_target ?s)\<rparr>) = vs_subject ?s" by simp
  then show ?thesis unfolding e verifyDigest_def k t by (simp only:)
qed

lemma verify_models_redirect:
  assumes "\<And>ref d. SigRef (ref_text h) ref d \<noteq> n" and "travels n"
  shows "verify_models h cfg keyPath (redirect n x t) raws y = verify_models h cfg keyPath t raws y"
proof (induction raws arbitrary: y)
  case (Cons raw raws)
  have "raw \<noteq> n" if "\<not> travels raw" using that assms(2) by auto
  moreover have "BundleReferrers (redirect n x t) d = BundleReferrers t d" for d by (simp add: BundleReferrers_def)
  moreover have "layoutSource (ref_text h) (redirect n x t) ref desc nm =
      (layoutSource (ref_text h) t ref desc nm)\<lparr>vs_target := redirect n x t\<rparr>" for ref desc nm
    by (simp add: layoutSource_def)
  then have "expect (ref_text h) ref (layoutSource (ref_text h) (redirect n x t) ref desc nm) bs y =
      expect (ref_text h) ref (layoutSource (ref_text h) t ref desc nm) bs y" for ref desc nm bs y
    by (simp add: expect_def)
  ultimately show ?case
    using Cons.IH verifyDigest_redirect [OF assms(1)] by (simp add: Let_def split: sum.splits)
qed simp


end
