(* ===== verification/TarRoundTrip.thy ===== *)
theory TarRoundTrip
  imports TarSpec
begin

text \<open>
  An archive written from a directory and read back into an empty one: the same names, with the same
  contents. The entries of \<^verbatim>\<open>tarDir\<close> carry one mode for all files, so nothing is
  executable afterwards.
\<close>

section \<open>Reading where nothing fails\<close>

definition faultless :: "os \<Rightarrow> bool" where
  "faultless os \<longleftrightarrow> (\<forall>c p fs. \<not> fault os c p fs)"

lemma mkdir_faultless:
  assumes "boxed d R fs" and "list_all plain (over @ qs)" and "at fs (R @ over) = Some Folder"
    and "\<forall>p. prefix p qs \<longrightarrow> at fs (R @ over @ p) = None \<or> at fs (R @ over @ p) = Some Folder" and "faultless os"
  shows "\<exists>fs'. mkdir_from os fs (d @ over) qs = (fs', Inr ()) \<and> inside R fs fs' \<and>
    (\<forall>q. at fs' q = (if at fs q = None \<and> (\<exists>p. prefix p qs \<and> q = R @ over @ p) then Some Folder else at fs q))"
  using assms
proof (induction qs arbitrary: fs over)
  case Nil
  then show ?case by (auto simp: inside_refl boxed_def)
next
  case (Cons x qs)
  have dir: "directory fs (d @ over) = Inr (R @ over)"
    using boxed_directory [OF Cons.prems(1), of over] Cons.prems(2,3) by simp
  have x: "plain x" and ps: "list_all plain (over @ [x])" using Cons.prems(2) by simp_all
  have here: "at fs ((R @ over) @ [x]) = None \<or> at fs ((R @ over) @ [x]) = Some Folder"
    using Cons.prems(4) [rule_format, of "[x]"] by simp
  have below: "\<forall>p. prefix p qs \<longrightarrow> at fs (R @ (over @ [x]) @ p) = None \<or> at fs (R @ (over @ [x]) @ p) = Some Folder"
    using Cons.prems(4) by (metis Cons_prefix_Cons append.assoc append_Cons append_Nil)
  note one = mkdir_one [OF dir x here, of os qs]
  show ?case
  proof (cases "at fs (R @ over @ [x]) = Some Folder")
    case True
    from Cons.IH [OF Cons.prems(1) _ _ below Cons.prems(5)] Cons.prems(2) True
    obtain fs' where m: "mkdir_from os fs (d @ over @ [x]) qs = (fs', Inr ())" "inside R fs fs'" and
      a: "\<forall>q. at fs' q = (if at fs q = None \<and> (\<exists>p. prefix p qs \<and> q = R @ (over @ [x]) @ p) then Some Folder else at fs q)"
      by auto
    have "(\<exists>p. prefix p (x # qs) \<and> q = R @ over @ p) \<longleftrightarrow> q = R @ over \<or> (\<exists>p. prefix p qs \<and> q = R @ (over @ [x]) @ p)" for q
      by (auto simp: prefix_Cons)
    with a Cons.prems(3) have "at fs' q = (if at fs q = None \<and> (\<exists>p. prefix p (x # qs) \<and> q = R @ over @ p) then Some Folder else at fs q)" for q
      by auto
    with m one True show ?thesis by auto
  next
    case False
    with here have none: "at fs (R @ over @ [x]) = None" by simp
    let ?g = "put fs (R @ over @ [x]) Folder"
    have i: "inside R fs ?g"
      by (rule boxed_put [OF Cons.prems(1)]) (use ps none Cons.prems(3) in \<open>simp_all add: butlast_append\<close>)
    have g: "\<forall>p. prefix p qs \<longrightarrow> at ?g (R @ (over @ [x]) @ p) = None \<or> at ?g (R @ (over @ [x]) @ p) = Some Folder"
      using below by (auto simp: tree)
    from Cons.IH [OF boxed_inside [OF Cons.prems(1) i] _ _ g Cons.prems(5)] Cons.prems(2)
    obtain fs' where m: "mkdir_from os ?g (d @ over @ [x]) qs = (fs', Inr ())" "inside R ?g fs'" and
      a: "\<forall>q. at fs' q = (if at ?g q = None \<and> (\<exists>p. prefix p qs \<and> q = R @ (over @ [x]) @ p) then Some Folder else at ?g q)"
      by (auto simp: tree)
    have "at fs' q = (if at fs q = None \<and> (\<exists>p. prefix p (x # qs) \<and> q = R @ over @ p) then Some Folder else at fs q)" for q
      using a Cons.prems(3) none by (auto simp: tree prefix_Cons)
    with m one none inside_trans [OF i] Cons.prems(5) show ?thesis by (auto simp: faultless_def)
  qed
qed

lemma write_faultless:
  assumes b: "boxed d R fs" and q: "list_all plain qs" "qs \<noteq> []" and up: "at fs (R @ butlast qs) = Some Folder"
    and free: "at fs (R @ qs) = None \<or> (\<exists>c. at fs (R @ qs) = Some (Regular False c))" and "faultless os" and "\<not> te_Cut e"
  shows "\<exists>fs'. write_entry os fs (d @ qs) e = (fs', Inr ()) \<and>
    (\<forall>p. at fs' p = (if p = R @ qs then Some (Regular False (te_Body e)) else at fs p))"
proof -
  have f: "follow max_links fs (d @ qs) = Inr (R @ qs)" using follow_boxed [OF b q, of max_links] up by simp
  let ?g = "put fs (R @ qs) (Regular False [])"
  have o: "open_trunc os fs (d @ qs) = (?g, Inr (R @ qs))"
    using f free assms(6) by (auto simp: open_trunc_def faultless_def)
  have "at ?g (R @ qs) = Some (Regular False [])" using q(2) by (simp add: tree)
  with o assms(6,7) have "write_entry os fs (d @ qs) e = (put ?g (R @ qs) (Regular False (te_Body e)), Inr ())"
    by (simp add: write_entry_def Let_def faultless_def)
  with q(2) show ?thesis by (auto simp: tree)
qed

section \<open>The names of entries\<close>

lemma Clean_joined:
  assumes "qs \<noteq> []" and "list_all plain qs"
  shows "Clean (join_on CHR ''/'' qs) = join_on CHR ''/'' qs"
    and "Clean (join_on CHR ''/'' qs @ ''/'') = join_on CHR ''/'' qs"
proof -
  note j = join_plain_ne [OF assms]
  have rel: "\<not> IsAbs (join_on CHR ''/'' qs @ ''/'')" using j by (cases "join_on CHR ''/'' qs") (auto simp: IsAbs_def)
  show "Clean (join_on CHR ''/'' qs) = join_on CHR ''/'' qs"
    using j assms by (simp add: Clean_def split_join_plain resolve_plain)
  have "resolve_dots False [] (split_on CHR ''/'' (join_on CHR ''/'' qs @ ''/'')) = resolve_dots False [] (parts (join_on CHR ''/'' qs @ ''/''))"
    by (simp add: parts_def resolve_empties)
  also have "\<dots> = qs" using assms by (simp add: parts_append parts_join) (simp add: parts_def resolve_plain)
  finally show "Clean (join_on CHR ''/'' qs @ ''/'') = join_on CHR ''/'' qs"
    using rel assms(1) by (simp add: Clean_def)
qed

text \<open>\<^verbatim>\<open>untarDir\<close> refuses every name that begins with two dots, going up or not.\<close>

definition no_dots :: "name \<Rightarrow> bool" where
  "no_dots q \<longleftrightarrow> q \<noteq> [] \<and> \<not> prefix ''..'' (hd q)"

lemma joined_dots:
  assumes "no_dots q" and "list_all plain q"
  shows "\<not> prefix ''..'' (join_on CHR ''/'' q)"
proof -
  obtain x xs where q: "q = x # xs" using assms(1) by (cases q) (auto simp: no_dots_def)
  have "\<not> prefix ''..'' x" "x \<noteq> []" using assms q by (auto simp: no_dots_def plain_def)
  then have "\<not> prefix ''..'' (x @ CHR ''/'' # t)" for t by (cases x rule: list.exhaust; cases "tl x") auto
  with \<open>\<not> prefix ''..'' x\<close> show ?thesis by (cases xs) (simp_all add: q)
qed

lemma Join_joined:
  assumes "IsAbs dir" and "q \<noteq> []" and "list_all plain q"
  shows "Join [dir, join_on CHR ''/'' q] = abs_of (rooted_parts dir @ q)"
proof -
  obtain s where s: "dir = CHR ''/'' # s" using assms(1) by (auto simp: IsAbs_def prefix_def)
  have "join_on CHR ''/'' (dir # q) = join_on CHR ''/'' [dir, join_on CHR ''/'' q]" using assms(2) by (cases q) simp_all
  then have "Join [dir, join_on CHR ''/'' q] = Join (dir # q)" by (simp only: Join_def s dropWhile.simps list.distinct if_False list.case)
  then show ?thesis by (simp only: Join_abs [OF assms(1,3)])
qed

section \<open>What is there so far\<close>

definition plain_copy :: "inode \<Rightarrow> inode" where
  "plain_copy f = (case f of Regular x c \<Rightarrow> Regular False c | g \<Rightarrow> g)"

definition copying :: "fs \<Rightarrow> name \<Rightarrow> name \<Rightarrow> fs \<Rightarrow> bool" where
  "copying src S R fs \<longleftrightarrow>
     (\<forall>q. q \<noteq> [] \<longrightarrow> at fs (R @ q) = None \<or> at fs (R @ q) = map_option plain_copy (at src (S @ q)))"

text \<open>A name of the archived tree, and the directories above it.\<close>

lemma wf_front: "wf_fs fs \<Longrightarrow> at fs (S @ q) \<noteq> None \<Longrightarrow> strict_prefix p q \<Longrightarrow> at fs (S @ p) = Some Folder"
proof (rule ccontr)
  assume a: "wf_fs fs" "at fs (S @ q) \<noteq> None" "strict_prefix p q" "at fs (S @ p) \<noteq> Some Folder"
  from a(3) have "strict_prefix (S @ p) (S @ q)" by (auto simp: strict_prefix_def)
  from wf_below [OF a(1,4) this] a(2) show False by simp
qed

lemma copying_mkdir:
  assumes c: "copying src S R fs" and wf: "wf_fs src" and at: "at src (S @ q) \<noteq> None" and RF: "at fs R = Some Folder"
    and qs: "strict_prefix qs q \<or> qs = q \<and> at src (S @ q) = Some Folder"
    and m: "\<forall>p. at fs' p = (if at fs p = None \<and> (\<exists>r. prefix r qs \<and> p = R @ r) then Some Folder else at fs p)"
  shows "copying src S R fs' \<and> at fs' (R @ qs) = Some Folder"
proof -
  have F: "at src (S @ r) = Some Folder" if "prefix r qs" for r
  proof (cases "r = q")
    case True
    with that qs show ?thesis by (auto simp: strict_prefix_def dest: prefix_order.antisym)
  next
    case False
    with that qs have "strict_prefix r q" by (auto simp: strict_prefix_def dest: prefix_order.trans)
    from wf_front [OF wf at this] show ?thesis .
  qed
  have "copying src S R fs'" unfolding copying_def
  proof (intro allI impI)
    fix r :: name assume "r \<noteq> []"
    with c have "at fs (R @ r) = None \<or> at fs (R @ r) = map_option plain_copy (at src (S @ r))" by (simp add: copying_def)
    then show "at fs' (R @ r) = None \<or> at fs' (R @ r) = map_option plain_copy (at src (S @ r))"
      using m F [of r] by (auto simp: plain_copy_def)
  qed
  moreover have "at fs (R @ qs) = None \<or> at fs (R @ qs) = Some Folder"
    using c F [of qs] RF by (cases "qs = []") (auto simp: copying_def plain_copy_def)
  ultimately show ?thesis using m by auto
qed

section \<open>One entry\<close>

lemma tar_one_cases:
  assumes "tar_one os src S (join_on CHR ''/'' q) = Inr e" and "list_all plain q"
  shows "at src (S @ q) = Some Folder \<and> e = dir_entry (join_on CHR ''/'' q) \<or>
    (\<exists>x c. at src (S @ q) = Some (Regular x c) \<and> e = file_entry (join_on CHR ''/'' q) c)"
  using assms by (auto simp: tar_one_def Let_def parts_join split: option.splits inode.splits if_splits)

lemma untar_one_copies:
  assumes e: "tar_one os src S (join_on CHR ''/'' q) = Inr e" and wf: "wf_fs src" and q: "no_dots q" "list_all plain q"
    and b: "at_dir dir R fs" and c: "copying src S R fs" and ok: "faultless os2"
  shows "\<exists>fs'. untar_one os2 dir e fs = (fs', Inr ()) \<and> at_dir dir R fs' \<and> inside R fs fs' \<and> copying src S R fs' \<and>
    at fs' (R @ q) \<noteq> None \<and> (\<forall>p. at fs p \<noteq> None \<longrightarrow> at fs' p \<noteq> None)"
proof -
  let ?d = "rooted_parts dir" and ?n = "join_on CHR ''/'' q"
  have bx: "boxed ?d R fs" and ab: "IsAbs dir" using b by (auto simp: at_dir_def)
  have ne: "q \<noteq> []" using q(1) by (simp add: no_dots_def)
  have RF: "at fs R = Some Folder" using bx by (simp add: boxed_def)
  note n = Clean_joined [OF ne q(2)] join_plain_ne [OF ne q(2)] joined_dots [OF q] Join_joined [OF ab ne q(2)]
  have start: "MkdirAll os2 fs (?d @ qs) = mkdir_from os2 fs (?d @ []) qs" for qs
    using boxed_directory [OF bx, of "[]"] RF mkdir_over [of fs "[]" ?d R os2 qs] by (simp add: MkdirAll_def)
  have mk: "\<exists>fs'. MkdirAll os2 fs (?d @ qs) = (fs', Inr ()) \<and> inside R fs fs' \<and> copying src S R fs' \<and>
      at fs' (R @ qs) = Some Folder \<and> (\<forall>p. at fs p \<noteq> None \<longrightarrow> at fs' p = at fs p)"
    if at: "at src (S @ q) \<noteq> None" and qs: "strict_prefix qs q \<or> qs = q \<and> at src (S @ q) = Some Folder" for qs
  proof -
    have pl: "list_all plain ([] @ qs)" using q(2) qs by (auto simp: strict_prefix_def prefix_def)
    have "\<forall>p. prefix p qs \<longrightarrow> at fs (R @ [] @ p) = None \<or> at fs (R @ [] @ p) = Some Folder"
    proof (intro allI impI)
      fix p assume p: "prefix p qs"
      have "strict_prefix p q \<or> p = q \<and> at src (S @ q) = Some Folder"
        using p qs by (auto simp: strict_prefix_def dest: prefix_order.trans prefix_order.antisym)
      with wf_front [OF wf at] have "at src (S @ p) = Some Folder" by blast
      with c RF show "at fs (R @ [] @ p) = None \<or> at fs (R @ [] @ p) = Some Folder"
        by (cases "p = []") (auto simp: copying_def plain_copy_def)
    qed
    from mkdir_faultless [OF bx pl _ this ok] RF obtain fs' where
      m: "mkdir_from os2 fs (?d @ []) qs = (fs', Inr ())" "inside R fs fs'" and
      a: "\<forall>p. at fs' p = (if at fs p = None \<and> (\<exists>r. prefix r qs \<and> p = R @ r) then Some Folder else at fs p)" by auto
    from copying_mkdir [OF c wf at RF qs a] m a start show ?thesis by auto
  qed
  from tar_one_cases [OF e q(2)] show ?thesis
  proof (elim disjE conjE exE)
    assume f: "at src (S @ q) = Some Folder" "e = dir_entry ?n"
    from mk [of q] f(1) obtain fs' where m: "MkdirAll os2 fs (?d @ q) = (fs', Inr ())" "inside R fs fs'"
      "copying src S R fs'" "at fs' (R @ q) = Some Folder" "\<forall>p. at fs p \<noteq> None \<longrightarrow> at fs' p = at fs p" by auto
    have "untar_one os2 dir e fs = (fs', Inr ())"
      using n f(2) m(1) q(2) by (simp add: untar_one_def Let_def dir_entry_def)
    with m at_dir_inside [OF b m(2)] show ?thesis by auto
  next
    fix x t assume f: "at src (S @ q) = Some (Regular x t)" "e = file_entry ?n t"
    obtain ps y where ps: "q = ps @ [y]" using ne by (cases q rule: rev_cases) auto
    then have "strict_prefix ps q" by (auto simp: strict_prefix_def)
    with mk [of ps] f(1) obtain fs1 where m: "MkdirAll os2 fs (?d @ ps) = (fs1, Inr ())" "inside R fs fs1"
      "copying src S R fs1" "at fs1 (R @ ps) = Some Folder" "\<forall>p. at fs p \<noteq> None \<longrightarrow> at fs1 p = at fs p" by auto
    have b1: "boxed ?d R fs1" by (rule boxed_inside [OF bx m(2)])
    have "at fs1 (R @ q) = None \<or> (\<exists>c. at fs1 (R @ q) = Some (Regular False c))"
      using m(3) f(1) ne by (fastforce simp: copying_def plain_copy_def)
    moreover have "at fs1 (R @ butlast q) = Some Folder" using m(4) ps by simp
    ultimately obtain fs' where w: "write_entry os2 fs1 (?d @ q) e = (fs', Inr ())"
      and a: "\<forall>p. at fs' p = (if p = R @ q then Some (Regular False (te_Body e)) else at fs1 p)"
      using write_faultless [OF b1 q(2) ne _ _ ok, of e] f(2) by (auto simp: file_entry_def)
    have i: "inside R fs1 fs'" using write_entry_boxed [OF w b1 q(2)] by blast
    have "Dir (abs_of (?d @ q)) = abs_of (?d @ ps)" using Dir_abs_of [of "?d @ ps" y] q(2) ps by simp
    then have "untar_one os2 dir e fs = (fs', Inr ())"
      using n f(2) m(1) w q(2) ps by (simp add: untar_one_def Let_def file_entry_def)
    moreover have "copying src S R fs'" using m(3) a f by (auto simp: copying_def plain_copy_def file_entry_def)
    ultimately show ?thesis using a m(5) inside_trans [OF m(2) i] at_dir_inside [OF b inside_trans [OF m(2) i]] by auto
  qed
qed

lemma tar_all_copies:
  assumes "tar_all os src S (map (join_on CHR ''/'') qs) = Inr es" and wf: "wf_fs src"
    and "\<forall>q \<in> set qs. no_dots q \<and> list_all plain q" and "at_dir dir R fs" and "copying src S R fs" and ok: "faultless os2"
  shows "\<exists>fs'. untarDir os2 dir False es fs = (fs', Inr ()) \<and> inside R fs fs' \<and> copying src S R fs' \<and>
    (\<forall>q \<in> set qs. at fs' (R @ q) \<noteq> None) \<and> (\<forall>p. at fs p \<noteq> None \<longrightarrow> at fs' p \<noteq> None)"
  using assms(1,3,4,5)
proof (induction qs arbitrary: es fs)
  case Nil
  then show ?case by (auto simp: inside_refl at_dir_def boxed_def)
next
  case (Cons q qs)
  from Cons.prems(1) obtain e es' where e: "tar_one os src S (join_on CHR ''/'' q) = Inr e"
    "tar_all os src S (map (join_on CHR ''/'') qs) = Inr es'" "es = e # es'"
    by (cases "tar_one os src S (join_on CHR ''/'' q)"; cases "tar_all os src S (map (join_on CHR ''/'') qs)") auto
  from untar_one_copies [OF e(1) wf _ _ Cons.prems(3,4) ok] Cons.prems(2) obtain fs1 where
    u: "untar_one os2 dir e fs = (fs1, Inr ())" "at_dir dir R fs1" "inside R fs fs1" "copying src S R fs1"
      "at fs1 (R @ q) \<noteq> None" "\<forall>p. at fs p \<noteq> None \<longrightarrow> at fs1 p \<noteq> None" by auto
  from Cons.IH [OF e(2) _ u(2,4)] Cons.prems(2) obtain fs' where
    r: "untarDir os2 dir False es' fs1 = (fs', Inr ())" "inside R fs1 fs'" "copying src S R fs'"
      "\<forall>q \<in> set qs. at fs' (R @ q) \<noteq> None" "\<forall>p. at fs1 p \<noteq> None \<longrightarrow> at fs' p \<noteq> None" by auto
  with u e(3) inside_trans [OF u(3) r(2)] show ?case by auto
qed

section \<open>The whole archive\<close>

lemma sort_map: "sort (map f xs) = map f (sort_key f xs)"
  by (rule properties_for_sort) simp_all

lemma below_set: "q \<in> set (below fs S) \<longleftrightarrow> q \<noteq> [] \<and> at fs (S @ q) \<noteq> None"
proof -
  have "set (below fs S) = drop (length S) ` {p \<in> fst ` set fs. strict_prefix S p}"
    by (auto simp: below_def)
  then have "q \<in> set (below fs S) \<longleftrightarrow> (\<exists>p. p \<in> fst ` set fs \<and> strict_prefix S p \<and> q = drop (length S) p)"
    by blast
  also have "\<dots> \<longleftrightarrow> q \<noteq> [] \<and> S @ q \<in> fst ` set fs"
    unfolding below_strict by (metis append_eq_conv_conj)
  also have "\<dots> \<longleftrightarrow> q \<noteq> [] \<and> at fs (S @ q) \<noteq> None"
    using map_of_eq_None_iff [of fs "S @ q"] by (simp add: at_def del: not_None_eq)
  finally show ?thesis .
qed

text \<open>
  C21. What \<^verbatim>\<open>tarDir\<close> writes, \<^verbatim>\<open>untarDir\<close> reads back into an empty directory on a
  host where nothing fails: below the directory the same directories and files with the same contents, and
  everything else as it was. No name in the tree begins with two dots.
\<close>

theorem untar_tar:
  assumes "tarDir os src S = Inr es" and "wf_fs src"
    and "\<And>q. q \<noteq> [] \<Longrightarrow> at src (S @ q) \<noteq> None \<Longrightarrow> no_dots q"
    and "at_dir dir R fs" and "\<And>q. strict_prefix R q \<Longrightarrow> at fs q = None" and "faultless os2"
  shows "\<exists>fs'. untarDir os2 dir False es fs = (fs', Inr ()) \<and>
    (\<forall>q. at fs' q = (if strict_prefix R q then map_option plain_copy (at src (S @ drop (length R) q)) else at fs q))"
proof -
  let ?qs = "sort_key (join_on CHR ''/'') (below src S)"
  have t: "tar_all os src S (map (join_on CHR ''/'') ?qs) = Inr es"
    using assms(1) by (auto simp: tarDir_def tar_names_def sort_map split: if_splits)
  have names: "\<forall>q \<in> set ?qs. no_dots q \<and> list_all plain q"
  proof
    fix q assume "q \<in> set ?qs"
    then have q: "q \<noteq> []" "at src (S @ q) \<noteq> None" by (simp_all add: below_set)
    with assms(2) have "list_all plain (S @ q)" unfolding wf_fs_def by blast
    with assms(3) [OF q] show "no_dots q \<and> list_all plain q" by simp
  qed
  have start: "copying src S R fs" using assms(5) by (simp add: copying_def strict_prefix_def)
  from tar_all_copies [OF t assms(2) names assms(4) start assms(6)] obtain fs' where
    u: "untarDir os2 dir False es fs = (fs', Inr ())" "inside R fs fs'" "copying src S R fs'"
      "\<forall>q \<in> set ?qs. at fs' (R @ q) \<noteq> None" by blast
  have "at fs' q = (if strict_prefix R q then map_option plain_copy (at src (S @ drop (length R) q)) else at fs q)" for q
  proof (cases "strict_prefix R q")
    case True
    then obtain p where p: "q = R @ p" "p \<noteq> []" by (auto simp: below_strict)
    from u(4) p(2) have "at src (S @ p) \<noteq> None \<longrightarrow> at fs' (R @ p) \<noteq> None" by (simp add: below_set)
    moreover have "at fs' (R @ p) = None \<or> at fs' (R @ p) = map_option plain_copy (at src (S @ p))"
      using u(3) p(2) by (simp add: copying_def)
    ultimately have "at fs' (R @ p) = map_option plain_copy (at src (S @ p))" by (cases "at src (S @ p)") auto
    with True p(1) show ?thesis by simp
  next
    case False
    moreover have "apart R fs fs'" using u(2) by (simp only: inside_def)
    ultimately have "at fs' q = at fs q" unfolding apart_def by blast
    with False show ?thesis by simp
  qed
  with u(1) show ?thesis by blast
qed

end
