(* ===== verification/BundleSample.thy ===== *)
theory BundleSample
  imports BundleSpec TarRoundTrip PullSample
begin

text \<open>Archives and a bundle on which the statements about loading apply.\<close>

section \<open>An archive\<close>

definition temp_os :: os where
  "temp_os = calm_os\<lparr>suffixes := [''1'']\<rparr>"

definition archived :: fs where
  "archived = [([''s''], Folder), ([''s'', ''b''], Folder), ([''s'', ''b'', ''f''], Regular True ''x''), ([''s'', ''a''], Regular False ''y'')]"

definition archive :: "tar_entry list" where
  "archive = [file_entry ''a'' ''y'', dir_entry ''b'', file_entry ''b/f'' ''x'']"

definition emptied :: fs where
  "emptied = [([''d''], Folder)]"

lemma archived_tar: "tarDir calm_os archived [''s''] = Inr archive"
  by code_simp

lemma archived_at: "at archived p = (if p = [] \<or> p = [''s''] \<or> p = [''s'', ''b''] then Some Folder
   else if p = [''s'', ''b'', ''f''] then Some (Regular True ''x'') else if p = [''s'', ''a''] then Some (Regular False ''y'') else None)"
  by (auto simp: archived_def at_def)

lemma emptied_at: "at emptied p = (if p = [] \<or> p = [''d''] then Some Folder else None)"
  by (auto simp: emptied_def at_def)

lemma emptied_dir: "at_dir ''/d'' [''d''] emptied"
proof -
  have p: "parts ''/d'' = [''d'']" "rooted_parts ''/d'' = [''d'']" by (simp_all add: parts_def rooted_parts_def)
  have "directory emptied [] = Inr []" by (simp add: directory_def)
  then show ?thesis by (auto simp: at_dir_def boxed_def p IsAbs_def wf_fs_def emptied_at plain_def)
qed

lemma untar_tar_witness:
  "\<exists>fs'. untarDir calm_os ''/d'' False archive emptied = (fs', Inr ()) \<and> at fs' [''d'', ''b'', ''f''] = Some (Regular False ''x'')"
proof -
  have wf: "wf_fs archived" by (auto simp: wf_fs_def archived_at plain_def)
  have n: "no_dots q" if "q \<noteq> []" "at archived ([''s''] @ q) \<noteq> None" for q
    using that by (auto simp: no_dots_def archived_at split: if_splits)
  have e: "at emptied q = None" if "strict_prefix [''d''] q" for q
    using that by (auto simp: emptied_at strict_prefix_def)
  have "faultless calm_os" by (simp add: faultless_def calm_os_def)
  from untar_tar [OF archived_tar wf n emptied_dir e this] obtain fs' where
    "untarDir calm_os ''/d'' False archive emptied = (fs', Inr ())" and
    "\<forall>q. at fs' q = (if strict_prefix [''d''] q then map_option plain_copy (at archived ([''s''] @ drop 1 q)) else at emptied q)"
    by auto
  then show ?thesis by (auto simp: archived_at plain_copy_def)
qed

section \<open>A bundle with one signed model\<close>

definition bundle_target :: target where
  "bundle_target = sample_store\<lparr>t_Resolve := (\<lambda>name. if name = ''r.x/a:t'' then Inr model_node else t_Resolve sample_store name)\<rparr>"

definition sample_opener :: opener where
  "sample_opener dir g = (g, Inr \<lparr>ly_store = \<lparr>st_target = (\<lambda>_. bundle_target), st_has = (\<lambda>_ _. Inl ()), st_push = (\<lambda>g _ _. (Inr (), g)),
     st_copy = (\<lambda>_ _ _ g. (Inl NotFoundErr, g)), st_ingest = (\<lambda>_. None)\<rparr>, ly_tags = (\<lambda>_. Inr [''r.x/a:t''])\<rparr>)"

lemma sample_opener_inside: "keeps_inside sample_opener"
  by (auto simp: keeps_inside_def sample_opener_def at_dir_def boxed_def inside_refl)

lemma sample_temp: "temp_base temp_os ''/''"
  by (simp add: temp_base_def temp_os_def IsAbs_def parts_def rooted_parts_def plain_def)

definition hostile :: "tar_entry list" where
  "hostile = [file_entry ''a'' ''y'', dir_entry ''b'', file_entry ''../../etc/x'' ''y'']"

lemma Load_leaves_no_trace_witness:
  "\<exists>fs' (r :: unit transport_error + string list) (s' :: shelf).
     Load temp_os ''/'' sample_opener None sample_shelf False hostile emptied (Map.empty, []) = (fs', r, s') \<and> (\<forall>q. at fs' q = at emptied q)"
proof -
  obtain fs' and r :: "unit transport_error + string list" and s' where
    l: "Load temp_os ''/'' sample_opener None sample_shelf False hostile emptied (Map.empty, []) = (fs', r, s')"
    by (cases "Load temp_os ''/'' sample_opener None sample_shelf False hostile emptied (Map.empty, []) :: fs \<times> (unit transport_error + string list) \<times> shelf") blast
  have wf: "wf_fs emptied" using emptied_dir by (simp add: at_dir_def boxed_def)
  have "\<forall>p g. \<not> fault temp_os CRemove p g" by (simp add: temp_os_def calm_os_def)
  with Load_leaves_no_trace [OF l wf sample_temp sample_opener_inside] have "\<forall>q. at fs' q = at emptied q" by blast
  with l show ?thesis by blast
qed

lemma bundle_signed: "verifyDigest sample_host sample_config [] (layoutSource (ref_text sample_host) bundle_target sample_ref model_node ''bundle'') sample_ref
    = Inr sample_verdict"
proof -
  let ?s = "layoutSource (ref_text sample_host) bundle_target sample_ref model_node ''bundle''"
  have "good_manifest sample_store ''r/a'' (Digest model_node) sample_key sig_node"
    using sample_signed sample_resolves(2)
    by (simp add: key_signed_def candidates_def sample_source_def layoutSource_def)
  moreover have "t_Fetch bundle_target = t_Fetch sample_store" by (simp add: bundle_target_def)
  ultimately have "good_manifest bundle_target ''r/a'' (Digest model_node) sample_key sig_node"
    by (simp add: good_manifest_def good_layer_def)
  moreover have "t_Resolve bundle_target (vs_sigRef ?s) = Inr sig_node"
    using sample_resolves(2) [of "Digest model_node"] by (simp add: layoutSource_def bundle_target_def) (simp add: sample_host_def sample_ref_def SigRef_def)
  ultimately have "key_signed ?s ''r/a'' sample_key"
    by (simp add: key_signed_def candidates_def) (simp add: layoutSource_def)
  then have "Verify_sig (vs_target ?s) (vs_sigRef ?s) ''r/a'' (vs_subject ?s) sample_key = Inr ()"
    by (simp add: Verify_sig_key_signed)
  then show ?thesis by (simp add: verifyDigest_def sample_signers sample_repo sample_verdict_def)
qed

lemma bundle_accepted: "bundleVerifier sample_host sample_config [] bundle_target [''r.x/a:t''] = Inr ()"
proof -
  have t: "\<not> travels ''r.x/a:t''" by code_simp
  have p: "Parse (parse_ref sample_host) ''r.x/a:t'' [] = Inr sample_ref"
  proof -
    have "hasRegistryHost ''r.x/a:t''" by code_simp
    then show ?thesis by (simp add: Parse_def sample_host_def sample_ref_def)
  qed
  have r: "t_Resolve bundle_target ''r.x/a:t'' = Inr model_node" by (simp add: bundle_target_def)
  have b: "BundleReferrers bundle_target model_node = Inr []"
    by (simp add: BundleReferrers_def bundle_target_def sample_store_def)
  show ?thesis using t by (simp add: bundleVerifier_def p r b bundle_signed check_name_def travels_def)
qed



end
