(* ===== verification/Safetensors.thy ===== *)
theory Safetensors
  imports Json Codec Rehash "HOL-Library.Char_ord" "HOL-Library.List_Lexorder"
begin

text \<open>
  \<^verbatim>\<open>internal/safetensors\<close>: the header of a shard, the index over shards, and what is read of a
  published configuration. Files are given as their bytes. Where a Go map is ranged over, the order here
  is that of the text.
\<close>

section \<open>The header of a shard\<close>

definition maxHeaderLen :: nat where
  "maxHeaderLen = 64 * 2 ^ 20"

record tensor =
  DType :: string
  Shape :: "int list"
  DataOffsets :: "int \<times> int"

record header =
  Tensors :: "(string \<times> tensor) list"
  Meta :: "(string \<times> string) list"

datatype st_error =
    ShortLength | ImplausibleLength nat | ShortHeader nat | HeaderSyntax | MetadataSyntax | TensorSyntax string | NoTensors
  | FileErr string | ConfigSyntax | IndexSyntax | NoShards | TotalSize

text \<open>The members of an object as a map keeps them: of a key given twice, the last.\<close>

fun last_members :: "(string \<times> json) list \<Rightarrow> (string \<times> json) list" where
  "last_members [] = []"
| "last_members ((k, v) # ms) = (if k \<in> fst ` set ms then last_members ms else (k, v) # last_members ms)"

definition no_object :: "json \<Rightarrow> bool" where
  "no_object j \<longleftrightarrow> (case j of JNull \<Rightarrow> False | JObj _ \<Rightarrow> False | _ \<Rightarrow> True)"

definition decode_int :: "json \<Rightarrow> int option" where
  "decode_int j = (case j of JNull \<Rightarrow> Some 0 | JNum s \<Rightarrow> int64_of s | _ \<Rightarrow> None)"

text \<open>An array of two: what is missing stays zero, what is too much is passed over.\<close>

definition decode_two :: "json \<Rightarrow> (int \<times> int) option" where
  "decode_two j =
     (case j of
        JArr js \<Rightarrow>
          (case decode_all decode_int (take 2 js) of
             None \<Rightarrow> None
           | Some [] \<Rightarrow> Some (0, 0) | Some [a] \<Rightarrow> Some (a, 0) | Some (a # b # _) \<Rightarrow> Some (a, b))
      | _ \<Rightarrow> None)"

definition decode_tensor :: "json \<Rightarrow> tensor option" where
  "decode_tensor j =
     (case j of
        JNull \<Rightarrow> Some \<lparr>DType = [], Shape = [], DataOffsets = (0, 0)\<rparr>
      | JObj ms \<Rightarrow>
          (case (str_field ''dtype'' ms, list_field decode_int ''shape'' ms, sub_field decode_two ''data_offsets'' ms) of
             (Some d, Some sh, Some offs) \<Rightarrow>
               Some \<lparr>DType = d, Shape = sh, DataOffsets = (case offs of None \<Rightarrow> (0, 0) | Some p \<Rightarrow> p)\<rparr>
           | _ \<Rightarrow> None)
      | _ \<Rightarrow> None)"

fun read_tensors :: "(string \<times> json) list \<Rightarrow> header \<Rightarrow> st_error + header" where
  "read_tensors [] h = Inr h"
| "read_tensors ((name, j) # ms) h =
     (if name = ''__metadata__'' then
        (case (case j of JNull \<Rightarrow> Some [] | JObj kvs \<Rightarrow> decode_pairs decode_str kvs | _ \<Rightarrow> None) of
           None \<Rightarrow> Inl MetadataSyntax
         | Some m \<Rightarrow> read_tensors ms (h\<lparr>Meta := rev m\<rparr>))
      else case decode_tensor j of
        None \<Rightarrow> Inl (TensorSyntax name)
      | Some t \<Rightarrow> read_tensors ms (h\<lparr>Tensors := Tensors h @ [(name, t)]\<rparr>))"

definition parse_header :: "string \<Rightarrow> st_error + header" where
  "parse_header text =
     (case (case parse_json text of Some (JObj ms) \<Rightarrow> Some ms | Some JNull \<Rightarrow> Some [] | _ \<Rightarrow> None) of
        None \<Rightarrow> Inl HeaderSyntax
      | Some ms \<Rightarrow>
          bind_res (read_tensors (last_members ms) \<lparr>Tensors = [], Meta = []\<rparr>) (\<lambda>h.
            if Tensors h = [] then Inl NoTensors else Inr h))"

definition ReadHeader :: "string \<Rightarrow> st_error + header" where
  "ReadHeader bs =
     (if length bs < 8 then Inl ShortLength
      else let n = le_nat (take 8 bs) in
        if n = 0 \<or> n > maxHeaderLen then Inl (ImplausibleLength n)
        else if length (drop 8 bs) < n then Inl (ShortHeader n)
        else parse_header (take n (drop 8 bs)))"

text \<open>Counts are of \<^verbatim>\<open>int64\<close>, products and sums taken in the order of the code.\<close>

definition elements_of :: "tensor \<Rightarrow> int" where
  "elements_of t = fold (\<lambda>d n. int64 (n * d)) (Shape t) 1"

definition ParamCount :: "header \<Rightarrow> int" where
  "ParamCount h = fold (\<lambda>(_, t) total. int64 (total + elements_of t)) (Tensors h) 0"

definition qualifies :: "string list \<Rightarrow> string \<Rightarrow> bool" where
  "qualifies among d \<longleftrightarrow> among = [] \<or> d \<in> set among"

definition by_type :: "string list \<Rightarrow> header \<Rightarrow> string \<Rightarrow> int" where
  "by_type among h d =
     fold (\<lambda>(_, t) total. if DType t = d \<and> qualifies among d then int64 (total + elements_of t) else total) (Tensors h) 0"

definition dtypes_of :: "string list \<Rightarrow> header \<Rightarrow> string list" where
  "dtypes_of among h = sort (remdups (filter (qualifies among) (map (\<lambda>(_, t). DType t) (Tensors h))))"

definition DominantDType :: "string list \<Rightarrow> header \<Rightarrow> string" where
  "DominantDType among h =
     fst (fold (\<lambda>k (best, bestN). if by_type among h k > bestN then (k, by_type among h k) else (best, bestN))
            (dtypes_of among h) ([], -1))"

definition dtypeNames :: "(string \<times> string) list" where
  "dtypeNames =
     [(''BOOL'', ''bool''), (''U8'', ''uint8''), (''I8'', ''int8''), (''I16'', ''int16''), (''U16'', ''uint16''),
      (''F16'', ''float16''), (''BF16'', ''bfloat16''), (''I32'', ''int32''), (''U32'', ''uint32''),
      (''F32'', ''float32''), (''F64'', ''float64''), (''I64'', ''int64''), (''U64'', ''uint64''),
      (''F8_E4M3'', ''float8_e4m3''), (''F8_E5M2'', ''float8_e5m2''), (''C64'', ''complex64'')]"

definition DTypeName :: "string \<Rightarrow> string" where
  "DTypeName d = (case map_of dtypeNames d of Some n \<Rightarrow> n | None \<Rightarrow> d)"

section \<open>Whole numbers\<close>

definition maxNumberText :: nat where
  "maxNumberText = 64"

text \<open>
  A decimal text as a sign, a whole number and a power of ten, as \<^verbatim>\<open>big.Rat\<close> reads it: an
  exponent has to fit in 64 bits, and the power of ten of anything but zero within a million.
\<close>

definition decimal_of :: "string \<Rightarrow> (bool \<times> nat \<times> int) option" where
  "decimal_of s =
     (let neg = prefix ''-'' s; u = (if neg then tl s else s); (i, r) = digits u;
          (f, r2) = (if prefix ''.'' r then digits (tl r) else ([], r));
          e = (if r2 = [] then Some 0 else int64_of (if prefix ''+'' (tl r2) then tl (tl r2) else tl r2)) in
      case e of
        None \<Rightarrow> None
      | Some x \<Rightarrow>
          (let m = nat_of_digits 0 (i @ f); p = x - int (length f) in
           if m \<noteq> 0 \<and> \<bar>p\<bar> > 1000000 then None else Some (neg, m, if m = 0 then 0 else p)))"

definition wholeNumber :: "json \<Rightarrow> nat option" where
  "wholeNumber j =
     (case j of
        JNum s \<Rightarrow>
          (if length s > maxNumberText then None
           else case decimal_of s of
             None \<Rightarrow> None
           | Some (neg, m, p) \<Rightarrow>
               if p < 0 \<and> \<not> 10 ^ nat (- p) dvd m then None
               else let n = (if p < 0 then m div 10 ^ nat (- p) else m * 10 ^ nat p) in
                 if neg \<and> n \<noteq> 0 then None else Some n)
      | _ \<Rightarrow> None)"

section \<open>A published configuration\<close>

record st_config =
  ModelType :: string
  Architectures :: "string list"
  MaxPositionEmbeddings :: nat
  TorchDType :: string
  QuantMethod :: string

definition named :: "string \<Rightarrow> (string \<times> json) list \<Rightarrow> json list" where
  "named name ms = map snd (filter (\<lambda>(k, _). to_lower k = to_lower name) ms)"

text \<open>A string taken where there is one, null as empty, and any other value passed over.\<close>

definition looseString :: "string \<Rightarrow> (string \<times> json) list \<Rightarrow> string" where
  "looseString name ms =
     fold (\<lambda>j s. case j of JStr t \<Rightarrow> t | JNull \<Rightarrow> [] | _ \<Rightarrow> s) (named name ms) []"

definition looseCount :: "string \<Rightarrow> (string \<times> json) list \<Rightarrow> nat" where
  "looseCount name ms =
     fold (\<lambda>j n. case wholeNumber j of Some v \<Rightarrow> (if v < 2 ^ 64 then v else n) | None \<Rightarrow> n) (named name ms) 0"

definition raw_object :: "string \<Rightarrow> (string \<times> json) list \<Rightarrow> (string \<times> json) list option" where
  "raw_object name ms =
     (case named name ms of [] \<Rightarrow> None | js \<Rightarrow> (case last js of JObj kvs \<Rightarrow> Some kvs | _ \<Rightarrow> None))"

definition IsModelOpt :: "string \<Rightarrow> bool" where
  "IsModelOpt m \<longleftrightarrow> prefix ''modelopt'' (to_lower m)"

definition scheme :: "string \<Rightarrow> string \<Rightarrow> string" where
  "scheme m algo = (if algo \<noteq> [] \<and> (m = [] \<or> IsModelOpt m) then to_lower algo else m)"

text \<open>One level of a configuration: nothing when it is no object.\<close>

definition readLevel :: "json \<Rightarrow> (string \<times> json) list" where
  "readLevel j = (case j of JObj ms \<Rightarrow> ms | _ \<Rightarrow> [])"

definition level_scheme :: "(string \<times> json) list \<Rightarrow> string" where
  "level_scheme l =
     (case raw_object ''quantization_config'' l of
        None \<Rightarrow> []
      | Some q \<Rightarrow>
          (let algo = looseString ''quant_algo'' q;
               inner = (case raw_object ''quantization'' q of None \<Rightarrow> [] | Some i \<Rightarrow> looseString ''quant_algo'' i) in
           scheme (looseString ''quant_method'' q) (if algo = [] then inner else algo)))"

fun nested :: "json \<Rightarrow> string list \<Rightarrow> json option" where
  "nested j [] = Some j"
| "nested j (key # keys) =
     (case j of
        JObj ms \<Rightarrow> (case map_of (last_members ms) key of None \<Rightarrow> None | Some v \<Rightarrow> nested v keys)
      | _ \<Rightarrow> None)"

definition nestedConfigs :: "string list list" where
  "nestedConfigs = [[''text_config''], [''llm_config''], [''language_config''], [''thinker_config'', ''text_config'']]"

definition take_level :: "(string \<times> json) list \<Rightarrow> st_config \<Rightarrow> st_config" where
  "take_level l c =
     c\<lparr>MaxPositionEmbeddings := (if MaxPositionEmbeddings c = 0 then looseCount ''max_position_embeddings'' l else MaxPositionEmbeddings c),
       TorchDType := (if TorchDType c \<noteq> [] then TorchDType c
         else if looseString ''dtype'' l \<noteq> [] then looseString ''dtype'' l else looseString ''torch_dtype'' l),
       QuantMethod := (if QuantMethod c = [] then level_scheme l else QuantMethod c)\<rparr>"

definition ReadConfig :: "string \<Rightarrow> st_error + st_config" where
  "ReadConfig text =
     (case parse_json text of
        None \<Rightarrow> Inl ConfigSyntax
      | Some j \<Rightarrow>
          (let ms = readLevel j in
           case (if j = JNull then Some [] else case j of JObj kvs \<Rightarrow> Some kvs | _ \<Rightarrow> None) of
             None \<Rightarrow> Inl ConfigSyntax
           | Some kvs \<Rightarrow>
               (case (str_field ''model_type'' kvs, list_field decode_str ''architectures'' kvs) of
                  (Some t, Some a) \<Rightarrow>
                    Inr (fold take_level (ms # map readLevel (List.map_filter (nested j) nestedConfigs))
                      \<lparr>ModelType = t, Architectures = a, MaxPositionEmbeddings = 0, TorchDType = [], QuantMethod = []\<rparr>)
                | _ \<Rightarrow> Inl ConfigSyntax)))"

text \<open>The file a quantizer leaves beside the configuration: nothing where it cannot be read.\<close>

definition ReadQuantAlgo :: "string option \<Rightarrow> string" where
  "ReadQuantAlgo file =
     (case Option.bind file parse_json of
        Some (JObj ms) \<Rightarrow>
          (let inner = concat (map readLevel (named ''quantization'' ms));
               algo = looseString ''quant_algo'' inner in
           if \<exists>j \<in> set (named ''quantization'' ms). no_object j then []
           else to_lower (if algo = [] then looseString ''quant_algo'' ms else algo))
      | _ \<Rightarrow> [])"

section \<open>The index over shards\<close>

record index =
  ix_TotalSize :: int
  WeightMap :: "(string \<times> string) list"

definition byteCount :: "json option \<Rightarrow> int option" where
  "byteCount raw =
     (case raw of
        None \<Rightarrow> Some 0
      | Some JNull \<Rightarrow> Some 0
      | Some j \<Rightarrow> (case wholeNumber j of None \<Rightarrow> None | Some n \<Rightarrow> if n < 2 ^ 63 then Some (int n) else None))"

definition ParseIndex :: "string \<Rightarrow> st_error + index" where
  "ParseIndex text =
     (case (case parse_json text of Some (JObj ms) \<Rightarrow> Some ms | Some JNull \<Rightarrow> Some [] | _ \<Rightarrow> None) of
        None \<Rightarrow> Inl IndexSyntax
      | Some ms \<Rightarrow>
          (case map_field decode_str ''weight_map'' ms of
             None \<Rightarrow> Inl IndexSyntax
           | Some wm \<Rightarrow>
               if \<exists>j \<in> set (named ''metadata'' ms). no_object j then Inl IndexSyntax
               else if wm = [] then Inl NoShards
               else (let sizes = named ''total_size'' (concat (map readLevel (named ''metadata'' ms))) in
                 case byteCount (if sizes = [] then None else Some (last sizes)) of
                   None \<Rightarrow> Inl TotalSize
                 | Some n \<Rightarrow> Inr \<lparr>ix_TotalSize = n, WeightMap = wm\<rparr>)))"

definition ReadIndex :: "string option \<Rightarrow> st_error + index" where
  "ReadIndex file = (case file of None \<Rightarrow> Inl (FileErr ''index'') | Some bs \<Rightarrow> ParseIndex bs)"

text \<open>The shards a map names, each once, in order. A key given twice counts with its last value.\<close>

definition Shards :: "index \<Rightarrow> string list" where
  "Shards ix = sort (remdups (map (\<lambda>k. lookup_str (WeightMap ix) k) (map fst (WeightMap ix))))"

end
