(* ===== verification/ModelMeta.thy ===== *)
theory ModelMeta
  imports Safetensors Gguf Serving
begin

text \<open>
  \<^verbatim>\<open>internal/modelmeta\<close>: the one record both weight formats describe a model by, and the label of
  a parameter count. The label is computed in double arithmetic, which is written out: a double is a
  fraction whose numerator has at most 53 bits.
\<close>

record model_description =
  mi_Architecture :: string
  mi_Name :: string
  mi_SizeLabel :: string
  mi_Precision :: string
  mi_Quantization :: string
  mi_License :: string
  mi_ContextLength :: nat
  mi_Format :: string

definition FormatSafetensors :: string where "FormatSafetensors = ''safetensors''"

definition FromGGUF :: "gguf_info \<Rightarrow> model_description" where
  "FromGGUF g = \<lparr>mi_Architecture = Architecture g, mi_Name = Name g, mi_SizeLabel = SizeLabel g, mi_Precision = [],
     mi_Quantization = Quantization g, mi_License = License g, mi_ContextLength = unat (ContextLength g),
     mi_Format = FormatGGUF\<rparr>"

section \<open>Doubles\<close>

definition round_even :: "nat \<Rightarrow> nat \<Rightarrow> nat" where
  "round_even p q =
     (let d = p div q; r = p mod q in
      if 2 * r < q then d else if q < 2 * r then d + 1 else if even d then d else d + 1)"

definition round_away :: "nat \<Rightarrow> nat \<Rightarrow> nat" where
  "round_away p q = (2 * p + q) div (2 * q)"

fun bit_length :: "nat \<Rightarrow> nat" where
  "bit_length n = (if n = 0 then 0 else Suc (bit_length (n div 2)))"

text \<open>A fraction rounded at the power of two \<open>e\<close>, and the double nearest to it.\<close>

definition at_power :: "int \<Rightarrow> nat \<Rightarrow> nat \<Rightarrow> nat" where
  "at_power e p q = (if e < 0 then round_even (p * 2 ^ nat (- e)) q else round_even p (q * 2 ^ nat e))"

definition nearest_double :: "nat \<Rightarrow> nat \<Rightarrow> nat \<times> nat" where
  "nearest_double p q =
     (let e = int (bit_length (p div q)) - 53; m = at_power e p q in
      if e < 0 then (m, 2 ^ nat (- e)) else (m * 2 ^ nat e, 1))"

section \<open>The label of a count\<close>

definition magnitudes :: "(string \<times> nat) list" where
  "magnitudes = [(''K'', 10 ^ 3), (''M'', 10 ^ 6), (''B'', 10 ^ 9)]"

fun magnitude_from :: "nat \<Rightarrow> (string \<times> nat) \<Rightarrow> (string \<times> nat) list \<Rightarrow> (string \<times> nat) \<times> (string \<times> nat) list" where
  "magnitude_from f u [] = (u, [])"
| "magnitude_from f u (v # vs) = (if f \<ge> snd v then magnitude_from f v vs else (u, v # vs))"

text \<open>\<^verbatim>\<open>FormatFloat\<close> with one decimal, its trailing zero taken off.\<close>

definition trimZero :: "nat \<times> nat \<Rightarrow> string" where
  "trimZero x =
     (let t = round_even (10 * fst x) (snd x) in
      itoa (int (t div 10)) @ (if t mod 10 = 0 then [] else CHR ''.'' # itoa (int (t mod 10))))"

definition FormatParamSize :: "int \<Rightarrow> string" where
  "FormatParamSize n =
     (if n \<le> 0 then []
      else if n < 1000 then itoa n
      else let d = nearest_double (nat n) 1; f = fst d div snd d;
               (u, above) = magnitude_from f (hd magnitudes) (tl magnitudes);
               x = nearest_double f (snd u);
               y = nearest_double (10 * fst x) (snd x);
               v = (if above \<noteq> [] \<and> round_away (fst y) (snd y) \<ge> 10000 then hd above else u) in
        trimZero (nearest_double f (snd v)) @ fst v)"

section \<open>From a published configuration\<close>

definition packedDTypes :: "string list" where
  "packedDTypes = [''U8'', ''I16'', ''U16'', ''I32'', ''U32'', ''I64'', ''U64'']"

definition quantizedDTypes :: "string list" where
  "quantizedDTypes = [''I8'', ''F8_E4M3'', ''F8_E5M2''] @ packedDTypes"

definition FromSafetensors :: "st_config \<Rightarrow> header \<Rightarrow> string \<Rightarrow> model_description" where
  "FromSafetensors c h name =
     \<lparr>mi_Architecture = (if ModelType c = [] \<and> Architectures c \<noteq> [] then hd (Architectures c) else ModelType c),
      mi_Name = name,
      mi_SizeLabel = (if QuantMethod c \<noteq> [] \<and> DominantDType quantizedDTypes h \<in> set packedDTypes then []
        else FormatParamSize (ParamCount h)),
      mi_Precision = (if TorchDType c \<noteq> [] then TorchDType c
        else if QuantMethod c = [] then DTypeName (DominantDType [] h)
        else DTypeName (DominantDType [''BF16'', ''F16'', ''F32''] h)),
      mi_Quantization = QuantMethod c,
      mi_License = [],
      mi_ContextLength = MaxPositionEmbeddings c,
      mi_Format = FormatSafetensors\<rparr>"

end
