(* ===== verification/Packing.thy ===== *)
theory Packing
  imports ModelMeta Tar Transport Materialize "HOL-Library.Product_Lexorder"
begin

text \<open>
  \<^verbatim>\<open>internal/pack\<close>: a model packed from files on disk. The files that make up a model are
  gathered, put in an order, hashed and stored, and a manifest over them is tagged. The configuration
  blob is written by the ModelPack library, whose rendering is a parameter, as is the rendering of an
  archive.
\<close>

section \<open>Files by the names a user gives\<close>

text \<open>The host, its working directory, and whether \<^verbatim>\<open>Getwd\<close> can name it.\<close>

record disk =
  dk_os :: os
  dk_fs :: fs
  dk_cwd :: string
  dk_getwd :: bool

definition os_path :: "disk \<Rightarrow> string \<Rightarrow> name" where
  "os_path D p = (if IsAbs p then parts p else parts (dk_cwd D) @ parts p) @ (if suffix ''/'' p then [''.''] else [])"

definition absPath :: "disk \<Rightarrow> string \<Rightarrow> string" where
  "absPath D p = (if IsAbs p then Clean p else if dk_getwd D then Join [dk_cwd D, p] else p)"

definition Stat :: "disk \<Rightarrow> string \<Rightarrow> errno + inode" where
  "Stat D p =
     (if p = [] then Inl ENOENT
      else if fault (dk_os D) CStat (os_path D p) (dk_fs D) then Inl EIO
      else bind_res (follow max_links (dk_fs D) (os_path D p)) (\<lambda>q. from_option ENOENT (at (dk_fs D) q)))"

text \<open>What a file opened for reading delivers, and whether reading breaks off.\<close>

definition OpenRead :: "disk \<Rightarrow> string \<Rightarrow> errno + string \<times> bool" where
  "OpenRead D p =
     (if p = [] then Inl ENOENT
      else if fault (dk_os D) COpen (os_path D p) (dk_fs D) then Inl EIO
      else bind_res (follow max_links (dk_fs D) (os_path D p)) (\<lambda>q.
        case at (dk_fs D) q of
          None \<Rightarrow> Inl ENOENT
        | Some (Regular _ c) \<Rightarrow> Inr (c, fault (dk_os D) CRead (os_path D p) (dk_fs D))
        | Some _ \<Rightarrow> Inr ([], True)))"

definition ReadFile :: "disk \<Rightarrow> string \<Rightarrow> string option" where
  "ReadFile D p = (case OpenRead D p of Inr (c, False) \<Rightarrow> Some c | _ \<Rightarrow> None)"

definition ReadDir :: "disk \<Rightarrow> string \<Rightarrow> errno + (string \<times> bool) list" where
  "ReadDir D p =
     bind_res (read_dir (dk_os D) (dk_fs D) (os_path D p)) (\<lambda>ns.
     bind_res (directory (dk_fs D) (os_path D p)) (\<lambda>d.
       Inr (map (\<lambda>n. (n, at (dk_fs D) (d @ [n]) = Some Folder)) ns)))"

section \<open>What is packed\<close>

record input =
  in_Path :: string
  in_Name :: string
  in_Kind :: LayerKind
  in_OriginSHA256 :: string
  in_SourceRepo :: string
  in_SourcePath :: string
  in_SourceRevision :: string

definition local_file :: "string \<Rightarrow> input" where
  "local_file p = \<lparr>in_Path = p, in_Name = [], in_Kind = LayerKindUnknown, in_OriginSHA256 = [], in_SourceRepo = [],
     in_SourcePath = [], in_SourceRevision = []\<rparr>"

record pack_options =
  po_SourceURL :: string
  po_License :: string
  po_ServeDefaults :: "serve_defaults option"
  po_OriginSHA256 :: string
  po_Signer :: string

datatype pack_error =
    NoInputs | MixedDir string | ReadDirErr errno | NoShardOfIndex nat string | NoShardIn string | MixedFormats
  | MissingParts string nat string "string list" | ShardElsewhere string | MissingShards "string list" | ShortShards int int
  | IndexErr st_error | NoConfig errno | IndexGone errno | NoWeights | ConfigErr st_error | NoConfigText | HeaderErr st_error
  | NoHeaderText string | GgufErr gguf_error | CannotOpen string errno | ReadErr string | HashErr string | StoreErr string | TagErr string

definition isSafetensors :: "string \<Rightarrow> bool" where
  "isSafetensors p \<longleftrightarrow> suffix ''.safetensors'' (to_lower p)"

definition isGGUF :: "string \<Rightarrow> bool" where
  "isGGUF p \<longleftrightarrow> suffix ''.gguf'' (to_lower p)"

definition hasSafetensors :: "input list \<Rightarrow> bool" where
  "hasSafetensors fs \<longleftrightarrow> (\<exists>f \<in> set fs. isSafetensors (in_Path f))"

definition IndexName :: string where "IndexName = ''model.safetensors.index.json''"
definition ConfigName :: string where "ConfigName = ''config.json''"
definition QuantConfigName :: string where "QuantConfigName = ''hf_quant_config.json''"

definition CompanionNames :: "string list" where
  "CompanionNames =
     [''tokenizer.json'', ''tokenizer_config.json'', ''special_tokens_map.json'', ''generation_config.json'',
      ''tokenizer.model'', ''tiktoken.model'', ''vocab.json'', ''merges.txt'', ''added_tokens.json'',
      ''chat_template.jinja'', ''chat_template.json'', ''preprocessor_config.json'', ''processor_config.json'',
      ''video_preprocessor_config.json'', QuantConfigName]"

definition DocNames :: "string list" where
  "DocNames = [''LICENSE'', ''LICENSE.txt'', ''LICENSE.md'', ''LICENCE'', ''NOTICE'', ''README.md'']"

section \<open>A directory as a model\<close>

definition weightFormatsInDir :: "disk \<Rightarrow> string \<Rightarrow> errno + bool \<times> bool" where
  "weightFormatsInDir D dir =
     bind_res (ReadDir D dir) (\<lambda>es.
       let files = map fst (filter (\<lambda>(_, d). \<not> d) es) in
       Inr (\<exists>n \<in> set files. isGGUF n, \<exists>n \<in> set files. \<not> isGGUF n \<and> isSafetensors n))"

definition shardsInDir :: "disk \<Rightarrow> string \<Rightarrow> pack_error + input list" where
  "shardsInDir D dir =
     (case ReadDir D dir of
        Inl e \<Rightarrow> Inl (ReadDirErr e)
      | Inr es \<Rightarrow>
          (let names = (case ReadIndex (ReadFile D (Join [dir, IndexName])) of Inl _ \<Rightarrow> [] | Inr ix \<Rightarrow> Shards ix);
               out = filter (\<lambda>n. isSafetensors n \<and> (names = [] \<or> n \<in> set names)) (map fst (filter (\<lambda>(_, d). \<not> d) es)) in
           if out = [] then Inl (if names \<noteq> [] then NoShardOfIndex (length names) dir else NoShardIn dir)
           else Inr (map (\<lambda>n. local_file (Join [dir, n])) out)))"

fun expandDirs :: "disk \<Rightarrow> input list \<Rightarrow> pack_error + input list" where
  "expandDirs D [] = Inr []"
| "expandDirs D (f # fs) =
     (if Stat D (in_Path f) \<noteq> Inr Folder then bind_res (expandDirs D fs) (\<lambda>out. Inr (f # out))
      else case weightFormatsInDir D (in_Path f) of
        Inl e \<Rightarrow> Inl (ReadDirErr e)
      | Inr (gg, safe) \<Rightarrow>
          if gg \<and> safe then Inl (MixedDir (in_Path f))
          else bind_res (shardsInDir D (in_Path f)) (\<lambda>shards.
            bind_res (expandDirs D fs) (\<lambda>out. Inr (shards @ out))))"

section \<open>The parts of a split model\<close>

text \<open>\<^verbatim>\<open>^(.*)-(\d{5})-of-(\d{5})(\.gguf)$\<close>: what stands before the part, and the count.\<close>

definition five_digits :: "string \<Rightarrow> bool" where
  "five_digits s \<longleftrightarrow> length s = 5 \<and> list_all is_digit s"

definition splitPart :: "string \<Rightarrow> (string \<times> string) option" where
  "splitPart b =
     (let k = length b - 20; stem = take k b; r = drop k b in
      if length b \<ge> 20 \<and> CHR 0x0A \<notin> set stem \<and> take 1 r = ''-'' \<and> five_digits (take 5 (drop 1 r)) \<and>
         take 4 (drop 6 r) = ''-of-'' \<and> five_digits (take 5 (drop 10 r)) \<and> drop 15 r = ''.gguf''
      then Some (stem, take 5 (drop 10 r)) else None)"

definition pad5 :: "nat \<Rightarrow> string" where
  "pad5 i = (let s = itoa (int i) in replicate (5 - length s) CHR ''0'' @ s)"

definition part_name :: "string \<Rightarrow> string \<Rightarrow> nat \<Rightarrow> string" where
  "part_name stem tot i = stem @ ''-'' @ pad5 i @ ''-of-'' @ tot @ ''.gguf''"

record gathering =
  ga_have :: "string list"
  ga_out :: "input list"
  ga_missing :: "string list"

definition add_part :: "disk \<Rightarrow> string \<Rightarrow> string \<Rightarrow> gathering \<Rightarrow> gathering" where
  "add_part D dir n g =
     (let p = Join [dir, n] in
      if absPath D p \<in> set (ga_have g) then g
      else case Stat D p of
        Inl _ \<Rightarrow> g\<lparr>ga_missing := ga_missing g @ [n]\<rparr>
      | Inr _ \<Rightarrow> g\<lparr>ga_have := absPath D p # ga_have g, ga_out := ga_out g @ [local_file p]\<rparr>)"

fun gather_parts :: "disk \<Rightarrow> input list \<Rightarrow> gathering \<Rightarrow> pack_error + input list" where
  "gather_parts D [] g = Inr (ga_out g)"
| "gather_parts D (f # fs) g =
     (case splitPart (Base (in_Path f)) of
        None \<Rightarrow> gather_parts D fs g
      | Some (stem, tot) \<Rightarrow>
          (let n = nat_of_digits 0 tot; dir = Dir (in_Path f) in
           if n = 0 then gather_parts D fs g
           else let g1 = fold (\<lambda>i. add_part D dir (part_name stem tot i)) [1..<Suc n] (g\<lparr>ga_missing := []\<rparr>) in
             if ga_missing g1 \<noteq> [] then Inl (MissingParts (Base (in_Path f)) n dir (ga_missing g1))
             else gather_parts D fs g1))"

definition gatherSplitParts :: "disk \<Rightarrow> input list \<Rightarrow> pack_error + input list" where
  "gatherSplitParts D fs =
     gather_parts D fs \<lparr>ga_have = map (\<lambda>f. absPath D (in_Path f)) fs, ga_out = fs, ga_missing = []\<rparr>"

section \<open>The shards of a safetensors model\<close>

definition take_file :: "disk \<Rightarrow> string \<Rightarrow> gathering \<Rightarrow> gathering" where
  "take_file D p g =
     (if absPath D p \<in> set (ga_have g) then g
      else g\<lparr>ga_have := absPath D p # ga_have g, ga_out := ga_out g @ [local_file p]\<rparr>)"

definition addNamed :: "disk \<Rightarrow> string \<Rightarrow> string \<Rightarrow> gathering \<Rightarrow> gathering \<times> (errno + unit)" where
  "addNamed D dir n g =
     (let p = Join [dir, n] in
      if absPath D p \<in> set (ga_have g) then (g, Inr ())
      else case Stat D p of Inl e \<Rightarrow> (g, Inl e) | Inr _ \<Rightarrow> (take_file D p g, Inr ()))"

definition stat_size :: "inode \<Rightarrow> int" where
  "stat_size f = (case f of Regular _ c \<Rightarrow> int (length c) | _ \<Rightarrow> 0)"

text \<open>The shards an index names, the bytes they hold together so far.\<close>

fun gather_shards :: "disk \<Rightarrow> string \<Rightarrow> string list \<Rightarrow> int \<Rightarrow> gathering \<Rightarrow> pack_error + gathering \<times> int" where
  "gather_shards D dir [] onDisk g = Inr (g, onDisk)"
| "gather_shards D dir (s # ss) onDisk g =
     (if s \<noteq> Base s \<or> s = ''.'' \<or> s = ''..'' then Inl (ShardElsewhere s)
      else case Stat D (Join [dir, s]) of
        Inl _ \<Rightarrow> gather_shards D dir ss onDisk (g\<lparr>ga_missing := ga_missing g @ [s]\<rparr>)
      | Inr f \<Rightarrow> gather_shards D dir ss (int64 (onDisk + stat_size f)) (take_file D (Join [dir, s]) g))"

definition with_index :: "disk \<Rightarrow> string \<Rightarrow> gathering \<Rightarrow> pack_error + gathering" where
  "with_index D dir g =
     (case Stat D (Join [dir, IndexName]) of
        Inl _ \<Rightarrow> Inr g
      | Inr _ \<Rightarrow>
          bind_res (map_error IndexErr (ReadIndex (ReadFile D (Join [dir, IndexName])))) (\<lambda>ix.
          bind_res (gather_shards D dir (Shards ix) 0 g) (\<lambda>(g1, onDisk).
            if ga_missing g1 \<noteq> [] then Inl (MissingShards (sort (ga_missing g1)))
            else if ix_TotalSize ix > 0 \<and> onDisk < ix_TotalSize ix then Inl (ShortShards (ix_TotalSize ix) onDisk)
            else case addNamed D dir IndexName g1 of
              (_, Inl e) \<Rightarrow> Inl (IndexGone e) | (g2, Inr _) \<Rightarrow> Inr g2)))"

definition gatherSafetensorsShards :: "disk \<Rightarrow> input list \<Rightarrow> pack_error + input list" where
  "gatherSafetensorsShards D fs =
     (case find (\<lambda>f. isSafetensors (in_Path f)) fs of
        None \<Rightarrow> Inr fs
      | Some f \<Rightarrow>
          (let dir = Dir (in_Path f) in
           bind_res (with_index D dir \<lparr>ga_have = map (\<lambda>f. absPath D (in_Path f)) fs, ga_out = fs, ga_missing = []\<rparr>) (\<lambda>g.
             case addNamed D dir ConfigName g of
               (_, Inl e) \<Rightarrow> Inl (NoConfig e)
             | (g1, Inr _) \<Rightarrow> Inr (ga_out (fold (\<lambda>n g. fst (addNamed D dir n g)) (CompanionNames @ DocNames) g1)))))"

section \<open>Order and description\<close>

text \<open>\<^verbatim>\<open>filepath.Ext\<close>: from the last dot of the last element.\<close>

definition Ext :: "string \<Rightarrow> string" where
  "Ext s = (let b = last (split_on CHR ''/'' s) in case last_index b CHR ''.'' of None \<Rightarrow> [] | Some i \<Rightarrow> drop i b)"

definition detectKind :: "string \<Rightarrow> LayerKind" where
  "detectKind n =
     (let lower = to_lower n; base = take (length lower - length (Ext lower)) lower in
      if suffix ''.gguf'' lower \<or> suffix ''.safetensors'' lower then LayerKindWeight
      else if base = ''license'' \<or> base = ''notice'' \<or> base = ''readme'' \<or> suffix ''.md'' lower then LayerKindDoc
      else LayerKindWeightConfig)"

definition kindRank :: "LayerKind \<Rightarrow> nat" where
  "kindRank k = (case k of LayerKindWeight \<Rightarrow> 0 | LayerKindWeightConfig \<Rightarrow> 1 | LayerKindDoc \<Rightarrow> 2 | _ \<Rightarrow> 3)"

definition rawMediaType :: "model_spec \<Rightarrow> LayerKind \<Rightarrow> string" where
  "rawMediaType S k =
     (case k of
        LayerKindWeight \<Rightarrow> layer_type S Weight Raw | LayerKindWeightConfig \<Rightarrow> layer_type S WeightConfig Raw
      | _ \<Rightarrow> layer_type S Doc Raw)"

definition settle :: "input \<Rightarrow> input" where
  "settle f =
     (let n = (if in_Name f = [] then Base (in_Path f) else in_Name f) in
      f\<lparr>in_Name := n, in_Kind := (if in_Kind f = LayerKindUnknown then detectKind n else in_Kind f)\<rparr>)"

text \<open>Kinds of one rank are told apart by nothing, so the order is that of rank and name.\<close>

definition canonical :: "input list \<Rightarrow> input list" where
  "canonical fs = sort_key (\<lambda>f. (kindRank (in_Kind f), in_Name f)) (map settle fs)"

fun merge_headers :: "disk \<Rightarrow> string list \<Rightarrow> header \<Rightarrow> pack_error + header" where
  "merge_headers D [] h = Inr h"
| "merge_headers D (p # ps) h =
     (case ReadFile D p of
        None \<Rightarrow> Inl (NoHeaderText p)
      | Some bs \<Rightarrow>
          bind_res (map_error HeaderErr (ReadHeader bs)) (\<lambda>g.
            merge_headers D ps (h\<lparr>Tensors := filter (\<lambda>(k, _). k \<notin> fst ` set (Tensors g)) (Tensors h) @ Tensors g\<rparr>)))"

definition safetensorsMeta :: "disk \<Rightarrow> string \<Rightarrow> string list \<Rightarrow> pack_error + st_config \<times> header" where
  "safetensorsMeta D dir shards =
     (case ReadFile D (Join [dir, ConfigName]) of
        None \<Rightarrow> Inl NoConfigText
      | Some text \<Rightarrow>
          bind_res (map_error ConfigErr (ReadConfig text)) (\<lambda>cfg.
            let algo = ReadQuantAlgo (ReadFile D (Join [dir, QuantConfigName]));
                cfg1 = (if (QuantMethod cfg = [] \<or> IsModelOpt (QuantMethod cfg)) \<and> algo \<noteq> [] then cfg\<lparr>QuantMethod := algo\<rparr> else cfg) in
            if shards = [] then Inl (NoShardIn dir)
            else bind_res (merge_headers D shards \<lparr>Tensors = [], Meta = []\<rparr>) (\<lambda>h. Inr (cfg1, h))))"

definition describe :: "disk \<Rightarrow> bool \<Rightarrow> input list \<Rightarrow> pack_error + model_description" where
  "describe D safe ordered =
     (case find (\<lambda>f. in_Kind f = LayerKindWeight) ordered of
        None \<Rightarrow> Inl NoWeights
      | Some primary \<Rightarrow>
          if safe then
            (let dir = Dir (in_Path primary);
                 shards = map in_Path (filter (\<lambda>f. in_Kind f = LayerKindWeight) ordered) in
             bind_res (safetensorsMeta D dir shards) (\<lambda>(cfg, h). Inr (FromSafetensors cfg h (Base dir))))
          else (case OpenRead D (in_Path primary) of
              Inl e \<Rightarrow> Inl (CannotOpen (in_Path primary) e)
            | Inr (bs, broken) \<Rightarrow>
                if broken then Inl (ReadErr (in_Path primary))
                else bind_res (map_error GgufErr (Read bs)) (\<lambda>g. Inr (FromGGUF g))))"

definition prepare :: "disk \<Rightarrow> input list \<Rightarrow> pack_error + input list \<times> model_description" where
  "prepare D fs =
     (if fs = [] then Inl NoInputs
      else bind_res (expandDirs D fs) (\<lambda>fs1.
        let safe = hasSafetensors fs1; gg = (\<exists>f \<in> set fs1. isGGUF (in_Path f)) in
        if safe \<and> gg then Inl MixedFormats
        else bind_res (if safe then gatherSafetensorsShards D fs1 else gatherSplitParts D fs1) (\<lambda>fs2.
          bind_res (describe D safe (canonical fs2)) (\<lambda>info. Inr (canonical fs2, info)))))"

end
