(* ===== verification/ModelPack.thy ===== *)
theory ModelPack
  imports Packing Remote
begin

text \<open>
  \<^verbatim>\<open>internal/pack\<close>, the two envelopes: \<^verbatim>\<open>Model\<close> stores every file as a layer of its own and
  \<^verbatim>\<open>Car\<close> an image with one archive. The files do not change while they are packed. Storing and
  tagging are the content library's; how the ModelPack library renders a configuration is a parameter.
\<close>

record 's pack_store =
  ps_push :: "'s push"
  ps_tag :: "'s \<Rightarrow> node \<Rightarrow> string \<Rightarrow> bool \<times> 's"

text \<open>What a model configuration says.\<close>

record model_config =
  mc_Family :: string
  mc_Name :: string
  mc_DiffIDs :: "string list"
  mc_Architecture :: string
  mc_Format :: string
  mc_ParamSize :: string
  mc_Precision :: string
  mc_Quantization :: string
  mc_Licenses :: "string list"
  mc_SourceURL :: string

section \<open>Storing\<close>

definition push_content :: "'s pack_store \<Rightarrow> pack_error \<Rightarrow> node \<Rightarrow> string \<Rightarrow> 's \<Rightarrow> (pack_error + unit) \<times> 's" where
  "push_content P e d data s =
     (case ps_push P s d data of (r, s') \<Rightarrow> (if r = Inl PushFailed then Inl e else Inr (), s'))"

definition pushBytes :: "'s pack_store \<Rightarrow> node \<Rightarrow> string \<Rightarrow> 's \<Rightarrow> (pack_error + unit) \<times> 's" where
  "pushBytes P d data s = push_content P (StoreErr (MediaType d)) d data s"

definition pushFile :: "disk \<Rightarrow> 's pack_store \<Rightarrow> node \<Rightarrow> string \<Rightarrow> 's \<Rightarrow> (pack_error + unit) \<times> 's" where
  "pushFile D P d p s =
     (case OpenRead D p of
        Inl e \<Rightarrow> (Inl (CannotOpen p e), s)
      | Inr (c, broken) \<Rightarrow> if broken then (Inl (StoreErr p), s) else push_content P (StoreErr p) d c s)"

text \<open>Annotations in the order they are written in, that of their keys.\<close>

definition in_key_order :: "(string \<times> string) list \<Rightarrow> (string \<times> string) list" where
  "in_key_order an = sort_key fst an"

definition given :: "string \<Rightarrow> string \<Rightarrow> (string \<times> string) list" where
  "given k v = (if v = [] then [] else [(k, v)])"

definition file_annotations :: "input \<Rightarrow> (string \<times> string) list" where
  "file_annotations f = in_key_order
     ((AnnotationFilepath, in_Name f) # given AnnotationOriginSHA256 (in_OriginSHA256 f) @
      given AnnotationSourceRepo (in_SourceRepo f) @ given AnnotationSourcePath (in_SourcePath f) @
      given AnnotationSourceRevision (in_SourceRevision f))"

definition fileDescriptor :: "model_spec \<Rightarrow> digest_lib \<Rightarrow> disk \<Rightarrow> input \<Rightarrow> pack_error + descriptor" where
  "fileDescriptor S L D f =
     (case OpenRead D (in_Path f) of
        Inl e \<Rightarrow> Inl (CannotOpen (in_Path f) e)
      | Inr (c, broken) \<Rightarrow>
          if broken then Inl (HashErr (in_Path f))
          else Inr (annotated (describe_bytes L (rawMediaType S (in_Kind f)) c) (file_annotations f)))"

fun push_layers :: "model_spec \<Rightarrow> digest_lib \<Rightarrow> disk \<Rightarrow> 's pack_store \<Rightarrow> input list \<Rightarrow> 's \<Rightarrow>
    (pack_error + descriptor list) \<times> 's" where
  "push_layers S L D P [] s = (Inr [], s)"
| "push_layers S L D P (f # fs) s =
     (case fileDescriptor S L D f of
        Inl e \<Rightarrow> (Inl e, s)
      | Inr d \<Rightarrow>
          (case pushFile D P (node_of d) (in_Path f) s of
             (Inl e, s1) \<Rightarrow> (Inl e, s1)
           | (Inr _, s1) \<Rightarrow>
               (case push_layers S L D P fs s1 of
                  (Inl e, s2) \<Rightarrow> (Inl e, s2)
                | (Inr ds, s2) \<Rightarrow> (Inr (d # ds), s2))))"

section \<open>The manifest\<close>

definition AnnotationSource :: string where "AnnotationSource = ''org.opencontainers.image.source''"
definition AnnotationLicenses :: string where "AnnotationLicenses = ''org.opencontainers.image.licenses''"
definition AnnotationOriginSigner :: string where "AnnotationOriginSigner = ''io.palan.origin.signer''"
definition AnnotationContextLength :: string where "AnnotationContextLength = ''io.palan.model.context_length''"

definition defaults_json :: "serve_defaults \<Rightarrow> json" where
  "defaults_json d = JObj
     ((if d_Ctx d = 0 then [] else [(''ctx'', JNum (itoa (d_Ctx d)))]) @
      (if d_NGL d = 0 then [] else [(''ngl'', JNum (itoa (d_NGL d)))]) @
      (if d_Flags d = [] then [] else [(''flags'', JArr (map JStr (d_Flags d)))]))"

definition Encode :: "serve_defaults \<Rightarrow> string" where
  "Encode d = show_json (defaults_json d)"

definition origin_of :: "model_spec \<Rightarrow> digest_lib \<Rightarrow> descriptor list \<Rightarrow> pack_options \<Rightarrow> string" where
  "origin_of S L layers opts =
     (if po_OriginSHA256 opts \<noteq> [] then po_OriginSHA256 opts
      else case find (\<lambda>l. KindOf S (MediaType l) = LayerKindWeight) layers of
        None \<Rightarrow> [] | Some l \<Rightarrow> Encoded L (Digest l))"

definition manifestAnnotations :: "model_spec \<Rightarrow> digest_lib \<Rightarrow> model_description \<Rightarrow> descriptor list \<Rightarrow> pack_options \<Rightarrow>
    string \<Rightarrow> (string \<times> string) list" where
  "manifestAnnotations S L info layers opts license = in_key_order
     (given AnnotationSource (po_SourceURL opts) @ given AnnotationLicenses license @
      [(AnnotationOriginSHA256, origin_of S L layers opts)] @ given AnnotationOriginSigner (po_Signer opts) @
      (if mi_ContextLength info > 0 then [(AnnotationContextLength, itoa (int (mi_ContextLength info)))] else []) @
      (case po_ServeDefaults opts of None \<Rightarrow> [] | Some d \<Rightarrow> [(AnnotationServeDefaults, Encode d)]))"

definition manifest_json :: "manifest \<Rightarrow> json" where
  "manifest_json m = JObj
     ([(''schemaVersion'', JNum ''2''), (''mediaType'', JStr MediaTypeImageManifest)] @
      (if m_artifactType m = [] then [] else [(''artifactType'', JStr (m_artifactType m))]) @
      [(''config'', descriptor_json (Config m)), (''layers'', JArr (map descriptor_json (Layers m)))] @
      annotations_json (m_annotations m))"

definition pushManifest :: "digest_lib \<Rightarrow> 's pack_store \<Rightarrow> manifest \<Rightarrow> string \<Rightarrow> 's \<Rightarrow> (pack_error + node) \<times> 's" where
  "pushManifest L P m ref s =
     (let raw = show_json (manifest_json m); d = describe_bytes L MediaTypeImageManifest raw in
      case pushBytes P d raw s of
        (Inl e, s1) \<Rightarrow> (Inl e, s1)
      | (Inr _, s1) \<Rightarrow>
          (case ps_tag P s1 d ref of (tagged, s2) \<Rightarrow> (if tagged then Inr d else Inl (TagErr ref), s2)))"

section \<open>A model\<close>

definition model_license :: "model_description \<Rightarrow> pack_options \<Rightarrow> string" where
  "model_license info opts = (if po_License opts = [] then mi_License info else po_License opts)"

definition config_of :: "model_description \<Rightarrow> descriptor list \<Rightarrow> pack_options \<Rightarrow> model_config" where
  "config_of info layers opts =
     \<lparr>mc_Family = mi_Architecture info, mc_Name = mi_Name info, mc_DiffIDs = map Digest layers,
      mc_Architecture = mi_Architecture info, mc_Format = mi_Format info, mc_ParamSize = mi_SizeLabel info,
      mc_Precision = mi_Precision info, mc_Quantization = mi_Quantization info,
      mc_Licenses = (if model_license info opts = [] then [] else [model_license info opts]),
      mc_SourceURL = po_SourceURL opts\<rparr>"

definition Model :: "model_spec \<Rightarrow> (model_config \<Rightarrow> string) \<Rightarrow> digest_lib \<Rightarrow> disk \<Rightarrow> 's pack_store \<Rightarrow> input list \<Rightarrow>
    string \<Rightarrow> pack_options \<Rightarrow> 's \<Rightarrow> (pack_error + node) \<times> 's" where
  "Model S marshal L D P files ref opts s =
     (case prepare D files of
        Inl e \<Rightarrow> (Inl e, s)
      | Inr (ordered, info) \<Rightarrow>
          (case push_layers S L D P ordered s of
             (Inl e, s1) \<Rightarrow> (Inl e, s1)
           | (Inr layers, s1) \<Rightarrow>
               (let cfg = marshal (config_of info layers opts); c = describe_bytes L (model_config_type S) cfg in
                case pushBytes P c cfg s1 of
                  (Inl e, s2) \<Rightarrow> (Inl e, s2)
                | (Inr _, s2) \<Rightarrow>
                    pushManifest L P
                      \<lparr>m_artifactType = model_manifest_type S, Config = annotated c [], Layers = layers,
                       m_annotations = manifestAnnotations S L info layers opts (model_license info opts)\<rparr> ref s2)))"

section \<open>An image\<close>

text \<open>A header of the archive, as \<^verbatim>\<open>archive/tar\<close> writes the USTAR format: octal fields and a checksum.\<close>

definition NUL :: char where "NUL = CHR 0x00"

fun octal_digits :: "nat \<Rightarrow> nat \<Rightarrow> string" where
  "octal_digits 0 n = []"
| "octal_digits (Suc w) n = octal_digits w (n div 8) @ [char_of (48 + n mod 8)]"

definition octal :: "nat \<Rightarrow> nat \<Rightarrow> string" where
  "octal w n = octal_digits (w - 1) n @ [NUL]"

definition padded :: "nat \<Rightarrow> string \<Rightarrow> string" where
  "padded w s = take w s @ replicate (w - length s) NUL"

definition isASCII :: "string \<Rightarrow> bool" where
  "isASCII s \<longleftrightarrow> list_all (\<lambda>c. byte c < 128 \<and> c \<noteq> NUL) s"

definition splitUSTARPath :: "string \<Rightarrow> (string \<times> string) option" where
  "splitUSTARPath n =
     (if length n \<le> 100 \<or> \<not> isASCII n then None
      else let k = (if length n > 156 then 156 else if suffix ''/'' n then length n - 1 else length n) in
        case last_index (take k n) CHR ''/'' of
          None \<Rightarrow> None
        | Some i \<Rightarrow>
            if i = 0 \<or> length n - i - 1 > 100 \<or> length n - i - 1 = 0 \<or> i > 155 then None
            else Some (take i n, drop (Suc i) n))"

definition checksum :: "string \<Rightarrow> nat" where
  "checksum b = sum_list (map byte b)"

definition ustar_header :: "string \<Rightarrow> nat \<Rightarrow> nat \<Rightarrow> char \<Rightarrow> string option" where
  "ustar_header n mode len flag =
     (if (length n > 100 \<or> \<not> isASCII n) \<and> splitUSTARPath n = None \<or> len \<ge> 8 ^ 11 \<or> (flag = CHR ''0'' \<and> suffix ''/'' n)
      then None
      else let (pre, base) = (case splitUSTARPath n of None \<Rightarrow> ([], n) | Some p \<Rightarrow> p);
               front = padded 100 base @ octal 8 mode @ octal 8 0 @ octal 8 0 @ octal 12 len @ octal 12 0;
               tail_part = flag # replicate 100 NUL @ ''ustar'' @ [NUL] @ ''00'' @ replicate 64 NUL @ octal 8 0 @ octal 8 0 @ padded 155 pre @ replicate 12 NUL in
        Some (front @ octal 7 (checksum (front @ replicate 8 CHR '' '' @ tail_part)) @ [CHR '' ''] @ tail_part))"

definition block_padding :: "nat \<Rightarrow> string" where
  "block_padding n = replicate ((512 - n mod 512) mod 512) NUL"

definition carPrefix :: string where "carPrefix = ''models/''"

datatype car_error = CarFile errno | CarHeader string | CarBody string

definition car_entry :: "disk \<Rightarrow> input \<Rightarrow> car_error + string" where
  "car_entry D f =
     bind_res (map_error CarFile (Stat D (in_Path f))) (\<lambda>node.
     let size = nat (stat_size node) in
     bind_res (from_option (CarHeader (in_Name f)) (ustar_header (carPrefix @ in_Name f) 420 size CHR ''0'')) (\<lambda>h.
     bind_res (map_error CarFile (OpenRead D (in_Path f))) (\<lambda>(c, broken).
       if broken \<or> length c \<noteq> size then Inl (CarBody (in_Path f)) else Inr (h @ c @ block_padding size))))"

fun car_entries :: "disk \<Rightarrow> input list \<Rightarrow> car_error + string" where
  "car_entries D [] = Inr []"
| "car_entries D (f # fs) = bind_res (car_entry D f) (\<lambda>b. bind_res (car_entries D fs) (\<lambda>bs. Inr (b @ bs)))"

definition writeCarTar :: "disk \<Rightarrow> input list \<Rightarrow> car_error + string" where
  "writeCarTar D ordered =
     bind_res (from_option (CarHeader carPrefix) (ustar_header carPrefix 493 0 CHR ''5'')) (\<lambda>h.
     bind_res (car_entries D ordered) (\<lambda>b. Inr (h @ b @ replicate 1024 NUL)))"

definition MediaTypeImageLayer :: string where
  "MediaTypeImageLayer = ''application/vnd.oci.image.layer.v1.tar''"

definition image_json :: "string \<Rightarrow> json" where
  "image_json layer = JObj
     [(''architecture'', JStr ''amd64''), (''os'', JStr ''linux''), (''config'', JObj []),
      (''rootfs'', JObj [(''type'', JStr ''layers''), (''diff_ids'', JArr [JStr layer])])]"

datatype image_error = ImagePack pack_error | ImageTar car_error

definition Car :: "digest_lib \<Rightarrow> disk \<Rightarrow> 's pack_store \<Rightarrow> input list \<Rightarrow> string \<Rightarrow> pack_options \<Rightarrow> 's \<Rightarrow>
    (image_error + node) \<times> 's" where
  "Car L D P files ref opts s =
     (case prepare D files of
        Inl e \<Rightarrow> (Inl (ImagePack e), s)
      | Inr (ordered, _) \<Rightarrow>
          (case writeCarTar D ordered of
             Inl e \<Rightarrow> (Inl (ImageTar e), s)
           | Inr archive \<Rightarrow>
               (let layer = describe_bytes L MediaTypeImageLayer archive;
                    cfg = show_json (image_json (Digest layer)); c = describe_bytes L MediaTypeImageConfig cfg in
                case push_content P (StoreErr (Digest layer)) layer archive s of
                  (Inl e, s1) \<Rightarrow> (Inl (ImagePack e), s1)
                | (Inr _, s1) \<Rightarrow>
                    (case pushBytes P c cfg s1 of
                       (Inl e, s2) \<Rightarrow> (Inl (ImagePack e), s2)
                     | (Inr _, s2) \<Rightarrow>
                         (case pushManifest L P
                             \<lparr>m_artifactType = [], Config = annotated c [], Layers = [annotated layer []],
                              m_annotations = in_key_order (given AnnotationSource (po_SourceURL opts) @
                                given AnnotationLicenses (po_License opts))\<rparr> ref s2 of
                            (res, s3) \<Rightarrow> (map_error ImagePack res, s3))))))"

end
