(* ===== verification/PackSpec.thy ===== *)
theory PackSpec
  imports ModelPack SigningSpec
begin

text \<open>
  What packing stores: a manifest that reads back as written, with one layer for each file in a fixed
  order; that a split or sharded model is packed whole; and that the order of the inputs does not
  matter.
\<close>

section \<open>Manifests read back\<close>

lemma distinct_in_key_order [simp]: "distinct (map fst (in_key_order an)) \<longleftrightarrow> distinct (map fst an)"
  by (simp add: in_key_order_def distinct_map inj_on_def)

lemma set_in_key_order [simp]: "set (in_key_order an) = set an"
  by (simp add: in_key_order_def)

lemma lookup_any_order:
  assumes "distinct (map fst an)" and "set bn = set an" and "distinct (map fst bn)"
  shows "lookup_str bn k = lookup_str an k"
  using map_of_inject_set [OF assms(3,1)] assms(2) by (simp add: lookup_str_def)

lemma lookup_ordered [simp]:
  assumes "distinct (map fst an)"
  shows "lookup_str (in_key_order an) k = lookup_str an k" "lookup_str (rev (in_key_order an)) k = lookup_str an k"
  by (rule lookup_any_order [OF assms]; simp add: assms rev_map [symmetric])+

definition fits :: "descriptor \<Rightarrow> bool" where
  "fits d \<longleftrightarrow> 0 \<le> Size d \<and> Size d < 2 ^ 63"

text \<open>A descriptor as it is read back: the annotations in the reverse order.\<close>

definition read_back :: "descriptor \<Rightarrow> descriptor" where
  "read_back d = d\<lparr>Annotations := rev (Annotations d)\<rparr>"

lemma node_read_back [simp]: "node_of (read_back d) = node_of d"
  by (cases d) (simp add: read_back_def node.defs)

lemma decode_read_back: "fits d \<Longrightarrow> decode_descriptor (descriptor_json d) = Some (read_back d)"
  by (simp add: fits_def read_back_def decode_descriptor_json)

lemma decode_all_read_back: "list_all fits ls \<Longrightarrow> decode_all decode_descriptor (map descriptor_json ls) = Some (map read_back ls)"
  by (induction ls) (auto simp: decode_read_back)

lemma written_descriptors: "list_all fits ls \<Longrightarrow> written_elements (map descriptor_json ls)"
  by (induction ls) (auto simp: fits_def written_descriptor)

lemma unmarshal_manifest_json:
  assumes "fits (Config m)" and "list_all fits (Layers m)"
  shows "unmarshal_manifest (show_json (manifest_json m)) =
    Some (m\<lparr>Config := read_back (Config m), Layers := map read_back (Layers m), m_annotations := rev (m_annotations m)\<rparr>)"
proof -
  have "written (manifest_json m)"
    using assms by (auto simp: manifest_json_def annotations_json_def fits_def written_descriptor written_descriptors
      written_members_strs is_digit_def)
  moreover have "descriptor_json x \<noteq> JNull" for x by (simp add: descriptor_json_def)
  ultimately show ?thesis
    using decode_read_back [OF assms(1)] decode_all_read_back [OF assms(2)]
    by (cases m) (simp add: unmarshal_manifest_def parse_show,
      simp add: decode_manifest_def manifest_json_def annotations_json_def decode_str_pairs decoding)
qed

section \<open>The layer of a file\<close>

definition packed_as :: "model_spec \<Rightarrow> digest_lib \<Rightarrow> disk \<Rightarrow> input \<Rightarrow> descriptor \<Rightarrow> bool" where
  "packed_as S L D f l \<longleftrightarrow>
     file_name l = in_Name f \<and> MediaType l = rawMediaType S (in_Kind f) \<and>
     (\<exists>c. OpenRead D (in_Path f) = Inr (c, False) \<and> Digest l = FromBytes L c \<and> Size l = int (length c)) \<and>
     lookup_str (Annotations l) AnnotationSourceRepo = in_SourceRepo f \<and>
     lookup_str (Annotations l) AnnotationSourcePath = in_SourcePath f \<and>
     lookup_str (Annotations l) AnnotationSourceRevision = in_SourceRevision f \<and>
     lookup_str (Annotations l) AnnotationOriginSHA256 = in_OriginSHA256 f"

lemmas annotation_names = AnnotationFilepath_def AnnotationOriginSHA256_def AnnotationSourceRepo_def
  AnnotationSourcePath_def AnnotationSourceRevision_def

lemma lookup_given:
  "lookup_str (given k v @ r) k' = (if k' = k \<and> v \<noteq> [] then v else lookup_str r k')"
  "lookup_str (given k v) k' = (if k' = k then v else [])"
  by (simp_all add: lookup_str_def given_def)

lemma fst_given: "fst ` set (given k v) = (if v = [] then {} else {k})" "distinct (map fst (given k v))"
  by (simp_all add: given_def)

lemma lookup_Cons: "lookup_str ((k, v) # r) k' = (if k' = k then v else lookup_str r k')"
  by (simp add: lookup_str_def)

lemma file_lookups:
  "lookup_str (rev (file_annotations f)) k =
     (if k = AnnotationFilepath then in_Name f else if k = AnnotationOriginSHA256 then in_OriginSHA256 f
      else if k = AnnotationSourceRepo then in_SourceRepo f else if k = AnnotationSourcePath then in_SourcePath f
      else if k = AnnotationSourceRevision then in_SourceRevision f else [])"
proof -
  have "distinct (map fst ((AnnotationFilepath, in_Name f) # given AnnotationOriginSHA256 (in_OriginSHA256 f) @
      given AnnotationSourceRepo (in_SourceRepo f) @ given AnnotationSourcePath (in_SourcePath f) @
      given AnnotationSourceRevision (in_SourceRevision f)))"
    by (simp add: fst_given annotation_names)
  then show ?thesis
    unfolding file_annotations_def lookup_ordered(2) [OF \<open>distinct _\<close>] lookup_Cons lookup_given
    by (simp add: annotation_names)
qed

lemma Inr_fileDescriptor:
  assumes "fileDescriptor S L D f = Inr d"
  obtains c where "OpenRead D (in_Path f) = Inr (c, False)"
    and "d = annotated (describe_bytes L (rawMediaType S (in_Kind f)) c) (file_annotations f)"
  using assms by (auto simp: fileDescriptor_def split: sum.splits if_splits)

lemma packed_read_back:
  assumes "fileDescriptor S L D f = Inr d"
  shows "packed_as S L D f (read_back d)"
proof -
  from assms obtain c where c: "OpenRead D (in_Path f) = Inr (c, False)"
    "d = annotated (describe_bytes L (rawMediaType S (in_Kind f)) c) (file_annotations f)" by (rule Inr_fileDescriptor)
  have "Annotations (read_back d) = rev (file_annotations f)" "MediaType (read_back d) = rawMediaType S (in_Kind f)"
    "Digest (read_back d) = FromBytes L c" "Size (read_back d) = int (length c)"
    by (simp_all add: c(2) read_back_def annotated_def describe_bytes_def node.defs descriptor.defs)
  then show ?thesis
    by (simp add: packed_as_def file_name_def file_lookups c(1)) (simp add: annotation_names)
qed

section \<open>What is stored\<close>

text \<open>
  The content library: content is only added, a push under the descriptor of its bytes that is not
  refused leads to them, and a name that was given leads to what it was given to.
\<close>

definition adds :: "('s \<Rightarrow> node \<Rightarrow> string option) \<Rightarrow> 's \<Rightarrow> 's \<Rightarrow> bool" where
  "adds content s s' \<longleftrightarrow> (\<forall>n c. content s n = Some c \<longrightarrow> content s' n = Some c)"

definition pack_laws :: "digest_lib \<Rightarrow> 's pack_store \<Rightarrow> ('s \<Rightarrow> node \<Rightarrow> string option) \<Rightarrow> ('s \<Rightarrow> string \<Rightarrow> node option) \<Rightarrow> bool" where
  "pack_laws L P content leads \<longleftrightarrow>
     (\<forall>s mt b r s'. ps_push P s (describe_bytes L mt b) b = (r, s') \<longrightarrow>
        adds content s s' \<and> (r \<noteq> Inl PushFailed \<longrightarrow> content s' (describe_bytes L mt b) = Some b)) \<and>
     (\<forall>s d n ok s'. ps_tag P s d n = (ok, s') \<longrightarrow> adds content s s' \<and> (ok \<longrightarrow> leads s' n = Some d))"

lemma adds_refl [simp]: "adds content s s"
  by (simp add: adds_def)

lemma adds_trans: "adds content s s1 \<Longrightarrow> adds content s1 s2 \<Longrightarrow> adds content s s2"
  by (simp add: adds_def)

lemma addsD: "adds content s s' \<Longrightarrow> content s n = Some c \<Longrightarrow> content s' n = Some c"
  by (simp add: adds_def)

lemma node_annotated [simp]: "node_of (annotated n an) = n"
  by (simp add: annotated_def node.defs descriptor.defs)

lemma described [simp]:
  "Digest (annotated (describe_bytes L mt c) an) = FromBytes L c"
  "Size (annotated (describe_bytes L mt c) an) = int (length c)"
  "MediaType (annotated (describe_bytes L mt c) an) = mt"
  "Annotations (annotated n an) = an"
  by (simp_all add: annotated_def describe_bytes_def node.defs descriptor.defs)

lemma push_content_adds:
  assumes "pack_laws L P content leads" and "push_content P e (describe_bytes L mt b) b s = (Inr u, s')"
  shows "content s' (describe_bytes L mt b) = Some b \<and> adds content s s'"
proof -
  obtain r s1 where r: "ps_push P s (describe_bytes L mt b) b = (r, s1)" by force
  with assms(2) have "r \<noteq> Inl PushFailed" "s' = s1" by (auto simp: push_content_def split: if_splits)
  with assms(1) r show ?thesis unfolding pack_laws_def by blast
qed

lemma pushBytes_adds:
  "pack_laws L P content leads \<Longrightarrow> pushBytes P (describe_bytes L mt b) b s = (Inr u, s') \<Longrightarrow>
   content s' (describe_bytes L mt b) = Some b \<and> adds content s s'"
  unfolding pushBytes_def by (rule push_content_adds)

lemma push_layers_packed:
  assumes "pack_laws L P content leads" and "push_layers S L D P fs s = (Inr ds, s')"
  shows "list_all2 (\<lambda>f d. packed_as S L D f d \<and> content s' (node_of d) = ReadFile D (in_Path f)) fs (map read_back ds) \<and>
    adds content s s'"
  using assms(2)
proof (induction fs arbitrary: s ds)
  case Nil
  then show ?case by simp
next
  case (Cons f fs)
  from Cons.prems obtain d s1 es where d: "fileDescriptor S L D f = Inr d"
    "pushFile D P (node_of d) (in_Path f) s = (Inr (), s1)" "push_layers S L D P fs s1 = (Inr es, s')" "ds = d # es"
    by (auto split: sum.splits prod.splits)
  from d(1) obtain c where c: "OpenRead D (in_Path f) = Inr (c, False)"
    "node_of d = describe_bytes L (rawMediaType S (in_Kind f)) c" by (rule Inr_fileDescriptor) simp
  from d(2) c have "push_content P (StoreErr (in_Path f)) (describe_bytes L (rawMediaType S (in_Kind f)) c) c s = (Inr (), s1)"
    by (simp add: pushFile_def)
  note one = push_content_adds [OF assms(1) this]
  from Cons.IH [OF d(3)] have all: "list_all2 (\<lambda>f d. packed_as S L D f d \<and> content s' (node_of d) = ReadFile D (in_Path f)) fs
    (map read_back es)" and more: "adds content s1 s'" by auto
  have "ReadFile D (in_Path f) = Some c" by (simp add: ReadFile_def c(1))
  with one more c(2) have "content s' (node_of (read_back d)) = ReadFile D (in_Path f)" by (auto dest: addsD)
  with all packed_read_back [OF d(1)] one more d(4) show ?case by (auto intro: adds_trans)
qed

lemma push_layers_fit:
  assumes "push_layers S L D P fs s = (Inr ds, s')" and "\<forall>p c b. OpenRead D p = Inr (c, b) \<longrightarrow> length c < 2 ^ 63"
  shows "list_all fits ds"
  using assms(1)
proof (induction fs arbitrary: s ds)
  case Nil
  then show ?case by simp
next
  case (Cons f fs)
  from Cons.prems obtain d s1 es where d: "fileDescriptor S L D f = Inr d"
    "push_layers S L D P fs s1 = (Inr es, s')" "ds = d # es"
    by (auto split: sum.splits prod.splits)
  from d(1) obtain c where c: "OpenRead D (in_Path f) = Inr (c, False)" "Size d = int (length c)"
    by (rule Inr_fileDescriptor) simp
  from assms(2) c(1) have "length c < 2 ^ 63" by blast
  then have "int (length c) < 2 ^ 63" by simp
  with c(2) have "fits d" by (simp add: fits_def)
  with Cons.IH [OF d(2)] d(3) show ?case by simp
qed

section \<open>The order of the layers\<close>

abbreviation pack_key :: "input \<Rightarrow> nat \<times> string" where
  "pack_key f \<equiv> (kindRank (in_Kind f), in_Name f)"

lemma sorted_canonical [simp]: "sorted (map pack_key (canonical fs))"
  by (simp add: canonical_def)

lemma set_canonical: "set (canonical fs) = settle ` set fs"
  by (simp add: canonical_def)

lemma prepare_canonical:
  assumes "prepare D fs = Inr (ordered, info)"
  shows "\<exists>gathered. ordered = canonical gathered"
  using assms by (auto simp: prepare_def Let_def split: if_splits)

lemma prepare_weight:
  assumes "prepare D fs = Inr (ordered, info)"
  shows "\<exists>f \<in> set ordered. in_Kind f = LayerKindWeight"
  using assms
  by (auto simp: prepare_def describe_def Let_def find_Some_iff split: if_splits option.splits) (metis nth_mem)+

lemma kindRank_0: "kindRank k = 0 \<longleftrightarrow> k = LayerKindWeight"
  by (cases k) (simp_all add: kindRank_def)

lemma weight_first:
  assumes "prepare D fs = Inr (ordered, info)"
  shows "ordered \<noteq> [] \<and> in_Kind (hd ordered) = LayerKindWeight"
proof -
  from prepare_weight [OF assms] obtain f where f: "f \<in> set ordered" "in_Kind f = LayerKindWeight" by blast
  then obtain a r where o: "ordered = a # r" by (cases ordered) auto
  from prepare_canonical [OF assms] have "sorted (map pack_key ordered)" by auto
  with f(1) o have "pack_key a \<le> pack_key f" by auto
  then have "kindRank (in_Kind a) \<le> kindRank (in_Kind f)" by (auto simp: less_eq_prod_def)
  with f(2) o show ?thesis by (simp add: kindRank_0 [symmetric])
qed

end
