(* ===== verification/PackModel.thy ===== *)
theory PackModel
  imports PackSpec
begin

text \<open>
  What is in the store after a model was packed, and that what was packed is what \<^verbatim>\<open>palan run\<close>
  loads.
\<close>

section \<open>The artifact\<close>

definition packed_manifest :: "model_spec \<Rightarrow> (model_config \<Rightarrow> string) \<Rightarrow> digest_lib \<Rightarrow> model_description \<Rightarrow> pack_options \<Rightarrow>
    descriptor list \<Rightarrow> manifest" where
  "packed_manifest S marshal L info opts layers =
     \<lparr>m_artifactType = model_manifest_type S,
      Config = annotated (describe_bytes L (model_config_type S) (marshal (config_of info layers opts))) [], Layers = layers,
      m_annotations = manifestAnnotations S L info layers opts (model_license info opts)\<rparr>"

lemma Model_steps:
  assumes "Model S marshal L D P files ref opts s = (Inr d, s')"
  obtains ordered info layers s1 s2 where "prepare D files = Inr (ordered, info)"
    and "push_layers S L D P ordered s = (Inr layers, s1)"
    and "pushBytes P (describe_bytes L (model_config_type S) (marshal (config_of info layers opts)))
           (marshal (config_of info layers opts)) s1 = (Inr (), s2)"
    and "pushManifest L P (packed_manifest S marshal L info opts layers) ref s2 = (Inr d, s')"
  using assms by (auto simp: Model_def packed_manifest_def Let_def split: sum.splits prod.splits)

lemma pushManifest_adds:
  assumes "pack_laws L P content leads" and "pushManifest L P m ref s = (Inr d, s')"
  shows "d = describe_bytes L MediaTypeImageManifest (show_json (manifest_json m)) \<and>
    content s' d = Some (show_json (manifest_json m)) \<and> leads s' ref = Some d \<and> adds content s s'"
proof -
  let ?raw = "show_json (manifest_json m)" and ?d = "describe_bytes L MediaTypeImageManifest (show_json (manifest_json m))"
  from assms(2) obtain s1 where s1: "pushBytes P ?d ?raw s = (Inr (), s1)" "ps_tag P s1 d ref = (True, s')" "d = ?d"
    by (auto simp: pushManifest_def Let_def split: sum.splits prod.splits if_splits)
  from assms(1) s1(2) have "adds content s1 s'" "leads s' ref = Some d" unfolding pack_laws_def by blast+
  with pushBytes_adds [OF assms(1) s1(1)] s1(3) show ?thesis by (auto dest: addsD intro: adds_trans)
qed

text \<open>What is read back of the manifest: the layers and the annotations of every descriptor in reverse.\<close>

definition manifest_back :: "manifest \<Rightarrow> manifest" where
  "manifest_back m = m\<lparr>Config := read_back (Config m), Layers := map read_back (Layers m), m_annotations := rev (m_annotations m)\<rparr>"

text \<open>The size of every file is one a descriptor can state, and the configuration is not too long.\<close>

definition files_small :: "disk \<Rightarrow> bool" where
  "files_small D \<longleftrightarrow> (\<forall>p c b. OpenRead D p = Inr (c, b) \<longrightarrow> length c < 2 ^ 63)"

definition config_within :: "model_spec \<Rightarrow> (model_config \<Rightarrow> string) \<Rightarrow> digest_lib \<Rightarrow> disk \<Rightarrow> input list \<Rightarrow> pack_options \<Rightarrow>
    int \<Rightarrow> bool" where
  "config_within S marshal L D files opts N \<longleftrightarrow>
     (\<forall>ordered info layers. prepare D files = Inr (ordered, info) \<longrightarrow> list_all2 (packed_as S L D) ordered layers \<longrightarrow>
        int (length (marshal (config_of info layers opts))) \<le> N)"

lemma config_read_back: "config_of info (map read_back layers) opts = config_of info layers opts"
proof -
  have "map Digest (map read_back layers) = map Digest layers" by (simp add: read_back_def)
  then show ?thesis unfolding config_of_def by simp
qed

lemma Model_stores:
  assumes laws: "pack_laws L P content leads" and sm: "files_small D" "config_within S marshal L D files opts N" "N < 2 ^ 63"
    and model: "Model S marshal L D P files ref opts s = (Inr d, s')"
  obtains ordered info layers raw where "prepare D files = Inr (ordered, info)"
    and "list_all2 (\<lambda>f l. packed_as S L D f l \<and> content s' (node_of l) = ReadFile D (in_Path f)) ordered (map read_back layers)"
    and "d = describe_bytes L MediaTypeImageManifest raw" and "content s' d = Some raw" and "leads s' ref = Some d"
    and "unmarshal_manifest raw = Some (manifest_back (packed_manifest S marshal L info opts layers))"
    and "content s' (describe_bytes L (model_config_type S) (marshal (config_of info layers opts))) =
      Some (marshal (config_of info layers opts))"
    and "int (length (marshal (config_of info layers opts))) \<le> N"
    and "adds content s s'"
proof -
  from model obtain ordered info layers s1 s2 where p: "prepare D files = Inr (ordered, info)"
    and l: "push_layers S L D P ordered s = (Inr layers, s1)"
    and c: "pushBytes P (describe_bytes L (model_config_type S) (marshal (config_of info layers opts)))
           (marshal (config_of info layers opts)) s1 = (Inr (), s2)"
    and m: "pushManifest L P (packed_manifest S marshal L info opts layers) ref s2 = (Inr d, s')"
    by (rule Model_steps)
  let ?m = "packed_manifest S marshal L info opts layers"
  note L1 = push_layers_packed [OF laws l] and C1 = pushBytes_adds [OF laws c] and M1 = pushManifest_adds [OF laws m]
  have more: "adds content s1 s'" using C1 M1 by (auto intro: adds_trans)
  from sm(1) have files: "\<forall>p c b. OpenRead D p = Inr (c, b) \<longrightarrow> length c < 2 ^ 63" by (simp add: files_small_def)
  have "list_all2 (packed_as S L D) ordered (map read_back layers)"
    by (rule list.rel_mono_strong [OF conjunct1 [OF L1]]) simp
  with sm(2) p have len: "int (length (marshal (config_of info layers opts))) \<le> N"
    unfolding config_within_def config_read_back [of info layers opts, symmetric] by blast
  with sm(3) have "int (length (marshal (config_of info layers opts))) < 2 ^ 63" by linarith
  then have "fits (Config ?m)" by (simp add: fits_def packed_manifest_def)
  then have "unmarshal_manifest (show_json (manifest_json ?m)) = Some (manifest_back ?m)"
    using push_layers_fit [OF l files] unmarshal_manifest_json [of ?m] by (simp add: manifest_back_def packed_manifest_def)
  moreover have "list_all2 (\<lambda>f l. packed_as S L D f l \<and> content s' (node_of l) = ReadFile D (in_Path f)) ordered (map read_back layers)"
  proof (rule list.rel_mono_strong [OF conjunct1 [OF L1]])
    fix f l
    assume f: "packed_as S L D f l \<and> content s1 (node_of l) = ReadFile D (in_Path f)"
    then obtain c where "OpenRead D (in_Path f) = Inr (c, False)" unfolding packed_as_def by blast
    then have "ReadFile D (in_Path f) = Some c" by (simp add: ReadFile_def)
    with f more show "packed_as S L D f l \<and> content s' (node_of l) = ReadFile D (in_Path f)" by (auto dest: addsD)
  qed
  moreover have "adds content s s'" using L1 more by (auto intro: adds_trans)
  ultimately show thesis using that p M1 C1 len by (auto dest: addsD)
qed

lemma weight_raw_kind [simp]: "KindOf S (layer_type S Weight Raw) = LayerKindWeight"
  by (simp add: KindOf_def kindByMediaType_def)

lemmas manifest_annotation_names = AnnotationSource_def AnnotationLicenses_def AnnotationOriginSHA256_def
  AnnotationOriginSigner_def AnnotationContextLength_def AnnotationServeDefaults_def

lemma lookup_optional:
  "lookup_str ((if b then [(k, v)] else []) @ r) k' = (if b \<and> k' = k then v else lookup_str r k')"
  "lookup_str (case x of None \<Rightarrow> [] | Some d \<Rightarrow> [(k, g d)]) k' = (case x of None \<Rightarrow> [] | Some d \<Rightarrow> if k' = k then g d else [])"
  by (simp_all add: lookup_str_def split: option.splits)

lemma keys_optional:
  "map fst (if b then [(k, v)] else []) = (if b then [k] else [])"
  "map fst (case x of None \<Rightarrow> [] | Some d \<Rightarrow> [(k, g d)]) = (case x of None \<Rightarrow> [] | Some d \<Rightarrow> [k])"
  "map fst (given k v) = (if v = [] then [] else [k])"
  by (simp_all add: given_def split: option.splits)

lemma distinct_manifest_annotations:
  "distinct (map fst (given AnnotationSource u @ given AnnotationLicenses l @ [(AnnotationOriginSHA256, h)] @
     given AnnotationOriginSigner g @ (if b then [(AnnotationContextLength, n)] else []) @
     (case x of None \<Rightarrow> [] | Some d \<Rightarrow> [(AnnotationServeDefaults, e d)])))"
  unfolding map_append keys_optional by (cases x) (simp_all add: manifest_annotation_names)

lemma lookup_manifest_annotations:
  "lookup_str (rev (manifestAnnotations S L info layers opts license)) k =
     (if k = AnnotationSource \<and> po_SourceURL opts \<noteq> [] then po_SourceURL opts
      else if k = AnnotationLicenses \<and> license \<noteq> [] then license
      else if k = AnnotationOriginSHA256 then origin_of S L layers opts
      else if k = AnnotationOriginSigner \<and> po_Signer opts \<noteq> [] then po_Signer opts
      else if mi_ContextLength info > 0 \<and> k = AnnotationContextLength then itoa (int (mi_ContextLength info))
      else case po_ServeDefaults opts of None \<Rightarrow> [] | Some d \<Rightarrow> if k = AnnotationServeDefaults then Encode d else [])"
  unfolding manifestAnnotations_def lookup_ordered(2) [OF distinct_manifest_annotations]
  unfolding append.append_Cons append.append_Nil lookup_given lookup_Cons lookup_optional by (rule refl)


section \<open>The defaults chosen\<close>

definition counts :: "serve_defaults \<Rightarrow> bool" where
  "counts d \<longleftrightarrow> 0 \<le> d_Ctx d \<and> d_Ctx d < 2 ^ 63 \<and> 0 \<le> d_NGL d \<and> d_NGL d < 2 ^ 63"

lemma written_itoa: "0 \<le> i \<Longrightarrow> written (JNum (itoa i))"
  using itoa_nat_digits [of "nat i"] itoa_nat_nonzero [of "nat i"] by (simp add: itoa_def)

lemma written_strs: "written_elements (map JStr fs)"
  by (induction fs) auto

lemma decode_all_strs: "decode_all decode_str (map JStr fs) = Some fs"
  by (induction fs) auto

lemma written_members_append: "written_members (as @ bs) \<longleftrightarrow> written_members as \<and> written_members bs"
  by (induction as) auto

lemma read_defaults:
  assumes "counts d"
  shows "decode_defaults (defaults_json d) = Some d"
proof -
  have "int64_of (itoa (d_Ctx d)) = Some (d_Ctx d)" "int64_of (itoa (d_NGL d)) = Some (d_NGL d)"
    using assms by (simp_all add: counts_def int64_itoa)
  then show ?thesis
    by (cases d) (simp add: decode_defaults_def defaults_json_def int_field_def decoding decode_all_strs to_lower_def)
qed

lemma ParseServeDefaults_Encode:
  assumes "counts d"
  shows "ParseServeDefaults (Encode d) = Some d"
proof -
  have w: "written (defaults_json d)"
    using assms by (simp add: defaults_json_def counts_def written_members_append written_strs del: written.simps(3))
      (simp add: written_itoa del: written.simps(3))
  have "value_at (Suc (length (Encode d))) (Encode d @ []) = Some (defaults_json d, [])"
    using need_length(1) [OF w] unfolding Encode_def by (intro read_written(1) [OF w]) (simp_all add: follows_def)
  then show ?thesis by (simp add: ParseServeDefaults_def read_defaults [OF assms])
qed

lemma parse_empty: "parse_json [] = None"
  by code_simp

lemma ParseServeDefaults_empty: "ParseServeDefaults [] = None"
  by code_simp

section \<open>What was packed is what is loaded\<close>

lemma Read_magic:
  assumes "Read bs = Inr g"
  shows "4 \<le> length bs \<and> take 4 bs = gguf_magic"
  using assms
  by (auto simp: Read_def read_header_def take_bytes_def Magic_def gguf_magic_def split: if_splits prod.splits)

lemma prepare_describe:
  assumes "prepare D fs = Inr (ordered, info)"
  shows "\<exists>safe. describe D safe ordered = Inr info"
  using assms by (auto simp: prepare_def Let_def split: if_splits)

lemma described_gguf:
  assumes "describe D safe ordered = Inr info" and "mi_Format info = FormatGGUF"
    and "ordered = f # fs" and "in_Kind f = LayerKindWeight"
  shows "\<exists>c g. OpenRead D (in_Path f) = Inr (c, False) \<and> Read c = Inr g"
proof -
  have find: "find (\<lambda>f. in_Kind f = LayerKindWeight) ordered = Some f" using assms(3,4) by simp
  show ?thesis
  proof (cases safe)
    case True
    then obtain c h where "info = FromSafetensors c h (Base (Dir (in_Path f)))"
      using assms(1) by (auto simp: describe_def find Let_def)
    with assms(2) show ?thesis by (simp add: FromSafetensors_def FormatSafetensors_def FormatGGUF_def)
  next
    case False
    with assms(1) show ?thesis by (auto simp: describe_def find split: sum.splits if_splits)
  qed
qed

text \<open>The store of a host that reads what was packed.\<close>

definition reads :: "'k host \<Rightarrow> (node \<Rightarrow> string option) \<Rightarrow> bool" where
  "reads h stored \<longleftrightarrow> (\<forall>n c. stored n = Some c \<longrightarrow> t_Fetch (store h) n = Some c \<and> store_open h n = Some (c, False))"

text \<open>
  C11. What was packed is what is loaded: after a GGUF model was packed, a host with that store finds
  under its manifest the weights of the first file in canonical order, at the path of their digest,
  passes every check on their format, and starts from the serving defaults chosen when it was packed. The manifest and the
  configuration have to fit the size a host reads, and the specification library reads back the
  format it wrote.
\<close>

theorem packed_model_loads:
  assumes laws: "pack_laws L P content leads" and sm: "files_small D" "config_within S marshal L D files opts maxJSONBlobSize"
    and model: "Model S marshal L D P files ref opts s = (Inr d, s')"
    and prep: "prepare D files = Inr (ordered, info)" and gg: "mi_Format info = FormatGGUF"
    and host: "reads h (content s')" and lib: "digests h = L" and valid: "\<forall>c. Validate_ok L (FromBytes L c)"
    and raw_type: "suffix ''.raw'' (layer_type S Weight Raw)"
    and format: "\<forall>c. config_format S (marshal c) = Some (mc_Format c)"
    and size: "Size d \<le> maxJSONBlobSize" and nonempty: "\<forall>c. marshal c \<noteq> []"
    and defaults: "\<forall>df. po_ServeDefaults opts = Some df \<longrightarrow> counts df"
  shows "\<exists>c. OpenRead D (in_Path (hd ordered)) = Inr (c, False) \<and>
    loadModelInfo S h root name d = Inr
      \<lparr>blobPath = Join [root, ''blobs'', Algorithm L (FromBytes L c), Encoded L (FromBytes L c)],
       defaults = (case po_ServeDefaults opts of Some df \<Rightarrow> df | None \<Rightarrow> no_defaults)\<rparr>"
proof -
  have "maxJSONBlobSize < 2 ^ 63" by (simp add: maxJSONBlobSize_def)
  note stored = Model_stores [OF laws sm this model]
  obtain ordered' info' layers raw where p: "prepare D files = Inr (ordered', info')"
    and l: "list_all2 (\<lambda>f l. packed_as S L D f l \<and> content s' (node_of l) = ReadFile D (in_Path f)) ordered' (map read_back layers)"
    and d: "d = describe_bytes L MediaTypeImageManifest raw" "content s' d = Some raw"
    and u: "unmarshal_manifest raw = Some (manifest_back (packed_manifest S marshal L info' opts layers))"
    and c: "content s' (describe_bytes L (model_config_type S) (marshal (config_of info' layers opts))) =
      Some (marshal (config_of info' layers opts))"
    and len: "int (length (marshal (config_of info' layers opts))) \<le> maxJSONBlobSize"
    by (rule stored)
  from p prep have same: "ordered' = ordered" "info' = info" by simp_all
  let ?m = "manifest_back (packed_manifest S marshal L info opts layers)"
  let ?cfg = "marshal (config_of info layers opts)"
  from weight_first [OF prep] obtain f fs where o: "ordered = f # fs" "in_Kind f = LayerKindWeight" by (cases ordered) auto
  from prepare_describe [OF prep] gg o obtain b g where b: "OpenRead D (in_Path f) = Inr (b, False)" "Read b = Inr g"
    by (auto dest: described_gguf)
  from l o same obtain a r where a: "layers = a # r" "packed_as S L D f (read_back a)"
    "content s' (node_of a) = ReadFile D (in_Path f)" by (auto simp: list_all2_Cons1 Cons_eq_map_conv map_eq_Cons_conv)
  from a(2) b(1) o(2) have w: "MediaType (read_back a) = layer_type S Weight Raw" "Digest (read_back a) = FromBytes L b"
    by (auto simp: packed_as_def rawMediaType_def)
  from a(3) b(1) have open_b: "store_open h (node_of (read_back a)) = Some (b, False)"
    using host by (simp add: ReadFile_def reads_def)
  have find: "find (\<lambda>l. KindOf S (MediaType l) = LayerKindWeight) (Layers ?m) = Some (read_back a)"
    using w(1) by (simp add: manifest_back_def packed_manifest_def a(1))
  have "raw \<noteq> []" using u by (auto simp: unmarshal_manifest_def parse_empty)
  then have man: "FetchManifest (store_blobs h) d = Inr ?m"
    using d host size u same by (simp add: FetchManifest_def FetchJSON_def reads_def describe_bytes_def)
  have cfg_node: "node_of (Config ?m) = describe_bytes L (model_config_type S) ?cfg" "MediaType (Config ?m) = model_config_type S"
    by (simp_all add: manifest_back_def packed_manifest_def) (simp add: read_back_def)
  have cfg_fetch: "t_Fetch (store h) (describe_bytes L (model_config_type S) ?cfg) = Some ?cfg"
    using c same host by (auto simp: reads_def)
  have fit: "?cfg \<noteq> []" "int (length ?cfg) \<le> maxJSONBlobSize" using nonempty len same by simp_all
  have declared: "FetchJSON (config_format S) (store_blobs h) (node_of (Config ?m)) = Inr FormatGGUF"
    unfolding cfg_node(1) FetchJSON_def using cfg_fetch fit format gg
    by (simp add: config_of_def describe_bytes_def)
  have path: "BlobPath h root (node_of (read_back a)) = Inr (Join [root, ''blobs'', Algorithm L (FromBytes L b), Encoded L (FromBytes L b)])"
    using open_b w(2) valid lib by (simp add: BlobPath_def node.defs)
  have "requireGGUF S h root name ?m (read_back a) = Inr ()"
    using declared path open_b Read_magic [OF b(2)] by (simp add: requireGGUF_def cfg_node(2))
  moreover have "IsRaw S (MediaType (read_back a))" using raw_type w(1) by (simp add: IsRaw_def)
  moreover have "(case map_of (m_annotations ?m) AnnotationServeDefaults of
       Some t \<Rightarrow> (case ParseServeDefaults t of Some df \<Rightarrow> df | None \<Rightarrow> no_defaults) | None \<Rightarrow> no_defaults) =
     (case po_ServeDefaults opts of Some df \<Rightarrow> df | None \<Rightarrow> no_defaults)"
  proof -
    have "lookup_str (m_annotations ?m) AnnotationServeDefaults = (case po_ServeDefaults opts of None \<Rightarrow> [] | Some d \<Rightarrow> Encode d)"
      by (simp add: manifest_back_def packed_manifest_def lookup_manifest_annotations)
        (simp add: manifest_annotation_names split: option.splits)
    moreover have "(case map_of an k of
       Some t \<Rightarrow> (case ParseServeDefaults t of Some df \<Rightarrow> df | None \<Rightarrow> no_defaults) | None \<Rightarrow> no_defaults) =
       (case ParseServeDefaults (lookup_str an k) of Some df \<Rightarrow> df | None \<Rightarrow> no_defaults)" for an k
      by (simp add: lookup_str_def ParseServeDefaults_empty split: option.splits)
    ultimately show ?thesis using defaults
      by (auto simp: ParseServeDefaults_empty ParseServeDefaults_Encode split: option.splits)
  qed
  ultimately have "loadModelInfo S h root name d = Inr
      \<lparr>blobPath = Join [root, ''blobs'', Algorithm L (FromBytes L b), Encoded L (FromBytes L b)],
       defaults = (case po_ServeDefaults opts of Some df \<Rightarrow> df | None \<Rightarrow> no_defaults)\<rparr>"
    using man find path by (simp add: loadModelInfo_def)
  with b(1) o(1) show ?thesis by auto
qed

end
