(* ===== verification/PackGather.thy ===== *)
theory PackGather
  imports PackSpec
begin

text \<open>
  What packing gathers beside the files it is given: the parts of a split model, the shards an index
  names and the files that belong to them; and that the order of the inputs does not matter.
\<close>

section \<open>Gathering\<close>

text \<open>A file that is among the inputs, by whatever path.\<close>

definition covered :: "disk \<Rightarrow> input list \<Rightarrow> string \<Rightarrow> bool" where
  "covered D out p \<longleftrightarrow> absPath D p \<in> (\<lambda>f. absPath D (in_Path f)) ` set out"

lemma covered_append [simp]: "covered D (a @ b) p \<longleftrightarrow> covered D a p \<or> covered D b p"
  by (auto simp: covered_def)

lemma covered_local [simp]: "covered D [local_file p] p"
  by (simp add: covered_def local_file_def)

lemma path_local [simp]: "in_Path (local_file p) = p"
  by (simp add: local_file_def)

text \<open>A gathering that started from \<open>fs\<close> and has taken only files \<open>new\<close> allows.\<close>

definition gathers :: "disk \<Rightarrow> input list \<Rightarrow> (string \<Rightarrow> bool) \<Rightarrow> gathering \<Rightarrow> bool" where
  "gathers D fs new g \<longleftrightarrow> set (ga_have g) = (\<lambda>f. absPath D (in_Path f)) ` set (ga_out g) \<and>
     (\<exists>ps. ga_out g = fs @ map local_file ps \<and> list_all (\<lambda>p. new p \<and> (\<exists>x. Stat D p = Inr x)) ps)"

lemma gathers_have: "gathers D fs new g \<Longrightarrow> absPath D p \<in> set (ga_have g) \<longleftrightarrow> covered D (ga_out g) p"
  by (simp add: gathers_def covered_def)

lemma gathers_take:
  assumes "gathers D fs new g" and "new p" and "Stat D p = Inr x"
  shows "gathers D fs new (g\<lparr>ga_have := absPath D p # ga_have g, ga_out := ga_out g @ [local_file p]\<rparr>)"
proof -
  from assms(1) obtain ps where ps: "ga_out g = fs @ map local_file ps" "list_all (\<lambda>p. new p \<and> (\<exists>x. Stat D p = Inr x)) ps"
    "set (ga_have g) = (\<lambda>f. absPath D (in_Path f)) ` set (ga_out g)" by (auto simp: gathers_def)
  with assms show ?thesis
    by (auto simp: gathers_def intro!: exI [of _ "ps @ [p]"])
qed

lemma gathers_missing [simp]: "gathers D fs new (g\<lparr>ga_missing := m\<rparr>) \<longleftrightarrow> gathers D fs new g"
  by (simp add: gathers_def)

lemma gathers_start: "gathers D fs new \<lparr>ga_have = map (\<lambda>f. absPath D (in_Path f)) fs, ga_out = fs, ga_missing = m\<rparr>"
  by (simp add: gathers_def)

section \<open>Split models\<close>

lemma add_part_step:
  assumes "gathers D fs new g" and "new (Join [dir, n])"
  shows "gathers D fs new (add_part D dir n g) \<and>
    (\<forall>q. covered D (ga_out g) q \<longrightarrow> covered D (ga_out (add_part D dir n g)) q) \<and>
    (ga_missing (add_part D dir n g) = ga_missing g \<and> covered D (ga_out (add_part D dir n g)) (Join [dir, n]) \<or>
     ga_missing (add_part D dir n g) = ga_missing g @ [n] \<and> (\<exists>e. Stat D (Join [dir, n]) = Inl e) \<and>
       \<not> covered D (ga_out g) (Join [dir, n]))"
  using assms gathers_have [OF assms(1), of "Join [dir, n]"]
  by (cases "Stat D (Join [dir, n])") (auto simp: add_part_def Let_def gathers_take)

lemma add_parts:
  assumes "gathers D fs new g" and "\<And>i. i \<in> set ks \<Longrightarrow> new (Join [dir, nm i])"
  shows "let g' = fold (\<lambda>i. add_part D dir (nm i)) ks g in gathers D fs new g' \<and>
    (\<forall>q. covered D (ga_out g) q \<longrightarrow> covered D (ga_out g') q) \<and>
    (\<exists>ms. ga_missing g' = ga_missing g @ ms \<and>
      (\<forall>m \<in> set ms. (\<exists>i \<in> set ks. m = nm i) \<and> (\<exists>e. Stat D (Join [dir, m]) = Inl e) \<and> \<not> covered D fs (Join [dir, m])) \<and>
      (ms = [] \<longrightarrow> (\<forall>i \<in> set ks. covered D (ga_out g') (Join [dir, nm i]))))"
  using assms
proof (induction ks arbitrary: g)
  case Nil
  then show ?case by simp
next
  case (Cons i ks)
  let ?g1 = "add_part D dir (nm i) g"
  let ?g' = "fold (\<lambda>i. add_part D dir (nm i)) ks ?g1"
  have n: "new (Join [dir, nm i])" using Cons.prems(2) by simp
  note one = add_part_step [where n = "nm i", OF Cons.prems(1) n]
  have g1: "gathers D fs new ?g1" and up: "\<And>q. covered D (ga_out g) q \<Longrightarrow> covered D (ga_out ?g1) q" using one by blast+
  from Cons.IH [OF g1] Cons.prems(2) obtain ms where g': "gathers D fs new ?g'"
    and up': "\<And>q. covered D (ga_out ?g1) q \<Longrightarrow> covered D (ga_out ?g') q"
    and ms: "ga_missing ?g' = ga_missing ?g1 @ ms"
      "\<And>m. m \<in> set ms \<Longrightarrow> (\<exists>i \<in> set ks. m = nm i) \<and> (\<exists>e. Stat D (Join [dir, m]) = Inl e) \<and> \<not> covered D fs (Join [dir, m])"
      "ms = [] \<Longrightarrow> \<forall>i \<in> set ks. covered D (ga_out ?g') (Join [dir, nm i])"
    by (auto simp: Let_def)
  have base: "covered D fs q \<Longrightarrow> covered D (ga_out g) q" for q
    using Cons.prems(1) by (auto simp: gathers_def)
  from one have "\<exists>ms'. ga_missing ?g1 = ga_missing g @ ms' \<and>
      (\<forall>m \<in> set ms'. m = nm i \<and> (\<exists>e. Stat D (Join [dir, m]) = Inl e) \<and> \<not> covered D fs (Join [dir, m])) \<and>
      (ms' = [] \<longrightarrow> covered D (ga_out ?g1) (Join [dir, nm i]))"
    using base by (metis append_Nil2 empty_iff list.set(1) not_Cons_self2 set_ConsD)
  then obtain ms' where ms': "ga_missing ?g1 = ga_missing g @ ms'"
    "\<forall>m \<in> set ms'. m = nm i \<and> (\<exists>e. Stat D (Join [dir, m]) = Inl e) \<and> \<not> covered D fs (Join [dir, m])"
    "ms' = [] \<longrightarrow> covered D (ga_out ?g1) (Join [dir, nm i])" by blast
  have "ga_missing ?g' = ga_missing g @ (ms' @ ms)" using ms(1) ms'(1) by simp
  moreover have "\<forall>m \<in> set (ms' @ ms). (\<exists>j \<in> set (i # ks). m = nm j) \<and> (\<exists>e. Stat D (Join [dir, m]) = Inl e) \<and> \<not> covered D fs (Join [dir, m])"
    using ms(2) ms'(2) by auto
  moreover have "ms' @ ms = [] \<longrightarrow> (\<forall>j \<in> set (i # ks). covered D (ga_out ?g') (Join [dir, nm j]))"
    using ms(3) ms'(3) up' by simp
  ultimately have "\<exists>ms. ga_missing ?g' = ga_missing g @ ms \<and>
      (\<forall>m \<in> set ms. (\<exists>j \<in> set (i # ks). m = nm j) \<and> (\<exists>e. Stat D (Join [dir, m]) = Inl e) \<and> \<not> covered D fs (Join [dir, m])) \<and>
      (ms = [] \<longrightarrow> (\<forall>j \<in> set (i # ks). covered D (ga_out ?g') (Join [dir, nm j])))" by blast
  with g' up up' show ?case by (simp add: Let_def)
qed

text \<open>The parts of the split model a file belongs to.\<close>

definition parts_of :: "input \<Rightarrow> string list" where
  "parts_of f = (case splitPart (Base (in_Path f)) of
     None \<Rightarrow> []
   | Some (stem, tot) \<Rightarrow> map (\<lambda>i. Join [Dir (in_Path f), part_name stem tot i]) [1..<Suc (nat_of_digits 0 tot)])"

definition a_part :: "input list \<Rightarrow> string \<Rightarrow> bool" where
  "a_part fs p \<longleftrightarrow> (\<exists>f \<in> set fs. p \<in> set (parts_of f))"

lemma gather_parts_complete:
  assumes "gathers D fs (a_part fs) g" and "set todo \<subseteq> set fs"
  shows "case gather_parts D todo g of
      Inr out \<Rightarrow> (\<exists>g'. gathers D fs (a_part fs) g' \<and> ga_out g' = out) \<and> (\<forall>q. covered D (ga_out g) q \<longrightarrow> covered D out q) \<and>
        (\<forall>f \<in> set todo. \<forall>p \<in> set (parts_of f). covered D out p)
    | Inl e \<Rightarrow> \<exists>f \<in> set todo. \<exists>n ms. e = MissingParts (Base (in_Path f)) n (Dir (in_Path f)) ms \<and> ms \<noteq> [] \<and>
        (\<forall>m \<in> set ms. Join [Dir (in_Path f), m] \<in> set (parts_of f) \<and>
          (\<exists>e. Stat D (Join [Dir (in_Path f), m]) = Inl e) \<and> \<not> covered D fs (Join [Dir (in_Path f), m]))"
  using assms
proof (induction todo arbitrary: g)
  case Nil
  then show ?case by auto
next
  case (Cons f todo)
  show ?case
  proof (cases "splitPart (Base (in_Path f))")
    case None
    with Cons.IH [OF Cons.prems(1)] Cons.prems(2) show ?thesis
      by (auto simp: parts_of_def split: sum.splits)
  next
    case (Some x)
    obtain stem tot where x: "splitPart (Base (in_Path f)) = Some (stem, tot)" using Some by (cases x) auto
    define n where "n = nat_of_digits 0 tot"
    define ns where "ns = [1..<Suc n]"
    have pf: "parts_of f = map (\<lambda>i. Join [Dir (in_Path f), part_name stem tot i]) ns"
      by (simp add: parts_of_def x n_def ns_def del: upt_Suc)
    show ?thesis
    proof (cases "n = 0")
      case True
      with Cons.IH [OF Cons.prems(1)] Cons.prems(2) x pf show ?thesis
        by (auto simp: n_def ns_def split: sum.splits)
    next
      case False
      let ?g0 = "g\<lparr>ga_missing := []\<rparr>"
      let ?g1 = "fold (\<lambda>i. add_part D (Dir (in_Path f)) (part_name stem tot i)) ns ?g0"
      have step: "gather_parts D (f # todo) g = (if ga_missing ?g1 \<noteq> []
          then Inl (MissingParts (Base (in_Path f)) n (Dir (in_Path f)) (ga_missing ?g1)) else gather_parts D todo ?g1)"
        using False unfolding ns_def by (simp add: x n_def Let_def del: upt_Suc)
      have g0: "gathers D fs (a_part fs) ?g0" using Cons.prems(1) by simp
      have new: "a_part fs (Join [Dir (in_Path f), part_name stem tot i])" if "i \<in> set ns" for i
        using that Cons.prems(2) unfolding a_part_def by (intro bexI [of _ f]) (auto simp: pf)
      from add_parts [where nm = "part_name stem tot" and dir = "Dir (in_Path f)" and ks = ns, OF g0 new] have g1: "gathers D fs (a_part fs) ?g1"
        and up: "\<And>q. covered D (ga_out g) q \<Longrightarrow> covered D (ga_out ?g1) q"
        and ms: "\<forall>m \<in> set (ga_missing ?g1). (\<exists>i \<in> set ns. m = part_name stem tot i) \<and>
          (\<exists>e. Stat D (Join [Dir (in_Path f), m]) = Inl e) \<and> \<not> covered D fs (Join [Dir (in_Path f), m])"
        and all: "ga_missing ?g1 = [] \<Longrightarrow> \<forall>p \<in> set (parts_of f). covered D (ga_out ?g1) p"
        unfolding Let_def pf by auto
      show ?thesis
      proof (cases "ga_missing ?g1 = []")
        case True
        from Cons.IH [OF g1] Cons.prems(2) all [OF True] up True show ?thesis
          unfolding step by (auto split: sum.splits)
      next
        case False
        have "\<forall>m \<in> set (ga_missing ?g1). Join [Dir (in_Path f), m] \<in> set (parts_of f)" using ms by (auto simp: pf)
        with False ms show ?thesis unfolding step by auto
      qed
    qed
  qed
qed

text \<open>
  C15. A split model is packed whole or not at all: the inputs stay as they are, every part of every
  split model one of them belongs to is among the files that come out, and what is added beside the
  inputs is only such parts that exist. A refusal names the parts that are neither given nor
  on disk, and there is one.
\<close>

theorem split_model_whole:
  "case gatherSplitParts D fs of
     Inr out \<Rightarrow> (\<exists>ps. out = fs @ map local_file ps \<and> list_all (\<lambda>p. a_part fs p \<and> (\<exists>x. Stat D p = Inr x)) ps) \<and>
       (\<forall>f \<in> set fs. \<forall>p \<in> set (parts_of f). covered D out p)
   | Inl e \<Rightarrow> \<exists>f \<in> set fs. \<exists>n ms. e = MissingParts (Base (in_Path f)) n (Dir (in_Path f)) ms \<and> ms \<noteq> [] \<and>
       (\<forall>m \<in> set ms. Join [Dir (in_Path f), m] \<in> set (parts_of f) \<and>
         (\<exists>e. Stat D (Join [Dir (in_Path f), m]) = Inl e) \<and> \<not> covered D fs (Join [Dir (in_Path f), m]))"
  using gather_parts_complete [OF gathers_start [where m = "[]"] subset_refl, where D = D and fs = fs]
  by (auto simp: gatherSplitParts_def gathers_def split: sum.splits)

section \<open>Sharded models\<close>

text \<open>A path that names a file beside the others, and nothing elsewhere.\<close>

definition beside :: "string \<Rightarrow> string \<Rightarrow> bool" where
  "beside dir p \<longleftrightarrow> (\<exists>n. n = Base n \<and> n \<noteq> ''.'' \<and> n \<noteq> ''..'' \<and> p = Join [dir, n])"

lemma addNamed_step:
  assumes "gathers D fs (beside dir) g" and "n = Base n" "n \<noteq> ''.''" "n \<noteq> ''..''" and "addNamed D dir n g = (g', r)"
  shows "gathers D fs (beside dir) g' \<and> ga_missing g' = ga_missing g \<and> (\<forall>q. covered D (ga_out g) q \<longrightarrow> covered D (ga_out g') q) \<and>
    (r = Inr () \<longrightarrow> covered D (ga_out g') (Join [dir, n]))"
proof -
  have "beside dir (Join [dir, n])" using assms(2-4) unfolding beside_def by blast
  then show ?thesis
    using assms(1,5) gathers_have [OF assms(1), of "Join [dir, n]"]
    by (cases "Stat D (Join [dir, n])") (auto simp: addNamed_def take_file_def Let_def gathers_take split: if_splits)
qed

lemma take_file_step:
  assumes "gathers D fs new g" and "new p" and "Stat D p = Inr x"
  shows "gathers D fs new (take_file D p g) \<and> ga_missing (take_file D p g) = ga_missing g \<and>
    (\<forall>q. covered D (ga_out g) q \<longrightarrow> covered D (ga_out (take_file D p g)) q) \<and> covered D (ga_out (take_file D p g)) p"
  using gathers_have [OF assms(1), of p] gathers_take [OF assms] assms(1) by (auto simp: take_file_def)

text \<open>The bytes a list of shards holds, summed as the code sums them.\<close>

fun on_disk :: "disk \<Rightarrow> string \<Rightarrow> string list \<Rightarrow> int \<Rightarrow> int" where
  "on_disk D dir [] n = n"
| "on_disk D dir (s # ss) n =
     on_disk D dir ss (case Stat D (Join [dir, s]) of Inl _ \<Rightarrow> n | Inr f \<Rightarrow> int64 (n + stat_size f))"

lemma gather_shards_step:
  assumes "gathers D fs (beside dir) g" and "gather_shards D dir ss n g = Inr (g', m)"
  shows "gathers D fs (beside dir) g' \<and> (\<forall>q. covered D (ga_out g) q \<longrightarrow> covered D (ga_out g') q) \<and> m = on_disk D dir ss n \<and>
    (\<forall>s \<in> set ss. s = Base s \<and> s \<noteq> ''.'' \<and> s \<noteq> ''..'') \<and> prefix (ga_missing g) (ga_missing g') \<and>
    (ga_missing g' = [] \<longrightarrow> (\<forall>s \<in> set ss. (\<exists>x. Stat D (Join [dir, s]) = Inr x) \<and> covered D (ga_out g') (Join [dir, s])))"
  using assms
proof (induction ss arbitrary: n g)
  case Nil
  then show ?case by simp
next
  case (Cons s ss)
  from Cons.prems(2) have plain: "s = Base s \<and> s \<noteq> ''.'' \<and> s \<noteq> ''..''" by (auto split: if_splits)
  then have b: "beside dir (Join [dir, s])" unfolding beside_def by blast
  show ?case
  proof (cases "Stat D (Join [dir, s])")
    case (Inl e)
    let ?g1 = "g\<lparr>ga_missing := ga_missing g @ [s]\<rparr>"
    have g1: "gathers D fs (beside dir) ?g1" using Cons.prems(1) by simp
    have "gather_shards D dir ss n ?g1 = Inr (g', m)" using Cons.prems(2) plain Inl by (auto split: if_splits)
    from Cons.IH [OF g1 this] show ?thesis using plain Inl by (auto simp: prefix_def)
  next
    case (Inr x)
    note one = take_file_step [OF Cons.prems(1) b Inr]
    have "gather_shards D dir ss (int64 (n + stat_size x)) (take_file D (Join [dir, s]) g) = Inr (g', m)"
      using Cons.prems(2) plain Inr by (auto split: if_splits)
    from Cons.IH [OF conjunct1 [OF one] this] one show ?thesis using plain Inr by auto
  qed
qed

lemma plain_name: "plain n \<Longrightarrow> n = Base n \<and> n \<noteq> ''.'' \<and> n \<noteq> ''..''"
  by (simp add: Base_plain) (simp add: plain_def)

lemma fixed_names: "plain IndexName" "plain ConfigName" "list_all plain (CompanionNames @ DocNames)"
  by (simp_all add: plain_def IndexName_def ConfigName_def CompanionNames_def DocNames_def QuantConfigName_def)

lemma companion_names: "\<forall>n \<in> set (CompanionNames @ DocNames). n = Base n \<and> n \<noteq> ''.'' \<and> n \<noteq> ''..''"
  using fixed_names(3) by (auto simp: list_all_iff dest!: plain_name)

lemma case_Inr: "(case r of Inl e \<Rightarrow> Inl (k e) | Inr (u :: unit) \<Rightarrow> Inr y) = Inr z \<Longrightarrow> r = Inr () \<and> z = y"
  by (cases r) auto

lemma with_index_step:
  assumes "gathers D fs (beside dir) g" and "ga_missing g = []" and "with_index D dir g = Inr g'"
  shows "gathers D fs (beside dir) g' \<and>
    (\<forall>x. Stat D (Join [dir, IndexName]) = Inr x \<longrightarrow> (\<exists>ix. ReadIndex (ReadFile D (Join [dir, IndexName])) = Inr ix \<and>
      covered D (ga_out g') (Join [dir, IndexName]) \<and>
      (\<forall>s \<in> set (Shards ix). s = Base s \<and> s \<noteq> ''.'' \<and> s \<noteq> ''..'' \<and>
        (\<exists>x. Stat D (Join [dir, s]) = Inr x) \<and> covered D (ga_out g') (Join [dir, s])) \<and>
      (ix_TotalSize ix > 0 \<longrightarrow> ix_TotalSize ix \<le> on_disk D dir (Shards ix) 0)))"
proof (cases "Stat D (Join [dir, IndexName])")
  case (Inl e)
  with assms(1,3) show ?thesis by (simp add: with_index_def)
next
  case (Inr x)
  obtain ix where ix: "ReadIndex (ReadFile D (Join [dir, IndexName])) = Inr ix"
    using assms(3) Inr by (cases "ReadIndex (ReadFile D (Join [dir, IndexName]))") (auto simp: with_index_def)
  obtain g1 n where g1: "gather_shards D dir (Shards ix) 0 g = Inr (g1, n)"
    using assms(3) Inr ix by (cases "gather_shards D dir (Shards ix) 0 g") (auto simp: with_index_def)
  obtain g2 r where g2: "addNamed D dir IndexName g1 = (g2, r)" by force
  have rest: "ga_missing g1 = []" "ix_TotalSize ix > 0 \<Longrightarrow> ix_TotalSize ix \<le> n" "r = Inr ()" "g' = g2"
    using assms(3) Inr ix g1 g2 by (auto simp: with_index_def not_less split: if_splits sum.splits)
  note one = gather_shards_step [OF assms(1) g1]
  have "IndexName = Base IndexName" "IndexName \<noteq> ''.''" "IndexName \<noteq> ''..''"
    using plain_name [OF fixed_names(1)] by blast+
  from addNamed_step [OF conjunct1 [OF one] this g2] one rest ix show ?thesis by auto
qed

lemma add_companions:
  assumes "gathers D fs (beside dir) g" and "\<forall>n \<in> set ns. n = Base n \<and> n \<noteq> ''.'' \<and> n \<noteq> ''..''"
  shows "gathers D fs (beside dir) (fold (\<lambda>n g. fst (addNamed D dir n g)) ns g) \<and>
    (\<forall>q. covered D (ga_out g) q \<longrightarrow> covered D (ga_out (fold (\<lambda>n g. fst (addNamed D dir n g)) ns g)) q)"
  using assms
proof (induction ns arbitrary: g)
  case Nil
  then show ?case by simp
next
  case (Cons n ns)
  obtain g1 r where g1: "addNamed D dir n g = (g1, r)" by force
  from Cons.prems(2) have n: "n = Base n" "n \<noteq> ''.''" "n \<noteq> ''..''" by simp_all
  note one = addNamed_step [OF Cons.prems(1) n g1]
  from Cons.IH [OF conjunct1 [OF one]] Cons.prems(2) one show ?case by (simp add: g1)
qed

text \<open>
  C14. A sharded model is packed whole and from one place: the inputs stay as they are and what is
  added lies directly in the directory of the first shard and exists; the configuration is among the files;
  and where that directory has an index, it could be read, every shard it names is a plain name of that
  directory that exists and is among the files, and the shards together hold at least the bytes it
  declares.
\<close>

theorem sharded_model_whole:
  assumes "gatherSafetensorsShards D fs = Inr out" and "find (\<lambda>f. isSafetensors (in_Path f)) fs = Some f"
    and "dir = Dir (in_Path f)"
  shows "(\<exists>ps. out = fs @ map local_file ps \<and> list_all (\<lambda>p. beside dir p \<and> (\<exists>x. Stat D p = Inr x)) ps) \<and>
    covered D out (Join [dir, ConfigName]) \<and>
    (\<forall>x. Stat D (Join [dir, IndexName]) = Inr x \<longrightarrow> (\<exists>ix. ReadIndex (ReadFile D (Join [dir, IndexName])) = Inr ix \<and>
      covered D out (Join [dir, IndexName]) \<and>
      (\<forall>s \<in> set (Shards ix). s = Base s \<and> s \<noteq> ''.'' \<and> s \<noteq> ''..'' \<and>
        (\<exists>x. Stat D (Join [dir, s]) = Inr x) \<and> covered D out (Join [dir, s])) \<and>
      (ix_TotalSize ix > 0 \<longrightarrow> ix_TotalSize ix \<le> on_disk D dir (Shards ix) 0)))"
proof -
  let ?g = "\<lparr>ga_have = map (\<lambda>f. absPath D (in_Path f)) fs, ga_out = fs, ga_missing = []\<rparr>"
  from assms obtain g where g: "with_index D dir ?g = Inr g"
    by (cases "with_index D dir ?g") (auto simp: gatherSafetensorsShards_def Let_def)
  obtain g1 r where g1: "addNamed D dir ConfigName g = (g1, r)" by force
  have "gatherSafetensorsShards D fs = (case addNamed D dir ConfigName g of (_, Inl e) \<Rightarrow> Inl (NoConfig e)
      | (g1, Inr _) \<Rightarrow> Inr (ga_out (fold (\<lambda>n g. fst (addNamed D dir n g)) (CompanionNames @ DocNames) g1)))"
    unfolding gatherSafetensorsShards_def assms(2) Let_def option.case assms(3) [symmetric] g bind_res_simps by (rule refl)
  then have "gatherSafetensorsShards D fs = (case r of Inl e \<Rightarrow> Inl (NoConfig e)
      | Inr _ \<Rightarrow> Inr (ga_out (fold (\<lambda>n g. fst (addNamed D dir n g)) (CompanionNames @ DocNames) g1)))"
    unfolding g1 by (simp only: prod.case)
  from case_Inr [OF trans [OF sym [OF this] assms(1)]] have out: "r = Inr ()" "out = ga_out (fold (\<lambda>n g. fst (addNamed D dir n g)) (CompanionNames @ DocNames) g1)"
    by blast+
  have "ga_missing ?g = []" by simp
  note one = with_index_step [OF gathers_start this g]
  have "ConfigName = Base ConfigName" "ConfigName \<noteq> ''.''" "ConfigName \<noteq> ''..''"
    using plain_name [OF fixed_names(2)] by blast+
  note two = addNamed_step [OF conjunct1 [OF one] this g1]
  note three = add_companions [OF conjunct1 [OF two] companion_names]
  have up: "covered D (ga_out g) q \<Longrightarrow> covered D out q" for q using two three out(2) by blast
  have "covered D out (Join [dir, ConfigName])" using two three out by blast
  moreover have "\<exists>ps. out = fs @ map local_file ps \<and> list_all (\<lambda>p. beside dir p \<and> (\<exists>x. Stat D p = Inr x)) ps"
    using three out(2) unfolding gathers_def by blast
  moreover have "\<exists>ix. ReadIndex (ReadFile D (Join [dir, IndexName])) = Inr ix \<and>
      covered D out (Join [dir, IndexName]) \<and>
      (\<forall>s \<in> set (Shards ix). s = Base s \<and> s \<noteq> ''.'' \<and> s \<noteq> ''..'' \<and>
        (\<exists>x. Stat D (Join [dir, s]) = Inr x) \<and> covered D out (Join [dir, s])) \<and>
      (ix_TotalSize ix > 0 \<longrightarrow> ix_TotalSize ix \<le> on_disk D dir (Shards ix) 0)"
    if x: "Stat D (Join [dir, IndexName]) = Inr x" for x
  proof -
    from conjunct2 [OF one] x obtain ix where ix: "ReadIndex (ReadFile D (Join [dir, IndexName])) = Inr ix"
      "covered D (ga_out g) (Join [dir, IndexName])"
      "\<forall>s \<in> set (Shards ix). s = Base s \<and> s \<noteq> ''.'' \<and> s \<noteq> ''..'' \<and>
        (\<exists>x. Stat D (Join [dir, s]) = Inr x) \<and> covered D (ga_out g) (Join [dir, s])"
      "ix_TotalSize ix > 0 \<longrightarrow> ix_TotalSize ix \<le> on_disk D dir (Shards ix) 0" by blast
    have "\<forall>s \<in> set (Shards ix). s = Base s \<and> s \<noteq> ''.'' \<and> s \<noteq> ''..'' \<and>
        (\<exists>x. Stat D (Join [dir, s]) = Inr x) \<and> covered D out (Join [dir, s])"
      using bspec [OF ix(3)] up by (intro ballI) metis
    then show ?thesis using ix(1,4) up [OF ix(2)] by (intro exI [of _ ix] conjI)
  qed
  ultimately show ?thesis by (intro conjI allI impI)
qed

end
