(* ===== verification/PackOrder.thy ===== *)
theory PackOrder
  imports PackSpec
begin

text \<open>
  The order of the inputs does not show in what is packed, and the size of a file an archive can hold.
\<close>

section \<open>Reproducible artifacts\<close>

text \<open>Files that stand for themselves: no directory, no shard and no part of a split model.\<close>

definition single :: "disk \<Rightarrow> input \<Rightarrow> bool" where
  "single D f \<longleftrightarrow> Stat D (in_Path f) \<noteq> Inr Folder \<and> \<not> isSafetensors (in_Path f) \<and> splitPart (Base (in_Path f)) = None"

lemma expand_single: "\<forall>f \<in> set fs. single D f \<Longrightarrow> expandDirs D fs = Inr fs"
  by (induction fs) (auto simp: single_def)

lemma gather_single: "\<forall>f \<in> set todo. single D f \<Longrightarrow> gather_parts D todo g = Inr (ga_out g)"
  by (induction todo) (auto simp: single_def)

lemma prepare_single:
  assumes "\<forall>f \<in> set fs. single D f"
  shows "prepare D fs = (if fs = [] then Inl NoInputs
    else bind_res (describe D False (canonical fs)) (\<lambda>info. Inr (canonical fs, info)))"
proof -
  have "\<not> hasSafetensors fs" using assms by (auto simp: hasSafetensors_def single_def)
  then show ?thesis
    using expand_single [OF assms] gather_single [OF assms]
    by (simp add: prepare_def gatherSplitParts_def)
qed

lemma canonical_permuted:
  assumes "mset fs' = mset fs" and "distinct (map pack_key (map settle fs))"
  shows "canonical fs' = canonical fs"
proof -
  have sets: "set fs' = set fs" using assms(1) by (rule mset_eq_setD)
  have "mset (map pack_key (map settle fs')) = mset (map pack_key (map settle fs))" using assms(1) by simp
  then have d': "distinct (map pack_key (map settle fs'))" using assms(2) by (metis mset_eq_imp_distinct_iff)
  have keys: "distinct (map pack_key (canonical gs))" if "distinct (map pack_key (map settle gs))" for gs
  proof -
    have "mset (canonical gs) = mset (map settle gs)" by (simp add: canonical_def)
    then have "mset (map pack_key (canonical gs)) = mset (map pack_key (map settle gs))" by (metis mset_map)
    with that show ?thesis by (metis mset_eq_imp_distinct_iff)
  qed
  have "set (canonical fs) \<union> set (canonical fs') = set (canonical fs)" by (simp add: set_canonical sets)
  then have "inj_on pack_key (set (canonical fs) \<union> set (canonical fs'))"
    using keys [OF assms(2)] by (simp add: distinct_map)
  then show ?thesis
    by (rule map_sorted_distinct_set_unique [symmetric])
      (simp_all add: keys [OF assms(2)] keys [OF d'] set_canonical sets del: map_map)
qed


section \<open>What an archive cannot hold\<close>

lemma large_entry: "Stat D (in_Path f) = Inr (Regular x c) \<Longrightarrow> 8 ^ 11 \<le> length c \<Longrightarrow>
    car_entry D f = Inl (CarHeader (in_Name f))"
  by (simp add: car_entry_def stat_size_def ustar_header_def Let_def del: power_numeral)

lemma large_entries:
  assumes "f \<in> set fs" and "Stat D (in_Path f) = Inr (Regular x c)" and "8 ^ 11 \<le> length c"
  shows "\<exists>e. car_entries D fs = Inl e"
  using assms(1)
proof (induction fs)
  case Nil
  then show ?case by simp
next
  case (Cons g gs)
  show ?case
  proof (cases "car_entry D g")
    case (Inl e)
    then show ?thesis by simp
  next
    case (Inr b)
    with large_entry [OF assms(2,3)] have "f \<noteq> g" by auto
    with Cons Inr show ?thesis by auto
  qed
qed

text \<open>
  C40. The archive of an image holds no file of 8 GiB or more: its format has eleven octal digits for
  a size, so with such a file among the inputs the archive, and the image with it, is always refused
  and the store is left as it was, whatever the other envelope would have done.
\<close>

theorem car_refuses_large:
  assumes "f \<in> set ordered" and "Stat D (in_Path f) = Inr (Regular x c)" and "8 * 2 ^ 30 \<le> length c"
  shows "\<exists>e. writeCarTar D ordered = Inl e \<and>
    (\<forall>files info. prepare D files = Inr (ordered, info) \<longrightarrow> Car L D P files ref opts s = (Inl (ImageTar e), s))"
proof -
  have "(8::nat) ^ 11 \<le> length c" using assms(3) by simp
  from large_entries [OF assms(1,2) this] obtain e where "writeCarTar D ordered = Inl e"
    by (cases "ustar_header carPrefix 493 0 CHR ''5''") (auto simp: writeCarTar_def)
  then show ?thesis by (auto simp: Car_def)
qed

end
