(* ===== verification/PackSample.thy ===== *)
theory PackSample
  imports PackModel PackGather PackOrder VerifySample GgufFormat
begin

text \<open>One small model on disk, packed, and loaded; and models in parts and in shards.\<close>

text \<open>Names are split once at every character when they are evaluated.\<close>

lemma split_on_once [code]:
  "split_on c [] = [[]]"
  "split_on c (x # xs) = (case split_on c xs of [] \<Rightarrow> [[x]] | p # ps \<Rightarrow> if x = c then [] # p # ps else (x # p) # ps)"
  using split_on_ne [of c xs] by (auto split: list.splits)

section \<open>A model in one file\<close>

definition tiny_gguf :: string where
  "tiny_gguf = Gguf.Build 3 0 [] []"

definition pack_os :: os where
  "pack_os = \<lparr>fault = (\<lambda>_ _ _. False), taken = (\<lambda>_. True), suffixes = [], meanwhile = id\<rparr>"

definition disk_of :: "fs \<Rightarrow> disk" where
  "disk_of fs = \<lparr>dk_os = pack_os, dk_fs = fs, dk_cwd = ''/'', dk_getwd = True\<rparr>"

definition one_disk :: "string \<Rightarrow> disk" where
  "one_disk c = disk_of [([''m.gguf''], Regular False c)]"

definition one_input :: input where
  "one_input = local_file ''/m.gguf''"

definition one_settled :: input where
  "one_settled = one_input\<lparr>in_Name := ''m.gguf'', in_Kind := LayerKindWeight\<rparr>"

lemma one_files:
  "os_path (one_disk c) ''/m.gguf'' = [''m.gguf'']" "splitPart (Base ''/m.gguf'') = None" "isSafetensors ''/m.gguf'' = False"
  "canonical [one_input] = [one_settled]"
  by code_simp+

lemma one_open: "OpenRead (one_disk c) ''/m.gguf'' = Inr (c, False)" "Stat (one_disk c) ''/m.gguf'' = Inr (Regular False c)"
  by (simp_all add: OpenRead_def Stat_def one_files) (simp_all add: one_disk_def disk_of_def pack_os_def max_links_def at_def follow.simps place_def directory_def)

definition one_info :: model_description where
  "one_info = \<lparr>mi_Architecture = [], mi_Name = [], mi_SizeLabel = [], mi_Precision = [], mi_Quantization = [], mi_License = [],
     mi_ContextLength = 0, mi_Format = FormatGGUF\<rparr>"

lemma one_header: "\<exists>g. Read tiny_gguf = Inr g \<and> FromGGUF g = one_info"
  using header_reads [of 3 "[]" 0 "[]"]
  by (simp add: Read_def Gguf.Build_def tiny_gguf_def buildable_def limits derive_def raw_info_def FromGGUF_def one_info_def metadata_of_def str_meta_def
     asUint64_def Let_def)

lemma one_prepared: "prepare (one_disk tiny_gguf) [one_input] = Inr ([one_settled], one_info)"
proof -
  have "single (one_disk tiny_gguf) one_input" by (simp add: single_def one_input_def one_open one_files)
  moreover have "describe (one_disk tiny_gguf) False [one_settled] = Inr one_info"
    using one_header by (auto simp: describe_def one_settled_def one_input_def one_open)
  ultimately show ?thesis using prepare_single [of "[one_input]" "one_disk tiny_gguf"] by (simp add: one_files)
qed

section \<open>A store that holds what it is given\<close>

type_synonym shelf = "(node \<Rightarrow> string option) \<times> (string \<Rightarrow> node option)"

definition shelf_store :: "shelf pack_store" where
  "shelf_store = \<lparr>
     ps_push = (\<lambda>s d b. if fst s d = None then (Inr (), ((fst s)(d := Some b), snd s))
       else if fst s d = Some b then (Inl AlreadyExists, s) else (Inl PushFailed, s)),
     ps_tag = (\<lambda>s d n. (True, (fst s, (snd s)(n := Some d))))\<rparr>"

lemma shelf_laws: "pack_laws L shelf_store fst snd"
  by (auto simp: pack_laws_def shelf_store_def adds_def split: if_splits)

definition pack_spec :: model_spec where
  "pack_spec = \<lparr>layer_type = (\<lambda>_ _. ''w.raw''), model_manifest_type = ''model'', model_config_type = ''config'',
     config_format = (\<lambda>t. Some (tl t))\<rparr>"

definition pack_config :: "model_config \<Rightarrow> string" where
  "pack_config c = CHR ''f'' # mc_Format c"

definition sample_opts :: pack_options where
  "sample_opts = \<lparr>po_SourceURL = [], po_License = ''MIT'', po_ServeDefaults = Some \<lparr>d_Ctx = 8, d_NGL = 0, d_Flags = []\<rparr>,
     po_OriginSHA256 = [], po_Signer = []\<rparr>"

definition bare :: shelf where
  "bare = (\<lambda>_. None, \<lambda>_. None)"

lemma described_types: "describe_bytes L a b = describe_bytes L c d \<Longrightarrow> a = c"
  by (simp add: describe_bytes_def)

definition one_layer :: "digest_lib \<Rightarrow> descriptor" where
  "one_layer L = annotated (describe_bytes L ''w.raw'' tiny_gguf) (file_annotations one_settled)"

definition one_raw :: "digest_lib \<Rightarrow> string" where
  "one_raw L = show_json (manifest_json (packed_manifest pack_spec pack_config L one_info sample_opts [one_layer L]))"

lemma one_packed: "\<exists>s. Model pack_spec pack_config L (one_disk tiny_gguf) shelf_store [one_input] ''m:1'' sample_opts bare =
    (Inr (describe_bytes L MediaTypeImageManifest (one_raw L)), s)"
proof -
  have f: "fileDescriptor pack_spec L (one_disk tiny_gguf) one_settled = Inr (one_layer L)"
    by (simp add: fileDescriptor_def one_settled_def one_input_def one_open rawMediaType_def pack_spec_def one_layer_def)
  have l: "push_layers pack_spec L (one_disk tiny_gguf) shelf_store [one_settled] bare =
      (Inr [one_layer L], (\<lambda>n. if n = describe_bytes L ''w.raw'' tiny_gguf then Some tiny_gguf else None, \<lambda>_. None))"
    by (simp add: f pushFile_def push_content_def shelf_store_def bare_def)
      (auto simp: one_settled_def one_input_def one_open push_content_def fun_eq_iff one_layer_def)
  have t: "describe_bytes L ''config'' b \<noteq> describe_bytes L ''w.raw'' c"
    "describe_bytes L MediaTypeImageManifest b \<noteq> describe_bytes L ''w.raw'' c"
    "describe_bytes L MediaTypeImageManifest b \<noteq> describe_bytes L ''config'' c" for b c
    by (auto simp: MediaTypeImageManifest_def dest: described_types)
  show ?thesis
    unfolding Model_def one_prepared sum.case prod.case l Let_def
    by (simp add: pushBytes_def push_content_def pushManifest_def shelf_store_def t pack_spec_def Let_def packed_manifest_def one_raw_def)
qed

lemma one_small: "files_small (one_disk tiny_gguf)"
proof -
  have "length tiny_gguf = 24" by code_simp
  then have "length c < 2 ^ 63" if "at (dk_fs (one_disk tiny_gguf)) q = Some (Regular x c)" for q x c
    using that by (auto simp: one_disk_def disk_of_def at_def split: if_splits)
  then show ?thesis
    by (auto simp: files_small_def OpenRead_def simp del: follow.simps split: if_splits option.split_asm inode.split_asm)
qed

lemma one_config: "5 \<le> N \<Longrightarrow> config_within pack_spec pack_config L (one_disk tiny_gguf) [one_input] sample_opts N"
  by (simp add: config_within_def one_prepared config_of_def pack_config_def one_info_def FormatGGUF_def)


definition toy_digests :: digest_lib where
  "toy_digests = \<lparr>Algorithm = (\<lambda>_. ''sha256''), Encoded = (\<lambda>_. ''aa''), FromBytes = (\<lambda>_. ''sha256:aa''), Validate_ok = (\<lambda>_. True),
     Verified = (\<lambda>_ _. True)\<rparr>"

lemma one_size: "length (one_raw toy_digests) < 2000"
  by code_simp

definition pack_host :: "(node \<Rightarrow> string option) \<Rightarrow> unit host" where
  "pack_host stored = sample_host\<lparr>store := sample_store\<lparr>t_Fetch := stored\<rparr>,
     store_open := (\<lambda>n. case stored n of None \<Rightarrow> None | Some c \<Rightarrow> Some (c, False)), digests := toy_digests\<rparr>"

lemma packed_model_loads_witness: "\<exists>d s. Model pack_spec pack_config toy_digests (one_disk tiny_gguf) shelf_store [one_input] ''m:1'' sample_opts bare =
    (Inr d, s) \<and> loadModelInfo pack_spec (pack_host (fst s)) ''/s'' ''m:1'' d = Inr \<lparr>blobPath = Join [''/s'', ''blobs'', ''sha256'', ''aa''],
      defaults = \<lparr>d_Ctx = 8, d_NGL = 0, d_Flags = []\<rparr>\<rparr>"
proof -
  let ?d = "describe_bytes toy_digests MediaTypeImageManifest (one_raw toy_digests)"
  obtain s where m: "Model pack_spec pack_config toy_digests (one_disk tiny_gguf) shelf_store [one_input] ''m:1'' sample_opts bare =
    (Inr ?d, s)" using one_packed by blast
  have "(5 :: int) \<le> maxJSONBlobSize" by (simp add: maxJSONBlobSize_def)
  note c = one_config [OF this]
  have "mi_Format one_info = FormatGGUF" by (simp add: one_info_def)
  moreover have "reads (pack_host (fst s)) (fst s)" "digests (pack_host (fst s)) = toy_digests"
    by (simp_all add: reads_def pack_host_def)
  moreover have "\<forall>c. Validate_ok toy_digests (FromBytes toy_digests c)" "suffix ''.raw'' (layer_type pack_spec Weight Raw)"
    "\<forall>c. config_format pack_spec (pack_config c) = Some (mc_Format c)"
    by (simp_all add: toy_digests_def pack_spec_def pack_config_def suffix_def)
  moreover have "Size ?d \<le> maxJSONBlobSize" using one_size by (simp add: describe_bytes_def maxJSONBlobSize_def)
  moreover have "\<forall>c. pack_config c \<noteq> []" by (simp add: pack_config_def)
  moreover have "\<forall>df. po_ServeDefaults sample_opts = Some df \<longrightarrow> counts df" by (simp add: sample_opts_def counts_def)
  ultimately obtain c where "loadModelInfo pack_spec (pack_host (fst s)) ''/s'' ''m:1'' ?d = Inr
      \<lparr>blobPath = Join [''/s'', ''blobs'', Algorithm toy_digests (FromBytes toy_digests c), Encoded toy_digests (FromBytes toy_digests c)],
       defaults = (case po_ServeDefaults sample_opts of Some df \<Rightarrow> df | None \<Rightarrow> no_defaults)\<rparr>"
    using packed_model_loads [OF shelf_laws one_small c m one_prepared] by blast
  with m show ?thesis by (intro exI [of _ ?d] exI [of _ s]) (simp add: toy_digests_def sample_opts_def)
qed

section \<open>Models in parts and in shards\<close>

definition split_disk :: disk where
  "split_disk = disk_of [([''m-00001-of-00002.gguf''], Regular False []), ([''m-00002-of-00002.gguf''], Regular False [])]"

lemma split_gathered: "gatherSplitParts split_disk [local_file ''/m-00001-of-00002.gguf''] =
    Inr [local_file ''/m-00001-of-00002.gguf'', local_file ''/m-00002-of-00002.gguf'']"
  "parts_of (local_file ''/m-00001-of-00002.gguf'') = [''/m-00001-of-00002.gguf'', ''/m-00002-of-00002.gguf'']"
  by code_simp+

lemma split_model_whole_witness:
  "covered split_disk [local_file ''/m-00001-of-00002.gguf'', local_file ''/m-00002-of-00002.gguf''] ''/m-00002-of-00002.gguf''"
  using split_model_whole [where D = split_disk and fs = "[local_file ''/m-00001-of-00002.gguf'']"]
  unfolding split_gathered(1) by (simp add: split_gathered(2))

definition shard_index :: string where
  "shard_index = show_json (JObj [(''weight_map'', JObj [(''w'', JStr ''s.safetensors'')])])"

definition shard_disk :: disk where
  "shard_disk = disk_of [([''s.safetensors''], Regular False []), ([''config.json''], Regular False []),
     ([''model.safetensors.index.json''], Regular False shard_index)]"

lemma shards_gathered: "gatherSafetensorsShards shard_disk [local_file ''/s.safetensors''] =
    Inr [local_file ''/s.safetensors'', local_file ''/model.safetensors.index.json'', local_file ''/config.json'']"
  by code_simp

lemma sharded_model_whole_witness:
  "covered shard_disk [local_file ''/s.safetensors'', local_file ''/model.safetensors.index.json'', local_file ''/config.json'']
     (Join [Dir ''/s.safetensors'', ConfigName])"
proof -
  have "isSafetensors ''/s.safetensors''" by code_simp
  then have "find (\<lambda>f. isSafetensors (in_Path f)) [local_file ''/s.safetensors''] = Some (local_file ''/s.safetensors'')" by simp
  from sharded_model_whole [OF shards_gathered this refl] show ?thesis by (simp only: path_local)
qed

section \<open>Order and size\<close>

definition two_inputs :: "input list" where
  "two_inputs = [local_file ''/m.gguf'', local_file ''/LICENSE'']"


lemma car_refuses_large_witness: "\<exists>e. writeCarTar (one_disk (replicate (8 * 2 ^ 30) CHR ''x'')) [one_input] = Inl e"
proof -
  have "Stat (one_disk c) (in_Path one_input) = Inr (Regular False c)" for c by (simp add: one_input_def one_open)
  moreover have "8 * 2 ^ 30 \<le> length (replicate (8 * 2 ^ 30) CHR ''x'')" by (simp only: length_replicate order_refl)
  moreover have "one_input \<in> set [one_input]" by (simp only: list.set insert_iff simp_thms)
  ultimately obtain e where "writeCarTar (one_disk (replicate (8 * 2 ^ 30) CHR ''x'')) [one_input] = Inl e"
    using car_refuses_large [where ordered = "[one_input]" and f = one_input and P = shelf_store and L = toy_digests] by blast
  then show ?thesis by (rule exI)
qed

end
