(* ===== verification/PackPlan.thy ===== *)
theory PackPlan
  imports PackModel
begin

text \<open>
  Packing as a plan: what is to be stored, computed from the files alone, and its execution against a store.
\<close>

text \<open>Content to store under a descriptor, and the error when that fails.\<close>

type_synonym put = "node \<times> string \<times> pack_error"

fun run :: "'s pack_store \<Rightarrow> put list \<Rightarrow> 's \<Rightarrow> (pack_error + unit) \<times> 's" where
  "run P [] s = (Inr (), s)"
| "run P ((d, b, e) # ps) s =
     (case push_content P e d b s of (Inl x, s1) \<Rightarrow> (Inl x, s1) | (Inr _, s1) \<Rightarrow> run P ps s1)"

lemma run_append: "run P (ps @ qs) s = (case run P ps s of (Inl e, s1) \<Rightarrow> (Inl e, s1) | (Inr _, s1) \<Rightarrow> run P qs s1)"
  by (induction P ps s rule: run.induct) (auto split: sum.splits prod.splits)

fun layer_plan :: "model_spec \<Rightarrow> digest_lib \<Rightarrow> disk \<Rightarrow> input list \<Rightarrow> put list \<times> (pack_error + descriptor list)" where
  "layer_plan S L D [] = ([], Inr [])"
| "layer_plan S L D (f # fs) =
     (case OpenRead D (in_Path f) of
        Inl e \<Rightarrow> ([], Inl (CannotOpen (in_Path f) e))
      | Inr (c, broken) \<Rightarrow>
          if broken then ([], Inl (HashErr (in_Path f)))
          else let d = describe_bytes L (rawMediaType S (in_Kind f)) c; rest = layer_plan S L D fs in
            ((d, c, StoreErr (in_Path f)) # fst rest,
             bind_res (snd rest) (\<lambda>ds. Inr (annotated d (file_annotations f) # ds))))"

definition plan :: "model_spec \<Rightarrow> (model_config \<Rightarrow> string) \<Rightarrow> digest_lib \<Rightarrow> disk \<Rightarrow> input list \<Rightarrow> pack_options \<Rightarrow>
    put list \<times> (pack_error + node)" where
  "plan S marshal L D files opts =
     (case prepare D files of
        Inl e \<Rightarrow> ([], Inl e)
      | Inr (ordered, info) \<Rightarrow>
          (case layer_plan S L D ordered of
             (ps, Inl e) \<Rightarrow> (ps, Inl e)
           | (ps, Inr layers) \<Rightarrow>
               (let m = packed_manifest S marshal L info opts layers; cfg = marshal (config_of info layers opts);
                    raw = show_json (manifest_json m); d = describe_bytes L MediaTypeImageManifest raw in
                (ps @ [(describe_bytes L (model_config_type S) cfg, cfg, StoreErr (model_config_type S)),
                       (d, raw, StoreErr MediaTypeImageManifest)], Inr d))))"

lemma push_layers_run:
  "push_layers S L D P fs s =
     (case run P (fst (layer_plan S L D fs)) s of
        (Inl e, s1) \<Rightarrow> (Inl e, s1) | (Inr _, s1) \<Rightarrow> (snd (layer_plan S L D fs), s1))"
proof (induction fs arbitrary: s)
  case Nil
  then show ?case by simp
next
  case (Cons f fs)
  show ?case
  proof (cases "OpenRead D (in_Path f)")
    case (Inl e)
    then show ?thesis by (simp add: fileDescriptor_def)
  next
    case (Inr x)
    then obtain c broken where c: "OpenRead D (in_Path f) = Inr (c, broken)" by (cases x) auto
    show ?thesis
    proof (cases broken)
      case True
      with c show ?thesis by (simp add: fileDescriptor_def)
    next
      case False
      with c Cons.IH show ?thesis
        by (cases "snd (layer_plan S L D fs)")
          (auto simp: fileDescriptor_def pushFile_def Let_def split: sum.splits prod.splits)
    qed
  qed
qed

text \<open>
  C16. Packing refines a plan that no store has a part in: the files alone say what is stored under
  which descriptor and in what order, the layers first, then the configuration, the manifest last. Packing
  carries that plan out up to the first refusal, whose error it returns, and names the manifest
  only when all of it is stored; an error of the files comes after what was planned before it.
\<close>

theorem Model_refines_plan:
  "Model S marshal L D P files ref opts s =
     (case run P (fst (plan S marshal L D files opts)) s of
        (Inl e, s1) \<Rightarrow> (Inl e, s1)
      | (Inr _, s1) \<Rightarrow>
          (case snd (plan S marshal L D files opts) of
             Inl e \<Rightarrow> (Inl e, s1)
           | Inr d \<Rightarrow> (case ps_tag P s1 d ref of (tagged, s2) \<Rightarrow> (if tagged then Inr d else Inl (TagErr ref), s2))))"
proof (cases "prepare D files")
  case (Inl e)
  then show ?thesis by (simp add: Model_def plan_def)
next
  case (Inr x)
  then obtain ordered info where p: "prepare D files = Inr (ordered, info)" by (cases x) auto
  obtain ps r where l: "layer_plan S L D ordered = (ps, r)" by force
  show ?thesis
  proof (cases r)
    case (Inl e)
    then show ?thesis by (auto simp: Model_def plan_def p l push_layers_run split: sum.splits prod.splits)
  next
    case (Inr layers)
    then show ?thesis
      by (auto simp: Model_def plan_def p l push_layers_run run_append pushBytes_def pushManifest_def Let_def
          packed_manifest_def describe_bytes_def split: sum.splits prod.splits)
  qed
qed

end
