(* ===== verification/Spec2Isabelle.thy ===== *)
theory Spec2Isabelle
  imports TrustPolicy StoreLayout KeylessSample GgufFormat DownloadSpec RouterSpec Remote ServingSample PullSample BundleSample PackSample PackPlan
begin

text \<open>
  A verification library for palan, a tool that packs, signs, moves, verifies and serves language
  models as OCI artifacts (src/, Go).

  \<^bold>\<open>The program.\<close> A model is an OCI manifest whose layers are files. It lives in a local
  store (\<^verbatim>\<open>internal/store\<close>), an OCI layout on disk, and in registries. Signatures, source
  attestations and keyless bundles are further manifests beside it, under a tag derived from its digest
  or as referrers (\<^verbatim>\<open>internal/signing\<close>). Verification decides which of them are accepted, from keys
  and trust policies (\<^verbatim>\<open>internal/trustpolicy\<close>, \<^verbatim>\<open>internal/cli/policy.go\<close>) and, for keyless
  signatures, from a pinned root and a transparency log (\<^verbatim>\<open>internal/keyless\<close>). \<^verbatim>\<open>pull\<close>,
  \<^verbatim>\<open>push\<close>, \<^verbatim>\<open>cp\<close>, \<^verbatim>\<open>save\<close> and \<^verbatim>\<open>load\<close> move artifacts (\<^verbatim>\<open>internal/transfer\<close>); \<^verbatim>\<open>run\<close>
  and \<^verbatim>\<open>serve\<close> check them, unpack an engine and start it (\<^verbatim>\<open>internal/cli\<close>, \<^verbatim>\<open>internal/runtime\<close>),
  and the router keeps several engines within a memory budget (\<^verbatim>\<open>internal/router\<close>).

  \<^bold>\<open>Foundations.\<close> Prelude: results that carry an error (a sum, \<^verbatim>\<open>Inl\<close> the error), Go's
  \<^verbatim>\<open>strings\<close> and the list facts all theories share. Encoding, JsonText, Json: hexadecimal, base64,
  decimal numbers, and JSON as \<^verbatim>\<open>encoding/json\<close> writes and reads it. Codec: bytes read off a stream.
  Sha256, Digests: SHA-256 as the standard defines it, and the digest library as a parameter. Paths,
  Files: \<^verbatim>\<open>path/filepath\<close>, and the files of a host as a tree with symbolic links in which any call
  may fail. Oci: descriptors, manifests and the contract of the content library.

  \<^bold>\<open>Components.\<close> Each has a theory of definitions, one for each function of the source, under
  the source's names, and theories of what it promises:

  \<^item> TrustPolicy, Glob: rules, patterns and their matching (\<^verbatim>\<open>trustpolicy\<close>, \<^verbatim>\<open>keyless/cert.go\<close>'s glob);
    first match decides, the matcher decides the meaning of a pattern, an accepted pattern is matched in
    polynomially many steps.
  \<^item> Identity, Keyless, Merkle: who may sign without a key, the certificate chain, the log entry, its
    checkpoint and inclusion proof; what an accepted signature has behind it, soundness and completeness
    of the proof against the tree of RFC 6962.
  \<^item> Signing, SigningSpec, Registry, Remote: signatures beside an artifact, and the test registry
    (\<^verbatim>\<open>registrytest\<close>) as a provider of what signing relies on; what verifies, exactly, and that what is
    signed verifies.
  \<^item> Attest, AttestSpec, Provenance: source attestations and how they are held to a manifest.
  \<^item> VerifyCmd, Explain, VerifySpec: \<^verbatim>\<open>verify\<close> and the gate of the other commands
    (\<^verbatim>\<open>cli/sign.go\<close>, \<^verbatim>\<open>cli/explain.go\<close>, \<^verbatim>\<open>refname\<close>); Rehash: blobs read again.
  \<^item> Store, StoreGraph, StoreSafety, StoreRemove: the store's index, closure, admission of descriptions,
    removal and collection; neither loses content a tag is made of.
  \<^item> Download, DownloadSafety, DownloadSpec: one blob, resumed and checked.
  \<^item> Transport, TransportSpec, PullCmd: the walk of a manifest graph, \<^verbatim>\<open>Pull\<close>, \<^verbatim>\<open>Push\<close>,
    \<^verbatim>\<open>Copy\<close>, and the pull command: what is stored is what was verified.
  \<^item> Materialize, MaterializeSpec, MaterializeUndo: files of a model written below a directory handle, and
    taken back when refused.
  \<^item> Tar, TarSpec, TarRoundTrip, Bundle, BundleSpec: archives for offline transfer, the check before an
    import, and that reading one leaves no trace outside its directory.
  \<^item> Gguf, GgufFormat: the header reader, its bounds, and the writer it inverts.
  \<^item> Safetensors, ModelMeta: the headers, configuration and shard index of a safetensors model, and the
    description both weight formats are given (\<^verbatim>\<open>safetensors\<close>, \<^verbatim>\<open>modelmeta\<close>), with the label of a parameter
    count computed in double arithmetic.
  \<^item> Packing, ModelPack (\<^verbatim>\<open>pack\<close>): the files gathered, ordered and described, and stored as a model or as an
    image. PackSpec, PackModel: the artifact is well formed and is what \<^verbatim>\<open>run\<close> loads; PackGather: split and
    sharded models are packed whole; PackPlan: packing carries out a plan the files alone determine;
    PackOrder: the order of the inputs does not matter, and what an image cannot hold.
  \<^item> Runtime, RuntimeSpec: engines unpacked, compared and repaired; Serving, ServingSpec: what is loaded
    and started.
  \<^item> Router, RouterSafety, RouterSpec: instances, loads, evictions and shutdown as interleaved steps; every
    child is accounted for, nothing busy is unloaded.

  Theories whose names end in Sample hold small concrete worlds on which the statements are applied.

  \<^bold>\<open>Interfaces.\<close> Where one component relies on another through laws, these are a locale, interpreted
  on the model that provides them: the codecs of GGUF values, the repository signing writes to (interpreted
  on the test registry in Remote), the store's content library. Code outside the repository is a parameter:
  \<^verbatim>\<open>oras-go\<close> (records \<^verbatim>\<open>local_store\<close>, \<^verbatim>\<open>handle\<close>, \<^verbatim>\<open>target\<close>, with what is relied on in
  \<^verbatim>\<open>copies_by_name\<close>, \<^verbatim>\<open>writes_add\<close>, \<^verbatim>\<open>digests_resolve\<close>), \<^verbatim>\<open>go-digest\<close>, certificate parsing and
  signature checking, protobuf decoding, the ModelPack media types, and the operating system (record
  \<^verbatim>\<open>os\<close>, which says which calls fail).

  \<^bold>\<open>How the source is rendered.\<close> Errors are values, one constructor for each message. Integers that can
  wrap are words or reduced explicitly. Loops that may not end are partial functions over option, and that
  they end is proved. Concurrency is a step relation (Router), an order the blobs of a pull come to their
  turn in, or a registry whose state moves between two requests (\<^verbatim>\<open>lk_later\<close>). Files are told apart
  by where they are. Bounds kept from the source or the system: a JSON document is read with fuel one more
  than its length, which is enough since every step consumes a character; 40 links on a path, 255 below a
  root handle; three attempts for a download; three mount candidates.

  \<^bold>\<open>Not modelled.\<close> Command line flags, prompts, progress, pickers, the chat and what is printed: input
  and output. The HTTP and TLS clients (\<^verbatim>\<open>transfer.go\<close>, \<^verbatim>\<open>login\<close>), process handling
  (\<^verbatim>\<open>supervisor.go\<close>), memory detection and metrics: system glue. Fixtures for tests other than the
  registry and the GGUF writer, and the tools under \<^verbatim>\<open>hack\<close>: not part of the program. \<^verbatim>\<open>hf\<close> and the
  part of \<^verbatim>\<open>cli/pack.go\<close> above it fetch a model from its publisher over HTTP, and \<^verbatim>\<open>omsig\<close> reads a
  publisher's signature with an external library: what they contribute to packing, the digests and
  the source of each file, is a field of the inputs. The packing of an engine (\<^verbatim>\<open>Pack\<close> in
  \<^verbatim>\<open>runtime/artifact.go\<close>) is not modelled; what is unpacked is, from its manifest on.
\<close>

end
